(* ===== verification/Zenfs_Prelude.thy ===== *)
theory Zenfs_Prelude
  imports Main "HOL-Library.Word" "HOL-Library.Monad_Syntax" "HOL-Library.Multiset"
begin

text \<open>
  Shared vocabulary of the development: the machine integers of the C++ sources, the status
  values that RocksDB operations return, the enumerations of RocksDB that ZenFS stores or compares,
  and the generic lemmas on words, lists and options the components use.

  Conventions of the whole development.
  \<^item> \<open>uint8_t\<close>, \<open>uint32_t\<close> and \<open>uint64_t\<close> are \<open>8 word\<close>, \<open>32 word\<close> and \<open>64 word\<close>: arithmetic on
    them wraps as it does in C++. A C++ \<open>int\<close> or \<open>long\<close> is an \<open>int\<close>.
  \<^item> A C++ \<open>double\<close> is its 64-bit pattern (\<open>double\<close> below); the floating-point operations of the
    language are collected in a record of functions (\<open>fpu\<close>), so no theorem depends on rounding.
  \<^item> An operation that can fail to produce a result (a loop that does not end, a wait that nobody
    wakes, an access outside a container) has an \<open>option\<close> result; \<open>None\<close> is that outcome.
  \<^item> Assertions are compiled out (the documented build sets \<open>DEBUG_LEVEL=0\<close>): an \<open>assert\<close> of the
    sources is not a branch of the model. Logging and metrics have no effect on the state.
\<close>

section \<open>Machine types\<close>

type_synonym u8 = "8 word"
type_synonym u32 = "32 word"
type_synonym u64 = "64 word"
type_synonym byte = "8 word"
type_synonym double = "64 word"

text \<open>Collections of facts used throughout.\<close>

named_theorems zone_ops \<open>definitions of the operations of class Zone\<close>
named_theorems zone_simps \<open>rewrite rules for zone fields after an operation\<close>
named_theorems token_ops \<open>definitions of the zone-token operations\<close>

section \<open>Status values\<close>

text \<open>
  \<open>Status\<close> and \<open>IOStatus\<close> of RocksDB, reduced to the kinds the sources create and test; messages are
  dropped. \<open>s.ok()\<close> and \<open>s == IOStatus::OK()\<close> are \<open>s = OK\<close>.
\<close>

datatype IOStatus =
    OK
  | NotFound
  | Corruption
  | NotSupported
  | InvalidArgument
  | IOError
  | NoSpace
  | Aborted

section \<open>Floating point\<close>

text \<open>
  The operations on \<open>double\<close> that the sources use, as a record of functions on bit patterns. The
  literals are the IEEE-754 patterns of the constants in the sources.
\<close>

record fpu =
  fp_stod :: "string \<Rightarrow> double option"  \<comment> \<open>\<open>std::stod\<close>; \<open>None\<close> is a thrown exception\<close>
  fp_le :: "double \<Rightarrow> double \<Rightarrow> bool"
  fp_lt :: "double \<Rightarrow> double \<Rightarrow> bool"
  fp_mul :: "double \<Rightarrow> double \<Rightarrow> double"
  fp_div :: "double \<Rightarrow> double \<Rightarrow> double"
  fp_add :: "double \<Rightarrow> double \<Rightarrow> double"
  fp_of_u64 :: "u64 \<Rightarrow> double"
  fp_to_u64 :: "double \<Rightarrow> u64"
  fp_to_int :: "double \<Rightarrow> int"
  fp_ceil :: "double \<Rightarrow> double"
  fp_sub :: "double \<Rightarrow> double \<Rightarrow> double"
  fp_abs :: "double \<Rightarrow> double"
  fp_pow10 :: "int \<Rightarrow> double"  \<comment> \<open>\<open>pow(10, n)\<close>\<close>

abbreviation (input) fp_0 :: double where "fp_0 \<equiv> 0x0000000000000000"
abbreviation (input) fp_0_2 :: double where "fp_0_2 \<equiv> 0x3FC999999999999A"
abbreviation (input) fp_0_5 :: double where "fp_0_5 \<equiv> 0x3FE0000000000000"
abbreviation (input) fp_0_8 :: double where "fp_0_8 \<equiv> 0x3FE999999999999A"
abbreviation (input) fp_1 :: double where "fp_1 \<equiv> 0x3FF0000000000000"
abbreviation (input) fp_m1 :: double where "fp_m1 \<equiv> 0xBFF0000000000000"
abbreviation (input) fp_1e100 :: double where "fp_1e100 \<equiv> 0x54B249AD2594C37D"

section \<open>Enumerations of RocksDB\<close>

text \<open>
  \<open>Env::WriteLifeTimeHint\<close> is an unscoped enumeration that ZenFS writes to disk as a 32-bit value
  and reads back with a cast, so any 32-bit value can occur.
\<close>

type_synonym WriteLifeTimeHint = "32 word"

abbreviation (input) WLTH_NOT_SET :: WriteLifeTimeHint where "WLTH_NOT_SET \<equiv> 0"
abbreviation (input) WLTH_NONE :: WriteLifeTimeHint where "WLTH_NONE \<equiv> 1"
abbreviation (input) WLTH_SHORT :: WriteLifeTimeHint where "WLTH_SHORT \<equiv> 2"
abbreviation (input) WLTH_MEDIUM :: WriteLifeTimeHint where "WLTH_MEDIUM \<equiv> 3"
abbreviation (input) WLTH_LONG :: WriteLifeTimeHint where "WLTH_LONG \<equiv> 4"
abbreviation (input) WLTH_EXTREME :: WriteLifeTimeHint where "WLTH_EXTREME \<equiv> 5"

datatype IOType = IO_kData | IO_kWAL | IO_kUnknown | IO_other nat

section \<open>Words\<close>

lemma unat_add_u64: "unat a + unat b < 2 ^ 64 \<Longrightarrow> unat (a + b :: u64) = unat a + unat b"
  by (simp add: unat_word_ariths)

lemma unat_sub_u64: "b \<le> a \<Longrightarrow> unat (a - b :: u64) = unat a - unat b"
  by (rule unat_sub)

lemma unat_lt_u64: "unat (a :: u64) < 2 ^ 64"
  using unsigned_less [of a] by simp

lemma unat_of_nat_u64: "n < 2 ^ 64 \<Longrightarrow> unat (of_nat n :: u64) = n"
  by (simp add: unat_of_nat)

lemma unat_of_nat_u32: "n < 2 ^ 32 \<Longrightarrow> unat (of_nat n :: u32) = n"
  by (simp add: unat_of_nat)

lemma word_zero_iff_unat: "(w = 0) = (unat (w :: 'a::len word) = 0)"
  by (simp add: unat_eq_0)

lemma unat_ucast_u64: "unat (ucast (w :: u32) :: u64) = unat w"
proof -
  have "unat w < 2 ^ LENGTH(32)" by (rule unsigned_less)
  then have "unat w < 2 ^ 64" by simp
  then show ?thesis by (simp add: unsigned_ucast_eq take_bit_nat_eq_self)
qed

lemma unat_ucast_u32: "unat (x :: u64) < 2 ^ 32 \<Longrightarrow> unat (ucast x :: u32) = unat x"
  by (simp add: unsigned_ucast_eq take_bit_nat_eq_self)

lemma ucast_u32_u64: "unat (x :: u64) < 2 ^ 32 \<Longrightarrow> ucast (ucast x :: u32) = x"
  by (simp add: word_unat_eq_iff unat_ucast_u64 unat_ucast_u32)

lemma unat_add_u32: "unat a + unat b < 2 ^ 32 \<Longrightarrow> unat (a + b :: u32) = unat a + unat b"
  by (simp add: unat_word_ariths)

lemmas u64_nat = word_le_nat_alt word_less_nat_alt unat_add_u64 unat_sub_u64

section \<open>Rounding up to a block\<close>

definition roundup :: "nat \<Rightarrow> nat \<Rightarrow> nat" where
  "roundup b n = (if n mod b = 0 then n else n + (b - n mod b))"

lemma roundup_le:
  assumes "0 < b"
  shows "n \<le> roundup b n" "roundup b n < n + b"
  using mod_less_divisor [OF assms, of n] by (auto simp: roundup_def)

lemma roundup_dvd:
  assumes "0 < b"
  shows "b dvd roundup b n"
proof (cases "n mod b = 0")
  case True
  then show ?thesis by (simp add: roundup_def mod_0_imp_dvd)
next
  case False
  have "n + (b - n mod b) = (n - n mod b) + b"
    using mod_less_divisor [OF assms, of n] mod_less_eq_dividend [of n b] by linarith
  then have "b dvd n + (b - n mod b)" by (metis dvd_add dvd_minus_mod dvd_refl)
  then show ?thesis using False by (simp only: roundup_def if_False)
qed

lemma roundup_shift:
  assumes "b dvd p" "0 < b"
  shows "roundup b (p + n) = p + roundup b n"
proof -
  have "(p + n) mod b = n mod b" using assms(1) by (metis add.commute dvd_def mod_mult_self2)
  then show ?thesis using mod_less_divisor [OF assms(2), of n] by (auto simp: roundup_def)
qed

lemma unat_roundup:
  assumes "0 < unat (b :: u64)" "unat n + unat b < 2 ^ 64"
  shows "unat (if n mod b \<noteq> 0 then n + (b - n mod b) else n) = roundup (unat b) (unat n)"
proof -
  have m: "unat (n mod b) = unat n mod unat b" by (simp add: unat_mod)
  then have lt: "unat (n mod b) < unat b" using assms(1) by simp
  have "unat (b - n mod b) = unat b - unat n mod unat b" 
    using unat_sub_u64 [of "n mod b" b] less_imp_le [OF lt] unfolding m by (simp add: word_le_nat_alt m)
  moreover from this have "unat (n + (b - n mod b)) = unat n + (unat b - unat n mod unat b)"
    using assms(2) by (subst unat_add_u64) auto
  moreover have "n mod b = 0 \<longleftrightarrow> unat n mod unat b = 0" using m by (metis unat_eq_0)
  ultimately show ?thesis by (simp add: roundup_def)
qed

lemma roundup_mono: "0 < b \<Longrightarrow> m \<le> n \<Longrightarrow> roundup b m \<le> roundup b n"
proof -
  assume b: "0 < b" and le: "m \<le> n"
  obtain k j where k: "roundup b m = b * k" "roundup b n = b * j" using roundup_dvd [OF b] by (meson dvdE)
  have "b * k < b * j + b" using roundup_le [OF b, of m] roundup_le [OF b, of n] le k by linarith
  then have "k < j + 1" using b by (metis add_mult_distrib2 mult.right_neutral mult_less_cancel1)
  then show ?thesis by (simp add: k)
qed

lemma roundup_id: "b dvd n \<Longrightarrow> roundup b n = n"
  by (simp add: roundup_def)

section \<open>Lists and options\<close>

lemma list_all_take_drop:
  "list_all P xs \<Longrightarrow> list_all P (take n xs) \<and> list_all P (drop n xs)"
  by (auto simp: list_all_iff dest: in_set_takeD in_set_dropD)

lemma filter_id_iff: "(filter P xs = xs) = list_all P xs"
  by (simp add: filter_id_conv list_all_iff)

lemma bind_Some_iff: "(Option.bind x f = Some y) = (\<exists>a. x = Some a \<and> f a = Some y)"
  by (cases x) auto

lemma bind_None_iff: "(Option.bind x f = None) = (x = None \<or> (\<exists>a. x = Some a \<and> f a = None))"
  by (cases x) auto

text \<open>\<open>list_find p xs\<close> is the index of the first element with \<open>p\<close> (\<open>std::find_if\<close>).\<close>

fun list_find :: "('a \<Rightarrow> bool) \<Rightarrow> 'a list \<Rightarrow> nat option" where
  "list_find p [] = None"
| "list_find p (x # xs) = (if p x then Some 0 else map_option Suc (list_find p xs))"

lemma list_find_Some:
  "list_find p xs = Some i \<Longrightarrow> i < length xs \<and> p (xs ! i) \<and> (\<forall>j<i. \<not> p (xs ! j))"
proof (induction xs arbitrary: i)
  case (Cons x xs)
  show ?case
  proof (cases "p x")
    case False
    with Cons.prems obtain k where k: "i = Suc k" "list_find p xs = Some k" by auto
    with Cons.IH [OF k(2)] False show ?thesis
      by (auto simp: less_Suc_eq_0_disj)
  qed (use Cons.prems in auto)
qed simp

lemma list_find_None: "list_find p xs = None \<longleftrightarrow> (\<forall>x \<in> set xs. \<not> p x)"
  by (induction xs) auto

end
