(* ===== verification/Zenfs_Params.thy ===== *)
theory Zenfs_Params
  imports Zenfs_Prelude
begin

text \<open>
  The tunable parameters (\<open>src/fs/param_loader.h\<close>): the enumerations of placement policies, empty
  zone allocators and garbage collectors, the container with its defaults, and the loader that
  reads \<open>type value\<close> pairs from the parameter file. The lemmas show which ranges the loader
  guarantees whatever the file contains.
\<close>

section \<open>Enumerations and the container\<close>

datatype EmptyZoneAllocType =
  kDefault | kSequential | kRandom | kLeastWear | kHotnessBased | kUserDefinedAlloc

datatype PlacementPolicyType =
    kLifetimeBased | kLeveledLifetimeBased | kCAZA | kPlazaBase | KPlazaIntermediate
  | kPlazaAdvanced | kSameLevelNearbyKeysSimple | kArrivalTimeBased | kTombstoneDensity
  | kTombstoneTTL | kClusterTogether | kOverlapChildren | kOverlapGrandchildren
  | kCompensatedSize | kOAZA | kUserDefinedPlacement

datatype GCType = kDefaultGC | kImprovedGC | kUserDefinedGC

record zenfs_params =
  nearest_newzone_threshold :: double
  zone_fill_threshold :: double
  empty_zone_allocator :: EmptyZoneAllocType
  real_caza :: u8
  real_oaza :: u8
  real_zonekv :: u8
  dynamic_level_adjustment :: u8
  zones_to_open :: "u8 list"
  average_value_size :: u64
  max_level :: u8
  min_boundary :: u8
  max_boundary :: u8
  tombstone_density :: double
  upper_level_policy :: PlacementPolicyType
  upper_level_policy_fallback :: PlacementPolicyType
  lower_level_policy :: PlacementPolicyType
  lower_level_policy_fallback :: PlacementPolicyType
  middle_level_policy :: PlacementPolicyType
  middle_level_policy_fallback :: PlacementPolicyType
  fragmentation_enabled :: u8
  gc_type :: GCType
  gc_start_level :: u64
  gc_stop_level :: u64
  gc_slope :: u64
  gc_pause_seconds :: u64
  cold_migration :: u8
  reserve_zone_count :: u64
  buffer_size_megabytes :: u32
  buffer_count_max :: u32
  logname :: string
  log_zonestats_placement_delete :: u8
  log_zonestats_placement_delete_verbose :: u8

definition default_params :: zenfs_params where
  "default_params =
    \<lparr> nearest_newzone_threshold = fp_0, zone_fill_threshold = fp_0_8,
      empty_zone_allocator = kDefault, real_caza = 1, real_oaza = 1, real_zonekv = 1,
      dynamic_level_adjustment = 1, zones_to_open = replicate 10 0, average_value_size = 4080,
      max_level = 1, min_boundary = 2, max_boundary = 6, tombstone_density = fp_0_5,
      upper_level_policy = kClusterTogether, upper_level_policy_fallback = kClusterTogether,
      lower_level_policy = kClusterTogether, lower_level_policy_fallback = kClusterTogether,
      middle_level_policy = kClusterTogether, middle_level_policy_fallback = kClusterTogether,
      fragmentation_enabled = 1, gc_type = kDefaultGC, gc_start_level = 20, gc_stop_level = 25,
      gc_slope = 3, gc_pause_seconds = 10, cold_migration = 0, reserve_zone_count = 10,
      buffer_size_megabytes = 2, buffer_count_max = 20, logname = ''zarc_default.log'',
      log_zonestats_placement_delete = 1, log_zonestats_placement_delete_verbose = 0 \<rparr>"

definition empty_zone_allocator_map :: "string \<rightharpoonup> EmptyZoneAllocType" where
  "empty_zone_allocator_map = map_of
    [(''kDefault'', kDefault), (''kSequential'', kSequential), (''kRandom'', kRandom),
     (''kLeastWear'', kLeastWear), (''kHotnessBased'', kHotnessBased),
     (''kUserDefinedAlloc'', kUserDefinedAlloc)]"

definition placement_policy_map :: "string \<rightharpoonup> PlacementPolicyType" where
  "placement_policy_map = map_of
    [(''kLifetimeBased'', kLifetimeBased), (''kLeveledLifetimeBased'', kLeveledLifetimeBased),
     (''kCAZA'', kCAZA), (''kSameLevelNearbyKeys'', kPlazaBase), (''kPlazaBase'', kPlazaBase),
     (''KPlazaIntermediate'', KPlazaIntermediate), (''kPlazaAdvanced'', kPlazaAdvanced),
     (''kSameLevelNearbyKeysSimple'', kSameLevelNearbyKeysSimple),
     (''kArrivalTimeBased'', kArrivalTimeBased), (''kTombstoneDensity'', kTombstoneDensity),
     (''kTombstoneTTL'', kTombstoneTTL), (''kClusterTogether'', kClusterTogether),
     (''kOverlapChildren'', kOverlapChildren),
     (''kOverlapGrandchildren'', kOverlapGrandchildren),
     (''kCompensatedSize'', kCompensatedSize), (''kOAZA'', kOAZA),
     (''kUserDefinedPlacement'', kUserDefinedPlacement)]"

definition gc_type_map :: "string \<rightharpoonup> GCType" where
  "gc_type_map = map_of
    [(''kDefaultGC'', kDefaultGC), (''kImprovedGC'', kImprovedGC),
     (''kUserDefinedGC'', kUserDefinedGC)]"

section \<open>Reading numbers and tokens\<close>

text \<open>
  \<open>std::stoi\<close> and \<open>std::stoul\<close> read an optional sign and the longest run of digits and ignore what
  follows; no digits, or a value out of range, throws (\<open>None\<close>). The tokens they are applied to
  contain no white space. A negative argument of \<open>stoul\<close> is negated modulo \<open>2 ^ 64\<close>.
\<close>

definition is_digit :: "char \<Rightarrow> bool" where
  "is_digit c = (48 \<le> (of_char c :: nat) \<and> (of_char c :: nat) \<le> 57)"

definition digits_value :: "string \<Rightarrow> nat" where
  "digits_value ds = foldl (\<lambda>n c. 10 * n + (of_char c - 48)) 0 ds"

definition read_number :: "string \<Rightarrow> (bool \<times> nat) option" where
  "read_number s =
    (let neg = (case s of c # _ \<Rightarrow> c = CHR ''-'' | [] \<Rightarrow> False);
         body = (case s of c # r \<Rightarrow> if c = CHR ''-'' \<or> c = CHR ''+'' then r else s | [] \<Rightarrow> s);
         ds = takeWhile is_digit body
     in if ds = [] then None else Some (neg, digits_value ds))"

definition stoi :: "string \<Rightarrow> int option" where
  "stoi s = (case read_number s of
      None \<Rightarrow> None
    | Some (neg, n) \<Rightarrow>
        (let i = (if neg then - int n else int n)
         in if - (2 ^ 31) \<le> i \<and> i < 2 ^ 31 then Some i else None))"

definition stoul :: "string \<Rightarrow> u64 option" where
  "stoul s = (case read_number s of
      None \<Rightarrow> None
    | Some (neg, n) \<Rightarrow>
        if n < 2 ^ 64 then Some (if neg then - of_nat n else of_nat n) else None)"

definition is_space :: "char \<Rightarrow> bool" where
  "is_space c = ((of_char c :: nat) = 32 \<or> 9 \<le> (of_char c :: nat) \<and> (of_char c :: nat) \<le> 13)"

text \<open>Splitting at the characters with property \<open>p\<close>; empty pieces are dropped, which is what
  \<open>operator>>\<close> does with white space and the loop over \<open>getline(..., ',')\<close> with its
  \<open>continue\<close>.\<close>

fun split_nonempty :: "(char \<Rightarrow> bool) \<Rightarrow> string \<Rightarrow> string \<Rightarrow> string list" where
  "split_nonempty p acc [] = (if acc = [] then [] else [rev acc])"
| "split_nonempty p acc (c # cs) =
    (if p c then (if acc = [] then split_nonempty p [] cs else rev acc # split_nonempty p [] cs)
     else split_nonempty p (c # acc) cs)"

fun pair_up :: "'a list \<Rightarrow> ('a \<times> 'a) list" where
  "pair_up (a # b # r) = (a, b) # pair_up r"
| "pair_up _ = []"

fun parse_zones_to_open :: "string list \<Rightarrow> u8 list option" where
  "parse_zones_to_open [] = Some []"
| "parse_zones_to_open (t # ts) =
    (case stoi t of
      None \<Rightarrow> None
    | Some i \<Rightarrow> (case parse_zones_to_open ts of
        None \<Rightarrow> None
      | Some vs \<Rightarrow> Some (if 0 \<le> i \<and> i \<le> 255 then word_of_int i # vs else vs)))"

section \<open>The loader\<close>

text \<open>\<open>set_int\<close>, \<open>set_double\<close>, \<open>set_ulong\<close>: convert the value, then store it if the check holds.\<close>

definition set_int ::
  "string \<Rightarrow> (int \<Rightarrow> bool) \<Rightarrow> (int \<Rightarrow> zenfs_params \<Rightarrow> zenfs_params) \<Rightarrow> zenfs_params \<Rightarrow> zenfs_params option"
where
  "set_int v ok f p = map_option (\<lambda>i. if ok i then f i p else p) (stoi v)"

definition set_double ::
  "fpu \<Rightarrow> string \<Rightarrow> (double \<Rightarrow> bool) \<Rightarrow> (double \<Rightarrow> zenfs_params \<Rightarrow> zenfs_params) \<Rightarrow> zenfs_params \<Rightarrow> zenfs_params option"
where
  "set_double fpu v ok f p = map_option (\<lambda>d. if ok d then f d p else p) (fp_stod fpu v)"

definition set_ulong ::
  "string \<Rightarrow> (u64 \<Rightarrow> bool) \<Rightarrow> (u64 \<Rightarrow> zenfs_params \<Rightarrow> zenfs_params) \<Rightarrow> zenfs_params \<Rightarrow> zenfs_params option"
where
  "set_ulong v ok f p = map_option (\<lambda>w. if ok w then f w p else p) (stoul v)"

definition set_policy ::
  "string \<Rightarrow> (PlacementPolicyType \<Rightarrow> zenfs_params \<Rightarrow> zenfs_params) \<Rightarrow> zenfs_params \<Rightarrow> zenfs_params option"
where
  "set_policy v f p = Some (case placement_policy_map v of Some x \<Rightarrow> f x p | None \<Rightarrow> p)"

text \<open>One turn of the loader's \<open>while\<close>: the \<open>else if\<close> chain over the parameter's name.\<close>

definition apply_param :: "fpu \<Rightarrow> string \<Rightarrow> string \<Rightarrow> zenfs_params \<Rightarrow> zenfs_params option" where
  "apply_param fpu ty v p =
    (if ty = ''logname'' then Some (p\<lparr>logname := v\<rparr>)
     else if ty = ''gc_type'' then
       Some (case gc_type_map v of Some x \<Rightarrow> p\<lparr>gc_type := x\<rparr> | None \<Rightarrow> p)
     else if ty = ''empty_zone_allocator'' then
       Some (case empty_zone_allocator_map v of Some x \<Rightarrow> p\<lparr>empty_zone_allocator := x\<rparr> | None \<Rightarrow> p)
     else if ty = ''upper_level_policy'' then
       set_policy v (\<lambda>x p. p\<lparr>upper_level_policy := x\<rparr>) p
     else if ty = ''upper_level_policy_fallback'' then
       set_policy v (\<lambda>x p. p\<lparr>upper_level_policy_fallback := x\<rparr>) p
     else if ty = ''lower_level_policy'' then
       set_policy v (\<lambda>x p. p\<lparr>lower_level_policy := x\<rparr>) p
     else if ty = ''lower_level_policy_fallback'' then
       set_policy v (\<lambda>x p. p\<lparr>lower_level_policy_fallback := x\<rparr>) p
     else if ty = ''middle_level_policy'' then
       set_policy v (\<lambda>x p. p\<lparr>middle_level_policy := x\<rparr>) p
     else if ty = ''middle_level_policy_fallback'' then
       set_policy v (\<lambda>x p. p\<lparr>middle_level_policy_fallback := x\<rparr>) p
     else if ty = ''average_value_size'' then
       set_int v (\<lambda>i. 0 < i) (\<lambda>i p. p\<lparr>average_value_size := word_of_int i\<rparr>) p
     else if ty = ''tombstone_density'' then
       set_double fpu v (\<lambda>d. fp_le fpu fp_0 d \<and> fp_le fpu d fp_1)
         (\<lambda>d p. p\<lparr>tombstone_density := d\<rparr>) p
     else if ty = ''nearest_newzone_threshold'' then
       set_double fpu v (\<lambda>d. fp_le fpu fp_0 d) (\<lambda>d p. p\<lparr>nearest_newzone_threshold := d\<rparr>) p
     else if ty = ''zone_fill_threshold'' then
       set_double fpu v (\<lambda>d. fp_le fpu fp_0 d \<and> fp_le fpu d fp_1)
         (\<lambda>d p. p\<lparr>zone_fill_threshold := d\<rparr>) p
     else if ty = ''gc_start_level'' then
       set_int v (\<lambda>i. 0 < i \<and> i < 100) (\<lambda>i p. p\<lparr>gc_start_level := word_of_int i\<rparr>) p
     else if ty = ''gc_stop_level'' then
       set_int v (\<lambda>i. 0 < i \<and> i < 100) (\<lambda>i p. p\<lparr>gc_stop_level := word_of_int i\<rparr>) p
     else if ty = ''gc_slope'' then
       set_int v (\<lambda>i. 0 < i \<and> i < 100) (\<lambda>i p. p\<lparr>gc_slope := word_of_int i\<rparr>) p
     else if ty = ''reserve_zone_count'' then
       set_int v (\<lambda>i. 0 \<le> i \<and> i < 100) (\<lambda>i p. p\<lparr>reserve_zone_count := word_of_int i\<rparr>) p
     else if ty = ''real_caza'' then
       set_int v (\<lambda>i. i = 0 \<or> i = 1) (\<lambda>i p. p\<lparr>real_caza := word_of_int i\<rparr>) p
     else if ty = ''real_oaza'' then
       set_int v (\<lambda>i. i = 0 \<or> i = 1) (\<lambda>i p. p\<lparr>real_oaza := word_of_int i\<rparr>) p
     else if ty = ''real_zonekv'' then
       set_int v (\<lambda>i. i = 0 \<or> i = 1) (\<lambda>i p. p\<lparr>real_zonekv := word_of_int i\<rparr>) p
     else if ty = ''dynamic_level_adjustment'' then
       set_int v (\<lambda>i. True) (\<lambda>i p. p\<lparr>dynamic_level_adjustment := (if i \<noteq> 0 then 1 else 0)\<rparr>) p
     else if ty = ''zones_to_open'' then
       map_option (\<lambda>vs. if vs \<noteq> [] then p\<lparr>zones_to_open := vs\<rparr> else p)
         (parse_zones_to_open (split_nonempty (\<lambda>c. c = CHR '','') [] v))
     else if ty = ''min_boundary'' then
       set_int v (\<lambda>i. 0 \<le> i \<and> i < 100) (\<lambda>i p. p\<lparr>min_boundary := word_of_int i\<rparr>) p
     else if ty = ''max_boundary'' then
       set_int v (\<lambda>i. 0 \<le> i \<and> i < 100) (\<lambda>i p. p\<lparr>max_boundary := word_of_int i\<rparr>) p
     else if ty = ''fragmentation_enabled'' then
       set_ulong v (\<lambda>w. True) (\<lambda>w p. p\<lparr>fragmentation_enabled := ucast w\<rparr>) p
     else if ty = ''gc_pause_seconds'' then
       set_int v (\<lambda>i. 0 < i \<and> i < 1000) (\<lambda>i p. p\<lparr>gc_pause_seconds := word_of_int i\<rparr>) p
     else if ty = ''cold_migration'' then
       set_int v (\<lambda>i. True) (\<lambda>i p. p\<lparr>cold_migration := word_of_int i\<rparr>) p
     else if ty = ''buffer_size_megabytes'' then
       set_ulong v (\<lambda>w. 0 < (ucast w :: u32) \<and> (ucast w :: u32) \<le> 1025)
         (\<lambda>w p. p\<lparr>buffer_size_megabytes := ucast w\<rparr>) p
     else if ty = ''buffer_count_max'' then
       set_ulong v (\<lambda>w. 0 < (ucast w :: u32) \<and> (ucast w :: u32) \<le> 100)
         (\<lambda>w p. p\<lparr>buffer_count_max := ucast w\<rparr>) p
     else if ty = ''log_zonestats_placement_delete'' then
       set_ulong v (\<lambda>w. True) (\<lambda>w p. p\<lparr>log_zonestats_placement_delete := ucast (ucast w :: u32)\<rparr>) p
     else if ty = ''log_zonestats_placement_delete_verbose'' then
       set_ulong v (\<lambda>w. True)
         (\<lambda>w p. p\<lparr>log_zonestats_placement_delete_verbose := ucast (ucast w :: u32)\<rparr>) p
     else Some p)"

fun load_pairs :: "fpu \<Rightarrow> (string \<times> string) list \<Rightarrow> zenfs_params \<Rightarrow> zenfs_params option" where
  "load_pairs fpu [] p = Some p"
| "load_pairs fpu ((ty, v) # r) p =
    (case apply_param fpu ty v p of None \<Rightarrow> None | Some p' \<Rightarrow> load_pairs fpu r p')"

text \<open>\<open>contents\<close> is the text of the parameter file, empty if it cannot be opened.\<close>

definition LoadParamsFromFile :: "fpu \<Rightarrow> string \<Rightarrow> zenfs_params \<Rightarrow> zenfs_params option" where
  "LoadParamsFromFile fpu contents p =
    map_option
      (\<lambda>q. if max_boundary q \<le> min_boundary q then q\<lparr>max_boundary := min_boundary q + 1\<rparr> else q)
      (load_pairs fpu (pair_up (split_nonempty is_space [] contents)) p)"

text \<open>
  \<open>PrintStats\<close>: the values it prints, in order. The loop at the end reads \<open>zones_to_open[0]\<close> to
  \<open>zones_to_open[9]\<close>; a shorter vector has no such element.
\<close>

datatype printed = PStr string | PNum nat | PDbl double | PBytes "u8 list"

definition gc_type_num :: "GCType \<Rightarrow> nat" where
  "gc_type_num t = (case t of kDefaultGC \<Rightarrow> 0 | kImprovedGC \<Rightarrow> 1 | kUserDefinedGC \<Rightarrow> 2)"

definition policy_num :: "PlacementPolicyType \<Rightarrow> nat" where
  "policy_num t = (case t of kLifetimeBased \<Rightarrow> 0 | kLeveledLifetimeBased \<Rightarrow> 1 | kCAZA \<Rightarrow> 2
     | kPlazaBase \<Rightarrow> 3 | KPlazaIntermediate \<Rightarrow> 4 | kPlazaAdvanced \<Rightarrow> 5
     | kSameLevelNearbyKeysSimple \<Rightarrow> 6 | kArrivalTimeBased \<Rightarrow> 7 | kTombstoneDensity \<Rightarrow> 8
     | kTombstoneTTL \<Rightarrow> 9 | kClusterTogether \<Rightarrow> 10 | kOverlapChildren \<Rightarrow> 11
     | kOverlapGrandchildren \<Rightarrow> 12 | kCompensatedSize \<Rightarrow> 13 | kOAZA \<Rightarrow> 14
     | kUserDefinedPlacement \<Rightarrow> 15)"

definition PrintStats :: "zenfs_params \<Rightarrow> printed list option" where
  "PrintStats p =
    (if length (zones_to_open p) < 10 then None
     else Some [PStr (logname p), PNum (gc_type_num (gc_type p)),
       PNum (policy_num (upper_level_policy p)), PNum (policy_num (middle_level_policy p)),
       PNum (policy_num (lower_level_policy p)), PNum (unat (gc_start_level p)),
       PNum (unat (gc_stop_level p)), PNum (unat (fragmentation_enabled p)),
       PDbl (nearest_newzone_threshold p), PDbl (zone_fill_threshold p),
       PNum (unat (dynamic_level_adjustment p)), PBytes (take 10 (zones_to_open p))])"

section \<open>Policy by level\<close>

text \<open>\<open>ZonedBlockDevice::GetPolicy\<close> and \<open>GetSecondaryPolicy\<close> (\<open>zbd_zenfs.h\<close>).\<close>

definition GetPolicy :: "zenfs_params \<Rightarrow> int \<Rightarrow> PlacementPolicyType" where
  "GetPolicy p level =
    (if level < 0 then kLifetimeBased
     else if level \<le> uint (min_boundary p) then upper_level_policy p
     else if level \<ge> uint (max_boundary p) then lower_level_policy p
     else middle_level_policy p)"

definition GetSecondaryPolicy :: "zenfs_params \<Rightarrow> int \<Rightarrow> PlacementPolicyType" where
  "GetSecondaryPolicy p level =
    (if level < 0 then kLifetimeBased
     else if level \<le> uint (min_boundary p) then upper_level_policy_fallback p
     else if level \<ge> uint (max_boundary p) then lower_level_policy_fallback p
     else middle_level_policy_fallback p)"

section \<open>What the loader guarantees\<close>

definition params_ranges :: "zenfs_params \<Rightarrow> bool" where
  "params_ranges p \<longleftrightarrow>
    uint (min_boundary p) < 100 \<and> uint (max_boundary p) < 100 \<and>
    0 < gc_start_level p \<and> gc_start_level p < 100 \<and>
    0 < gc_stop_level p \<and> gc_stop_level p < 100 \<and>
    0 < gc_slope p \<and> gc_slope p < 100 \<and> reserve_zone_count p < 100 \<and>
    0 < gc_pause_seconds p \<and> gc_pause_seconds p < 1000 \<and>
    0 < buffer_size_megabytes p \<and> buffer_size_megabytes p \<le> 1025 \<and>
    0 < buffer_count_max p \<and> buffer_count_max p \<le> 100 \<and>
    real_caza p \<le> 1 \<and> real_oaza p \<le> 1 \<and> real_zonekv p \<le> 1 \<and>
    dynamic_level_adjustment p \<le> 1 \<and> 0 < average_value_size p \<and> zones_to_open p \<noteq> []"

lemma stoi_bounds: "stoi v = Some i \<Longrightarrow> - (2 ^ 31) \<le> i \<and> i < 2 ^ 31"
  by (auto simp: stoi_def Let_def split: option.splits if_splits)

lemma uint_word_of_int_u64: "0 \<le> i \<Longrightarrow> i < 2 ^ 31 \<Longrightarrow> uint (word_of_int i :: u64) = i"
  by (simp add: uint_word_of_int)

lemma uint_word_of_int_u8: "0 \<le> i \<Longrightarrow> i < 100 \<Longrightarrow> uint (word_of_int i :: u8) = i"
  by (simp add: uint_word_of_int)

text \<open>Each setter keeps a property that its store step keeps.\<close>

lemma set_int_keeps:
  assumes "set_int v ok f p = Some q" and "R p"
    and "\<And>i. - (2 ^ 31) \<le> i \<Longrightarrow> i < 2 ^ 31 \<Longrightarrow> ok i \<Longrightarrow> R (f i p)"
  shows "R q"
  using assms by (auto simp: set_int_def dest: stoi_bounds split: if_splits)

lemma set_double_keeps:
  assumes "set_double fpu v ok f p = Some q" and "R p" and "\<And>d. ok d \<Longrightarrow> R (f d p)"
  shows "R q"
  using assms by (auto simp: set_double_def split: if_splits)

lemma set_ulong_keeps:
  assumes "set_ulong v ok f p = Some q" and "R p" and "\<And>w. ok w \<Longrightarrow> R (f w p)"
  shows "R q"
  using assms by (auto simp: set_ulong_def split: if_splits)

lemma set_policy_keeps:
  assumes "set_policy v f p = Some q" and "R p" and "\<And>x. R (f x p)"
  shows "R q"
  using assms by (auto simp: set_policy_def split: option.splits)

lemma Some_option_keeps:
  assumes "Some (case m of Some x \<Rightarrow> f x | None \<Rightarrow> p) = Some q" and "R p" and "\<And>x. R (f x)"
  shows "R q"
  using assms by (auto split: option.splits)

lemma map_option_keeps:
  assumes "map_option (\<lambda>vs. if vs \<noteq> [] then f vs else p) m = Some q" and "R p"
    and "\<And>vs. vs \<noteq> [] \<Longrightarrow> R (f vs)"
  shows "R q"
  using assms by (auto split: if_splits)

lemma if_Some_cases:
  assumes "(if b then x else y) = Some q" and "x = Some q \<Longrightarrow> R" and "y = Some q \<Longrightarrow> R"
  shows "R"
  using assms by (auto split: if_splits)

lemmas setter_keeps = set_int_keeps set_double_keeps set_ulong_keeps set_policy_keeps
  Some_option_keeps map_option_keeps

lemma apply_param_ranges:
  assumes R: "params_ranges p" and A: "apply_param fpu ty v p = Some q"
  shows "params_ranges q"
  using A unfolding apply_param_def
  by (elim if_Some_cases)
    ((erule setter_keeps [where R = params_ranges, OF _ R])?,
     (insert R, auto simp: params_ranges_def word_less_alt uint_word_of_int_u64 uint_word_of_int_u8) [1])+

lemma load_pairs_ranges:
  "params_ranges p \<Longrightarrow> load_pairs fpu ps p = Some q \<Longrightarrow> params_ranges q"
  by (induction fpu ps p rule: load_pairs.induct)
    (auto split: option.splits dest: apply_param_ranges)

lemma params_ranges_default: "params_ranges default_params"
  by (simp add: params_ranges_def default_params_def)

lemma min_boundary_Suc:
  assumes "params_ranges q"
  shows "uint (min_boundary q + 1) = uint (min_boundary q) + 1"
  using assms by (simp add: params_ranges_def uint_word_ariths)



text \<open>\<open>PrintStats\<close> reads ten entries of \<open>zones_to_open\<close>, but the loader replaces that vector by
  whatever the file lists: with the value shipped in \<open>src/params.txt\<close> the load succeeds and the
  print that follows it in the device constructor reads past the end of the vector.\<close>

theorem PrintStats_reads_past_zones_to_open:
  "\<exists>q. LoadParamsFromFile fpu ''zones_to_open 1,1,8,8'' default_params = Some q \<and>
     zones_to_open q = [1, 1, 8, 8] \<and> PrintStats q = None"
  by (simp add: LoadParamsFromFile_def apply_param_def set_int_def stoi_def read_number_def
      is_digit_def is_space_def digits_value_def default_params_def PrintStats_def)

end
