(* ===== verification/Zone_Model.thy ===== *)
theory Zone_Model
  imports Zenfs_Params
begin

text \<open>
  Class \<open>Zone\<close> and the abstract class \<open>ZonedBlockDeviceBackend\<close> (\<open>src/fs/zbd_zenfs.h\<close>,
  \<open>src/fs/zbd_zenfs.cc\<close>).

  A backend is a record of functions over the backend object's state \<open>'d\<close> (the C++ virtual
  functions). The zone objects live in a heap \<open>zheap\<close>; a \<open>Zone *\<close> is an index into it, so two
  holders of one zone share it as they do in C++. The device record \<open>zbd\<close> holds the members of
  \<open>ZonedBlockDevice\<close>; components that add members extend the record.

  The locale \<open>zoned_backend\<close> states what the zone code relies on from a backend; inside it the
  well-formedness of a zone (start, write pointer, capacity) is shown to be kept by every operation,
  and an append is shown to advance the write pointer by exactly the bytes it wrote.
\<close>

section \<open>Backends, zones, the device\<close>

text \<open>One entry of a \<open>ZoneList\<close>, as the backend's accessors read it.\<close>

record zone_report =
  r_swr :: bool
  r_offline :: bool
  r_writable :: bool
  r_active :: bool
  r_open :: bool
  r_start :: u64
  r_max_capacity :: u64
  r_wp :: u64

text \<open>
  The virtual functions. \<open>be_Read n pos direct\<close> returns the \<open>int\<close> result, whether \<open>errno\<close> is
  \<open>EINTR\<close>, and the bytes placed in the buffer; \<open>be_Write\<close> returns the \<open>int\<close> result.
\<close>

record 'd backend =
  be_block_sz :: "'d \<Rightarrow> u32"
  be_zone_sz :: "'d \<Rightarrow> u64"
  be_nr_zones :: "'d \<Rightarrow> u32"
  be_Open :: "bool \<Rightarrow> bool \<Rightarrow> 'd \<Rightarrow> IOStatus \<times> u32 \<times> u32 \<times> 'd"
  be_ListZones :: "'d \<Rightarrow> zone_report list option"
  be_Reset :: "u64 \<Rightarrow> 'd \<Rightarrow> IOStatus \<times> bool \<times> u64 \<times> 'd"
  be_Finish :: "u64 \<Rightarrow> 'd \<Rightarrow> IOStatus \<times> 'd"
  be_Close :: "u64 \<Rightarrow> 'd \<Rightarrow> IOStatus \<times> 'd"
  be_Read :: "int \<Rightarrow> u64 \<Rightarrow> bool \<Rightarrow> 'd \<Rightarrow> int \<times> bool \<times> byte list \<times> 'd"
  be_Write :: "byte list \<Rightarrow> u64 \<Rightarrow> 'd \<Rightarrow> int \<times> 'd"
  be_InvalidateCache :: "u64 \<Rightarrow> u64 \<Rightarrow> 'd \<Rightarrow> int \<times> 'd"

type_synonym zptr = nat

record zone =
  z_id :: u64
  z_start :: u64
  z_capacity :: u64
  z_max_capacity :: u64
  z_wp :: u64
  z_lifetime :: WriteLifeTimeHint
  z_used :: u64
  z_reset_count :: u32
  z_finish_count :: u32
  z_policy :: PlacementPolicyType
  z_flag_gc_reset :: bool
  z_bytes_of_level :: "int list"
  z_level :: int
  z_busy :: bool

record 'd zbd =
  dev :: 'd
  zheap :: "zptr \<Rightarrow> zone"
  next_zptr :: zptr
  id_counter :: u64
  io_zones :: "zptr list"
  meta_zones :: "zptr list"
  zone_start_to_pointer_map :: "u64 \<rightharpoonup> zptr"
  zone_index_to_pointer_map :: "u64 \<rightharpoonup> zptr"
  finish_threshold :: u32
  bytes_written :: u64
  gc_bytes_written :: u64
  finish_bytes_written :: u64
  active_io_zones :: int
  open_io_zones :: int
  zone_deferred_status :: IOStatus
  migrating :: bool
  max_nr_active_io_zones :: u32
  max_nr_open_io_zones :: u32
  alloc_count :: u64
  failure_count :: u64
  total_reset_count :: u64
  gc_reset_count :: u64
  nearest_real_success :: u64
  nearest_need_new :: u64
  nearest_got_new :: u64
  need_flag :: bool
  params :: zenfs_params
  seq_zone_pos :: nat
  rng_state :: nat

text \<open>\<open>z->field = value\<close>.\<close>

definition upd_zone :: "zptr \<Rightarrow> (zone \<Rightarrow> zone) \<Rightarrow> ('d, 'm) zbd_scheme \<Rightarrow> ('d, 'm) zbd_scheme" where
  "upd_zone p f s = s\<lparr>zheap := (zheap s)(p := f (zheap s p))\<rparr>"

section \<open>Class Zone\<close>

text \<open>The constructor: the object built from entry \<open>r\<close> of the zone report.\<close>

definition Zone_new :: "zone_report \<Rightarrow> u64 \<Rightarrow> zone" where
  "Zone_new r n =
    \<lparr> z_id = n, z_start = r_start r,
      z_capacity = (if r_writable r then r_max_capacity r - (r_wp r - r_start r) else 0),
      z_max_capacity = r_max_capacity r, z_wp = r_wp r, z_lifetime = WLTH_NOT_SET, z_used = 0,
      z_reset_count = 0, z_finish_count = 0, z_policy = kLifetimeBased, z_flag_gc_reset = False,
      z_bytes_of_level = replicate 5 0, z_level = -1, z_busy = False \<rparr>"

definition IsUsed :: "zone \<Rightarrow> bool" where [zone_ops]: "IsUsed z = (z_used z > 0)"
definition IsFull :: "zone \<Rightarrow> bool" where [zone_ops]: "IsFull z = (z_capacity z = 0)"
definition IsEmpty :: "zone \<Rightarrow> bool" where [zone_ops]: "IsEmpty z = (z_wp z = z_start z)"
definition GetCapacityLeft :: "zone \<Rightarrow> u64" where "GetCapacityLeft z = z_capacity z"

definition GetZoneNr :: "('d, 'e) backend_scheme \<Rightarrow> 'd \<Rightarrow> zone \<Rightarrow> u64" where
  "GetZoneNr be d z = z_start z div be_zone_sz be d"

text \<open>
  The busy flag. \<open>Acquire\<close> and \<open>Release\<close> are compare-and-exchange on one atomic, so they either
  take effect as a whole or report failure and change nothing.
\<close>

definition Zone_Acquire :: "zptr \<Rightarrow> ('d, 'm) zbd_scheme \<Rightarrow> bool \<times> ('d, 'm) zbd_scheme" where
  "Zone_Acquire p s =
    (if z_busy (zheap s p) then (False, s) else (True, upd_zone p (z_busy_update (\<lambda>_. True)) s))"

definition Zone_Release :: "zptr \<Rightarrow> ('d, 'm) zbd_scheme \<Rightarrow> bool \<times> ('d, 'm) zbd_scheme" where
  "Zone_Release p s =
    (if z_busy (zheap s p) then (True, upd_zone p (z_busy_update (\<lambda>_. False)) s) else (False, s))"

definition Zone_CheckRelease :: "zptr \<Rightarrow> ('d, 'm) zbd_scheme \<Rightarrow> IOStatus \<times> ('d, 'm) zbd_scheme" where
  "Zone_CheckRelease p s =
    (case Zone_Release p s of (ok, s1) \<Rightarrow> (if ok then OK else Corruption, s1))"

text \<open>
  \<open>UpdateBytesOfLevel\<close>. The vector grows when the level is beyond its end; a negative level indexes
  before its start, and so does the comparison with \<open>bytes_of_level[chosen_level]\<close> when the zone's
  own level is negative or beyond the end: no defined outcome, \<open>None\<close>. The loop counter is a
  \<open>uint8_t\<close>, so the loop ends only for at most 255 levels.
\<close>

definition resize :: "nat \<Rightarrow> int list \<Rightarrow> int list" where
  "resize n xs = take n xs @ replicate (n - length xs) 0"

definition choose_level :: "int list \<Rightarrow> nat \<Rightarrow> nat" where
  "choose_level bl l = foldl (\<lambda>c i. if bl ! i > bl ! c then i else c) l [0..<length bl]"

definition UpdateBytesOfLevel ::
  "zptr \<Rightarrow> int \<Rightarrow> int \<Rightarrow> ('d, 'm) zbd_scheme \<Rightarrow> ('d, 'm) zbd_scheme option" where
  "UpdateBytesOfLevel p level bytes s =
    (let z = zheap s p;
         bl = (if level \<ge> int (length (z_bytes_of_level z))
               then resize (nat (level + 1)) (z_bytes_of_level z) else z_bytes_of_level z)
     in if level < 0 then None
        else
          let v = bl ! nat level + bytes;
              bl' = bl[nat level := (if v < 0 then 0 else v)];
              s1 = upd_zone p (z_bytes_of_level_update (\<lambda>_. bl')) s
          in if dynamic_level_adjustment (params s) = 0 then Some s1
             else if z_level z < 0 \<or> z_level z \<ge> int (length bl') \<or> length bl' > 255 then None
             else
               let l = int (choose_level bl' (nat (z_level z)))
               in Some (upd_zone p (\<lambda>z. z\<lparr>z_level := l, z_policy := GetPolicy (params s) l\<rparr>) s1))"

text \<open>The \<open>uint64_t\<close> lengths and their negations are passed to the \<open>int\<close> parameter \<open>bytes\<close>.\<close>

definition u64_to_int :: "u64 \<Rightarrow> int" where
  "u64_to_int w = sint (ucast w :: u32)"

definition Zone_Reset ::
  "('d, 'e) backend_scheme \<Rightarrow> zptr \<Rightarrow> ('d, 'm) zbd_scheme \<Rightarrow> IOStatus \<times> ('d, 'm) zbd_scheme" where
  "Zone_Reset be p s =
    (case be_Reset be (z_start (zheap s p)) (dev s) of (ios, offline, max_capacity, d) \<Rightarrow>
       let s1 = s\<lparr>dev := d\<rparr>
       in if ios \<noteq> OK then (ios, s1)
          else (OK, upd_zone p (\<lambda>z. z\<lparr>z_capacity := (if offline then 0 else max_capacity),
                  z_max_capacity := (if offline then z_max_capacity z else max_capacity),
                  z_wp := z_start z, z_lifetime := WLTH_NOT_SET,
                  z_reset_count := z_reset_count z + 1, z_level := -1,
                  z_bytes_of_level := map (\<lambda>_. 0) (z_bytes_of_level z)\<rparr>) s1))"

definition Zone_Finish ::
  "('d, 'e) backend_scheme \<Rightarrow> zptr \<Rightarrow> ('d, 'm) zbd_scheme \<Rightarrow> IOStatus \<times> ('d, 'm) zbd_scheme" where
  "Zone_Finish be p s =
    (case be_Finish be (z_start (zheap s p)) (dev s) of (ios, d) \<Rightarrow>
       let s1 = s\<lparr>dev := d\<rparr>
       in if ios \<noteq> OK then (ios, s1)
          else (OK, upd_zone p (\<lambda>z. z\<lparr>z_capacity := 0, z_wp := z_start z + be_zone_sz be d,
                  z_finish_count := z_finish_count z + 1\<rparr>) s1))"

definition Zone_Close ::
  "('d, 'e) backend_scheme \<Rightarrow> zptr \<Rightarrow> ('d, 'm) zbd_scheme \<Rightarrow> IOStatus \<times> ('d, 'm) zbd_scheme" where
  "Zone_Close be p s =
    (if IsEmpty (zheap s p) \<or> IsFull (zheap s p) then (OK, s)
     else case be_Close be (z_start (zheap s p)) (dev s) of (ios, d) \<Rightarrow> (ios, s\<lparr>dev := d\<rparr>))"

text \<open>
  \<open>Append\<close>: the write loop repeats until the buffer is written. A backend that keeps returning 0
  keeps the loop going for ever; one that reports more bytes than it was given makes it run past
  the buffer.
\<close>

partial_function (option) Zone_Append_loop ::
  "('d, 'e) backend_scheme \<Rightarrow> zptr \<Rightarrow> byte list \<Rightarrow> ('d, 'm) zbd_scheme
     \<Rightarrow> (IOStatus \<times> ('d, 'm) zbd_scheme) option" where
  "Zone_Append_loop be p data s =
    (if data = [] then Some (OK, s)
     else case be_Write be data (z_wp (zheap s p)) (dev s) of (ret, d) \<Rightarrow>
       if ret < 0 then Some (IOError, s\<lparr>dev := d\<rparr>)
       else if nat ret > length data then None
       else Zone_Append_loop be p (drop (nat ret) data)
              (upd_zone p (\<lambda>z. z\<lparr>z_wp := z_wp z + of_int ret, z_capacity := z_capacity z - of_int ret\<rparr>)
                (s\<lparr>dev := d, bytes_written := bytes_written s + of_int ret\<rparr>)))"

declare Zone_Append_loop.simps [code]

definition Zone_Append ::
  "('d, 'e) backend_scheme \<Rightarrow> zptr \<Rightarrow> byte list \<Rightarrow> ('d, 'm) zbd_scheme
     \<Rightarrow> (IOStatus \<times> ('d, 'm) zbd_scheme) option" where
  "Zone_Append be p data s =
    (if unat (z_capacity (zheap s p)) < length data then Some (NoSpace, s)
     else Zone_Append_loop be p data s)"


section \<open>The busy flag\<close>

text \<open>\<open>acquired p s\<close>: the state after the caller has taken zone \<open>p\<close>.\<close>

definition acquired :: "zptr \<Rightarrow> ('d, 'm) zbd_scheme \<Rightarrow> ('d, 'm) zbd_scheme" where
  "acquired p s = upd_zone p (z_busy_update (\<lambda>_. True)) s"

lemma Acquire_eq:
  "Zone_Acquire p s = (if z_busy (zheap s p) then (False, s) else (True, acquired p s))"
  by (simp add: Zone_Acquire_def acquired_def)

lemma zheap_acquired [simp]:
  "zheap (acquired p s) = (zheap s)(p := (zheap s p)\<lparr>z_busy := True\<rparr>)"
  by (simp add: acquired_def upd_zone_def)

lemma acquired_more [simp]:
  "dev (acquired p s) = dev s" "io_zones (acquired p s) = io_zones s"
  "meta_zones (acquired p s) = meta_zones s" "params (acquired p s) = params s"
  "active_io_zones (acquired p s) = active_io_zones s"
  "open_io_zones (acquired p s) = open_io_zones s"
  "finish_threshold (acquired p s) = finish_threshold s"
  "max_nr_active_io_zones (acquired p s) = max_nr_active_io_zones s"
  "max_nr_open_io_zones (acquired p s) = max_nr_open_io_zones s"
  by (simp_all add: acquired_def upd_zone_def)

lemma zone_busy_restore: "\<not> z_busy z \<Longrightarrow> z\<lparr>z_busy := False\<rparr> = z"
  by (cases z) simp

lemma CheckRelease_acquired:
  "\<not> z_busy (zheap s p) \<Longrightarrow> Zone_CheckRelease p (acquired p s) = (OK, s)"
  by (simp add: Zone_CheckRelease_def Zone_Release_def acquired_def upd_zone_def
      zone_busy_restore)

lemma acquired_commute:
  "p \<noteq> q \<Longrightarrow> acquired p (acquired q s) = acquired q (acquired p s)"
  by (simp add: acquired_def upd_zone_def fun_upd_twist)

lemma CheckRelease_acquired_other:
  assumes "p \<noteq> q" "\<not> z_busy (zheap s p)"
  shows "Zone_CheckRelease p (acquired q (acquired p s)) = (OK, acquired q s)"
  using assms CheckRelease_acquired [of "acquired q s" p] by (simp add: acquired_commute)

text \<open>Only one of two callers that try to take a zone gets it, until it is released.\<close>

lemma Acquire_exclusive:
  assumes "Zone_Acquire p s = (True, s1)"
  shows "Zone_Acquire p s1 = (False, s1)" and "Zone_CheckRelease p s1 = (OK, s)"
  using assms by (auto simp: Acquire_eq CheckRelease_acquired split: if_splits)

section \<open>Zone well-formedness\<close>

definition zone_wf :: "u64 \<Rightarrow> zone \<Rightarrow> bool" where
  "zone_wf zsz z \<longleftrightarrow>
    unat (z_start z) + unat zsz < 2 ^ 64 \<and> unat (z_max_capacity z) \<le> unat zsz \<and>
    z_start z \<le> z_wp z \<and> unat (z_wp z) \<le> unat (z_start z) + unat zsz \<and>
    (z_capacity z \<noteq> 0 \<longrightarrow>
       unat (z_wp z) + unat (z_capacity z) = unat (z_start z) + unat (z_max_capacity z))"

definition zones_wf :: "('d, 'e) backend_scheme \<Rightarrow> ('d, 'm) zbd_scheme \<Rightarrow> bool" where
  "zones_wf be s \<longleftrightarrow>
    (\<forall>p \<in> set (io_zones s) \<union> set (meta_zones s). zone_wf (be_zone_sz be (dev s)) (zheap s p))"

text \<open>A report entry is sane when a writable zone's write pointer is within its capacity.\<close>

definition report_wf :: "u64 \<Rightarrow> zone_report \<Rightarrow> bool" where
  "report_wf zsz r \<longleftrightarrow>
    unat (r_start r) + unat zsz < 2 ^ 64 \<and> unat (r_max_capacity r) \<le> unat zsz \<and>
    r_start r \<le> r_wp r \<and> unat (r_wp r) \<le> unat (r_start r) + unat zsz \<and>
    (r_writable r \<longrightarrow> unat (r_wp r) \<le> unat (r_start r) + unat (r_max_capacity r))"

lemma Zone_new_wf: "report_wf zsz r \<Longrightarrow> zone_wf zsz (Zone_new r n)"
  by (auto simp: report_wf_def zone_wf_def Zone_new_def u64_nat)

text \<open>The write loop: what it changes, and by how much.\<close>

definition append_result ::
  "zptr \<Rightarrow> nat \<Rightarrow> 'd \<Rightarrow> ('d, 'm) zbd_scheme \<Rightarrow> ('d, 'm) zbd_scheme" where
  "append_result p n d s =
    upd_zone p (\<lambda>z. z\<lparr>z_wp := z_wp z + of_nat n, z_capacity := z_capacity z - of_nat n\<rparr>)
      (s\<lparr>dev := d, bytes_written := bytes_written s + of_nat n\<rparr>)"

lemma append_result_add:
  "append_result p m d' (append_result p n d s) = append_result p (n + m) d' s"
  by (simp add: append_result_def upd_zone_def algebra_simps)

lemma append_result_0: "append_result p 0 (dev s) s = s"
  by (simp add: append_result_def upd_zone_def)

lemma Zone_Append_loop_step:
  assumes "data \<noteq> []" "be_Write be data (z_wp (zheap s p)) (dev s) = (ret, d)"
    "0 \<le> ret" "nat ret \<le> length data"
  shows "Zone_Append_loop be p data s =
    Zone_Append_loop be p (drop (nat ret) data) (append_result p (nat ret) d s)"
  using assms by (subst Zone_Append_loop.simps) (simp add: append_result_def)

lemma Zone_Append_loop_Nil: "Zone_Append_loop be p [] s = Some (OK, s)"
  by (subst Zone_Append_loop.simps) simp

text \<open>The loop rule: an invariant kept by every successful write holds when the loop ends, or when
  the write that fails is issued.\<close>

lemma Zone_Append_loop_rule:
  assumes ret: "Zone_Append_loop be p data s = Some r"
    and init: "I data s"
    and step: "\<And>data s ret d. I data s \<Longrightarrow> data \<noteq> [] \<Longrightarrow>
      be_Write be data (z_wp (zheap s p)) (dev s) = (ret, d) \<Longrightarrow> 0 \<le> ret \<Longrightarrow>
      nat ret \<le> length data \<Longrightarrow> I (drop (nat ret) data) (append_result p (nat ret) d s)"
  shows "fst r = OK \<and> I [] (snd r) \<or>
    (\<exists>data s ret d. I data s \<and> data \<noteq> [] \<and> ret < 0 \<and>
       be_Write be data (z_wp (zheap s p)) (dev s) = (ret, d) \<and> r = (IOError, s\<lparr>dev := d\<rparr>))"
    (is "?concl r")
proof -
  have "be = be \<longrightarrow> p = p \<longrightarrow> I data s \<longrightarrow> ?concl r"
  proof (rule Zone_Append_loop.raw_induct
      [where P = "\<lambda>b q data s r. b = be \<longrightarrow> q = p \<longrightarrow> I data s \<longrightarrow> ?concl r", OF _ ret])
    fix f b q data s r
    assume IH: "\<And>b q data s r. f b q data s = Some r \<Longrightarrow>
        b = be \<longrightarrow> q = p \<longrightarrow> I data s \<longrightarrow> ?concl r"
      and eq: "(if data = [] then Some (OK, s)
       else case be_Write b data (z_wp (zheap s q)) (dev s) of (ret, d) \<Rightarrow>
         if ret < 0 then Some (IOError, s\<lparr>dev := d\<rparr>)
         else if nat ret > length data then None
         else f b q (drop (nat ret) data)
              (upd_zone q (\<lambda>z. z\<lparr>z_wp := z_wp z + of_int ret,
                  z_capacity := z_capacity z - of_int ret\<rparr>)
                (s\<lparr>dev := d, bytes_written := bytes_written s + of_int ret\<rparr>))) = Some r"
    show "b = be \<longrightarrow> q = p \<longrightarrow> I data s \<longrightarrow> ?concl r"
    proof (intro impI)
      assume b: "b = be" "q = p" and I: "I data s"
      obtain ret d where w: "be_Write be data (z_wp (zheap s p)) (dev s) = (ret, d)"
        by (cases "be_Write be data (z_wp (zheap s p)) (dev s)")
      consider "data = []" | "data \<noteq> []" "ret < 0" | "data \<noteq> []" "0 \<le> ret" by linarith
      then show "?concl r"
      proof cases
        case 3
        have f: "f be p (drop (nat ret) data) (append_result p (nat ret) d s) = Some r"
          and le: "nat ret \<le> length data"
          using eq w 3 b by (auto simp: append_result_def split: if_splits)
        from IH [OF f] step [OF I 3(1) w 3(2) le] show ?thesis by simp
      qed (use eq w b I in auto)
    qed
  qed
  with init show ?thesis by simp
qed

lemma Zone_Append_loop_frame:
  assumes "Zone_Append_loop be p data s = Some r"
  shows "\<exists>n d. n \<le> length data \<and> snd r = append_result p n d s \<and>
    (fst r = OK \<and> n = length data \<or> fst r = IOError)"
proof -
  let ?I = "\<lambda>(data' :: byte list) s'. \<exists>n d. n + length data' = length data \<and> s' = append_result p n d s"
  have "fst r = OK \<and> ?I [] (snd r) \<or>
    (\<exists>data s ret d. ?I data s \<and> data \<noteq> [] \<and> ret < 0 \<and>
       be_Write be data (z_wp (zheap s p)) (dev s) = (ret, d) \<and> r = (IOError, s\<lparr>dev := d\<rparr>))"
  proof (rule Zone_Append_loop_rule [where I = ?I, OF assms])
    show "?I data s" by (metis add_0 append_result_0)
  next
    fix data' s' ret d
    assume "?I data' s'" and le: "nat ret \<le> length data'"
    then obtain n d0 where n: "n + length data' = length data" "s' = append_result p n d0 s" by blast
    then have "n + nat ret + length (drop (nat ret) data') = length data"
      "append_result p (nat ret) d s' = append_result p (n + nat ret) d s"
      using le by (simp_all add: append_result_add)
    then show "?I (drop (nat ret) data') (append_result p (nat ret) d s')" by blast
  qed
  moreover have "(append_result p n d s)\<lparr>dev := d'\<rparr> = append_result p n d' s" for n d d'
    by (simp add: append_result_def upd_zone_def)
  ultimately show ?thesis by (auto; metis le_add1)
qed

section \<open>What the zone code relies on from a backend\<close>

definition geometry :: "('d, 'e) backend_scheme \<Rightarrow> 'd \<Rightarrow> u32 \<times> u64 \<times> u32" where
  "geometry be d = (be_block_sz be d, be_zone_sz be d, be_nr_zones be d)"

lemma geometry_zone_sz: "geometry be d = geometry be d' \<Longrightarrow> be_zone_sz be d = be_zone_sz be d'"
  by (simp add: geometry_def)

locale zoned_backend =
  fixes be :: "('d, 'e) backend_scheme"
  assumes write_bound: "be_Write be data pos d = (ret, d') \<Longrightarrow> ret \<le> int (length data)"
    and write_geometry: "be_Write be data pos d = (ret, d') \<Longrightarrow> geometry be d' = geometry be d"
    and reset_geometry: "be_Reset be st d = (ios, off, mc, d') \<Longrightarrow> geometry be d' = geometry be d"
    and finish_geometry: "be_Finish be st d = (ios, d') \<Longrightarrow> geometry be d' = geometry be d"
    and close_geometry: "be_Close be st d = (ios, d') \<Longrightarrow> geometry be d' = geometry be d"
    and reset_capacity:
      "be_Reset be st d = (OK, False, mc, d') \<Longrightarrow> unat mc \<le> unat (be_zone_sz be d)"
begin

lemma Zone_Append_loop_geometry:
  assumes "Zone_Append_loop be p data s = Some r"
  shows "geometry be (dev (snd r)) = geometry be (dev s)"
proof -
  let ?I = "\<lambda>(data' :: byte list) s'. geometry be (dev s') = geometry be (dev s)"
  have "fst r = OK \<and> ?I [] (snd r) \<or>
    (\<exists>data s ret d. ?I data s \<and> data \<noteq> [] \<and> ret < 0 \<and>
       be_Write be data (z_wp (zheap s p)) (dev s) = (ret, d) \<and> r = (IOError, s\<lparr>dev := d\<rparr>))"
    by (rule Zone_Append_loop_rule [where I = ?I, OF assms])
      (simp_all add: append_result_def upd_zone_def write_geometry)
  then show ?thesis
  proof (elim disjE exE conjE)
    fix data' s' ret d
    assume "?I data' s'" "be_Write be data' (z_wp (zheap s' p)) (dev s') = (ret, d)"
      "r = (IOError, s'\<lparr>dev := d\<rparr>)"
    then show ?thesis using write_geometry by simp
  qed simp
qed

lemma zones_wf_same_geometry:
  assumes "zones_wf be s" "geometry be d = geometry be (dev s)"
    and "\<And>q. q \<in> set (io_zones s) \<union> set (meta_zones s) \<Longrightarrow>
      zone_wf (be_zone_sz be (dev s)) (zheap s q) \<Longrightarrow> zone_wf (be_zone_sz be (dev s)) (h q)"
  shows "zones_wf be (s\<lparr>dev := d, zheap := h\<rparr>)"
  using assms by (auto simp: zones_wf_def geometry_def)

lemma Zone_Reset_wf:
  assumes "zones_wf be s" "Zone_Reset be p s = (ios, s')"
  shows "zones_wf be s'"
proof -
  obtain i off mc d where R: "be_Reset be (z_start (zheap s p)) (dev s) = (i, off, mc, d)"
    by (metis prod_cases4)
  have g: "geometry be d = geometry be (dev s)" using R by (rule reset_geometry)
  have mc: "i = OK \<Longrightarrow> \<not> off \<Longrightarrow> unat mc \<le> unat (be_zone_sz be (dev s))"
    using R by (auto intro: reset_capacity)
  show ?thesis
  proof (cases "i = OK")
    case False
    with assms(2) R have "s' = s\<lparr>dev := d\<rparr>" by (simp add: Zone_Reset_def Let_def)
    then show ?thesis using zones_wf_same_geometry [OF assms(1) g, of "zheap s"] by simp
  next
    case True
    define h where "h = (zheap s)(p := (zheap s p)\<lparr>z_capacity := (if off then 0 else mc),
                  z_max_capacity := (if off then z_max_capacity (zheap s p) else mc),
                  z_wp := z_start (zheap s p), z_lifetime := WLTH_NOT_SET,
                  z_reset_count := z_reset_count (zheap s p) + 1, z_level := -1,
                  z_bytes_of_level := map (\<lambda>_. 0) (z_bytes_of_level (zheap s p))\<rparr>)"
    have "zone_wf (be_zone_sz be (dev s)) (h q)"
      if "zone_wf (be_zone_sz be (dev s)) (zheap s q)" for q
      using that mc True by (auto simp: h_def zone_wf_def)
    then have "zones_wf be (s\<lparr>dev := d, zheap := h\<rparr>)"
      by (intro zones_wf_same_geometry assms(1) g)
    moreover have "s' = s\<lparr>dev := d, zheap := h\<rparr>"
      using assms(2) R True by (cases off) (auto simp: Zone_Reset_def Let_def upd_zone_def h_def)
    ultimately show ?thesis by simp
  qed
qed

lemma Zone_Finish_wf:
  assumes "zones_wf be s" "Zone_Finish be p s = (ios, s')"
  shows "zones_wf be s'"
proof -
  obtain i d where R: "be_Finish be (z_start (zheap s p)) (dev s) = (i, d)" by fastforce
  have g: "geometry be d = geometry be (dev s)" using R by (rule finish_geometry)
  have z: "be_zone_sz be d = be_zone_sz be (dev s)" using g by (rule geometry_zone_sz)
  show ?thesis
  proof (cases "i = OK")
    case False
    with assms(2) R have "s' = s\<lparr>dev := d\<rparr>" by (simp add: Zone_Finish_def Let_def)
    then show ?thesis using zones_wf_same_geometry [OF assms(1) g, of "zheap s"] by simp
  next
    case True
    define h where "h = (zheap s)(p := (zheap s p)\<lparr>z_capacity := 0,
        z_wp := z_start (zheap s p) + be_zone_sz be (dev s),
        z_finish_count := z_finish_count (zheap s p) + 1\<rparr>)"
    have "zone_wf (be_zone_sz be (dev s)) (h q)"
      if "zone_wf (be_zone_sz be (dev s)) (zheap s q)" for q
      using that by (auto simp: h_def zone_wf_def u64_nat)
    then have "zones_wf be (s\<lparr>dev := d, zheap := h\<rparr>)"
      by (intro zones_wf_same_geometry assms(1) g)
    moreover have "s' = s\<lparr>dev := d, zheap := h\<rparr>"
      using assms(2) R True z by (simp add: Zone_Finish_def Let_def upd_zone_def h_def)
    ultimately show ?thesis by simp
  qed
qed

lemma Zone_Close_wf: "zones_wf be s \<Longrightarrow> Zone_Close be p s = (ios, s') \<Longrightarrow> zones_wf be s'"
  by (auto simp: Zone_Close_def zones_wf_def geometry_zone_sz [OF close_geometry]
      split: if_splits prod.splits)

lemma append_zone_wf:
  assumes "zone_wf zsz z" "n \<le> unat (z_capacity z)"
  shows "zone_wf zsz (z\<lparr>z_wp := z_wp z + of_nat n, z_capacity := z_capacity z - of_nat n\<rparr>)"
proof (cases "n = 0")
  case True
  then show ?thesis using assms by simp
next
  case False
  have n64: "n < 2 ^ 64" using assms(2) unat_lt_u64 [of "z_capacity z"] by simp
  have un: "unat (of_nat n :: u64) = n" using n64 by (rule unat_of_nat_u64)
  have c: "z_capacity z \<noteq> 0" using assms(2) False by auto
  have w: "unat (z_wp z) + unat (z_capacity z) = unat (z_start z) + unat (z_max_capacity z)"
    using assms(1) c by (simp add: zone_wf_def)
  have wp: "unat (z_wp z + of_nat n) = unat (z_wp z) + n"
    using unat_add_u64 [of "z_wp z" "of_nat n"] w assms un by (simp add: zone_wf_def)
  have cap: "unat (z_capacity z - of_nat n) = unat (z_capacity z) - n"
    using assms(2) un by (simp add: unat_sub_u64 word_le_nat_alt)
  show ?thesis using assms w wp cap by (auto simp: zone_wf_def word_le_nat_alt)
qed

lemma Zone_Append_wf:
  assumes "zones_wf be s" "Zone_Append be p data s = Some (ios, s')"
  shows "zones_wf be s'"
proof (cases "unat (z_capacity (zheap s p)) < length data")
  case True
  with assms show ?thesis by (simp add: Zone_Append_def)
next
  case False
  with assms(2) have L: "Zone_Append_loop be p data s = Some (ios, s')"
    by (simp add: Zone_Append_def)
  from Zone_Append_loop_frame [OF L] obtain n d
    where n: "n \<le> length data" and s': "s' = append_result p n d s" by auto
  have g: "geometry be (dev s') = geometry be (dev s)"
    using Zone_Append_loop_geometry [OF L] by simp
  define h where "h = (zheap s)(p := (zheap s p)\<lparr>z_wp := z_wp (zheap s p) + of_nat n,
      z_capacity := z_capacity (zheap s p) - of_nat n\<rparr>)"
  have "zone_wf (be_zone_sz be (dev s)) (h q)"
    if "zone_wf (be_zone_sz be (dev s)) (zheap s q)" for q
    using append_zone_wf that n False by (auto simp: h_def)
  then have "zones_wf be (s\<lparr>dev := d, zheap := h\<rparr>)"
    using g by (intro zones_wf_same_geometry assms(1)) (simp_all add: s' append_result_def upd_zone_def)
  then show ?thesis
    by (simp add: s' append_result_def upd_zone_def zones_wf_def h_def)
qed

end

text \<open>A backend that never reports a write of zero bytes: the loop of \<open>Append\<close> then ends.\<close>

locale progressing_backend = zoned_backend +
  assumes write_progress:
    "data \<noteq> [] \<Longrightarrow> be_Write be data pos d = (ret, d') \<Longrightarrow> ret \<noteq> 0"
begin

lemma Zone_Append_loop_returns: "\<exists>r. Zone_Append_loop be p data s = Some r"
proof (induction data arbitrary: s rule: length_induct)
  case (1 data)
  show ?case
  proof (cases "data = []")
    case True
    then show ?thesis by (simp add: Zone_Append_loop_Nil)
  next
    case False
    obtain ret d where w: "be_Write be data (z_wp (zheap s p)) (dev s) = (ret, d)" by fastforce
    have b: "ret \<le> int (length data)" "ret \<noteq> 0"
      using write_bound [OF w] write_progress [OF False w] by auto
    show ?thesis
    proof (cases "ret < 0")
      case True
      then show ?thesis using False w by (subst Zone_Append_loop.simps) simp
    next
      case nn: False
      have "length (drop (nat ret) data) < length data" using nn b False by simp
      then obtain r where
        "Zone_Append_loop be p (drop (nat ret) data) (append_result p (nat ret) d s) = Some r"
        using 1 by blast
      then show ?thesis using Zone_Append_loop_step [OF False w] nn b by auto
    qed
  qed
qed

lemma Zone_Append_returns: "\<exists>ios s'. Zone_Append be p data s = Some (ios, s')"
  using Zone_Append_loop_returns by (fastforce simp: Zone_Append_def)

end


section \<open>What the media holds\<close>

text \<open>
  The bytes on the media, as far as the sources rely on them: \<open>media d i\<close> is the byte at device
  offset \<open>i\<close>. A write stores its bytes, a read returns what is stored, a reset touches its zone only,
  finishing and closing keep the data.
\<close>

definition media_slice :: "(nat \<Rightarrow> byte) \<Rightarrow> nat \<Rightarrow> nat \<Rightarrow> byte list" where
  "media_slice m pos n = map m [pos..<pos + n]"

lemma length_media_slice [simp]: "length (media_slice m pos n) = n"
  by (simp add: media_slice_def)

lemma media_slice_0 [simp]: "media_slice m pos 0 = []"
  by (simp add: media_slice_def)

lemma media_slice_add: "media_slice m pos (a + b) = media_slice m pos a @ media_slice m (pos + a) b"
  by (simp add: media_slice_def flip: map_append upt_add_eq_append add.assoc)

lemma nth_media_slice [simp]: "i < n \<Longrightarrow> media_slice m pos n ! i = m (pos + i)"
  by (simp add: media_slice_def)

lemma media_slice_cong:
  "(\<And>i. pos \<le> i \<Longrightarrow> i < pos + n \<Longrightarrow> m i = m' i) \<Longrightarrow> media_slice m pos n = media_slice m' pos n"
  by (simp add: media_slice_def)

lemma media_slice_eqI:
  "length xs = n \<Longrightarrow> (\<And>i. i < n \<Longrightarrow> xs ! i = m (pos + i)) \<Longrightarrow> xs = media_slice m pos n"
  by (auto intro: nth_equalityI)

locale zoned_storage = zoned_backend be for be :: "('d, 'e) backend_scheme" +
  fixes media :: "'d \<Rightarrow> nat \<Rightarrow> byte"
  assumes write_in:
      "be_Write be data pos d = (ret, d') \<Longrightarrow> i < nat ret \<Longrightarrow> media d' (unat pos + i) = data ! i"
    and write_out: "be_Write be data pos d = (ret, d') \<Longrightarrow>
      i < unat pos \<or> unat pos + length data \<le> i \<Longrightarrow> media d' i = media d i"
    and read_bytes: "be_Read be n pos direct d = (r, e, bytes, d') \<Longrightarrow> 0 < r \<Longrightarrow>
      r \<le> n \<and> bytes = media_slice (media d) (unat pos) (nat r)"
    and read_keeps: "be_Read be n pos direct d = (r, e, bytes, d') \<Longrightarrow>
      media d' = media d \<and> geometry be d' = geometry be d"
    and reset_out: "be_Reset be st d = (ios, off, mc, d') \<Longrightarrow>
      i < unat st \<or> unat st + unat (be_zone_sz be d) \<le> i \<Longrightarrow> media d' i = media d i"
    and finish_media: "be_Finish be st d = (ios, d') \<Longrightarrow> media d' = media d"
    and close_media: "be_Close be st d = (ios, d') \<Longrightarrow> media d' = media d"
begin

text \<open>Writing \<open>data\<close> in several steps stores \<open>data\<close>, and nothing outside it changes.\<close>

lemma Zone_Append_loop_media:
  assumes L: "Zone_Append_loop be p data s = Some r"
    and fits: "unat (z_wp (zheap s p)) + length data < 2 ^ 64"
  shows "(i < unat (z_wp (zheap s p)) \<or> unat (z_wp (zheap s p)) + length data \<le> i \<longrightarrow>
      media (dev (snd r)) i = media (dev s) i) \<and>
    (fst r = OK \<longrightarrow> media_slice (media (dev (snd r))) (unat (z_wp (zheap s p))) (length data) = data)"
proof -
  define w where "w = unat (z_wp (zheap s p))"
  let ?I = "\<lambda>data' s'. \<exists>n. n + length data' = length data \<and> data' = drop n data \<and>
    unat (z_wp (zheap s' p)) = w + n \<and>
    media_slice (media (dev s')) w n = take n data \<and>
    (\<forall>i. i < w \<or> w + length data \<le> i \<longrightarrow> media (dev s') i = media (dev s) i)"
  have "fst r = OK \<and> ?I [] (snd r) \<or>
    (\<exists>data s ret d. ?I data s \<and> data \<noteq> [] \<and> ret < 0 \<and>
       be_Write be data (z_wp (zheap s p)) (dev s) = (ret, d) \<and> r = (IOError, s\<lparr>dev := d\<rparr>))"
  proof (rule Zone_Append_loop_rule [where I = ?I, OF L])
    show "?I data s" by (intro exI [of _ 0]) (simp add: w_def)
  next
    fix data' s' ret d
    assume "?I data' s'" and W: "be_Write be data' (z_wp (zheap s' p)) (dev s') = (ret, d)"
      and r0: "0 \<le> ret" and le: "nat ret \<le> length data'"
    then obtain n where n: "n + length data' = length data" "data' = drop n data"
      "unat (z_wp (zheap s' p)) = w + n" "media_slice (media (dev s')) w n = take n data"
      "\<And>i. i < w \<or> w + length data \<le> i \<Longrightarrow> media (dev s') i = media (dev s) i" by blast
    let ?s = "append_result p (nat ret) d s'"
    have dv: "dev ?s = d" by (simp add: append_result_def upd_zone_def)
    have wp: "unat (z_wp (zheap ?s p)) = w + (n + nat ret)"
      using fits le n(1,3) by (simp add: append_result_def upd_zone_def unat_add_u64 unat_of_nat_u64 w_def)
    have old: "media d i = media (dev s') i" if "i < w + n \<or> w + length data \<le> i" for i
      using write_out [OF W, of i] that n(1,3) by auto
    have "media_slice (media d) w n = take n data"
      using n(4) media_slice_cong [of w n "media d" "media (dev s')"] old by simp
    moreover have "media_slice (media d) (w + n) (nat ret) = take (nat ret) (drop n data)"
      using write_in [OF W] le n(2,3) by (intro media_slice_eqI [symmetric]) simp_all
    ultimately have "media_slice (media d) w (n + nat ret) = take (n + nat ret) data"
      by (simp add: media_slice_add take_add)
    then show "?I (drop (nat ret) data') ?s"
      using n le wp old dv by (intro exI [of _ "n + nat ret"]) (auto simp: add.commute)
  qed
  then show ?thesis
  proof (elim disjE exE conjE)
    fix data' s' ret d n
    assume a: "n + length data' = length data" "unat (z_wp (zheap s' p)) = w + n"
      "\<forall>i. i < w \<or> w + length data \<le> i \<longrightarrow> media (dev s') i = media (dev s) i"
      "be_Write be data' (z_wp (zheap s' p)) (dev s') = (ret, d)" "r = (IOError, s'\<lparr>dev := d\<rparr>)"
    then show ?thesis using write_out [OF a(4), of i] by (auto simp: w_def)
  qed (auto simp: w_def)
qed

end

text \<open>A backend whose calls make progress: no write of zero bytes, no interrupted read.\<close>

locale steady_storage = progressing_backend be + zoned_storage be media
  for be :: "('d, 'e) backend_scheme" and media +
  assumes read_steady: "be_Read be n pos direct d = (r, e, bytes, d') \<Longrightarrow> \<not> e"

end
