(* ===== verification/Zbdlib_Backend.thy ===== *)
theory Zbdlib_Backend
  imports Zone_Model
begin

text \<open>
  \<open>ZbdlibBackend\<close> (\<open>src/fs/zbdlib_zenfs.cc\<close>, \<open>src/fs/zbdlib_zenfs.h\<close>): the backend for a zoned block
  device. The calls into \<open>libzbd\<close> and the kernel are the fields of a record \<open>libzbd\<close> over the
  kernel's state, with their documented behaviour as the locale \<open>zbd_kernel\<close>. The backend built on
  such a kernel meets the contract of the zone code (a \<open>sublocale\<close>), and an in-memory zoned device
  shows that the contract can be met.
\<close>

section \<open>The library and the kernel\<close>

datatype zbd_cond =
  ZBD_NOT_WP | ZBD_EMPTY | ZBD_IMP_OPEN | ZBD_EXP_OPEN | ZBD_CLOSED | ZBD_RDONLY | ZBD_FULL | ZBD_OFFLINE

record zbd_zone =
  zz_swr :: bool
  zz_cond :: zbd_cond
  zz_start :: u64
  zz_capacity :: u64
  zz_wp :: u64

record zbd_info =
  i_host_managed :: bool
  i_pblock_size :: u32
  i_zone_size :: u64
  i_nr_zones :: u32
  i_max_nr_active_zones :: u32
  i_max_nr_open_zones :: u32

record open_flags =
  o_write :: bool
  o_excl :: bool
  o_direct :: bool

record 'k libzbd =
  k_zbd_open :: "string \<Rightarrow> open_flags \<Rightarrow> 'k \<Rightarrow> int \<times> zbd_info \<times> 'k"
  k_scheduler :: "string \<Rightarrow> 'k \<Rightarrow> string option"
  k_list_zones :: "int \<Rightarrow> u64 \<Rightarrow> u64 \<Rightarrow> 'k \<Rightarrow> int \<times> zbd_zone list"
  k_report_zones :: "int \<Rightarrow> u64 \<Rightarrow> u64 \<Rightarrow> 'k \<Rightarrow> int \<times> zbd_zone list"
  k_reset_zones :: "int \<Rightarrow> u64 \<Rightarrow> u64 \<Rightarrow> 'k \<Rightarrow> int \<times> 'k"
  k_finish_zones :: "int \<Rightarrow> u64 \<Rightarrow> u64 \<Rightarrow> 'k \<Rightarrow> int \<times> 'k"
  k_close_zones :: "int \<Rightarrow> u64 \<Rightarrow> u64 \<Rightarrow> 'k \<Rightarrow> int \<times> 'k"
  k_fadvise_dontneed :: "int \<Rightarrow> u64 \<Rightarrow> u64 \<Rightarrow> 'k \<Rightarrow> int"
  k_pread :: "int \<Rightarrow> int \<Rightarrow> u64 \<Rightarrow> 'k \<Rightarrow> int \<times> bool \<times> byte list"
  k_pwrite :: "int \<Rightarrow> byte list \<Rightarrow> u64 \<Rightarrow> 'k \<Rightarrow> int \<times> 'k"

section \<open>The backend\<close>

record 'k zbdlib =
  zb_filename :: string
  zb_read_f :: int
  zb_read_direct_f :: int
  zb_write_f :: int
  zb_block_sz :: u32
  zb_zone_sz :: u64
  zb_nr_zones :: u32
  zb_kernel :: 'k

text \<open>The constructor; the geometry members start as zero (\<open>zbd_zenfs.h\<close>).\<close>

definition ZbdlibBackend_new :: "string \<Rightarrow> 'k \<Rightarrow> 'k zbdlib" where
  "ZbdlibBackend_new bdevname k =
    \<lparr> zb_filename = ''/dev/'' @ bdevname, zb_read_f = -1, zb_read_direct_f = -1, zb_write_f = -1,
      zb_block_sz = 0, zb_zone_sz = 0, zb_nr_zones = 0, zb_kernel = k \<rparr>"

text \<open>\<open>buf.find(pat) != npos\<close>.\<close>

fun str_contains :: "string \<Rightarrow> string \<Rightarrow> bool" where
  "str_contains pat [] = (pat = [])"
| "str_contains pat (c # cs) = (take (length pat) (c # cs) = pat \<or> str_contains pat cs)"

definition CheckScheduler :: "('k, 'l) libzbd_scheme \<Rightarrow> 'k zbdlib \<Rightarrow> IOStatus" where
  "CheckScheduler k d =
    (case k_scheduler k (''/sys/block/'' @ drop 5 (zb_filename d) @ ''/queue/scheduler'') (zb_kernel d) of
       None \<Rightarrow> InvalidArgument
     | Some line \<Rightarrow> if str_contains ''[mq-deadline]'' line then OK else InvalidArgument)"

definition Zbdlib_Open :: "('k, 'l) libzbd_scheme \<Rightarrow> bool \<Rightarrow> bool \<Rightarrow> 'k zbdlib
    \<Rightarrow> IOStatus \<times> u32 \<times> u32 \<times> 'k zbdlib" where
  "Zbdlib_Open k readonly exclusive d =
    (case k_zbd_open k (zb_filename d) \<lparr>o_write = False, o_excl = exclusive, o_direct = False\<rparr> (zb_kernel d)
     of (f1, info1, k1) \<Rightarrow>
       let d1 = d\<lparr>zb_read_f := f1, zb_kernel := k1\<rparr>
       in if f1 < 0 then (InvalidArgument, 0, 0, d1)
          else case k_zbd_open k (zb_filename d)
                 \<lparr>o_write = False, o_excl = False, o_direct = True\<rparr> k1 of (f2, info2, k2) \<Rightarrow>
            let d2 = d1\<lparr>zb_read_direct_f := f2, zb_kernel := k2\<rparr>
            in if f2 < 0 then (InvalidArgument, 0, 0, d2)
               else case (if readonly then (-1, info2, k2)
                          else k_zbd_open k (zb_filename d)
                                 \<lparr>o_write = True, o_excl = False, o_direct = True\<rparr> k2)
                    of (f3, info, k3) \<Rightarrow>
                 let d3 = d2\<lparr>zb_write_f := f3, zb_kernel := k3\<rparr>
                 in if \<not> readonly \<and> f3 < 0 then (InvalidArgument, 0, 0, d3)
                    else if \<not> i_host_managed info then (NotSupported, 0, 0, d3)
                    else if CheckScheduler k d3 \<noteq> OK then (CheckScheduler k d3, 0, 0, d3)
                    else (OK, i_max_nr_active_zones info, i_max_nr_open_zones info,
                          d3\<lparr>zb_block_sz := i_pblock_size info, zb_zone_sz := i_zone_size info,
                             zb_nr_zones := i_nr_zones info\<rparr>))"

text \<open>The accessors of the header, applied to one reported zone.\<close>

definition zbdlib_report :: "zbd_zone \<Rightarrow> zone_report" where
  "zbdlib_report z =
    \<lparr> r_swr = zz_swr z, r_offline = (zz_cond z = ZBD_OFFLINE),
      r_writable = (\<not> (zz_cond z = ZBD_FULL \<or> zz_cond z = ZBD_OFFLINE \<or> zz_cond z = ZBD_RDONLY)),
      r_active = (zz_cond z = ZBD_IMP_OPEN \<or> zz_cond z = ZBD_EXP_OPEN \<or> zz_cond z = ZBD_CLOSED),
      r_open = (zz_cond z = ZBD_IMP_OPEN \<or> zz_cond z = ZBD_EXP_OPEN),
      r_start = zz_start z, r_max_capacity = zz_capacity z, r_wp = zz_wp z \<rparr>"

definition Zbdlib_ListZones :: "('k, 'l) libzbd_scheme \<Rightarrow> 'k zbdlib \<Rightarrow> zone_report list option" where
  "Zbdlib_ListZones k d =
    (case k_list_zones k (zb_read_f d) 0 (zb_zone_sz d * ucast (zb_nr_zones d)) (zb_kernel d)
     of (ret, zones) \<Rightarrow> if ret \<noteq> 0 then None else Some (map zbdlib_report zones))"

definition Zbdlib_Reset :: "('k, 'l) libzbd_scheme \<Rightarrow> u64 \<Rightarrow> 'k zbdlib
    \<Rightarrow> IOStatus \<times> bool \<times> u64 \<times> 'k zbdlib" where
  "Zbdlib_Reset k start d =
    (case k_reset_zones k (zb_write_f d) start (zb_zone_sz d) (zb_kernel d) of (ret, k1) \<Rightarrow>
       let d1 = d\<lparr>zb_kernel := k1\<rparr>
       in if ret \<noteq> 0 then (IOError, False, 0, d1)
          else case k_report_zones k (zb_read_f d) start (zb_zone_sz d) k1 of (ret, zs) \<Rightarrow>
            case zs of
              [z] \<Rightarrow> if ret \<noteq> 0 then (IOError, False, 0, d1)
                     else if zz_cond z = ZBD_OFFLINE then (OK, True, 0, d1)
                     else (OK, False, zz_capacity z, d1)
            | _ \<Rightarrow> (IOError, False, 0, d1))"

definition Zbdlib_Finish :: "('k, 'l) libzbd_scheme \<Rightarrow> u64 \<Rightarrow> 'k zbdlib \<Rightarrow> IOStatus \<times> 'k zbdlib" where
  "Zbdlib_Finish k start d =
    (case k_finish_zones k (zb_write_f d) start (zb_zone_sz d) (zb_kernel d) of (ret, k1) \<Rightarrow>
       (if ret \<noteq> 0 then IOError else OK, d\<lparr>zb_kernel := k1\<rparr>))"

definition Zbdlib_Close :: "('k, 'l) libzbd_scheme \<Rightarrow> u64 \<Rightarrow> 'k zbdlib \<Rightarrow> IOStatus \<times> 'k zbdlib" where
  "Zbdlib_Close k start d =
    (case k_close_zones k (zb_write_f d) start (zb_zone_sz d) (zb_kernel d) of (ret, k1) \<Rightarrow>
       (if ret \<noteq> 0 then IOError else OK, d\<lparr>zb_kernel := k1\<rparr>))"

definition Zbdlib_InvalidateCache :: "('k, 'l) libzbd_scheme \<Rightarrow> u64 \<Rightarrow> u64 \<Rightarrow> 'k zbdlib
    \<Rightarrow> int \<times> 'k zbdlib" where
  "Zbdlib_InvalidateCache k pos len d =
    (k_fadvise_dontneed k (zb_read_f d) pos len (zb_kernel d), d)"

definition Zbdlib_Read :: "('k, 'l) libzbd_scheme \<Rightarrow> int \<Rightarrow> u64 \<Rightarrow> bool \<Rightarrow> 'k zbdlib
    \<Rightarrow> int \<times> bool \<times> byte list \<times> 'k zbdlib" where
  "Zbdlib_Read k n pos direct d =
    (case k_pread k (if direct then zb_read_direct_f d else zb_read_f d) n pos (zb_kernel d)
     of (r, eintr, bytes) \<Rightarrow> (r, eintr, bytes, d))"

definition Zbdlib_Write :: "('k, 'l) libzbd_scheme \<Rightarrow> byte list \<Rightarrow> u64 \<Rightarrow> 'k zbdlib
    \<Rightarrow> int \<times> 'k zbdlib" where
  "Zbdlib_Write k data pos d =
    (case k_pwrite k (zb_write_f d) data pos (zb_kernel d) of (r, k1) \<Rightarrow> (r, d\<lparr>zb_kernel := k1\<rparr>))"

definition zbdlib_backend :: "('k, 'l) libzbd_scheme \<Rightarrow> 'k zbdlib backend" where
  "zbdlib_backend k =
    \<lparr> be_block_sz = zb_block_sz, be_zone_sz = zb_zone_sz, be_nr_zones = zb_nr_zones,
      be_Open = Zbdlib_Open k, be_ListZones = Zbdlib_ListZones k, be_Reset = Zbdlib_Reset k,
      be_Finish = Zbdlib_Finish k, be_Close = Zbdlib_Close k, be_Read = Zbdlib_Read k,
      be_Write = Zbdlib_Write k, be_InvalidateCache = Zbdlib_InvalidateCache k \<rparr>"

lemma zbdlib_backend_sel [simp]:
  "be_block_sz (zbdlib_backend k) = zb_block_sz" "be_zone_sz (zbdlib_backend k) = zb_zone_sz"
  "be_nr_zones (zbdlib_backend k) = zb_nr_zones" "be_Open (zbdlib_backend k) = Zbdlib_Open k"
  "be_ListZones (zbdlib_backend k) = Zbdlib_ListZones k"
  "be_Reset (zbdlib_backend k) = Zbdlib_Reset k" "be_Finish (zbdlib_backend k) = Zbdlib_Finish k"
  "be_Close (zbdlib_backend k) = Zbdlib_Close k" "be_Read (zbdlib_backend k) = Zbdlib_Read k"
  "be_Write (zbdlib_backend k) = Zbdlib_Write k"
  "be_InvalidateCache (zbdlib_backend k) = Zbdlib_InvalidateCache k"
  by (simp_all add: zbdlib_backend_def)

lemmas zbdlib_ops = Zbdlib_Reset_def Zbdlib_Finish_def Zbdlib_Close_def Zbdlib_Read_def
  Zbdlib_Write_def Zbdlib_InvalidateCache_def

section \<open>The contract of the kernel\<close>

text \<open>
  \<open>kmedia\<close> is what the device stores. The laws are those of \<open>pread\<close>, \<open>pwrite\<close> and the zone management
  calls: a transfer reports at most what was asked for and moves that many bytes; a write touches
  its range only, a reset its zones only; finish and close change no data; a zone's capacity is at
  most the length of the range that reports it alone.
\<close>

locale zbd_kernel =
  fixes k :: "('k, 'l) libzbd_scheme" and kmedia :: "'k \<Rightarrow> nat \<Rightarrow> byte"
  assumes pwrite_count: "k_pwrite k fd data pos st = (r, st') \<Longrightarrow> r \<le> int (length data)"
    and pwrite_in:
      "k_pwrite k fd data pos st = (r, st') \<Longrightarrow> i < nat r \<Longrightarrow> kmedia st' (unat pos + i) = data ! i"
    and pwrite_out: "k_pwrite k fd data pos st = (r, st') \<Longrightarrow>
      i < unat pos \<or> unat pos + length data \<le> i \<Longrightarrow> kmedia st' i = kmedia st i"
    and pread_bytes: "k_pread k fd n pos st = (r, e, bytes) \<Longrightarrow> 0 < r \<Longrightarrow>
      r \<le> n \<and> bytes = media_slice (kmedia st) (unat pos) (nat r)"
    and reset_zones_out: "k_reset_zones k fd ofs len st = (r, st') \<Longrightarrow>
      i < unat ofs \<or> unat ofs + unat len \<le> i \<Longrightarrow> kmedia st' i = kmedia st i"
    and finish_keeps: "k_finish_zones k fd ofs len st = (r, st') \<Longrightarrow> kmedia st' = kmedia st"
    and close_keeps: "k_close_zones k fd ofs len st = (r, st') \<Longrightarrow> kmedia st' = kmedia st"
    and report_capacity:
      "k_report_zones k fd ofs len st = (0, [z]) \<Longrightarrow> unat (zz_capacity z) \<le> unat len"

sublocale zbd_kernel \<subseteq> zoned_storage "zbdlib_backend k" "\<lambda>d. kmedia (zb_kernel d)"
proof unfold_locales
  show "ret \<le> int (length data)" if "be_Write (zbdlib_backend k) data pos d = (ret, d')"
    for data pos d ret d'
    using that pwrite_count by (auto simp: zbdlib_ops split: prod.splits)
  show "unat mc \<le> unat (be_zone_sz (zbdlib_backend k) d)"
    if "be_Reset (zbdlib_backend k) st d = (OK, False, mc, d')" for st d mc d'
    using that report_capacity by (auto simp: zbdlib_ops Let_def split: prod.splits if_splits list.splits)
qed (auto simp: zbdlib_ops geometry_def Let_def
    dest: pwrite_in pwrite_out pread_bytes reset_zones_out finish_keeps close_keeps
    split: prod.splits if_splits list.splits)

text \<open>A kernel that makes progress with every call.\<close>

locale steady_kernel = zbd_kernel +
  assumes pwrite_progress: "data \<noteq> [] \<Longrightarrow> k_pwrite k fd data pos st = (r, st') \<Longrightarrow> r \<noteq> 0"
    and pread_steady: "k_pread k fd n pos st = (r, e, bytes) \<Longrightarrow> \<not> e"

sublocale steady_kernel \<subseteq> steady_storage "zbdlib_backend k" "\<lambda>d. kmedia (zb_kernel d)"
  by unfold_locales
    (auto simp: zbdlib_ops dest: pwrite_progress pread_steady split: prod.splits)

section \<open>An in-memory zoned device\<close>

text \<open>
  A device with the semantics of a host-managed drive: a write must start at a zone's write pointer
  and fit its capacity, and it advances the write pointer; a reset rewinds it.
\<close>

record ram =
  ram_info :: zbd_info
  ram_zones :: "zbd_zone list"
  ram_media :: "nat \<Rightarrow> byte"

definition ram_map_zone :: "u64 \<Rightarrow> (zbd_zone \<Rightarrow> zbd_zone) \<Rightarrow> ram \<Rightarrow> ram" where
  "ram_map_zone ofs f st =
    st\<lparr>ram_zones := map (\<lambda>z. if zz_start z = ofs then f z else z) (ram_zones st)\<rparr>"

definition ram_accepts :: "u64 \<Rightarrow> nat \<Rightarrow> zbd_zone \<Rightarrow> bool" where
  "ram_accepts pos n z \<longleftrightarrow> zz_wp z = pos \<and> unat pos + n \<le> unat (zz_start z) + unat (zz_capacity z)"

definition ram_store :: "byte list \<Rightarrow> nat \<Rightarrow> (nat \<Rightarrow> byte) \<Rightarrow> nat \<Rightarrow> byte" where
  "ram_store data pos m i = (if pos \<le> i \<and> i < pos + length data then data ! (i - pos) else m i)"

definition ram_pwrite :: "int \<Rightarrow> byte list \<Rightarrow> u64 \<Rightarrow> ram \<Rightarrow> int \<times> ram" where
  "ram_pwrite fd data pos st =
    (if list_ex (ram_accepts pos (length data)) (ram_zones st)
     then (int (length data),
           st\<lparr>ram_media := ram_store data (unat pos) (ram_media st),
              ram_zones := map (\<lambda>z. if ram_accepts pos (length data) z
                                   then z\<lparr>zz_wp := zz_wp z + of_nat (length data),
                                          zz_cond := ZBD_IMP_OPEN\<rparr> else z) (ram_zones st)\<rparr>)
     else (-1, st))"

definition ram_kernel :: "ram libzbd" where
  "ram_kernel =
    \<lparr> k_zbd_open = (\<lambda>name flags st. (3, ram_info st, st)),
      k_scheduler = (\<lambda>path st. Some ''none [mq-deadline] kyber''),
      k_list_zones = (\<lambda>fd ofs len st. (0, ram_zones st)),
      k_report_zones = (\<lambda>fd ofs len st.
        (0, filter (\<lambda>z. zz_start z = ofs \<and> zz_capacity z \<le> len) (ram_zones st))),
      k_reset_zones = (\<lambda>fd ofs len st.
        (0, ram_map_zone ofs (\<lambda>z. z\<lparr>zz_wp := zz_start z, zz_cond := ZBD_EMPTY\<rparr>) st)),
      k_finish_zones = (\<lambda>fd ofs len st.
        (0, ram_map_zone ofs (\<lambda>z. z\<lparr>zz_wp := zz_start z + len, zz_cond := ZBD_FULL\<rparr>) st)),
      k_close_zones = (\<lambda>fd ofs len st. (0, ram_map_zone ofs (\<lambda>z. z\<lparr>zz_cond := ZBD_CLOSED\<rparr>) st)),
      k_fadvise_dontneed = (\<lambda>fd pos len st. 0),
      k_pread = (\<lambda>fd n pos st. (n, False, media_slice (ram_media st) (unat pos) (nat n))),
      k_pwrite = ram_pwrite \<rparr>"

interpretation ram: steady_kernel ram_kernel ram_media
proof unfold_locales
  show "unat (zz_capacity z) \<le> unat len"
    if "k_report_zones ram_kernel fd ofs len st = (0, [z])" for fd ofs len st z
  proof -
    have "filter (\<lambda>z. zz_start z = ofs \<and> zz_capacity z \<le> len) (ram_zones st) = [z]"
      using that by (simp add: ram_kernel_def)
    then have "z \<in> set (filter (\<lambda>z. zz_start z = ofs \<and> zz_capacity z \<le> len) (ram_zones st))" by simp
    then show ?thesis by (simp add: word_le_nat_alt)
  qed
qed (auto simp: ram_kernel_def ram_pwrite_def ram_store_def ram_map_zone_def split: if_splits)

abbreviation ram_backend :: "ram zbdlib backend" where
  "ram_backend \<equiv> zbdlib_backend ram_kernel"

abbreviation ram_bytes :: "ram zbdlib \<Rightarrow> nat \<Rightarrow> byte" where
  "ram_bytes d \<equiv> ram_media (zb_kernel d)"

text \<open>A device with zones of 4 KiB, of which 3 KiB can be written, with blocks of 64 bytes.\<close>

definition ram_zone_at :: "nat \<Rightarrow> zbd_zone" where
  "ram_zone_at i = \<lparr>zz_swr = True, zz_cond = ZBD_EMPTY, zz_start = of_nat (4096 * i),
     zz_capacity = 3072, zz_wp = of_nat (4096 * i)\<rparr>"

definition ram_device :: "zbd_zone list \<Rightarrow> ram zbdlib" where
  "ram_device zs = ZbdlibBackend_new ''nvme0n1''
    \<lparr> ram_info = \<lparr>i_host_managed = True, i_pblock_size = 64, i_zone_size = 4096, i_nr_zones = of_nat (length zs),
        i_max_nr_active_zones = 14, i_max_nr_open_zones = 14\<rparr>,
      ram_zones = zs, ram_media = (\<lambda>_. 0) \<rparr>"

end
