(* ===== verification/Zbd_Device.thy ===== *)
theory Zbd_Device
  imports Zbdlib_Backend
begin

text \<open>
  The zone bookkeeping of class \<open>ZonedBlockDevice\<close> (\<open>src/fs/zbd_zenfs.cc\<close>): opening the device,
  space accounting, the open and active zone tokens, resetting and finishing zones, allocation of
  metadata zones, the read loop, the migration lock and the deferred error status. Placement of data
  is in the later theories.

  The loops over \<open>io_zones\<close> and \<open>meta_zones\<close> are recursions over the remaining zones. Two
  invariants run through the theory: the geometry of every zone (\<open>zones_wf\<close>) and the balance of the
  active tokens (\<open>active_balanced\<close>): the counter equals the number of zones that are neither empty
  nor full plus the tokens handed out for zones about to be opened.
\<close>

section \<open>Opening the device\<close>

abbreviation (input) ZENFS_META_ZONES :: nat where "ZENFS_META_ZONES \<equiv> 3"
abbreviation (input) ZENFS_MIN_ZONES :: u32 where "ZENFS_MIN_ZONES \<equiv> 32"

text \<open>
  The members of a new \<open>ZonedBlockDevice\<close> with the loaded parameters. The members the constructor
  leaves unset (the limits and the two token counters) are set by \<open>Open\<close> before they are read.
\<close>

definition ZonedBlockDevice_new :: "zenfs_params \<Rightarrow> 'd \<Rightarrow> 'd zbd" where
  "ZonedBlockDevice_new ps d =
    \<lparr> dev = d, zheap = (\<lambda>_. Zone_new \<lparr>r_swr = True, r_offline = True, r_writable = False,
        r_active = False, r_open = False, r_start = 0, r_max_capacity = 0, r_wp = 0\<rparr> 0),
      next_zptr = 0, id_counter = 0, io_zones = [], meta_zones = [],
      zone_start_to_pointer_map = Map.empty, zone_index_to_pointer_map = Map.empty,
      finish_threshold = 0, bytes_written = 0, gc_bytes_written = 0, finish_bytes_written = 0,
      active_io_zones = 0, open_io_zones = 0, zone_deferred_status = OK, migrating = False,
      max_nr_active_io_zones = 0, max_nr_open_io_zones = 0, alloc_count = 0, failure_count = 0,
      total_reset_count = 0, gc_reset_count = 0, nearest_real_success = 0, nearest_need_new = 0,
      nearest_got_new = 0, need_flag = False, params = ps, seq_zone_pos = 0, rng_state = 0 \<rparr>"

text \<open>\<open>new Zone(this, zbd_be_.get(), zone_rep, i)\<close>: the next heap cell and the next zone id.\<close>

definition new_Zone :: "zone_report \<Rightarrow> ('d, 'm) zbd_scheme \<Rightarrow> zptr \<times> ('d, 'm) zbd_scheme" where
  "new_Zone r s =
    (next_zptr s,
     s\<lparr>zheap := (zheap s)(next_zptr s := Zone_new r (id_counter s)),
       next_zptr := next_zptr s + 1, id_counter := id_counter s + 1\<rparr>)"

text \<open>The two index maps record every zone the device uses.\<close>

definition register_zone :: "('d, 'e) backend_scheme \<Rightarrow> zptr \<Rightarrow> ('d, 'm) zbd_scheme
    \<Rightarrow> ('d, 'm) zbd_scheme" where
  "register_zone be p s =
    s\<lparr>zone_start_to_pointer_map := (zone_start_to_pointer_map s)(z_start (zheap s p) \<mapsto> p),
      zone_index_to_pointer_map :=
        (zone_index_to_pointer_map s)(GetZoneNr be (dev s) (zheap s p) \<mapsto> p)\<rparr>"

text \<open>
  The first loop takes the first three sequential-write-required zones for metadata, counting
  offline ones without using them, and leaves the rest of the report; the second makes the
  remaining ones I/O zones, counts the active ones and closes the open ones.
\<close>

fun Open_meta :: "('d, 'e) backend_scheme \<Rightarrow> nat \<Rightarrow> zone_report list \<Rightarrow> ('d, 'm) zbd_scheme
    \<Rightarrow> zone_report list \<times> ('d, 'm) zbd_scheme" where
  "Open_meta be m [] s = ([], s)"
| "Open_meta be m (r # rs) s =
    (if m < ZENFS_META_ZONES then
       (if r_swr r then
          (if \<not> r_offline r then
             (case new_Zone r s of (p, s1) \<Rightarrow>
                Open_meta be (m + 1) rs
                  (register_zone be p (s1\<lparr>meta_zones := meta_zones s1 @ [p]\<rparr>)))
           else Open_meta be (m + 1) rs s)
        else Open_meta be m rs s)
     else (r # rs, s))"

fun Open_io :: "('d, 'e) backend_scheme \<Rightarrow> bool \<Rightarrow> zone_report list \<Rightarrow> ('d, 'm) zbd_scheme
    \<Rightarrow> IOStatus \<times> ('d, 'm) zbd_scheme" where
  "Open_io be readonly [] s = (OK, s)"
| "Open_io be readonly (r # rs) s =
    (if r_swr r \<and> \<not> r_offline r then
       (case new_Zone r s of (p, s1) \<Rightarrow>
          case Zone_Acquire p s1 of (got, s2) \<Rightarrow>
            if \<not> got then (Corruption, s2)
            else
              let s3 = register_zone be p (s2\<lparr>io_zones := io_zones s2 @ [p]\<rparr>);
                  s4 = (if r_active r
                        then let s4 = s3\<lparr>active_io_zones := active_io_zones s3 + 1\<rparr>
                             in if r_open r \<and> \<not> readonly then snd (Zone_Close be p s4) else s4
                        else s3)
              in case Zone_CheckRelease p s4 of (status, s5) \<Rightarrow>
                   if status \<noteq> OK then (status, s5) else Open_io be readonly rs s5)
     else Open_io be readonly rs s)"

definition Zbd_Open :: "('d, 'e) backend_scheme \<Rightarrow> bool \<Rightarrow> bool \<Rightarrow> ('d, 'm) zbd_scheme
    \<Rightarrow> IOStatus \<times> ('d, 'm) zbd_scheme" where
  "Zbd_Open be readonly exclusive s =
    (if \<not> readonly \<and> \<not> exclusive then (InvalidArgument, s)
     else case be_Open be readonly exclusive (dev s) of (ios, max_active, max_open, d) \<Rightarrow>
       let s1 = s\<lparr>dev := d\<rparr>; nr = be_nr_zones be d
       in if ios \<noteq> OK then (ios, s1)
          else if nr < ZENFS_MIN_ZONES then (NotSupported, s1)
          else
            let s2 = s1\<lparr>max_nr_active_io_zones := (if max_active = 0 then nr else max_active - 2),
                        max_nr_open_io_zones := (if max_open = 0 then nr else max_open - 2)\<rparr>
            in case be_ListZones be d of
                 None \<Rightarrow> (IOError, s2)
               | Some rep \<Rightarrow>
                   if length rep \<noteq> unat nr then (IOError, s2)
                   else case Open_meta be 0 rep s2 of (rest, s3) \<Rightarrow>
                     Open_io be readonly rest (s3\<lparr>active_io_zones := 0, open_io_zones := 0\<rparr>))"

section \<open>Zone lookup and space accounting\<close>

definition GetIOZone ::
  "('d, 'e) backend_scheme \<Rightarrow> u64 \<Rightarrow> ('d, 'm) zbd_scheme \<Rightarrow> zptr option" where
  "GetIOZone be offset s =
    List.find (\<lambda>p. z_start (zheap s p) \<le> offset \<and>
      offset < z_start (zheap s p) + be_zone_sz be (dev s)) (io_zones s)"

definition GetFreeSpace :: "('d, 'm) zbd_scheme \<Rightarrow> u64" where
  "GetFreeSpace s = foldl (\<lambda>free p. free + z_capacity (zheap s p)) 0 (io_zones s)"

definition GetUsedSpace :: "('d, 'm) zbd_scheme \<Rightarrow> u64" where
  "GetUsedSpace s = foldl (\<lambda>used p. used + z_used (zheap s p)) 0 (io_zones s)"

definition GetReclaimableSpace :: "('d, 'm) zbd_scheme \<Rightarrow> u64" where
  "GetReclaimableSpace s =
    foldl (\<lambda>r p. if IsFull (zheap s p)
                 then r + (z_max_capacity (zheap s p) - z_used (zheap s p)) else r) 0 (io_zones s)"

text \<open>The division traps when the device has no space at all.\<close>

definition GetFreePercent :: "('d, 'm) zbd_scheme \<Rightarrow> u64 option" where
  "GetFreePercent s =
    (let non_free = GetUsedSpace s + GetReclaimableSpace s; free = GetFreeSpace s
     in if free + non_free = 0 then None else Some ((100 * free) div (free + non_free)))"

definition GetEmptyZoneCount :: "('d, 'm) zbd_scheme \<Rightarrow> u64" where
  "GetEmptyZoneCount s =
    foldl (\<lambda>count p. if IsEmpty (zheap s p) then count + 1 else count) 0 (io_zones s)"

section \<open>Tokens\<close>

text \<open>
  \<open>WaitForOpenIOZoneToken\<close> returns when a token is available; with nobody to return one it waits for
  ever (\<open>None\<close>). The limit of an allocator without priority is computed in \<open>unsigned int\<close>.
\<close>

definition allocator_open_limit :: "bool \<Rightarrow> ('d, 'm) zbd_scheme \<Rightarrow> int" where
  "allocator_open_limit prioritized s =
    (if prioritized then uint (max_nr_open_io_zones s) else uint (max_nr_open_io_zones s - 1))"

definition WaitForOpenIOZoneToken ::
  "bool \<Rightarrow> ('d, 'm) zbd_scheme \<Rightarrow> ('d, 'm) zbd_scheme option" where [token_ops]:
  "WaitForOpenIOZoneToken prioritized s =
    (if open_io_zones s < allocator_open_limit prioritized s
     then Some (s\<lparr>open_io_zones := open_io_zones s + 1\<rparr>) else None)"

definition GetActiveIOZoneTokenIfAvailable ::
  "('d, 'm) zbd_scheme \<Rightarrow> bool \<times> ('d, 'm) zbd_scheme" where [token_ops]:
  "GetActiveIOZoneTokenIfAvailable s =
    (if active_io_zones s < uint (max_nr_active_io_zones s)
     then (True, s\<lparr>active_io_zones := active_io_zones s + 1\<rparr>) else (False, s))"

definition PutOpenIOZoneToken :: "('d, 'm) zbd_scheme \<Rightarrow> ('d, 'm) zbd_scheme" where [token_ops]:
  "PutOpenIOZoneToken s = s\<lparr>open_io_zones := open_io_zones s - 1\<rparr>"

definition PutActiveIOZoneToken :: "('d, 'm) zbd_scheme \<Rightarrow> ('d, 'm) zbd_scheme" where [token_ops]:
  "PutActiveIOZoneToken s = s\<lparr>active_io_zones := active_io_zones s - 1\<rparr>"

section \<open>Resetting, finishing and allocating zones\<close>

fun AllocateMetaZone_loop :: "('d, 'e) backend_scheme \<Rightarrow> zptr list \<Rightarrow> ('d, 'm) zbd_scheme
    \<Rightarrow> IOStatus \<times> zptr option \<times> ('d, 'm) zbd_scheme" where
  "AllocateMetaZone_loop be [] s = (NoSpace, None, s)"
| "AllocateMetaZone_loop be (z # zs) s =
    (case Zone_Acquire z s of (got, s1) \<Rightarrow>
       if \<not> got then AllocateMetaZone_loop be zs s1
       else if IsUsed (zheap s1 z) then AllocateMetaZone_loop be zs s1
       else if IsEmpty (zheap s1 z) then (OK, Some z, s1)
       else case Zone_Reset be z s1 of (reset, s2) \<Rightarrow>
         if reset = OK then (OK, Some z, s2)
         else case Zone_CheckRelease z s2 of (status, s3) \<Rightarrow>
           if status \<noteq> OK then (status, None, s3) else AllocateMetaZone_loop be zs s3)"

definition AllocateMetaZone :: "('d, 'e) backend_scheme \<Rightarrow> ('d, 'm) zbd_scheme
    \<Rightarrow> IOStatus \<times> zptr option \<times> ('d, 'm) zbd_scheme" where
  "AllocateMetaZone be s = AllocateMetaZone_loop be (meta_zones s) s"

fun ResetUnusedIOZones_loop :: "('d, 'e) backend_scheme \<Rightarrow> bool \<Rightarrow> zptr list
    \<Rightarrow> ('d, 'm) zbd_scheme \<Rightarrow> IOStatus \<times> ('d, 'm) zbd_scheme" where
  "ResetUnusedIOZones_loop be gc [] s = (OK, s)"
| "ResetUnusedIOZones_loop be gc (z # zs) s =
    (case Zone_Acquire z s of (got, s1) \<Rightarrow>
       if \<not> got then ResetUnusedIOZones_loop be gc zs s1
       else if \<not> IsEmpty (zheap s1 z) \<and> \<not> IsUsed (zheap s1 z) then
         let full = IsFull (zheap s1 z)
         in case Zone_Reset be z s1 of (reset_status, s2) \<Rightarrow>
            case Zone_CheckRelease z s2 of (release_status, s3) \<Rightarrow>
              if reset_status \<noteq> OK then (reset_status, s3)
              else if release_status \<noteq> OK then (release_status, s3)
              else
                let s4 = (if \<not> full then PutActiveIOZoneToken s3 else s3);
                    s5 = s4\<lparr>total_reset_count := total_reset_count s4 + 1\<rparr>;
                    s6 = (if gc then upd_zone z (z_flag_gc_reset_update (\<lambda>_. True))
                                      (s5\<lparr>gc_reset_count := gc_reset_count s5 + 1\<rparr>) else s5)
                in ResetUnusedIOZones_loop be gc zs s6
       else case Zone_CheckRelease z s1 of (release_status, s2) \<Rightarrow>
         if release_status \<noteq> OK then (release_status, s2)
         else ResetUnusedIOZones_loop be gc zs s2)"

definition ResetUnusedIOZones :: "('d, 'e) backend_scheme \<Rightarrow> bool \<Rightarrow> ('d, 'm) zbd_scheme
    \<Rightarrow> IOStatus \<times> ('d, 'm) zbd_scheme" where
  "ResetUnusedIOZones be gc s = ResetUnusedIOZones_loop be gc (io_zones s) s"

text \<open>\<open>z->capacity_ < (z->max_capacity_ * finish_threshold_ / 100)\<close>, in \<open>uint64_t\<close>.\<close>

definition within_finish_threshold :: "('d, 'm) zbd_scheme \<Rightarrow> zone \<Rightarrow> bool" where
  "within_finish_threshold s z =
    (z_capacity z < z_max_capacity z * ucast (finish_threshold s) div 100)"

fun ApplyFinishThreshold_loop :: "('d, 'e) backend_scheme \<Rightarrow> zptr list \<Rightarrow> ('d, 'm) zbd_scheme
    \<Rightarrow> IOStatus \<times> ('d, 'm) zbd_scheme" where
  "ApplyFinishThreshold_loop be [] s = (OK, s)"
| "ApplyFinishThreshold_loop be (z # zs) s =
    (case Zone_Acquire z s of (got, s1) \<Rightarrow>
       if \<not> got then ApplyFinishThreshold_loop be zs s1
       else
         let zn = zheap s1 z
         in if \<not> (IsEmpty zn \<or> IsFull zn) \<and> within_finish_threshold s1 zn then
              (case Zone_Finish be z s1 of (st, s2) \<Rightarrow>
                 if st \<noteq> OK then (st, snd (Zone_Release z s2))
                 else case Zone_CheckRelease z s2 of (st, s3) \<Rightarrow>
                   if st \<noteq> OK then (st, s3)
                   else ApplyFinishThreshold_loop be zs (PutActiveIOZoneToken s3))
            else case Zone_CheckRelease z s1 of (st, s2) \<Rightarrow>
              if st \<noteq> OK then (st, s2) else ApplyFinishThreshold_loop be zs s2)"

definition ApplyFinishThreshold :: "('d, 'e) backend_scheme \<Rightarrow> ('d, 'm) zbd_scheme
    \<Rightarrow> IOStatus \<times> ('d, 'm) zbd_scheme" where
  "ApplyFinishThreshold be s =
    (if finish_threshold s = 0 then (OK, s) else ApplyFinishThreshold_loop be (io_zones s) s)"

text \<open>The search for the victim keeps the current candidate acquired.\<close>

fun FinishCheapest_scan :: "zptr list \<Rightarrow> zptr option \<Rightarrow> ('d, 'm) zbd_scheme
    \<Rightarrow> IOStatus \<times> zptr option \<times> ('d, 'm) zbd_scheme" where
  "FinishCheapest_scan [] victim s = (OK, victim, s)"
| "FinishCheapest_scan (z # zs) victim s =
    (case Zone_Acquire z s of (got, s1) \<Rightarrow>
       if \<not> got then FinishCheapest_scan zs victim s1
       else if IsEmpty (zheap s1 z) \<or> IsFull (zheap s1 z) then
         (case Zone_CheckRelease z s1 of (st, s2) \<Rightarrow>
            if st \<noteq> OK then (st, victim, s2) else FinishCheapest_scan zs victim s2)
       else case victim of
         None \<Rightarrow> FinishCheapest_scan zs (Some z) s1
       | Some v \<Rightarrow>
           if z_capacity (zheap s1 v) > z_capacity (zheap s1 z) then
             (case Zone_CheckRelease v s1 of (st, s2) \<Rightarrow>
                if st \<noteq> OK then (st, victim, s2) else FinishCheapest_scan zs (Some z) s2)
           else
             (case Zone_CheckRelease z s1 of (st, s2) \<Rightarrow>
                if st \<noteq> OK then (st, victim, s2) else FinishCheapest_scan zs victim s2))"

definition FinishCheapestIOZone :: "('d, 'e) backend_scheme \<Rightarrow> ('d, 'm) zbd_scheme
    \<Rightarrow> IOStatus \<times> ('d, 'm) zbd_scheme" where
  "FinishCheapestIOZone be s =
    (case FinishCheapest_scan (io_zones s) None s of (st, victim, s1) \<Rightarrow>
       if st \<noteq> OK then (st, s1)
       else case victim of
         None \<Rightarrow> (OK, s1)
       | Some v \<Rightarrow>
           let s2 = s1\<lparr>finish_bytes_written := finish_bytes_written s1 + z_capacity (zheap s1 v)\<rparr>
           in case Zone_Finish be v s2 of (st, s3) \<Rightarrow>
              case Zone_CheckRelease v s3 of (release_status, s4) \<Rightarrow>
                let s5 = (if st = OK then PutActiveIOZoneToken s4 else s4)
                in if release_status \<noteq> OK then (release_status, s5) else (st, s5))"

section \<open>Reading, migration and deferred errors\<close>

definition Zbd_InvalidateCache :: "('d, 'e) backend_scheme \<Rightarrow> u64 \<Rightarrow> u64 \<Rightarrow> ('d, 'm) zbd_scheme
    \<Rightarrow> IOStatus \<times> ('d, 'm) zbd_scheme" where
  "Zbd_InvalidateCache be pos sz s =
    (case be_InvalidateCache be pos sz (dev s) of (ret, d) \<Rightarrow>
       (if ret \<noteq> 0 then IOError else OK, s\<lparr>dev := d\<rparr>))"

text \<open>
  \<open>Read\<close>: the loop repeats short reads and interrupted ones. \<open>buf\<close> holds what has been read, \<open>r\<close> the
  result of the last call. A backend that returns more than it was asked for overruns the buffer.
\<close>

partial_function (option) Zbd_Read_loop ::
  "('d, 'e) backend_scheme \<Rightarrow> byte list \<Rightarrow> u64 \<Rightarrow> int \<Rightarrow> bool \<Rightarrow> int \<Rightarrow> int \<Rightarrow> ('d, 'm) zbd_scheme
     \<Rightarrow> (int \<times> byte list \<times> ('d, 'm) zbd_scheme) option" where
  "Zbd_Read_loop be buf offset left direct r ret s =
    (if left = 0 then Some (if r < 0 then r else ret, buf, s)
     else case be_Read be left offset direct (dev s) of (r, eintr, bytes, d) \<Rightarrow>
       let s1 = s\<lparr>dev := d\<rparr>
       in if r \<le> 0 then
            (if r = -1 \<and> eintr then Zbd_Read_loop be buf offset left direct r ret s1
             else Some (if r < 0 then r else ret, buf, s1))
          else if r > left then None
          else Zbd_Read_loop be (buf @ take (nat r) bytes) (offset + of_int r) (left - r) direct r
                 (ret + r) s1)"

declare Zbd_Read_loop.simps [code]

definition Zbd_Read :: "('d, 'e) backend_scheme \<Rightarrow> u64 \<Rightarrow> int \<Rightarrow> bool \<Rightarrow> ('d, 'm) zbd_scheme
    \<Rightarrow> (int \<times> byte list \<times> ('d, 'm) zbd_scheme) option" where
  "Zbd_Read be offset n direct s = Zbd_Read_loop be [] offset n direct (-1) 0 s"

definition ReleaseMigrateZone :: "('d, 'e) backend_scheme \<Rightarrow> zptr option \<Rightarrow> ('d, 'm) zbd_scheme
    \<Rightarrow> IOStatus \<times> ('d, 'm) zbd_scheme" where
  "ReleaseMigrateZone be zone s =
    (let s1 = s\<lparr>migrating := False\<rparr>
     in case zone of
          None \<Rightarrow> (OK, s1)
        | Some z \<Rightarrow>
            let full = IsFull (zheap s1 z)
            in case Zone_Close be z s1 of (st, s2) \<Rightarrow>
                 if st \<noteq> OK then (st, s2)
                 else case Zone_CheckRelease z s2 of (st, s3) \<Rightarrow>
                   if st \<noteq> OK then (st, s3)
                   else
                     let s4 = PutOpenIOZoneToken s3
                     in (OK, if full then PutActiveIOZoneToken s4 else s4))"

definition GetZoneDeferredStatus :: "('d, 'm) zbd_scheme \<Rightarrow> IOStatus" where
  "GetZoneDeferredStatus s = zone_deferred_status s"

definition SetZoneDeferredStatus :: "IOStatus \<Rightarrow> ('d, 'm) zbd_scheme \<Rightarrow> ('d, 'm) zbd_scheme" where
  "SetZoneDeferredStatus status s =
    (if zone_deferred_status s \<noteq> OK then s\<lparr>zone_deferred_status := status\<rparr> else s)"


section \<open>The loops without the locking\<close>

text \<open>
  Acquiring a free zone, working on it and releasing it gives the state of the work alone. The
  loops below are rewritten with these facts, once, to equations without the busy flag.
\<close>

lemma upd_zone_acquired:
  "(\<And>z. f (z\<lparr>z_busy := True\<rparr>) = (f z)\<lparr>z_busy := True\<rparr>) \<Longrightarrow>
     upd_zone p f (acquired p s) = acquired p (upd_zone p f s)"
  by (simp add: acquired_def upd_zone_def)

lemma acquired_dev: "(acquired p s)\<lparr>dev := d\<rparr> = acquired p (s\<lparr>dev := d\<rparr>)"
  by (simp add: acquired_def upd_zone_def)

lemma Zone_Reset_acquired:
  "Zone_Reset be p (acquired p s) = (case Zone_Reset be p s of (st, s') \<Rightarrow> (st, acquired p s'))"
  by (auto simp: Zone_Reset_def Let_def acquired_dev upd_zone_acquired split: prod.splits)

lemma Zone_Finish_acquired:
  "Zone_Finish be p (acquired p s) = (case Zone_Finish be p s of (st, s') \<Rightarrow> (st, acquired p s'))"
  by (auto simp: Zone_Finish_def Let_def acquired_dev upd_zone_acquired split: prod.splits)

lemma Zone_Reset_busy: "Zone_Reset be p s = (st, s') \<Longrightarrow> z_busy (zheap s' q) = z_busy (zheap s q)"
  by (auto simp: Zone_Reset_def Let_def upd_zone_def split: prod.splits if_splits)

lemma Zone_Finish_busy: "Zone_Finish be p s = (st, s') \<Longrightarrow> z_busy (zheap s' q) = z_busy (zheap s q)"
  by (auto simp: Zone_Finish_def Let_def upd_zone_def split: prod.splits if_splits)

lemma acquired_preds [simp]:
  "IsUsed (zheap (acquired p s) q) = IsUsed (zheap s q)"
  "IsEmpty (zheap (acquired p s) q) = IsEmpty (zheap s q)"
  "IsFull (zheap (acquired p s) q) = IsFull (zheap s q)"
  "z_capacity (zheap (acquired p s) q) = z_capacity (zheap s q)"
  "z_max_capacity (zheap (acquired p s) q) = z_max_capacity (zheap s q)"
  by (simp_all add: zone_ops)

lemma within_finish_threshold_acquired [simp]:
  "within_finish_threshold (acquired p s) (zheap (acquired p s) q) =
   within_finish_threshold s (zheap s q)"
  by (simp add: within_finish_threshold_def)

text \<open>The bookkeeping of one reset.\<close>

definition reset_book :: "bool \<Rightarrow> bool \<Rightarrow> zptr \<Rightarrow> ('d, 'm) zbd_scheme \<Rightarrow> ('d, 'm) zbd_scheme" where
  "reset_book gc full z s =
    (let s4 = (if \<not> full then PutActiveIOZoneToken s else s);
         s5 = s4\<lparr>total_reset_count := total_reset_count s4 + 1\<rparr>
     in if gc then upd_zone z (z_flag_gc_reset_update (\<lambda>_. True))
                     (s5\<lparr>gc_reset_count := gc_reset_count s5 + 1\<rparr>) else s5)"

lemma ResetUnused_step:
  "ResetUnusedIOZones_loop be gc (z # zs) s =
    (if z_busy (zheap s z) \<or> IsEmpty (zheap s z) \<or> IsUsed (zheap s z)
     then ResetUnusedIOZones_loop be gc zs s
     else case Zone_Reset be z s of (st, s') \<Rightarrow>
       if st \<noteq> OK then (st, s')
       else ResetUnusedIOZones_loop be gc zs (reset_book gc (IsFull (zheap s z)) z s'))"
proof (cases "z_busy (zheap s z)")
  case False
  obtain st s' where R: "Zone_Reset be z s = (st, s')" by fastforce
  have "\<not> z_busy (zheap s' z)" using R False by (simp add: Zone_Reset_busy)
  then show ?thesis
    using False R
    by (simp add: Acquire_eq Zone_Reset_acquired CheckRelease_acquired reset_book_def Let_def
        del: zheap_acquired)
qed (simp add: Acquire_eq)

lemma ApplyFinish_step:
  "ApplyFinishThreshold_loop be (z # zs) s =
    (if z_busy (zheap s z) \<or> IsEmpty (zheap s z) \<or> IsFull (zheap s z) \<or>
        \<not> within_finish_threshold s (zheap s z)
     then ApplyFinishThreshold_loop be zs s
     else case Zone_Finish be z s of (st, s') \<Rightarrow>
       if st \<noteq> OK then (st, s') else ApplyFinishThreshold_loop be zs (PutActiveIOZoneToken s'))"
proof (cases "z_busy (zheap s z)")
  case False
  obtain st s' where R: "Zone_Finish be z s = (st, s')" by fastforce
  have nb: "\<not> z_busy (zheap s' z)" using R False by (simp add: Zone_Finish_busy)
  have "snd (Zone_Release z (acquired z s')) = s'"
    using CheckRelease_acquired [OF nb] by (simp add: Zone_CheckRelease_def split: prod.splits)
  then show ?thesis
    using False R nb
    by (simp add: Acquire_eq Zone_Finish_acquired CheckRelease_acquired Let_def
        del: zheap_acquired)
qed (simp add: Acquire_eq)

declare ResetUnusedIOZones_loop.simps(2) [simp del] ApplyFinishThreshold_loop.simps(2) [simp del]

section \<open>Frame conditions\<close>

text \<open>\<open>frame s s'\<close>: an operation kept the zone lists, the limits and the parameters, and everything
  outside the device.\<close>

definition frame :: "('d, 'm) zbd_scheme \<Rightarrow> ('d, 'm) zbd_scheme \<Rightarrow> bool" where
  "frame s s' \<longleftrightarrow> io_zones s' = io_zones s \<and> meta_zones s' = meta_zones s \<and>
    max_nr_active_io_zones s' = max_nr_active_io_zones s \<and>
    max_nr_open_io_zones s' = max_nr_open_io_zones s \<and> open_io_zones s' = open_io_zones s \<and>
    finish_threshold s' = finish_threshold s \<and> params s' = params s \<and> zbd.more s' = zbd.more s \<and>
    zone_start_to_pointer_map s' = zone_start_to_pointer_map s \<and>
    (\<forall>p. z_busy (zheap s' p) = z_busy (zheap s p) \<and> z_used (zheap s' p) = z_used (zheap s p) \<and>
       z_start (zheap s' p) = z_start (zheap s p))"

lemma frame_refl [simp]: "frame s s" by (simp add: frame_def)
lemma frame_trans [trans]: "frame s s' \<Longrightarrow> frame s' s'' \<Longrightarrow> frame s s''" by (simp add: frame_def)

text \<open>What one reset and one finish do, whatever the backend answers.\<close>

lemma Zone_Reset_effect:
  assumes "Zone_Reset be p s = (st, s')"
  shows "frame s s'" and "active_io_zones s' = active_io_zones s"
    and "q \<noteq> p \<Longrightarrow> zheap s' q = zheap s q"
    and "st \<noteq> OK \<Longrightarrow> zheap s' = zheap s"
    and "st = OK \<Longrightarrow> IsEmpty (zheap s' p)"
  using assms
  by (auto simp: Zone_Reset_def Let_def upd_zone_def frame_def zone_ops split: prod.splits if_splits)

lemma Zone_Finish_effect:
  assumes "Zone_Finish be p s = (st, s')"
  shows "frame s s'" and "active_io_zones s' = active_io_zones s"
    and "q \<noteq> p \<Longrightarrow> zheap s' q = zheap s q"
    and "st \<noteq> OK \<Longrightarrow> zheap s' = zheap s"
    and "st = OK \<Longrightarrow> IsFull (zheap s' p)"
  using assms
  by (auto simp: Zone_Finish_def Let_def upd_zone_def frame_def zone_ops split: prod.splits if_splits)

lemma reset_book_effect:
  shows "frame s (reset_book gc full z s)"
    and "q \<noteq> z \<Longrightarrow> zheap (reset_book gc full z s) q = zheap s q"
    and "IsEmpty (zheap (reset_book gc full z s) q) = IsEmpty (zheap s q)"
    and "IsFull (zheap (reset_book gc full z s) q) = IsFull (zheap s q)"
    and "active_io_zones (reset_book gc full z s) = active_io_zones s - (if full then 0 else 1)"
    and "dev (reset_book gc full z s) = dev s"
  by (simp_all add: reset_book_def Let_def upd_zone_def frame_def token_ops zone_ops)

lemma PutActive_effect [simp]:
  "frame s (PutActiveIOZoneToken s)" "zheap (PutActiveIOZoneToken s) = zheap s"
  "active_io_zones (PutActiveIOZoneToken s) = active_io_zones s - 1"
  "dev (PutActiveIOZoneToken s) = dev s" "io_zones (PutActiveIOZoneToken s) = io_zones s"
  "meta_zones (PutActiveIOZoneToken s) = meta_zones s"
  by (simp_all add: frame_def token_ops)

section \<open>The balance of the active tokens\<close>

text \<open>
  A zone is active when it has been written to and is neither full nor finished. \<open>k\<close> tokens are
  out for zones that have been allocated but not yet written.
\<close>

definition zone_active :: "zone \<Rightarrow> bool" where
  "zone_active z \<longleftrightarrow> \<not> IsEmpty z \<and> \<not> IsFull z"

definition active_balanced :: "int \<Rightarrow> ('d, 'm) zbd_scheme \<Rightarrow> bool" where
  "active_balanced k s \<longleftrightarrow> distinct (io_zones s) \<and>
    active_io_zones s = int (length (filter (\<lambda>p. zone_active (zheap s p)) (io_zones s))) + k"

lemma filter_length_change:
  assumes "distinct xs" "x \<in> set xs" "\<And>y. y \<noteq> x \<Longrightarrow> P y = Q y" "P x" "\<not> Q x"
  shows "length (filter P xs) = length (filter Q xs) + 1"
  using assms
proof (induction xs)
  case (Cons a xs)
  show ?case
  proof (cases "a = x")
    case True
    then have "P y = Q y" if "y \<in> set xs" for y
      using that Cons.prems(1,3) by (metis distinct.simps(2))
    then have "filter P xs = filter Q xs" by (rule filter_cong [OF refl])
    with True Cons.prems show ?thesis by simp
  qed (use Cons in auto)
qed simp

lemma active_balanced_deactivate:
  assumes "active_balanced k s" "z \<in> set (io_zones s)" "io_zones s' = io_zones s"
    and "\<And>q. q \<noteq> z \<Longrightarrow> zone_active (zheap s' q) = zone_active (zheap s q)"
    and "\<not> zone_active (zheap s' z)"
    and "active_io_zones s' = active_io_zones s - (if zone_active (zheap s z) then 1 else 0)"
  shows "active_balanced k s'"
proof (cases "zone_active (zheap s z)")
  case True
  then show ?thesis
    using assms filter_length_change [of "io_zones s" z "\<lambda>p. zone_active (zheap s p)"
        "\<lambda>p. zone_active (zheap s' p)"]
    by (simp add: active_balanced_def)
next
  case False
  then have "zone_active (zheap s' q) = zone_active (zheap s q)" for q using assms by metis
  then show ?thesis using assms False by (simp add: active_balanced_def)
qed

lemma active_balanced_same:
  "active_balanced k s \<Longrightarrow> io_zones s' = io_zones s \<Longrightarrow> active_io_zones s' = active_io_zones s \<Longrightarrow>
     zheap s' = zheap s \<Longrightarrow> active_balanced k s'"
  by (simp add: active_balanced_def)

lemma ResetUnused_balanced_loop:
  assumes "ResetUnusedIOZones_loop be gc zs s = (st, s')" "active_balanced k s"
    "set zs \<subseteq> set (io_zones s)"
  shows "active_balanced k s' \<and> frame s s'"
  using assms
proof (induction zs arbitrary: s)
  case (Cons z zs)
  obtain st1 s1 where R: "Zone_Reset be z s = (st1, s1)" by fastforce
  note E = Zone_Reset_effect [OF R]
  let ?s2 = "reset_book gc (IsFull (zheap s z)) z s1"
  consider "z_busy (zheap s z) \<or> IsEmpty (zheap s z) \<or> IsUsed (zheap s z)"
    | (fail) "\<not> (z_busy (zheap s z) \<or> IsEmpty (zheap s z) \<or> IsUsed (zheap s z))" "st1 \<noteq> OK"
    | (reset) "\<not> (z_busy (zheap s z) \<or> IsEmpty (zheap s z) \<or> IsUsed (zheap s z))" "st1 = OK"
    by blast
  then show ?case
  proof cases
    case fail
    then have "s' = s1" using Cons.prems R by (simp add: ResetUnused_step)
    then show ?thesis
      using E(1,2) E(4) fail Cons.prems by (auto simp: frame_def intro: active_balanced_same)
  next
    case reset
    have L: "ResetUnusedIOZones_loop be gc zs ?s2 = (st, s')"
      using Cons.prems(1) R reset by (simp add: ResetUnused_step)
    have f: "frame s ?s2" using E(1) reset_book_effect(1) by (rule frame_trans)
    have "active_balanced k ?s2"
      by (rule active_balanced_deactivate [OF Cons.prems(2), of z])
        (use Cons.prems(3) f E reset in \<open>auto simp: reset_book_effect zone_active_def frame_def\<close>)
    then have "active_balanced k s' \<and> frame ?s2 s'"
      using L Cons.prems(3) f by (intro Cons.IH) (auto simp: frame_def)
    then show ?thesis using f frame_trans by blast
  qed (use Cons in \<open>simp add: ResetUnused_step\<close>)
qed simp


lemma ResetUnused_zones_loop:
  assumes "ResetUnusedIOZones_loop be gc zs s = (st, s')" "distinct zs"
  shows "(p \<notin> set zs \<or> z_busy (zheap s p) \<or> IsUsed (zheap s p) \<or> IsEmpty (zheap s p) \<longrightarrow>
      zheap s' p = zheap s p) \<and>
    (st = OK \<and> p \<in> set zs \<and> \<not> z_busy (zheap s p) \<and> \<not> IsUsed (zheap s p) \<longrightarrow>
      IsEmpty (zheap s' p))"
  using assms
proof (induction zs arbitrary: s)
  case (Cons z zs)
  obtain st1 s1 where R: "Zone_Reset be z s = (st1, s1)" by fastforce
  note E = Zone_Reset_effect [OF R]
  let ?s2 = "reset_book gc (IsFull (zheap s z)) z s1"
  consider (skip) "z_busy (zheap s z) \<or> IsEmpty (zheap s z) \<or> IsUsed (zheap s z)"
    | (fail) "\<not> (z_busy (zheap s z) \<or> IsEmpty (zheap s z) \<or> IsUsed (zheap s z))" "st1 \<noteq> OK"
    | (reset) "\<not> (z_busy (zheap s z) \<or> IsEmpty (zheap s z) \<or> IsUsed (zheap s z))" "st1 = OK"
    by blast
  then show ?case
  proof cases
    case skip
    then have L: "ResetUnusedIOZones_loop be gc zs s = (st, s')"
      using Cons.prems(1) by (simp add: ResetUnused_step)
    show ?thesis
      using Cons.IH [OF L] Cons.prems(2) skip by (cases "p = z") auto
  next
    case fail
    then have "s' = s1 \<and> st \<noteq> OK" using Cons.prems R by (auto simp: ResetUnused_step)
    then show ?thesis using E(4) fail by simp
  next
    case reset
    have L: "ResetUnusedIOZones_loop be gc zs ?s2 = (st, s')"
      using Cons.prems(1) R reset by (simp add: ResetUnused_step)
    have "p \<noteq> z \<Longrightarrow> zheap ?s2 p = zheap s p" using E(3) by (simp add: reset_book_effect)
    moreover have "IsEmpty (zheap ?s2 z)" using E(5) reset by (simp add: reset_book_effect)
    ultimately show ?thesis
      using Cons.IH [OF L] Cons.prems(2) reset by (cases "p = z") auto
  qed
qed simp

section \<open>Finishing zones\<close>

lemma ApplyFinish_loop:
  assumes "ApplyFinishThreshold_loop be zs s = (st, s')" "active_balanced k s"
    "set zs \<subseteq> set (io_zones s)"
  shows "active_balanced k s' \<and> frame s s' \<and>
    (\<forall>p. zheap s' p \<noteq> zheap s p \<longrightarrow> p \<in> set zs \<and> \<not> z_busy (zheap s p) \<and>
       within_finish_threshold s (zheap s p) \<and> zone_active (zheap s p) \<and> IsFull (zheap s' p))"
  using assms
proof (induction zs arbitrary: s)
  case (Cons z zs)
  obtain st1 s1 where R: "Zone_Finish be z s = (st1, s1)" by fastforce
  note E = Zone_Finish_effect [OF R]
  let ?skip = "z_busy (zheap s z) \<or> IsEmpty (zheap s z) \<or> IsFull (zheap s z) \<or>
      \<not> within_finish_threshold s (zheap s z)"
  let ?s2 = "PutActiveIOZoneToken s1"
  consider (skip) ?skip | (fail) "\<not> ?skip" "st1 \<noteq> OK" | (fin) "\<not> ?skip" "st1 = OK" by blast
  then show ?case
  proof cases
    case skip
    then have L: "ApplyFinishThreshold_loop be zs s = (st, s')"
      using Cons.prems(1) by (simp add: ApplyFinish_step)
    then show ?thesis using Cons.IH [OF L] Cons.prems by auto
  next
    case fail
    then have "s' = s1" using Cons.prems R by (auto simp: ApplyFinish_step)
    then show ?thesis
      using E(1,2) E(4) fail Cons.prems by (auto simp: frame_def intro: active_balanced_same)
  next
    case fin
    have L: "ApplyFinishThreshold_loop be zs ?s2 = (st, s')"
      using Cons.prems(1) R fin by (simp add: ApplyFinish_step)
    have f: "frame s ?s2" using E(1) PutActive_effect(1) by (rule frame_trans)
    have b: "active_balanced k ?s2"
      by (rule active_balanced_deactivate [OF Cons.prems(2), of z])
        (use Cons.prems(3) f E fin in \<open>auto simp: zone_active_def frame_def\<close>)
    have IH: "active_balanced k s' \<and> frame ?s2 s' \<and>
      (\<forall>p. zheap s' p \<noteq> zheap ?s2 p \<longrightarrow> p \<in> set zs \<and> \<not> z_busy (zheap ?s2 p) \<and>
         within_finish_threshold ?s2 (zheap ?s2 p) \<and> zone_active (zheap ?s2 p) \<and>
         IsFull (zheap s' p))"
      using L b Cons.prems(3) f by (intro Cons.IH) (auto simp: frame_def)
    have zz: "zheap s' z = zheap s1 z" "IsFull (zheap s1 z)"
      using IH E(5) fin by (auto simp: zone_active_def)
    have t: "within_finish_threshold ?s2 = within_finish_threshold s"
      using f by (auto simp: within_finish_threshold_def frame_def)
    have "zheap s' p \<noteq> zheap s p \<longrightarrow> p \<in> set (z # zs) \<and> \<not> z_busy (zheap s p) \<and>
       within_finish_threshold s (zheap s p) \<and> zone_active (zheap s p) \<and> IsFull (zheap s' p)" for p
    proof (cases "p = z")
      case True
      then show ?thesis using fin zz by (auto simp: zone_active_def)
    next
      case False
      then have "zheap ?s2 p = zheap s p" using E(3) by simp
      then show ?thesis using IH [THEN conjunct2, THEN conjunct2, rule_format, of p] t
        by (simp only: PutActive_effect) auto
    qed
    then show ?thesis using IH frame_trans [OF f] by blast
  qed
qed simp

text \<open>The zones that can be finished, and the choice among them.\<close>

definition finish_candidates :: "('d, 'm) zbd_scheme \<Rightarrow> zptr list \<Rightarrow> zptr list" where
  "finish_candidates s zs =
    filter (\<lambda>p. \<not> z_busy (zheap s p) \<and> zone_active (zheap s p)) zs"

definition cheaper :: "('d, 'm) zbd_scheme \<Rightarrow> zptr \<Rightarrow> zptr \<Rightarrow> zptr" where
  "cheaper s v z = (if z_capacity (zheap s v) > z_capacity (zheap s z) then z else v)"

lemma FinishCheapest_scan_Some:
  assumes "\<not> z_busy (zheap s v)" "v \<notin> set zs"  "distinct zs"
  shows "FinishCheapest_scan zs (Some v) (acquired v s) =
    (let w = foldl (cheaper s) v (finish_candidates s zs) in (OK, Some w, acquired w s))"
  using assms
proof (induction zs arbitrary: v)
  case (Cons z zs)
  then have zv: "z \<noteq> v" by auto
  have b: "z_busy (zheap (acquired v s) z) = z_busy (zheap s z)" using zv by simp
  consider (busy) "z_busy (zheap s z)"
    | (skip) "\<not> z_busy (zheap s z)" "\<not> zone_active (zheap s z)"
    | (cand) "\<not> z_busy (zheap s z)" "zone_active (zheap s z)" by blast
  then show ?case
  proof cases
    case busy
    then show ?thesis using Cons b by (simp add: Acquire_eq finish_candidates_def)
  next
    case skip
    then have "Zone_CheckRelease z (acquired z (acquired v s)) = (OK, acquired v s)"
      using b by (intro CheckRelease_acquired) simp
    then show ?thesis
      using Cons skip b
      by (simp add: Acquire_eq finish_candidates_def zone_active_def del: zheap_acquired) auto
  next
    case cand
    have r1: "Zone_CheckRelease v (acquired z (acquired v s)) = (OK, acquired z s)"
      using zv Cons.prems by (simp add: CheckRelease_acquired_other)
    have r2: "Zone_CheckRelease z (acquired z (acquired v s)) = (OK, acquired v s)"
      using cand b by (intro CheckRelease_acquired) simp
    have "foldl (cheaper s) v (finish_candidates s (z # zs)) =
        foldl (cheaper s) (cheaper s v z) (finish_candidates s zs)"
      using cand by (simp add: finish_candidates_def)
    moreover have "cheaper s v z = (if z_capacity (zheap s v) > z_capacity (zheap s z) then z else v)"
      by (rule cheaper_def)
    ultimately show ?thesis
      using cand b r1 r2 Cons.IH [of z] Cons.IH [of v] Cons.prems
      by (simp add: Acquire_eq zone_active_def Let_def del: zheap_acquired)
  qed
qed (simp add: finish_candidates_def)

text \<open>The zone the scan settles on: the first of the cheapest candidates.\<close>

definition cheapest_zone :: "('d, 'm) zbd_scheme \<Rightarrow> zptr option" where
  "cheapest_zone s = (case finish_candidates s (io_zones s) of
      [] \<Rightarrow> None
    | v # vs \<Rightarrow> Some (foldl (cheaper s) v vs))"

lemma FinishCheapest_scan_None:
  assumes "distinct zs"
  shows "FinishCheapest_scan zs None s =
    (case finish_candidates s zs of
       [] \<Rightarrow> (OK, None, s)
     | v # vs \<Rightarrow> let w = foldl (cheaper s) v vs in (OK, Some w, acquired w s))"
  using assms
proof (induction zs)
  case (Cons z zs)
  consider (busy) "z_busy (zheap s z)"
    | (skip) "\<not> z_busy (zheap s z)" "\<not> zone_active (zheap s z)"
    | (cand) "\<not> z_busy (zheap s z)" "zone_active (zheap s z)" by blast
  then show ?case
  proof cases
    case skip
    then show ?thesis
      using Cons CheckRelease_acquired [OF skip(1)]
      by (simp add: Acquire_eq finish_candidates_def zone_active_def del: zheap_acquired) auto
  next
    case cand
    then show ?thesis
      using Cons.prems FinishCheapest_scan_Some [of s z zs]
      by (simp add: Acquire_eq finish_candidates_def zone_active_def del: zheap_acquired)
  qed (use Cons in \<open>simp add: Acquire_eq finish_candidates_def\<close>)
qed (simp add: finish_candidates_def)

lemma FinishCheapest_scan_eq:
  assumes "distinct (io_zones s)"
  shows "FinishCheapest_scan (io_zones s) None s =
    (case cheapest_zone s of None \<Rightarrow> (OK, None, s) | Some w \<Rightarrow> (OK, Some w, acquired w s))"
  using FinishCheapest_scan_None [OF assms, of s]
  by (simp add: cheapest_zone_def Let_def split: list.split)

lemma foldl_cheaper:
  "foldl (cheaper s) v vs \<in> insert v (set vs) \<and>
   (\<forall>q \<in> insert v (set vs). z_capacity (zheap s (foldl (cheaper s) v vs)) \<le> z_capacity (zheap s q))"
proof (induction vs arbitrary: v)
  case (Cons z vs)
  show ?case using Cons.IH [of "cheaper s v z"]
    by (auto simp: cheaper_def split: if_splits)
qed simp

lemma cheapest_zone_min:
  "cheapest_zone s = Some v \<Longrightarrow>
     v \<in> set (finish_candidates s (io_zones s)) \<and>
     (\<forall>q \<in> set (finish_candidates s (io_zones s)). z_capacity (zheap s v) \<le> z_capacity (zheap s q))"
  using foldl_cheaper by (auto simp: cheapest_zone_def split: list.splits)

lemma cheapest_zone_None:
  "cheapest_zone s = None \<longleftrightarrow>
     (\<forall>p \<in> set (io_zones s). z_busy (zheap s p) \<or> \<not> zone_active (zheap s p))"
proof -
  have "cheapest_zone s = None \<longleftrightarrow> finish_candidates s (io_zones s) = []"
    by (simp add: cheapest_zone_def split: list.split)
  then show ?thesis by (auto simp: finish_candidates_def filter_empty_conv)
qed


lemma FinishCheapest_eq:
  assumes "distinct (io_zones s)"
  shows "FinishCheapestIOZone be s =
    (case cheapest_zone s of
       None \<Rightarrow> (OK, s)
     | Some v \<Rightarrow>
         (case Zone_Finish be v
            (s\<lparr>finish_bytes_written := finish_bytes_written s + z_capacity (zheap s v)\<rparr>)
          of (st, s') \<Rightarrow> (st, if st = OK then PutActiveIOZoneToken s' else s')))"
proof (cases "cheapest_zone s")
  case None
  then show ?thesis
    by (simp add: FinishCheapestIOZone_def FinishCheapest_scan_eq [OF assms])
next
  case (Some v)
  let ?s = "s\<lparr>finish_bytes_written := finish_bytes_written s + z_capacity (zheap s v)\<rparr>"
  have "finish_bytes_written (acquired v s) = finish_bytes_written s"
    by (simp add: acquired_def upd_zone_def)
  then have a: "(acquired v s)\<lparr>finish_bytes_written :=
      finish_bytes_written (acquired v s) + z_capacity (zheap (acquired v s) v)\<rparr> = acquired v ?s"
    by (simp add: acquired_def upd_zone_def)
  obtain st s' where F: "Zone_Finish be v ?s = (st, s')" by fastforce
  have "\<not> z_busy (zheap s v)"
    using cheapest_zone_min [OF Some] by (simp add: finish_candidates_def)
  then have "\<not> z_busy (zheap s' v)" using Zone_Finish_busy [OF F] by simp
  then show ?thesis
    using Some F
    by (simp add: FinishCheapestIOZone_def FinishCheapest_scan_eq [OF assms] a Let_def
        Zone_Finish_acquired CheckRelease_acquired del: zheap_acquired acquired_preds)
qed

lemma FinishCheapest_effect:
  assumes "FinishCheapestIOZone be s = (st, s')" "active_balanced k s"
  shows "active_balanced k s' \<and> frame s s'"
proof (cases "cheapest_zone s")
  case None
  then show ?thesis
    using assms by (simp add: FinishCheapest_eq active_balanced_def)
next
  case (Some v)
  let ?s = "s\<lparr>finish_bytes_written := finish_bytes_written s + z_capacity (zheap s v)\<rparr>"
  obtain st1 s1 where F: "Zone_Finish be v ?s = (st1, s1)" by fastforce
  note E = Zone_Finish_effect [OF F]
  have d: "distinct (io_zones s)" using assms(2) by (simp add: active_balanced_def)
  have s': "st = st1" "s' = (if st1 = OK then PutActiveIOZoneToken s1 else s1)"
    using assms(1) Some F by (auto simp: FinishCheapest_eq [OF d])
  have f: "frame s s1" using E(1) by (simp add: frame_def)
  have v: "v \<in> set (io_zones s)" "zone_active (zheap s v)"
    using cheapest_zone_min [OF Some] by (auto simp: finish_candidates_def)
  show ?thesis
  proof (cases "st1 = OK")
    case True
    have "active_balanced k s'"
      by (rule active_balanced_deactivate [OF assms(2) v(1)])
        (use E f v True s' in \<open>auto simp: zone_active_def frame_def\<close>)
    then show ?thesis using f s' True by (simp add: frame_def token_ops)
  next
    case False
    then show ?thesis using f s' E(2,4) assms(2) by (auto simp: frame_def active_balanced_def)
  qed
qed

section \<open>Metadata zones\<close>

lemma AllocateMeta_step:
  "AllocateMetaZone_loop be (z # zs) s =
    (if z_busy (zheap s z) then AllocateMetaZone_loop be zs s
     else if IsUsed (zheap s z) then AllocateMetaZone_loop be zs (acquired z s)
     else if IsEmpty (zheap s z) then (OK, Some z, acquired z s)
     else case Zone_Reset be z s of (st, s') \<Rightarrow>
       if st = OK then (OK, Some z, acquired z s') else AllocateMetaZone_loop be zs s')"
proof (cases "z_busy (zheap s z)")
  case False
  obtain st s' where R: "Zone_Reset be z s = (st, s')" by fastforce
  have "\<not> z_busy (zheap s' z)" using R False by (simp add: Zone_Reset_busy)
  then show ?thesis
    using False R by (simp add: Acquire_eq Zone_Reset_acquired CheckRelease_acquired
        del: zheap_acquired)
qed (simp add: Acquire_eq)

declare AllocateMetaZone_loop.simps(2) [simp del]

lemma AllocateMeta_loop_OK:
  assumes "AllocateMetaZone_loop be zs s = (st, out, s')" "distinct zs"
  shows "(st = OK \<longleftrightarrow> out \<noteq> None) \<and>
    (\<forall>z. out = Some z \<longrightarrow> z \<in> set zs \<and> \<not> z_busy (zheap s z) \<and> \<not> IsUsed (zheap s z) \<and>
       z_busy (zheap s' z) \<and> IsEmpty (zheap s' z) \<and> z_used (zheap s' z) = z_used (zheap s z)) \<and>
    (\<forall>q. q \<notin> set zs \<longrightarrow> zheap s' q = zheap s q)"
  using assms
proof (induction zs arbitrary: s)
  case (Cons z zs)
  obtain st1 s1 where R: "Zone_Reset be z s = (st1, s1)" by fastforce
  note E = Zone_Reset_effect [OF R]
  consider (busy) "z_busy (zheap s z)" | (used) "\<not> z_busy (zheap s z)" "IsUsed (zheap s z)"
    | (empty) "\<not> z_busy (zheap s z)" "\<not> IsUsed (zheap s z)" "IsEmpty (zheap s z)"
    | (reset) "\<not> z_busy (zheap s z)" "\<not> IsUsed (zheap s z)" "\<not> IsEmpty (zheap s z)" "st1 = OK"
    | (fail) "\<not> z_busy (zheap s z)" "\<not> IsUsed (zheap s z)" "\<not> IsEmpty (zheap s z)" "st1 \<noteq> OK"
    by blast
  then show ?case
  proof cases
    case busy
    then have L: "AllocateMetaZone_loop be zs s = (st, out, s')"
      using Cons.prems by (simp add: AllocateMeta_step)
    show ?thesis using Cons.IH [OF L] Cons.prems by auto
  next
    case used
    then have L: "AllocateMetaZone_loop be zs (acquired z s) = (st, out, s')"
      using Cons.prems by (simp add: AllocateMeta_step)
    show ?thesis using Cons.IH [OF L] Cons.prems(2) by (auto simp: zone_ops split: if_splits)
  next
    case empty
    then show ?thesis using Cons.prems by (auto simp: AllocateMeta_step zone_ops)
  next
    case reset
    then have "st = OK" "out = Some z" "s' = acquired z s1"
      using Cons.prems R by (auto simp: AllocateMeta_step)
    then show ?thesis using reset E by (auto simp: frame_def zone_ops)
  next
    case fail
    then have L: "AllocateMetaZone_loop be zs s1 = (st, out, s')"
      using Cons.prems R by (simp add: AllocateMeta_step)
    show ?thesis using Cons.IH [OF L] Cons.prems E(4) fail by auto
  qed
qed simp

text \<open>A zone in use that the search passes over stays acquired.\<close>

lemma AllocateMeta_loop_mono:
  assumes "AllocateMetaZone_loop be zs s = (st, out, s')" "z_busy (zheap s q)"
  shows "z_busy (zheap s' q)"
  using assms
proof (induction zs arbitrary: s)
  case (Cons z zs)
  obtain st1 s1 where R: "Zone_Reset be z s = (st1, s1)" by fastforce
  have b: "z_busy (zheap s1 q)" using Zone_Reset_busy [OF R] Cons.prems by simp
  have a: "z_busy (zheap (acquired z s) q)" "z_busy (zheap (acquired z s1) q)"
    using Cons.prems b by simp_all
  show ?case
    using Cons.prems R a b Cons.IH
    by (auto simp: AllocateMeta_step simp del: zheap_acquired split: if_splits)
qed simp


lemma AllocateMeta_loop_passed:
  assumes "AllocateMetaZone_loop be (xs @ z # ys) s = (st, Some z, s')" "distinct (xs @ z # ys)"
    "q \<in> set xs" "IsUsed (zheap s q)"
  shows "z_busy (zheap s' q)"
  using assms
proof (induction xs arbitrary: s)
  case (Cons x xs)
  obtain st1 s1 where R: "Zone_Reset be x s = (st1, s1)" by fastforce
  note E = Zone_Reset_effect [OF R]
  have xz: "x \<noteq> z" using Cons.prems(2) by auto
  show ?case
  proof (cases "q = x")
    case True
    then have b: "z_busy (zheap (acquired q s) q)" by simp
    show ?thesis
    proof (cases "z_busy (zheap s q)")
      case True
      then show ?thesis using Cons.prems(1) by (rule AllocateMeta_loop_mono [rotated])
    next
      case False
      then have "AllocateMetaZone_loop be (xs @ z # ys) (acquired q s) = (st, Some z, s')"
        using Cons.prems(1,4) True by (simp add: AllocateMeta_step)
      then show ?thesis using b by (rule AllocateMeta_loop_mono)
    qed
  next
    case False
    then have q: "q \<in> set xs" using Cons.prems(3) by simp
    consider "AllocateMetaZone_loop be (xs @ z # ys) s = (st, Some z, s')"
      | "AllocateMetaZone_loop be (xs @ z # ys) (acquired x s) = (st, Some z, s')"
      | "AllocateMetaZone_loop be (xs @ z # ys) s1 = (st, Some z, s')"
      using Cons.prems(1) R xz by (auto simp: AllocateMeta_step split: if_splits)
    then show ?thesis
    proof cases
      case 2
      then show ?thesis using Cons.IH [OF 2 _ q] Cons.prems(2,4) by (simp del: zheap_acquired)
    next
      case 3
      then show ?thesis
        using Cons.IH [OF 3 _ q] Cons.prems(2,4) E(3) False by simp
    qed (use Cons.IH q Cons.prems(2,4) in auto)
  qed
qed simp

section \<open>The contract of the backend: geometry and data\<close>

definition zone_range :: "u64 \<Rightarrow> zone \<Rightarrow> nat set" where
  "zone_range zsz z = {unat (z_start z) ..< unat (z_start z) + unat zsz}"

definition zones_disjoint :: "('d, 'e) backend_scheme \<Rightarrow> ('d, 'm) zbd_scheme \<Rightarrow> bool" where
  "zones_disjoint be s \<longleftrightarrow>
    (\<forall>p \<in> set (io_zones s) \<union> set (meta_zones s). \<forall>q \<in> set (io_zones s) \<union> set (meta_zones s).
       p \<noteq> q \<longrightarrow> zone_range (be_zone_sz be (dev s)) (zheap s p) \<inter>
                  zone_range (be_zone_sz be (dev s)) (zheap s q) = {})"

lemma zones_wf_book:
  assumes "zones_wf be s" "dev s' = dev s" "io_zones s' = io_zones s" "meta_zones s' = meta_zones s"
    "\<And>p. z_start (zheap s' p) = z_start (zheap s p) \<and> z_wp (zheap s' p) = z_wp (zheap s p) \<and>
       z_capacity (zheap s' p) = z_capacity (zheap s p) \<and>
       z_max_capacity (zheap s' p) = z_max_capacity (zheap s p)"
  shows "zones_wf be s'"
  using assms by (simp add: zones_wf_def zone_wf_def)

lemma zones_wf_reset_book: "zones_wf be s \<Longrightarrow> zones_wf be (reset_book gc full z s)"
  by (erule zones_wf_book) (simp_all add: reset_book_def Let_def upd_zone_def token_ops)

lemma zones_wf_PutActive: "zones_wf be s \<Longrightarrow> zones_wf be (PutActiveIOZoneToken s)"
  by (erule zones_wf_book) simp_all

context zoned_backend
begin

lemma ResetUnused_wf_loop:
  "zones_wf be s \<Longrightarrow> ResetUnusedIOZones_loop be gc zs s = (st, s') \<Longrightarrow> zones_wf be s'"
proof (induction zs arbitrary: s)
  case (Cons z zs)
  then show ?case
    by (auto simp: ResetUnused_step split: if_splits prod.splits
        intro: Zone_Reset_wf zones_wf_reset_book)
qed simp

lemma ApplyFinish_wf_loop:
  "zones_wf be s \<Longrightarrow> ApplyFinishThreshold_loop be zs s = (st, s') \<Longrightarrow> zones_wf be s'"
proof (induction zs arbitrary: s)
  case (Cons z zs)
  then show ?case
    by (auto simp: ApplyFinish_step split: if_splits prod.splits
        intro: Zone_Finish_wf zones_wf_PutActive)
qed simp

lemma FinishCheapest_wf:
  assumes "zones_wf be s" "distinct (io_zones s)" "FinishCheapestIOZone be s = (st, s')"
  shows "zones_wf be s'"
proof -
  have "zones_wf be (s\<lparr>finish_bytes_written := x\<rparr>)" for x
    using assms(1) by (rule zones_wf_book) simp_all
  then show ?thesis
    using assms
    by (auto simp: FinishCheapest_eq split: option.splits prod.splits if_splits
        intro: Zone_Finish_wf zones_wf_PutActive)
qed

end

context zoned_storage
begin

lemma ResetUnused_media_loop:
  assumes "ResetUnusedIOZones_loop be gc zs s = (st, s')" "set zs \<subseteq> set (io_zones s)"
    "zones_disjoint be s" "q \<in> set (io_zones s) \<union> set (meta_zones s)"
    "z_busy (zheap s q) \<or> IsUsed (zheap s q)" "i \<in> zone_range (be_zone_sz be (dev s)) (zheap s q)"
  shows "media (dev s') i = media (dev s) i"
  using assms
proof (induction zs arbitrary: s)
  case (Cons z zs)
  obtain st1 s1 where R: "Zone_Reset be z s = (st1, s1)" by fastforce
  note E = Zone_Reset_effect [OF R]
  show ?case
  proof (cases "z_busy (zheap s z) \<or> IsEmpty (zheap s z) \<or> IsUsed (zheap s z)")
    case True
    then show ?thesis using Cons by (simp add: ResetUnused_step)
  next
    case False
    then have "z \<noteq> q" using Cons.prems(5) by auto
    moreover have "z \<in> set (io_zones s)" using Cons.prems(2) by simp
    ultimately have "i \<notin> zone_range (be_zone_sz be (dev s)) (zheap s z)"
      using Cons.prems(3,4,6) unfolding zones_disjoint_def by blast
    then have out: "i < unat (z_start (zheap s z)) \<or>
        unat (z_start (zheap s z)) + unat (be_zone_sz be (dev s)) \<le> i"
      by (auto simp: zone_range_def)
    obtain i1 off mc d where B: "be_Reset be (z_start (zheap s z)) (dev s) = (i1, off, mc, d)"
      by (metis prod_cases4)
    have d1: "dev s1 = d"
      using R B by (auto simp: Zone_Reset_def Let_def upd_zone_def split: if_splits)
    have m: "media (dev s1) i = media (dev s) i" using reset_out [OF B out] d1 by simp
    have g: "be_zone_sz be (dev s1) = be_zone_sz be (dev s)"
      using reset_geometry [OF B] d1 by (simp add: geometry_def)
    let ?s2 = "reset_book gc (IsFull (zheap s z)) z s1"
    have f: "frame s ?s2" using E(1) reset_book_effect(1) by (rule frame_trans)
    show ?thesis
    proof (cases "st1 = OK")
      case True
      then have "ResetUnusedIOZones_loop be gc zs ?s2 = (st, s')"
        using Cons.prems(1) False R by (simp add: ResetUnused_step)
      then have "media (dev s') i = media (dev ?s2) i"
      proof (rule Cons.IH)
        show "zones_disjoint be ?s2"
          using Cons.prems(3) f g
          by (simp add: zones_disjoint_def zone_range_def frame_def reset_book_effect)
      qed (use Cons.prems f g in \<open>auto simp: frame_def zone_range_def reset_book_effect zone_ops\<close>)
      then show ?thesis using m by (simp add: reset_book_effect)
    next
      case False
      then have "s' = s1"
        using Cons.prems(1) \<open>\<not> (z_busy (zheap s z) \<or> IsEmpty (zheap s z) \<or> IsUsed (zheap s z))\<close> R
        by (simp add: ResetUnused_step)
      then show ?thesis using m by simp
    qed
  qed
qed simp

lemma Zbd_Read_loop_media:
  assumes "Zbd_Read_loop be buf offset left direct r ret s = Some (v, buf', s')"
    "0 \<le> left" "unat offset + nat left < 2 ^ 64"
  shows "media (dev s') = media (dev s) \<and> zheap s' = zheap s \<and> geometry be (dev s') = geometry be (dev s) \<and>
    (0 \<le> v \<longrightarrow> (\<exists>m. buf' = buf @ media_slice (media (dev s)) (unat offset) m \<and> v = ret + int m \<and>
       int m \<le> left))"
proof -
  let ?P = "\<lambda>b buf offset left direct r ret s (v, buf', s'). b = be \<longrightarrow> 0 \<le> left \<longrightarrow>
    unat offset + nat left < 2 ^ 64 \<longrightarrow>
    media (dev s') = media (dev s) \<and> zheap s' = zheap s \<and> geometry be (dev s') = geometry be (dev s) \<and>
    (0 \<le> v \<longrightarrow> (\<exists>m. buf' = buf @ media_slice (media (dev s)) (unat offset) m \<and> v = ret + int m \<and>
       int m \<le> left))"
  have "?P be buf offset left direct r ret s (v, buf', s')"
  proof (rule Zbd_Read_loop.raw_induct [where P = ?P, OF _ assms(1)])
    fix f b buf offset left direct r ret s res
    assume IH: "\<And>b buf offset left direct r ret s y.
        f b buf offset left direct r ret s = Some y \<Longrightarrow> ?P b buf offset left direct r ret s y"
      and eq: "(if left = 0 then Some (if r < 0 then r else ret, buf, s)
       else case be_Read b left offset direct (dev s) of (r, eintr, bytes, d) \<Rightarrow>
         let s1 = s\<lparr>dev := d\<rparr>
         in if r \<le> 0 then
              (if r = -1 \<and> eintr then f b buf offset left direct r ret s1
               else Some (if r < 0 then r else ret, buf, s1))
            else if r > left then None
            else f b (buf @ take (nat r) bytes) (offset + of_int r) (left - r) direct r (ret + r) s1)
       = Some res"
    obtain v buf' s' where res: "res = (v, buf', s')" by (metis prod_cases3)
    obtain r1 e bytes d where R: "be_Read be left offset direct (dev s) = (r1, e, bytes, d)"
      by (metis prod_cases4)
    show "?P b buf offset left direct r ret s res"
      unfolding res prod.case
    proof (intro impI)
      assume b: "b = be" "0 \<le> left" "unat offset + nat left < 2 ^ 64"
      note K = read_keeps [OF R]
      consider (fin) "left = 0" | (again) "left \<noteq> 0" "r1 = -1" "e"
        | (stop) "left \<noteq> 0" "r1 \<le> 0" "\<not> (r1 = -1 \<and> e)" | (more) "left \<noteq> 0" "0 < r1"
        by linarith
      then show "media (dev s') = media (dev s) \<and> zheap s' = zheap s \<and>
        geometry be (dev s') = geometry be (dev s) \<and>
        (0 \<le> v \<longrightarrow> (\<exists>m. buf' = buf @ media_slice (media (dev s)) (unat offset) m \<and> v = ret + int m \<and>
           int m \<le> left))"
      proof cases
        case fin
        then show ?thesis using eq res by (auto intro: exI [of _ 0])
      next
        case again
        then have "f be buf offset left direct r1 ret (s\<lparr>dev := d\<rparr>) = Some (v, buf', s')"
          using eq R b res by (simp add: Let_def)
        from IH [OF this] b K show ?thesis by simp
      next
        case stop
        then show ?thesis using eq R b res K by (auto simp: Let_def split: if_splits intro: exI [of _ 0])
      next
        case more
        have B: "r1 \<le> left" "bytes = media_slice (media (dev s)) (unat offset) (nat r1)"
          using read_bytes [OF R more(2)] by auto
        have "f be (buf @ bytes) (offset + of_int r1) (left - r1) direct r1 (ret + r1) (s\<lparr>dev := d\<rparr>)
            = Some (v, buf', s')"
          using eq R b more B res by (simp add: Let_def)
        note I = IH [OF this]
        have o: "unat (offset + of_int r1) = unat offset + nat r1"
          using b(3) B(1) more unat_add_u64 [of offset "of_int r1"] unat_of_nat_u64 [of "nat r1"]
          by simp
        have I2: "media (dev s') = media d \<and> zheap s' = zheap s \<and> geometry be (dev s') = geometry be d \<and>
          (0 \<le> v \<longrightarrow> (\<exists>m. buf' = (buf @ bytes) @ media_slice (media d) (unat offset + nat r1) m \<and>
             v = ret + r1 + int m \<and> int m \<le> left - r1))"
          using I b B more o by simp
        show ?thesis
        proof (intro conjI impI)
          assume "0 \<le> v"
          then obtain m where m: "buf' = (buf @ bytes) @ media_slice (media d) (unat offset + nat r1) m"
            "v = ret + r1 + int m" "int m \<le> left - r1" using I2 by blast
          then show "\<exists>m. buf' = buf @ media_slice (media (dev s)) (unat offset) m \<and> v = ret + int m \<and>
             int m \<le> left"
            using K B more by (intro exI [of _ "nat r1 + m"]) (simp add: media_slice_add)
        qed (use I2 K in simp_all)
      qed
    qed
  qed
  with assms show ?thesis by simp
qed

end

context steady_storage
begin

lemma Zbd_Read_loop_returns: "0 \<le> left \<Longrightarrow> \<exists>v. Zbd_Read_loop be buf offset left direct r ret s = Some v"
proof (induction "nat left" arbitrary: buf offset left r ret s rule: less_induct)
  case less
  obtain r1 e bytes d where R: "be_Read be left offset direct (dev s) = (r1, e, bytes, d)"
    by (metis prod_cases4)
  have e: "\<not> e" using read_steady [OF R] .
  show ?case
  proof (cases "left = 0 \<or> r1 \<le> 0")
    case True
    then show ?thesis using R e by (subst Zbd_Read_loop.simps) (auto simp: Let_def)
  next
    case False
    then have "r1 \<le> left" using read_bytes [OF R] by simp
    then have "\<exists>v. Zbd_Read_loop be (buf @ take (nat r1) bytes) (offset + of_int r1) (left - r1) direct
        r1 (ret + r1) (s\<lparr>dev := d\<rparr>) = Some v"
      using False less.prems by (intro less.hyps) auto
    then show ?thesis
      using R e False \<open>r1 \<le> left\<close> by (subst Zbd_Read_loop.simps) (simp add: Let_def)
  qed
qed

end

end
