(* ===== verification/Zbd_Safety.thy ===== *)
theory Zbd_Safety
  imports Zbd_Device
begin

text \<open>
  What the zone bookkeeping of \<open>ZonedBlockDevice\<close> guarantees: opening a device builds well-formed,
  pairwise different zones and balanced token counters; the token counters stay within the limits
  under any interleaving of threads (a step relation with an invariant by rule induction); resetting
  and finishing zones never touches a zone in use and keeps the token balance.
\<close>

section \<open>Opening the device\<close>

text \<open>A report as a drive gives it: sane entries, and active means partly written.\<close>

definition report_ok :: "u64 \<Rightarrow> zone_report \<Rightarrow> bool" where
  "report_ok zsz r \<longleftrightarrow> report_wf zsz r \<and>
    (r_swr r \<and> \<not> r_offline r \<longrightarrow> r_active r = zone_active (Zone_new r 0))"

lemma zone_active_new: "zone_active (Zone_new r n) = zone_active (Zone_new r 0)"
  by (simp add: zone_active_def zone_ops Zone_new_def)

text \<open>The state while the zones are being created.\<close>

definition zones_fresh :: "('d, 'e) backend_scheme \<Rightarrow> ('d, 'm) zbd_scheme \<Rightarrow> bool" where
  "zones_fresh be s \<longleftrightarrow> distinct (io_zones s @ meta_zones s) \<and>
    (\<forall>p \<in> set (io_zones s) \<union> set (meta_zones s). p < next_zptr s \<and> \<not> z_busy (zheap s p) \<and>
       z_used (zheap s p) = 0) \<and> zones_wf be s"

text \<open>One I/O zone, without the locking around it.\<close>

definition opened_io :: "('d, 'e) backend_scheme \<Rightarrow> bool \<Rightarrow> zone_report \<Rightarrow> ('d, 'm) zbd_scheme
    \<Rightarrow> ('d, 'm) zbd_scheme" where
  "opened_io be readonly r s =
    (let p = next_zptr s;
         s1 = register_zone be p ((snd (new_Zone r s))\<lparr>io_zones := io_zones s @ [p]\<rparr>);
         s2 = (if r_active r then s1\<lparr>active_io_zones := active_io_zones s1 + 1\<rparr> else s1)
     in if r_active r \<and> r_open r \<and> \<not> readonly then snd (Zone_Close be p s2) else s2)"

lemma Zone_Close_acquired:
  "Zone_Close be p (acquired p s) = (case Zone_Close be p s of (st, s') \<Rightarrow> (st, acquired p s'))"
  by (auto simp: Zone_Close_def zone_ops acquired_dev split: prod.splits)

lemma dev_self: "s\<lparr>dev := dev s\<rparr> = s"
  by (cases s) simp

lemma Zone_Close_frame:
  "Zone_Close be p s = (st, s') \<Longrightarrow> \<exists>d. s' = s\<lparr>dev := d\<rparr>"
  by (auto simp: Zone_Close_def split: if_splits prod.splits intro: dev_self [symmetric])

lemma acquired_register:
  "register_zone be p ((acquired p s)\<lparr>io_zones := xs\<rparr>) =
   acquired p (register_zone be p (s\<lparr>io_zones := xs\<rparr>))"
  by (simp add: register_zone_def acquired_def upd_zone_def GetZoneNr_def)

lemma Open_io_step:
  "Open_io be ro (r # rs) s =
    (if r_swr r \<and> \<not> r_offline r then Open_io be ro rs (opened_io be ro r s) else Open_io be ro rs s)"
proof (cases "r_swr r \<and> \<not> r_offline r")
  case True
  define p where "p = next_zptr s"
  define s1 where "s1 = snd (new_Zone r s)"
  have n: "new_Zone r s = (p, s1)" by (simp add: new_Zone_def p_def s1_def)
  have nb: "\<not> z_busy (zheap s1 p)" and io: "io_zones s1 = io_zones s"
    by (simp_all add: s1_def new_Zone_def p_def Zone_new_def)
  define s2 where "s2 = register_zone be p (s1\<lparr>io_zones := io_zones s @ [p]\<rparr>)"
  define s3 where "s3 = (if r_active r then s2\<lparr>active_io_zones := active_io_zones s2 + 1\<rparr> else s2)"
  define s4 where "s4 = (if r_active r \<and> r_open r \<and> \<not> ro then snd (Zone_Close be p s3) else s3)"
  have nb3: "\<not> z_busy (zheap s3 p)"
    using nb by (simp add: s3_def s2_def register_zone_def)
  obtain st s5 where C: "Zone_Close be p s3 = (st, s5)" by fastforce
  have "zheap s5 = zheap s3" using Zone_Close_frame [OF C] by auto
  then have nb4: "\<not> z_busy (zheap s4 p)" using nb3 C by (simp add: s4_def)
  have a3: "r_active r \<Longrightarrow>
      (acquired p s2)\<lparr>active_io_zones := active_io_zones s2 + 1\<rparr> = acquired p s3"
    by (simp add: s3_def acquired_def upd_zone_def)
  have "(if r_active r
      then let s4 = (acquired p s2)\<lparr>active_io_zones := active_io_zones (acquired p s2) + 1\<rparr>
           in if r_open r \<and> \<not> ro then snd (Zone_Close be p s4) else s4
      else acquired p s2) = acquired p s4"
    using a3 C by (cases "r_active r") (auto simp: s3_def s4_def Zone_Close_acquired Let_def)
  then have "Open_io be ro (r # rs) s =
      (case Zone_CheckRelease p (acquired p s4) of (status, s5) \<Rightarrow>
         if status \<noteq> OK then (status, s5) else Open_io be ro rs s5)"
    using True by (simp only: Open_io.simps n prod.case Acquire_eq nb Let_def acquired_more
        io acquired_register s2_def if_True if_False not_True_eq_False not_False_eq_True simp_thms)
  then have "Open_io be ro (r # rs) s = Open_io be ro rs s4"
    by (simp add: CheckRelease_acquired [OF nb4])
  moreover have "opened_io be ro r s = s4"
    by (simp add: opened_io_def Let_def s4_def s3_def s2_def s1_def p_def)
  ultimately show ?thesis using True by simp
next
  case False
  then show ?thesis by (simp only: Open_io.simps if_False)
qed

declare Open_io.simps(2) [simp del]

lemma opened_io_effect:
  assumes "s' = opened_io be ro r s"
  shows "io_zones s' = io_zones s @ [next_zptr s]" "meta_zones s' = meta_zones s"
    "next_zptr s' = next_zptr s + 1" "open_io_zones s' = open_io_zones s"
    "zheap s' = (zheap s)(next_zptr s := Zone_new r (id_counter s))"
    "active_io_zones s' = active_io_zones s + (if r_active r then 1 else 0)"
proof -
  define s2 where "s2 = (let s1 = register_zone be (next_zptr s)
    ((snd (new_Zone r s))\<lparr>io_zones := io_zones s @ [next_zptr s]\<rparr>)
    in if r_active r then s1\<lparr>active_io_zones := active_io_zones s1 + 1\<rparr> else s1)"
  obtain st s5 where C: "Zone_Close be (next_zptr s) s2 = (st, s5)" by fastforce
  then obtain d where d: "s5 = s2\<lparr>dev := d\<rparr>" using Zone_Close_frame by blast
  have "s' = s5 \<or> s' = s2" using assms C by (auto simp: opened_io_def s2_def Let_def)
  then obtain d' where s': "s' = s2\<lparr>dev := d'\<rparr>"
    using d dev_self by metis
  show "io_zones s' = io_zones s @ [next_zptr s]" "meta_zones s' = meta_zones s"
    "next_zptr s' = next_zptr s + 1" "open_io_zones s' = open_io_zones s"
    "zheap s' = (zheap s)(next_zptr s := Zone_new r (id_counter s))"
    "active_io_zones s' = active_io_zones s + (if r_active r then 1 else 0)"
    by (simp_all add: s' s2_def Let_def register_zone_def new_Zone_def)
qed

context zoned_backend
begin

lemma opened_io_geometry:
  fixes s :: "('d, 'm) zbd_scheme"
  shows "geometry be (dev (opened_io be ro r s)) = geometry be (dev s)"
proof -
  have "geometry be (dev (snd (Zone_Close be p s))) = geometry be (dev s)"
    for p and s :: "('d, 'm) zbd_scheme"
    by (auto simp: Zone_Close_def split: prod.split dest: close_geometry)
  then show ?thesis by (simp add: opened_io_def Let_def register_zone_def new_Zone_def)
qed

lemma opened_io_fresh:
  assumes "zones_fresh be s" "report_wf (be_zone_sz be (dev s)) r"
  shows "zones_fresh be (opened_io be ro r s)"
proof -
  define s' where "s' = opened_io be ro r s"
  note E = opened_io_effect [OF s'_def]
  have z: "be_zone_sz be (dev s') = be_zone_sz be (dev s)"
    using opened_io_geometry [of ro r s] by (simp add: s'_def geometry_def)
  have fresh: "next_zptr s \<notin> set (io_zones s) \<union> set (meta_zones s)"
    using assms(1) by (auto simp: zones_fresh_def)
  have same: "zheap s' p = zheap s p" if "p \<in> set (io_zones s) \<union> set (meta_zones s)" for p
    using that fresh by (auto simp: E(5))
  have "zones_wf be s'"
    unfolding zones_wf_def z
  proof
    fix p assume "p \<in> set (io_zones s') \<union> set (meta_zones s')"
    then consider "p = next_zptr s" | "p \<in> set (io_zones s) \<union> set (meta_zones s)"
      by (auto simp: E(1,2))
    then show "zone_wf (be_zone_sz be (dev s)) (zheap s' p)"
    proof cases
      case 1
      then show ?thesis using Zone_new_wf [OF assms(2)] by (simp add: E(5))
    next
      case 2
      then show ?thesis using same assms(1) by (auto simp: zones_fresh_def zones_wf_def)
    qed
  qed
  moreover have "p < next_zptr s' \<and> \<not> z_busy (zheap s' p) \<and> z_used (zheap s' p) = 0"
    if "p \<in> set (io_zones s') \<union> set (meta_zones s')" for p
  proof (cases "p = next_zptr s")
    case True
    then show ?thesis by (simp add: E(3,5) Zone_new_def)
  next
    case False
    then have "p \<in> set (io_zones s) \<union> set (meta_zones s)" using that by (auto simp: E(1,2))
    then show ?thesis using same assms(1) by (auto simp: zones_fresh_def E(3) less_Suc_eq)
  qed
  moreover have "distinct (io_zones s' @ meta_zones s')"
    using assms(1) fresh by (auto simp: zones_fresh_def E(1,2))
  ultimately show ?thesis by (simp add: zones_fresh_def flip: s'_def)
qed

lemma opened_io_balanced:
  assumes "zones_fresh be s" "active_balanced k s" "report_ok zsz r" "r_swr r" "\<not> r_offline r"
  shows "active_balanced k (opened_io be ro r s)"
proof -
  define s' where "s' = opened_io be ro r s"
  note E = opened_io_effect [OF s'_def]
  have fresh: "next_zptr s \<notin> set (io_zones s)" using assms(1) by (auto simp: zones_fresh_def)
  then have "filter (\<lambda>p. zone_active (zheap s' p)) (io_zones s) =
      filter (\<lambda>p. zone_active (zheap s p)) (io_zones s)"
    by (intro filter_cong) (auto simp: E(5))
  moreover have "zone_active (zheap s' (next_zptr s)) = r_active r"
    using assms(3-5) by (simp add: E(5) zone_active_new [of r "id_counter s"] report_ok_def)
  ultimately show ?thesis
    using assms(2) fresh by (simp add: active_balanced_def E(1,6) flip: s'_def)
qed

lemma Open_io_ok:
  assumes "zones_fresh be s" "active_balanced 0 s" "\<forall>r \<in> set rs. report_ok (be_zone_sz be (dev s)) r"
    "Open_io be ro rs s = (st, s')"
  shows "st = OK \<and> zones_fresh be s' \<and> active_balanced 0 s' \<and> open_io_zones s' = open_io_zones s \<and>
    meta_zones s' = meta_zones s"
  using assms
proof (induction rs arbitrary: s)
  case (Cons r rs)
  show ?case
  proof (cases "r_swr r \<and> \<not> r_offline r")
    case True
    have "be_zone_sz be (dev (opened_io be ro r s)) = be_zone_sz be (dev s)"
      using opened_io_geometry [of ro r s] by (simp add: geometry_def)
    then show ?thesis
      using Cons.IH [of "opened_io be ro r s"] Cons.prems True
        opened_io_fresh [of s r ro] opened_io_balanced [of s 0 "be_zone_sz be (dev s)" r ro]
        opened_io_effect(2,4) [OF refl, of be ro r s]
      by (simp add: Open_io_step report_ok_def)
  next
    case False
    then have "Open_io be ro rs s = (st, s')"
      using Cons.prems(4) by (simp only: Open_io_step if_False)
    then show ?thesis using Cons.IH [of s] Cons.prems by simp
  qed
qed simp

lemma Open_meta_ok:
  assumes "zones_fresh be s" "\<forall>r \<in> set rs. report_wf (be_zone_sz be (dev s)) r" "io_zones s = []"
    "Open_meta be m rs s = (rest, s')"
  shows "zones_fresh be s' \<and> io_zones s' = [] \<and> dev s' = dev s \<and> set rest \<subseteq> set rs \<and>
    length (meta_zones s') \<le> length (meta_zones s) + (3 - m)"
  using assms
proof (induction rs arbitrary: s m)
  case (Cons r rs)
  define p where "p = next_zptr s"
  define s1 where "s1 = register_zone be p ((snd (new_Zone r s))\<lparr>meta_zones := meta_zones s @ [p]\<rparr>)"
  have s1: "zheap s1 = (zheap s)(p := Zone_new r (id_counter s))" "meta_zones s1 = meta_zones s @ [p]"
    "io_zones s1 = io_zones s" "next_zptr s1 = next_zptr s + 1" "dev s1 = dev s"
    by (simp_all add: s1_def register_zone_def new_Zone_def p_def)
  have o: "zones_fresh be s1"
    using Cons.prems(1-3) Zone_new_wf [of "be_zone_sz be (dev s)" r "id_counter s"]
    by (auto simp: zones_fresh_def zones_wf_def s1 p_def Zone_new_def)
  have n: "new_Zone r s = (p, snd (new_Zone r s))" "meta_zones (snd (new_Zone r s)) = meta_zones s"
    by (simp_all add: new_Zone_def p_def)
  consider (use) "m < 3" "r_swr r" "\<not> r_offline r" | (count) "m < 3" "r_swr r" "r_offline r"
    | (skip) "m < 3" "\<not> r_swr r" | (stop) "3 \<le> m" by linarith
  then show ?case
  proof cases
    case use
    then have L: "Open_meta be (m + 1) rs s1 = (rest, s')"
      using Cons.prems(4) n by (simp add: s1_def split: prod.splits)
    have "zones_fresh be s' \<and> io_zones s' = [] \<and> dev s' = dev s1 \<and> set rest \<subseteq> set rs \<and>
      length (meta_zones s') \<le> length (meta_zones s1) + (3 - (m + 1))"
      using o L Cons.prems by (intro Cons.IH) (simp_all add: s1)
    then show ?thesis using use by (auto simp: s1)
  next
    case count
    then show ?thesis using Cons.IH [of s "m + 1"] Cons.prems by auto
  next
    case skip
    then show ?thesis using Cons.IH [of s m] Cons.prems by auto
  next
    case stop
    then show ?thesis using Cons.prems by auto
  qed
qed simp

end


section \<open>Threads and tokens\<close>

text \<open>
  Any number of threads take and return tokens in any order. \<open>H t\<close> is whether thread \<open>t\<close> holds an open
  token and with which priority it took it, \<open>A\<close> the threads holding an active token. The waits and
  tests are the operations of the model, each atomic under \<open>zone_resources_mtx_\<close>.
\<close>

inductive token_step ::
  "('d, 'm) zbd_scheme \<times> ('t \<rightharpoonup> bool) \<times> 't set \<Rightarrow> ('d, 'm) zbd_scheme \<times> ('t \<rightharpoonup> bool) \<times> 't set \<Rightarrow> bool"
where
  take_open: "WaitForOpenIOZoneToken prio s = Some s' \<Longrightarrow> H t = None \<Longrightarrow>
    token_step (s, H, A) (s', H(t \<mapsto> prio), A)"
| take_active: "GetActiveIOZoneTokenIfAvailable s = (True, s') \<Longrightarrow> t \<notin> A \<Longrightarrow>
    token_step (s, H, A) (s', H, insert t A)"
| give_open: "H t \<noteq> None \<Longrightarrow> token_step (s, H, A) (PutOpenIOZoneToken s, H(t := None), A)"
| give_active: "t \<in> A \<Longrightarrow> token_step (s, H, A) (PutActiveIOZoneToken s, H, A - {t})"

inductive_cases token_stepE: "token_step (s, H, A) (s', H', A')"

definition token_inv ::
  "u32 \<Rightarrow> u32 \<Rightarrow> ('d, 'm) zbd_scheme \<times> ('t \<rightharpoonup> bool) \<times> 't set \<Rightarrow> bool" where
  "token_inv mo ma = (\<lambda>(s, H, A).
    max_nr_open_io_zones s = mo \<and> max_nr_active_io_zones s = ma \<and> finite (dom H) \<and> finite A \<and>
    open_io_zones s = int (card (dom H)) \<and> open_io_zones s \<le> uint mo \<and>
    int (card {t. H t = Some False}) \<le> uint mo - 1 \<and>
    active_io_zones s = int (card A) \<and> active_io_zones s \<le> uint ma)"

lemma nonprio_finite: "finite (dom H) \<Longrightarrow> finite {t. H t = Some False}"
  by (rule finite_subset [of _ "dom H"]) auto

lemma nonprio_le: "finite (dom H) \<Longrightarrow> card {t. H t = Some False} \<le> card (dom H)"
  by (rule card_mono) auto

lemma uint_pred: "0 < (w :: u32) \<Longrightarrow> uint (w - 1) = uint w - 1"
proof -
  assume "0 < w"
  then have "1 \<le> w" by (simp add: word_le_nat_alt word_less_nat_alt)
  then show ?thesis by (simp add: uint_minus_simple_alt)
qed

lemma token_step_inv:
  assumes "token_step c c'" "token_inv mo ma c" "0 < mo"
  shows "token_inv mo ma c'"
  using assms(1,2)
proof (induction rule: token_step.induct)
  case (take_open prio s s' H t A)
  have f: "finite (dom H)" "t \<notin> dom H" using take_open by (auto simp: token_inv_def)
  have c: "card (insert t (dom H)) = card (dom H) + 1" using f by simp
  have np: "{t'. (H(t \<mapsto> prio)) t' = Some False} =
      (if prio then {t. H t = Some False} else insert t {t. H t = Some False})"
    using take_open.hyps(2) by auto
  have nc: "card (insert t {t. H t = Some False}) = card {t. H t = Some False} + 1"
    using nonprio_finite [OF f(1)] take_open.hyps(2) by simp
  show ?case
    using take_open f c np nc nonprio_le [OF f(1)] uint_pred [OF assms(3)]
    by (auto simp: token_inv_def token_ops allocator_open_limit_def split: if_splits)
next
  case (take_active s s' t A H)
  then show ?case by (auto simp: token_inv_def token_ops split: if_splits)
next
  case (give_open H t s A)
  then have f: "finite (dom H)" "t \<in> dom H" by (auto simp: token_inv_def)
  have "{t'. (H(t := None)) t' = Some False} \<subseteq> {t. H t = Some False}" by auto
  then have "card {t'. (H(t := None)) t' = Some False} \<le> card {t. H t = Some False}"
    using nonprio_finite [OF f(1)] by (rule card_mono [rotated])
  moreover have "card (dom H) > 0" using f card_gt_0_iff by blast
  ultimately show ?case using give_open f by (auto simp: token_inv_def token_ops)
next
  case (give_active t A s H)
  then have "card A > 0" by (auto simp: token_inv_def card_gt_0_iff)
  then show ?case using give_active by (auto simp: token_inv_def token_ops)
qed

lemma token_reach_inv:
  assumes "token_step\<^sup>*\<^sup>* c c'" "token_inv mo ma c" "0 < mo"
  shows "token_inv mo ma c'"
  using assms by (induction rule: rtranclp_induct) (auto intro: token_step_inv)

text \<open>
  C11: Token pool. From a device with no tokens out, whatever the threads do, the number of open
  (active) tokens equals the number of holders and never exceeds the limit, and the allocators
  without priority never hold all open tokens, so one is always left to prioritized ones.
\<close>

theorem token_pool_bounds:
  fixes H :: "'t \<rightharpoonup> bool"
  assumes "token_step\<^sup>*\<^sup>* (s, Map.empty, {}) (s', H, A)"
    and "open_io_zones s = 0" "active_io_zones s = 0" "0 < max_nr_open_io_zones s"
  shows "open_io_zones s' = int (card (dom H)) \<and> open_io_zones s' \<le> uint (max_nr_open_io_zones s) \<and>
    active_io_zones s' = int (card A) \<and> active_io_zones s' \<le> uint (max_nr_active_io_zones s) \<and>
    int (card {t. H t = Some False}) < uint (max_nr_open_io_zones s)"
proof -
  have "0 < uint (max_nr_open_io_zones s)" using assms(4) by (simp add: word_less_def)
  then have "token_inv (max_nr_open_io_zones s) (max_nr_active_io_zones s) (s, Map.empty :: 't \<rightharpoonup> bool, {})"
    using assms by (simp add: token_inv_def)
  from token_reach_inv [OF assms(1) this assms(4)] show ?thesis by (simp add: token_inv_def)
qed

section \<open>A small device for examples\<close>

text \<open>
  Three I/O zones of 4 KiB on the in-memory device: zone 0 has been written but holds no live data,
  zones 1 and 2 hold live data, zone 2 has the least room. Zone 3 is a metadata zone.
\<close>

definition sample_zone :: "u64 \<Rightarrow> u64 \<Rightarrow> u64 \<Rightarrow> zone" where
  "sample_zone st written used =
    (Zone_new \<lparr>r_swr = True, r_offline = False, r_writable = True, r_active = True, r_open = False,
       r_start = st, r_max_capacity = 3072, r_wp = st + written\<rparr> 0)\<lparr>z_used := used\<rparr>"

definition sample_dev :: "ram zbdlib" where
  "sample_dev = (ram_device [ram_zone_at 0, ram_zone_at 1, ram_zone_at 2, ram_zone_at 3])\<lparr>zb_zone_sz := 4096, zb_nr_zones := 4, zb_block_sz := 64,
     zb_read_f := 3, zb_write_f := 3\<rparr>"

definition sample_zbd :: "ram zbdlib zbd" where
  "sample_zbd = (ZonedBlockDevice_new default_params sample_dev)
    \<lparr>zheap := (\<lambda>p. if p = 0 then sample_zone 0 128 0 else if p = 1 then sample_zone 4096 1024 700
        else if p = 2 then sample_zone 8192 3000 64 else sample_zone 12288 0 0),
     io_zones := [0, 1, 2], meta_zones := [3], next_zptr := 4, active_io_zones := 3,
     max_nr_active_io_zones := 3, max_nr_open_io_zones := 3, finish_threshold := 10\<rparr>"

lemmas sample_defs = sample_zbd_def sample_zone_def sample_dev_def ram_device_def ram_zone_at_def
  ZbdlibBackend_new_def ZonedBlockDevice_new_def Zone_new_def default_params_def

text \<open>The device before any token is out, and after one thread has taken an open token.\<close>

definition sample_idle :: "ram zbdlib zbd" where
  "sample_idle = sample_zbd\<lparr>active_io_zones := 0\<rparr>"

theorem token_pool_bounds_witness:
  "open_io_zones (the (WaitForOpenIOZoneToken False sample_idle)) = 1 \<and> (1 :: int) \<le> 3"
proof -
  let ?s = "the (WaitForOpenIOZoneToken False sample_idle)"
  have W: "WaitForOpenIOZoneToken False sample_idle = Some ?s"
    by (simp add: token_ops allocator_open_limit_def sample_idle_def sample_defs)
  have "token_step\<^sup>*\<^sup>* (sample_idle, Map.empty, {}) (?s, [0 :: nat \<mapsto> False], {})"
    by (rule r_into_rtranclp, rule take_open [OF W]) simp
  then have "open_io_zones ?s = int (card (dom [0 :: nat \<mapsto> False])) \<and>
      open_io_zones ?s \<le> uint (max_nr_open_io_zones sample_idle)"
    by (rule token_pool_bounds [THEN conjE]) (simp_all add: sample_idle_def sample_defs)
  then show ?thesis by (simp add: sample_idle_def sample_defs)
qed


lemma sample_zbd_ok:
  shows "zones_wf ram_backend sample_zbd" and "zones_disjoint ram_backend sample_zbd"
    and "active_balanced 0 sample_zbd"
  by (simp_all add: zones_wf_def zone_wf_def zones_disjoint_def zone_range_def active_balanced_def
      zone_active_def zone_ops sample_defs)

lemmas ram_eval = Zbdlib_Reset_def Zbdlib_Finish_def Zbdlib_Read_def Zbdlib_Write_def
  ram_kernel_def ram_map_zone_def Let_def upd_zone_def zone_ops token_ops

section \<open>Properties\<close>

text \<open>Room in a zone, and the fields after \<open>n\<close> bytes have been written.\<close>

lemma append_room:
  assumes "zone_wf zsz z" "n \<le> unat (z_capacity z)"
  shows "unat (z_wp z) + n < 2 ^ 64"
proof (cases "z_capacity z = 0")
  case True
  then show ?thesis using assms unat_lt_u64 [of "z_wp z"] by simp
next
  case False
  then show ?thesis using assms by (simp add: zone_wf_def)
qed

lemma append_result_fields:
  assumes "s' = append_result p n d s" "n \<le> unat (z_capacity (zheap s p))"
    "unat (z_wp (zheap s p)) + n < 2 ^ 64"
  shows "unat (z_wp (zheap s' p)) = unat (z_wp (zheap s p)) + n"
    and "unat (z_capacity (zheap s' p)) = unat (z_capacity (zheap s p)) - n"
proof -
  have n: "unat (of_nat n :: u64) = n" using assms(3) by (intro unat_of_nat_u64) simp
  show "unat (z_wp (zheap s' p)) = unat (z_wp (zheap s p)) + n"
    using assms(3) n by (simp add: assms(1) append_result_def upd_zone_def unat_add_u64)
  show "unat (z_capacity (zheap s' p)) = unat (z_capacity (zheap s p)) - n"
    using assms(2) n
    by (simp add: assms(1) append_result_def upd_zone_def unat_sub_u64 word_le_nat_alt)
qed

context steady_storage
begin

lemma Zone_Append_effect:
  assumes "zone_wf (be_zone_sz be (dev s)) (zheap s p)"
  shows "\<exists>ios n d. Zone_Append be p data s = Some (ios, append_result p n d s) \<and> n \<le> length data \<and>
    geometry be d = geometry be (dev s) \<and>
    (ios = OK \<longrightarrow> n = length data \<and> media_slice (media d) (unat (z_wp (zheap s p))) (length data) = data) \<and>
    (ios = NoSpace \<longleftrightarrow> unat (z_capacity (zheap s p)) < length data) \<and>
    n \<le> unat (z_capacity (zheap s p)) \<and>
    unat (z_wp (zheap s p)) + unat (z_capacity (zheap s p)) < 2 ^ 64 \<and>
    unat (z_wp (zheap (append_result p n d s) p)) = unat (z_wp (zheap s p)) + n \<and>
    unat (z_capacity (zheap (append_result p n d s) p)) = unat (z_capacity (zheap s p)) - n \<and>
    (\<forall>i. i < unat (z_wp (zheap s p)) \<or> unat (z_wp (zheap s p)) + length data \<le> i \<longrightarrow>
       media d i = media (dev s) i)"
proof (cases "unat (z_capacity (zheap s p)) < length data")
  case True
  have room: "unat (z_wp (zheap s p)) + unat (z_capacity (zheap s p)) < 2 ^ 64" using append_room [OF assms] by simp
  have "Zone_Append be p data s = Some (NoSpace, append_result p 0 (dev s) s)"
    using True by (simp add: Zone_Append_def append_result_0)
  then show ?thesis using True room
    by (intro exI [of _ NoSpace] exI [of _ 0] exI [of _ "dev s"]) (simp add: append_result_0)
next
  case False
  obtain ios s' where A: "Zone_Append be p data s = Some (ios, s')"
    using Zone_Append_returns by blast
  then have L: "Zone_Append_loop be p data s = Some (ios, s')" using False by (simp add: Zone_Append_def)
  obtain n d where n: "n \<le> length data" "s' = append_result p n d s"
    "ios = OK \<and> n = length data \<or> ios = IOError" using Zone_Append_loop_frame [OF L] by auto
  have room: "unat (z_wp (zheap s p)) + unat (z_capacity (zheap s p)) < 2 ^ 64"
    and fits: "unat (z_wp (zheap s p)) + length data < 2 ^ 64"
    using append_room [OF assms] False by simp_all
  have "dev s' = d" by (simp add: n(2) append_result_def upd_zone_def)
  then show ?thesis
    using A n False room append_result_fields [OF n(2)] fits Zone_Append_loop_media [OF L fits]
      Zone_Append_loop_geometry [OF L]
    by (intro exI [of _ ios] exI [of _ n] exI [of _ d]) auto
qed

end

text \<open>
  C2: Appending to a zone. When the write pointer and capacity of the zones are consistent, an
  append either reports success, and then the data is on the media at the old write pointer and
  the write pointer has advanced and the capacity has shrunk by its length; or it reports failure
  with at most that much written. Data outside the appended range is never changed, the zones stay
  consistent, and the call always returns.
\<close>

theorem Zone_Append_correct:
  assumes "steady_storage be media" "zones_wf be s" "p \<in> set (io_zones s) \<union> set (meta_zones s)"
  shows "\<exists>ios s'. Zone_Append be p data s = Some (ios, s') \<and> zones_wf be s' \<and>
    (let w = unat (z_wp (zheap s p)); w' = unat (z_wp (zheap s' p)) in
      (ios = OK \<longrightarrow> media_slice (media (dev s')) w (length data) = data \<and> w' = w + length data \<and>
         unat (z_capacity (zheap s' p)) = unat (z_capacity (zheap s p)) - length data) \<and>
      (ios = NoSpace \<longleftrightarrow> unat (z_capacity (zheap s p)) < length data) \<and>
      w \<le> w' \<and> w' \<le> w + length data \<and>
      (\<forall>i. i < w \<or> w + length data \<le> i \<longrightarrow> media (dev s') i = media (dev s) i))"
proof -
  have be: "zoned_backend be" using assms(1) by (simp add: steady_storage_def zoned_storage_def)
  have "zone_wf (be_zone_sz be (dev s)) (zheap s p)" using assms(2,3) by (simp add: zones_wf_def)
  from steady_storage.Zone_Append_effect [OF assms(1) this, of data]
  obtain ios n d where A: "Zone_Append be p data s = Some (ios, append_result p n d s)"
    and E: "n \<le> length data"
      "ios = OK \<longrightarrow> n = length data \<and> media_slice (media d) (unat (z_wp (zheap s p))) (length data) = data"
      "ios = NoSpace \<longleftrightarrow> unat (z_capacity (zheap s p)) < length data"
      "unat (z_wp (zheap (append_result p n d s) p)) = unat (z_wp (zheap s p)) + n"
      "unat (z_capacity (zheap (append_result p n d s) p)) = unat (z_capacity (zheap s p)) - n"
      "\<forall>i. i < unat (z_wp (zheap s p)) \<or> unat (z_wp (zheap s p)) + length data \<le> i \<longrightarrow>
         media d i = media (dev s) i" by blast
  have "dev (append_result p n d s) = d" by (simp add: append_result_def upd_zone_def)
  then show ?thesis
    using A E zoned_backend.Zone_Append_wf [OF be assms(2) A] by (auto simp: Let_def)
qed

theorem Zone_Append_correct_witness:
  "\<exists>s'. Zone_Append ram_backend 3 [1, 2, 3] sample_zbd = Some (OK, s') \<and>
     media_slice (ram_bytes (dev s')) 12288 3 = [1, 2, 3]"
proof -
  have m: "3 \<in> set (io_zones sample_zbd) \<union> set (meta_zones sample_zbd)"
    "unat (z_wp (zheap sample_zbd 3)) = 12288" by (simp_all add: sample_defs)
  obtain ios s' where A: "Zone_Append ram_backend 3 [1, 2, 3] sample_zbd = Some (ios, s')"
    and c: "ios = OK \<longrightarrow> media_slice (ram_bytes (dev s')) 12288 3 = [1, 2, 3]"
    using Zone_Append_correct [OF ram.steady_storage_axioms sample_zbd_ok(1) m(1), of "[1, 2, 3]"] m(2)
    by (auto simp: Let_def numeral_3_eq_3)
  have "be_Write ram_backend [1, 2, 3] (z_wp (zheap sample_zbd 3)) (dev sample_zbd) =
      (3, snd (be_Write ram_backend [1, 2, 3] (z_wp (zheap sample_zbd 3)) (dev sample_zbd)))"
    by (simp add: sample_defs Zbdlib_Write_def ram_kernel_def ram_pwrite_def ram_accepts_def)
  from Zone_Append_loop_step [OF _ this] A have "ios = OK"
    by (simp add: Zone_Append_def Zone_Append_loop_Nil split: if_splits) (simp add: sample_defs)
  then show ?thesis using A c by blast
qed



text \<open>
  C21: Finishing the cheapest zone. \<open>FinishCheapestIOZone\<close> finishes exactly one zone, one with the
  least remaining capacity among the free zones that are partly written; all other zone objects are
  unchanged. If there is no such zone it succeeds and changes nothing. On failure no zone changes.
  The active tokens stay balanced.
\<close>

theorem FinishCheapestIOZone_cheapest:
  assumes "active_balanced k s" "FinishCheapestIOZone be s = (st, s')"
  shows "active_balanced k s' \<and>
    (let C = {p \<in> set (io_zones s). \<not> z_busy (zheap s p) \<and> \<not> IsEmpty (zheap s p) \<and> \<not> IsFull (zheap s p)}
     in (C = {} \<longrightarrow> st = OK \<and> s' = s) \<and> (st \<noteq> OK \<longrightarrow> zheap s' = zheap s) \<and>
        (C \<noteq> {} \<and> st = OK \<longrightarrow> (\<exists>v \<in> C. IsFull (zheap s' v) \<and>
           (\<forall>q \<in> C. z_capacity (zheap s v) \<le> z_capacity (zheap s q)) \<and>
           (\<forall>q. q \<noteq> v \<longrightarrow> zheap s' q = zheap s q))))"
proof (cases "cheapest_zone s")
  case None
  then have "s' = s \<and> st = OK"
    using assms by (auto simp: FinishCheapest_eq active_balanced_def)
  then show ?thesis using None assms(1) by (auto simp: cheapest_zone_None zone_active_def)
next
  case (Some v)
  let ?s = "s\<lparr>finish_bytes_written := finish_bytes_written s + z_capacity (zheap s v)\<rparr>"
  obtain st1 s1 where F: "Zone_Finish be v ?s = (st1, s1)" by fastforce
  note E = Zone_Finish_effect [OF F]
  have "distinct (io_zones s)" using assms(1) by (simp add: active_balanced_def)
  then have s': "st = st1" "zheap s' = zheap s1"
    using assms(2) Some F by (auto simp: FinishCheapest_eq split: if_splits)
  have m: "v \<in> set (finish_candidates s (io_zones s))"
    "\<forall>q \<in> set (finish_candidates s (io_zones s)). z_capacity (zheap s v) \<le> z_capacity (zheap s q)"
    using cheapest_zone_min [OF Some] by auto
  have "active_balanced k s'" using FinishCheapest_effect [OF assms(2,1)] by simp
  then show ?thesis
    using E s' m unfolding Let_def
    by (intro conjI impI bexI [of _ v]) (auto simp: finish_candidates_def zone_active_def)
qed

theorem FinishCheapestIOZone_cheapest_witness:
  "IsFull (zheap (snd (FinishCheapestIOZone ram_backend sample_zbd)) 2) \<and>
   zheap (snd (FinishCheapestIOZone ram_backend sample_zbd)) 1 = zheap sample_zbd 1"
proof -
  obtain st s' where R: "FinishCheapestIOZone ram_backend sample_zbd = (st, s')" by fastforce
  have d: "distinct (io_zones sample_zbd)" by (simp add: sample_defs)
  have "Zone_Finish ram_backend v s = (OK, snd (Zone_Finish ram_backend v s))" for v and s :: "ram zbdlib zbd"
    by (simp add: Zone_Finish_def ram_eval)
  then have "fst (FinishCheapestIOZone ram_backend sample_zbd) = OK"
    by (simp add: FinishCheapest_eq [OF d] split: option.split prod.split) (metis prod.inject)
  then have ok: "st = OK" using R by simp
  let ?C = "{p \<in> set (io_zones sample_zbd). \<not> z_busy (zheap sample_zbd p) \<and>
    \<not> IsEmpty (zheap sample_zbd p) \<and> \<not> IsFull (zheap sample_zbd p)}"
  have C: "?C = {0, 1, 2}" by (auto simp: sample_defs zone_ops)
  have cap: "z_capacity (zheap sample_zbd 2) < z_capacity (zheap sample_zbd 0)"
    "z_capacity (zheap sample_zbd 2) < z_capacity (zheap sample_zbd 1)"
    by (simp_all add: sample_defs)
  have "\<exists>v \<in> {0, 1, 2}. IsFull (zheap s' v) \<and>
      (\<forall>q \<in> {0, 1, 2}. z_capacity (zheap sample_zbd v) \<le> z_capacity (zheap sample_zbd q)) \<and>
      (\<forall>q. q \<noteq> v \<longrightarrow> zheap s' q = zheap sample_zbd q)"
    using FinishCheapestIOZone_cheapest [OF sample_zbd_ok(3) R] ok C
    by (simp add: Let_def)
  then show ?thesis using cap R by auto
qed


text \<open>
  C25: Applying the finish threshold. A zone object changes only if the zone was free, partly written
  and had less than the threshold's share of its capacity left, and then it ends up full. The active
  tokens stay balanced and the zones consistent.
\<close>

theorem ApplyFinishThreshold_only_threshold:
  assumes "zoned_backend be" "zones_wf be s" "active_balanced k s"
    and "ApplyFinishThreshold be s = (st, s')"
  shows "zones_wf be s' \<and> active_balanced k s' \<and>
    (\<forall>p. zheap s' p \<noteq> zheap s p \<longrightarrow> p \<in> set (io_zones s) \<and> \<not> z_busy (zheap s p) \<and>
       \<not> IsEmpty (zheap s p) \<and> \<not> IsFull (zheap s p) \<and> finish_threshold s \<noteq> 0 \<and>
       z_capacity (zheap s p) < z_max_capacity (zheap s p) * ucast (finish_threshold s) div 100 \<and>
       IsFull (zheap s' p))"
proof (cases "finish_threshold s = 0")
  case True
  then show ?thesis using assms by (simp add: ApplyFinishThreshold_def)
next
  case False
  then have L: "ApplyFinishThreshold_loop be (io_zones s) s = (st, s')"
    using assms(4) by (simp add: ApplyFinishThreshold_def)
  show ?thesis
    using zoned_backend.ApplyFinish_wf_loop [OF assms(1,2) L] ApplyFinish_loop [OF L assms(3)] False
    by (auto simp: zone_active_def within_finish_threshold_def)
qed

theorem ApplyFinishThreshold_only_threshold_witness:
  "zheap (snd (ApplyFinishThreshold ram_backend sample_zbd)) 1 = zheap sample_zbd 1 \<and>
   zheap (snd (ApplyFinishThreshold ram_backend sample_zbd)) 0 = zheap sample_zbd 0"
proof -
  obtain st s' where R: "ApplyFinishThreshold ram_backend sample_zbd = (st, s')" by fastforce
  have "\<not> z_capacity (zheap sample_zbd p) <
      z_max_capacity (zheap sample_zbd p) * ucast (finish_threshold sample_zbd) div 100"
    if "p = 0 \<or> p = 1" for p
    using that by (auto simp: sample_defs)
  then show ?thesis
    using ApplyFinishThreshold_only_threshold
      [OF ram.zoned_backend_axioms sample_zbd_ok(1,3) R] R by auto
qed

text \<open>
  C24: Metadata zones. \<open>AllocateMetaZone\<close> succeeds exactly when it hands out a zone; that zone was free
  and without live data, and is empty and acquired by the caller. Every free metadata zone with live
  data that precedes it in the list is left acquired, although the caller does not get it: the search
  does not release the zones it passes over.
\<close>

theorem AllocateMetaZone_sound:
  assumes "AllocateMetaZone be s = (st, out, s')" "distinct (meta_zones s)"
  shows "(st = OK \<longleftrightarrow> out \<noteq> None) \<and>
    (\<forall>z. out = Some z \<longrightarrow> z \<in> set (meta_zones s) \<and> \<not> z_busy (zheap s z) \<and> \<not> IsUsed (zheap s z) \<and>
       z_busy (zheap s' z) \<and> IsEmpty (zheap s' z) \<and>
       (\<forall>xs ys q. meta_zones s = xs @ z # ys \<and> q \<in> set xs \<and> IsUsed (zheap s q) \<longrightarrow>
          z_busy (zheap s' q)))"
proof -
  have L: "AllocateMetaZone_loop be (meta_zones s) s = (st, out, s')"
    using assms(1) by (simp add: AllocateMetaZone_def)
  have "z_busy (zheap s' q)"
    if "meta_zones s = xs @ z # ys" "q \<in> set xs" "IsUsed (zheap s q)" "out = Some z" for z xs ys q
    using AllocateMeta_loop_passed [OF _ _ that(2,3)] L assms(2) that(1,4) by metis
  then show ?thesis using AllocateMeta_loop_OK [OF L assms(2)] by blast
qed

theorem AllocateMetaZone_sound_witness:
  "let s = sample_zbd\<lparr>meta_zones := [2, 3]\<rparr>; r = AllocateMetaZone ram_backend s
   in fst (snd r) = Some 3 \<and> z_busy (zheap (snd (snd r)) 3) \<and> z_busy (zheap (snd (snd r)) 2)"
proof -
  define s where "s = sample_zbd\<lparr>meta_zones := [2, 3]\<rparr>"
  obtain st out s' where R: "AllocateMetaZone ram_backend s = (st, out, s')" by (metis prod_cases3)
  have "fst (snd (AllocateMetaZone ram_backend s)) = Some 3"
    by (simp add: s_def AllocateMetaZone_def AllocateMeta_step sample_defs zone_ops acquired_def upd_zone_def)
  then have out: "out = Some 3" using R by simp
  have m: "meta_zones s = [2] @ 3 # []" "distinct (meta_zones s)" "IsUsed (zheap s 2)"
    by (simp_all add: s_def sample_defs zone_ops)
  have "z_busy (zheap s' 3) \<and> z_busy (zheap s' 2)"
    using AllocateMetaZone_sound [OF R m(2)] out m(1,3) by (metis list.set_intros(1))
  then show ?thesis using R out by (simp add: Let_def flip: s_def)
qed

text \<open>
  C23: The read loop. For a range within the address space the loop returns, changes neither the media
  nor the zones, and when the result is not an error it is the number of bytes read, at most the
  number asked for, and the buffer holds exactly the bytes of the media from the offset on. A request
  of no bytes at all returns -1.
\<close>

theorem Zbd_Read_media:
  assumes "steady_storage be media" "0 \<le> n" "unat offset + nat n < 2 ^ 64"
  shows "\<exists>r buf s'. Zbd_Read be offset n direct s = Some (r, buf, s') \<and>
    media (dev s') = media (dev s) \<and> zheap s' = zheap s \<and>
    (0 \<le> r \<longrightarrow> r \<le> n \<and> buf = media_slice (media (dev s)) (unat offset) (nat r)) \<and>
    (n = 0 \<longrightarrow> r = -1)"
proof -
  have be: "zoned_storage be media" using assms(1) by (simp add: steady_storage_def)
  obtain r buf s' where R: "Zbd_Read be offset n direct s = Some (r, buf, s')"
    using steady_storage.Zbd_Read_loop_returns [OF assms(1,2)]
    by (metis Zbd_Read_def prod_cases3)
  have "n = 0 \<Longrightarrow> r = -1"
    using R unfolding Zbd_Read_def by (subst (asm) Zbd_Read_loop.simps) simp
  moreover note zoned_storage.Zbd_Read_loop_media [OF be R [unfolded Zbd_Read_def] assms(2,3)]
  ultimately show ?thesis using R by auto
qed

theorem Zbd_Read_media_witness:
  "\<exists>r buf s'. Zbd_Read ram_backend 100 16 False sample_zbd = Some (r, buf, s') \<and>
     (0 \<le> r \<longrightarrow> buf = media_slice (ram_bytes (dev sample_zbd)) 100 (nat r))"
  using Zbd_Read_media [OF ram.steady_storage_axioms, of 16 100 False sample_zbd] by auto

text \<open>
  C22: Opening a device. On a device of at least 32 zones whose report is complete and sane, \<open>Open\<close>
  succeeds; the zones it builds are pairwise different and consistent, free and without live data,
  at most three are metadata zones, and the token counters match: no open tokens, one active token
  per partly written zone.
\<close>

theorem Zbd_Open_sound:
  assumes "zoned_backend be" "readonly \<or> exclusive"
    and "be_Open be readonly exclusive d0 = (OK, ma, mo, d)" "32 \<le> be_nr_zones be d"
    and "be_ListZones be d = Some rep" "length rep = unat (be_nr_zones be d)"
    and "\<forall>r \<in> set rep. report_ok (be_zone_sz be d) r"
  shows "\<exists>s'. Zbd_Open be readonly exclusive (ZonedBlockDevice_new ps d0) = (OK, s') \<and>
    distinct (io_zones s' @ meta_zones s') \<and> length (meta_zones s') \<le> 3 \<and> zones_wf be s' \<and>
    (\<forall>p \<in> set (io_zones s') \<union> set (meta_zones s'). \<not> z_busy (zheap s' p) \<and> \<not> IsUsed (zheap s' p)) \<and>
    active_balanced 0 s' \<and> open_io_zones s' = 0"
proof -
  define s2 where "s2 = (ZonedBlockDevice_new ps d0)\<lparr>dev := d,
      max_nr_active_io_zones := (if ma = 0 then be_nr_zones be d else ma - 2),
      max_nr_open_io_zones := (if mo = 0 then be_nr_zones be d else mo - 2)\<rparr>"
  have s2: "io_zones s2 = []" "meta_zones s2 = []" "dev s2 = d"
    by (simp_all add: s2_def ZonedBlockDevice_new_def)
  obtain rest s3 where M: "Open_meta be 0 rep s2 = (rest, s3)" by fastforce
  let ?s = "s3\<lparr>active_io_zones := 0, open_io_zones := 0\<rparr>"
  obtain st s' where I: "Open_io be readonly rest ?s = (st, s')" by fastforce
  have "dev (ZonedBlockDevice_new ps d0) = d0" by (simp add: ZonedBlockDevice_new_def)
  then have Z: "Zbd_Open be readonly exclusive (ZonedBlockDevice_new ps d0) = (st, s')"
    using assms(2-6) M I by (auto simp: Zbd_Open_def Let_def simp flip: s2_def)
  have "zones_fresh be s2" by (simp add: zones_fresh_def zones_wf_def s2)
  then have m: "zones_fresh be s3 \<and> io_zones s3 = [] \<and> dev s3 = d \<and> set rest \<subseteq> set rep \<and>
      length (meta_zones s3) \<le> 3"
    using zoned_backend.Open_meta_ok [OF assms(1) _ _ s2(1) M] assms(7) s2 by (simp add: report_ok_def)
  have "zones_fresh be ?s" "active_balanced 0 ?s"
    using m by (auto simp: zones_fresh_def zones_wf_def active_balanced_def)
  then have "st = OK \<and> zones_fresh be s' \<and> active_balanced 0 s' \<and> open_io_zones s' = 0 \<and>
      meta_zones s' = meta_zones s3"
    using zoned_backend.Open_io_ok [OF assms(1) _ _ _ I] assms(7) m by auto
  then show ?thesis using Z m by (auto simp: zones_fresh_def zone_ops)
qed

lemma ram_zone_report_ok: "i < 32 \<Longrightarrow> report_ok 4096 (zbdlib_report (ram_zone_at i))"
  using unat_of_nat_u64 [of "4096 * i"]
  by (simp add: report_ok_def report_wf_def zbdlib_report_def ram_zone_at_def zone_active_def
      zone_ops Zone_new_def)

theorem Zbd_Open_sound_witness:
  "\<exists>s'. Zbd_Open ram_backend False True
      (ZonedBlockDevice_new default_params (ram_device (map ram_zone_at [0..<32]))) = (OK, s') \<and>
     length (meta_zones s') \<le> 3 \<and> active_balanced 0 s'"
proof -
  let ?d0 = "ram_device (map ram_zone_at [0..<32])"
  define d where "d = ?d0\<lparr>zb_read_f := 3, zb_read_direct_f := 3, zb_write_f := 3,
     zb_block_sz := 64, zb_zone_sz := 4096, zb_nr_zones := 32\<rparr>"
  have "be_Open ram_backend False True ?d0 = (OK, 14, 14, d)"
    by (simp add: d_def Zbdlib_Open_def ram_device_def ram_kernel_def ZbdlibBackend_new_def
        CheckScheduler_def Let_def)
  moreover have "be_ListZones ram_backend d = Some (map zbdlib_report (map ram_zone_at [0..<32]))"
    by (simp add: d_def Zbdlib_ListZones_def ram_kernel_def ram_device_def ZbdlibBackend_new_def
        del: upt_rec_numeral)
  moreover have "be_nr_zones ram_backend d = 32" "be_zone_sz ram_backend d = 4096"
    by (simp_all add: d_def)
  ultimately show ?thesis
    using Zbd_Open_sound [OF ram.zoned_backend_axioms, of False True ?d0 14 14 d
        "map zbdlib_report (map ram_zone_at [0..<32])" default_params] ram_zone_report_ok
    by (auto simp del: upt_rec_numeral)
qed



end
