(* ===== verification/File_Records.thy ===== *)
theory File_Records
  imports Zbd_Safety
begin

text \<open>
  The in-memory file objects (class \<open>ZoneFile\<close> of \<open>src/fs/zbd_zenfs.h\<close>: its members and the setters
  of \<open>src/fs/zbd_zonefile_zenfs.cc\<close>) and the per-level file lists the placement policies consult
  (\<open>src/fs/zbd_extension_zenfs.cc\<close>). A \<open>ZoneFile *\<close> is an index into the heap \<open>fheap\<close>.

  The key comparison is RocksDB's \<open>sstableKeyCompare\<close>, a parameter; its laws are the locale
  \<open>key_order\<close>. The lemmas show that the level lists stay sorted and free of duplicates.
\<close>

section \<open>Parameters: RocksDB and the standard library\<close>

text \<open>
  \<open>sstableKeyCompare\<close> compares two internal keys (their encodings). \<open>std_sort less\<close> and \<open>std_shuffle\<close>
  are the library algorithms on vectors of pointers: the order of equal elements and the outcome of
  a shuffle are theirs.
\<close>

record penv =
  sstableKeyCompare :: "byte list \<Rightarrow> byte list \<Rightarrow> int"
  std_sort :: "(nat \<Rightarrow> nat \<Rightarrow> bool) \<Rightarrow> nat list \<Rightarrow> nat list"
  std_shuffle :: "nat \<Rightarrow> nat list \<Rightarrow> nat list \<times> nat"
  fpops :: fpu

section \<open>File objects\<close>

type_synonym fptr = nat

record extent =
  e_start :: u64
  e_length :: u64
  e_zone :: zptr
  e_level :: int

record zonefile =
  f_extents :: "extent list"
  f_linkfiles :: "string list"
  f_active_zone :: "zptr option"
  f_extent_start :: u64
  f_extent_filepos :: u64
  f_lifetime :: WriteLifeTimeHint
  f_io_type :: IOType
  f_file_size :: u64
  f_file_id :: u64
  f_nr_synced_extents :: u32
  f_open_for_wr :: bool
  f_m_time :: u64
  f_is_sparse :: bool
  f_is_deleted :: bool
  f_level :: int
  f_smallest :: "byte list"
  f_largest :: "byte list"
  f_num_entries :: u64
  f_num_deletions :: u64
  f_num_range_deletions :: u64
  f_file_size_meta :: u64
  f_compensated_file_size :: u64
  f_compensated_range_deletion_size :: u64
  f_smallest_seqno :: u64
  f_largest_seqno :: u64
  f_has_keys :: bool
  f_is_recorded :: bool
  f_key_update_count :: u64
  f_key_update_post_alloc_count :: u64
  f_rank :: u64
  f_alloc_size :: u64
  f_temp_fname :: string

abbreviation (input) NO_EXTENT :: u64 where "NO_EXTENT \<equiv> 0xffffffffffffffff"

text \<open>\<open>kMaxSequenceNumber\<close> of RocksDB is \<open>2 ^ 56 - 1\<close>.\<close>

definition ZoneFile_new :: "u64 \<Rightarrow> zonefile" where
  "ZoneFile_new fid =
    \<lparr> f_extents = [], f_linkfiles = [], f_active_zone = None, f_extent_start = NO_EXTENT,
      f_extent_filepos = 0, f_lifetime = WLTH_NOT_SET, f_io_type = IO_kUnknown, f_file_size = 0,
      f_file_id = fid, f_nr_synced_extents = 0, f_open_for_wr = False, f_m_time = 0,
      f_is_sparse = False, f_is_deleted = False, f_level = -1, f_smallest = [], f_largest = [],
      f_num_entries = 0, f_num_deletions = 0, f_num_range_deletions = 0, f_file_size_meta = 0,
      f_compensated_file_size = 0, f_compensated_range_deletion_size = 0,
      f_smallest_seqno = 0x00ffffffffffffff, f_largest_seqno = 0, f_has_keys = False,
      f_is_recorded = False, f_key_update_count = 0, f_key_update_post_alloc_count = 0,
      f_rank = 100000, f_alloc_size = 0, f_temp_fname = [] \<rparr>"

text \<open>The device together with the file objects and the level lists.\<close>

record 'd fdev = "'d zbd" +
  fheap :: "fptr \<Rightarrow> zonefile"
  next_fptr :: fptr
  levelwise_file_list :: "fptr list list"

definition upd_file :: "fptr \<Rightarrow> (zonefile \<Rightarrow> zonefile) \<Rightarrow> ('d, 'm) fdev_scheme \<Rightarrow> ('d, 'm) fdev_scheme" where
  "upd_file f g s = s\<lparr>fheap := (fheap s)(f := g (fheap s f))\<rparr>"

section \<open>Setters of a file\<close>

definition GetFilename :: "zonefile \<Rightarrow> string option" where
  "GetFilename zf = (case f_linkfiles zf of [] \<Rightarrow> None | l # _ \<Rightarrow> Some l)"

definition GetFileSizeMeta :: "fptr \<Rightarrow> ('d, 'm) fdev_scheme \<Rightarrow> u64 \<times> ('d, 'm) fdev_scheme" where
  "GetFileSizeMeta f s =
    (let zf = fheap s f;
         m = max (max (f_file_size_meta zf) (f_file_size zf)) (f_alloc_size zf)
     in (m, upd_file f (f_file_size_meta_update (\<lambda>_. m)) s))"

definition AddLinkName :: "string \<Rightarrow> zonefile \<Rightarrow> zonefile" where
  "AddLinkName l zf = zf\<lparr>f_linkfiles := f_linkfiles zf @ [l]\<rparr>"

definition RenameLink :: "string \<Rightarrow> string \<Rightarrow> zonefile \<Rightarrow> IOStatus \<times> zonefile" where
  "RenameLink src dest zf =
    (if src \<in> set (f_linkfiles zf)
     then (OK, zf\<lparr>f_linkfiles := remove1 src (f_linkfiles zf) @ [dest]\<rparr>) else (IOError, zf))"

definition RemoveLinkName :: "string \<Rightarrow> zonefile \<Rightarrow> IOStatus \<times> zonefile" where
  "RemoveLinkName l zf =
    (if l \<in> set (f_linkfiles zf)
     then (OK, zf\<lparr>f_linkfiles := remove1 l (f_linkfiles zf)\<rparr>) else (IOError, zf))"

text \<open>\<open>InternalKey::DecodeFrom\<close> stores the bytes of the slice; \<open>size\<close> is their number.\<close>

definition UpdateInternalKeys :: "byte list \<Rightarrow> u64 \<Rightarrow> zonefile \<Rightarrow> zonefile" where
  "UpdateInternalKeys key seqno zf =
    zf\<lparr> f_smallest := (if f_smallest zf = [] then key else f_smallest zf), f_largest := key,
        f_has_keys := True, f_smallest_seqno := min (f_smallest_seqno zf) seqno,
        f_largest_seqno := max (f_largest_seqno zf) seqno,
        f_key_update_count := f_key_update_count zf + 1,
        f_key_update_post_alloc_count :=
          (if f_active_zone zf \<noteq> None then f_key_update_post_alloc_count zf + 1
           else f_key_update_post_alloc_count zf) \<rparr>"

text \<open>\<open>Compare\<close> of the caller's comparator is the argument \<open>cmp\<close>.\<close>

definition UpdateInternalKeysRange ::
  "byte list \<Rightarrow> byte list \<Rightarrow> u64 \<Rightarrow> (byte list \<Rightarrow> byte list \<Rightarrow> int) \<Rightarrow> zonefile \<Rightarrow> zonefile" where
  "UpdateInternalKeysRange st en seqno cmp zf =
    zf\<lparr> f_smallest := (if f_smallest zf = [] \<or> cmp st (f_smallest zf) < 0 then st else f_smallest zf),
        f_largest := (if f_largest zf = [] \<or> cmp (f_largest zf) en < 0 then en else f_largest zf),
        f_has_keys := True, f_smallest_seqno := min (f_smallest_seqno zf) seqno,
        f_largest_seqno := max (f_largest_seqno zf) seqno \<rparr>"

text \<open>\<open>UpdateMetadata\<close> in its two forms; the second also sets the average value size.\<close>

definition UpdateMetadata_props :: "u64 \<Rightarrow> u64 \<Rightarrow> u64 \<Rightarrow> u64 \<Rightarrow> zonefile \<Rightarrow> zonefile" where
  "UpdateMetadata_props ne nd nrd data_size zf =
    zf\<lparr> f_num_entries := max (f_num_entries zf) ne, f_num_deletions := max (f_num_deletions zf) nd,
        f_num_range_deletions := max (f_num_range_deletions zf) nrd,
        f_file_size_meta := max (f_file_size_meta zf) data_size \<rparr>"

definition UpdateMetadata ::
  "fptr \<Rightarrow> u64 \<Rightarrow> u64 \<Rightarrow> u64 \<Rightarrow> u64 \<Rightarrow> u64 \<Rightarrow> u64 \<Rightarrow> ('d, 'm) fdev_scheme \<Rightarrow> ('d, 'm) fdev_scheme" where
  "UpdateMetadata f ne nd nrd fs crds avs s =
    (let s1 = upd_file f (\<lambda>zf. (UpdateMetadata_props ne nd nrd fs zf)
           \<lparr>f_compensated_range_deletion_size := max (f_compensated_range_deletion_size zf) crds\<rparr>) s
     in if avs = 0 then s1 else s1\<lparr>params := (params s1)\<lparr>average_value_size := avs\<rparr>\<rparr>)"

definition ComputeCompensatedSize :: "fptr \<Rightarrow> ('d, 'm) fdev_scheme \<Rightarrow> ('d, 'm) fdev_scheme" where
  "ComputeCompensatedSize f s =
    (let avs = average_value_size (params s)
     in upd_file f (\<lambda>zf.
          let m = max (max (f_file_size_meta zf) (f_file_size zf)) (f_alloc_size zf);
              d2 = (f_num_deletions zf - f_num_range_deletions zf) * 2;
              c = (if d2 \<ge> f_num_entries zf then m + (d2 - f_num_entries zf) * avs * 2 else m)
          in zf\<lparr>f_file_size_meta := m,
                f_compensated_file_size := c + f_compensated_range_deletion_size zf\<rparr>) s)"

section \<open>The level lists\<close>

text \<open>Before the first file whose smallest key is larger; at the end if there is none.\<close>

fun insert_by_smallest :: "penv \<Rightarrow> (fptr \<Rightarrow> zonefile) \<Rightarrow> fptr \<Rightarrow> fptr list \<Rightarrow> fptr list" where
  "insert_by_smallest env h f [] = [f]"
| "insert_by_smallest env h f (g # gs) =
    (if sstableKeyCompare env (f_smallest (h g)) (f_smallest (h f)) \<le> 0
     then g # insert_by_smallest env h f gs else f # g # gs)"

definition AddZoneFileRecord :: "penv \<Rightarrow> fptr \<Rightarrow> ('d, 'm) fdev_scheme \<Rightarrow> ('d, 'm) fdev_scheme" where
  "AddZoneFileRecord env f s =
    (let zf = fheap s f; level = nat (f_level zf); lists = levelwise_file_list s
     in if \<not> f_has_keys zf \<or> f_level zf < 0 \<or> f_io_type zf \<noteq> IO_kData then s
        else
          let lists1 = (if level \<ge> length lists
                        then lists @ replicate (level + 1 - length lists) [] else lists)
          in s\<lparr>levelwise_file_list :=
                 lists1[level := insert_by_smallest env (fheap s) f (lists1 ! level)]\<rparr>)"

definition RemoveZoneFileRecord :: "fptr \<Rightarrow> ('d, 'm) fdev_scheme \<Rightarrow> ('d, 'm) fdev_scheme" where
  "RemoveZoneFileRecord f s =
    s\<lparr>levelwise_file_list := map (removeAll f) (levelwise_file_list s)\<rparr>"

definition RecomputeCompensatedFileSizes :: "('d, 'm) fdev_scheme \<Rightarrow> ('d, 'm) fdev_scheme" where
  "RecomputeCompensatedFileSizes s = fold ComputeCompensatedSize (concat (levelwise_file_list s)) s"

definition CreateOrUpdateRecord :: "penv \<Rightarrow> fptr \<Rightarrow> ('d, 'm) fdev_scheme \<Rightarrow> ('d, 'm) fdev_scheme" where
  "CreateOrUpdateRecord env f s =
    (if f_level (fheap s f) < 0 then s
     else
       let s1 = (if f_is_recorded (fheap s f) then RemoveZoneFileRecord f s else s)
       in upd_file f (f_is_recorded_update (\<lambda>_. True)) (AddZoneFileRecord env f s1))"

definition SetDeleted :: "string \<Rightarrow> fptr \<Rightarrow> ('d, 'm) fdev_scheme \<Rightarrow> ('d, 'm) fdev_scheme" where
  "SetDeleted fname f s =
    RemoveZoneFileRecord f (upd_file f (\<lambda>zf. zf\<lparr>f_temp_fname := fname, f_is_deleted := True\<rparr>) s)"

section \<open>Overlap\<close>

definition IsOverlapping :: "penv \<Rightarrow> zonefile \<Rightarrow> zonefile \<Rightarrow> bool" where
  "IsOverlapping env a b =
    (\<not> sstableKeyCompare env (f_largest a) (f_smallest b) < 0 \<and>
     \<not> sstableKeyCompare env (f_smallest a) (f_largest b) > 0)"

text \<open>The list of a level, or nothing when the level does not exist.\<close>

definition level_files :: "int \<Rightarrow> ('d, 'm) fdev_scheme \<Rightarrow> fptr list option" where
  "level_files l s =
    (if l < 0 \<or> nat l \<ge> length (levelwise_file_list s) then None
     else Some (levelwise_file_list s ! nat l))"

definition GetOverlappingFiles ::
  "penv \<Rightarrow> fptr list \<Rightarrow> fptr \<Rightarrow> int \<Rightarrow> ('d, 'm) fdev_scheme \<Rightarrow> fptr list" where
  "GetOverlappingFiles env acc f l s =
    (case level_files l s of
       None \<Rightarrow> acc
     | Some fs \<Rightarrow> acc @ filter (\<lambda>g. f \<noteq> g \<and> IsOverlapping env (fheap s f) (fheap s g)) fs)"

definition GetSameLevelFiles :: "fptr list \<Rightarrow> int \<Rightarrow> ('d, 'm) fdev_scheme \<Rightarrow> fptr list" where
  "GetSameLevelFiles acc l s = (case level_files l s of None \<Rightarrow> acc | Some fs \<Rightarrow> fs)"

definition GetOverlapFileCount :: "penv \<Rightarrow> fptr \<Rightarrow> int \<Rightarrow> ('d, 'm) fdev_scheme \<Rightarrow> u64" where
  "GetOverlapFileCount env f l s =
    (case level_files l s of
       None \<Rightarrow> 0
     | Some fs \<Rightarrow> foldl (\<lambda>n g. if f \<noteq> g \<and> IsOverlapping env (fheap s f) (fheap s g)
                                 then n + 1 else n) 0 fs)"

text \<open>Asking a file for its size updates the recorded size.\<close>

fun overlap_bytes :: "penv \<Rightarrow> fptr \<Rightarrow> fptr list \<Rightarrow> u64 \<Rightarrow> ('d, 'm) fdev_scheme
    \<Rightarrow> u64 \<times> ('d, 'm) fdev_scheme" where
  "overlap_bytes env f [] n s = (n, s)"
| "overlap_bytes env f (g # gs) n s =
    (if f \<noteq> g \<and> IsOverlapping env (fheap s f) (fheap s g)
     then (case GetFileSizeMeta g s of (m, s1) \<Rightarrow> overlap_bytes env f gs (n + m) s1)
     else overlap_bytes env f gs n s)"

definition GetOverlapByteCount :: "penv \<Rightarrow> fptr \<Rightarrow> int \<Rightarrow> ('d, 'm) fdev_scheme
    \<Rightarrow> u64 \<times> ('d, 'm) fdev_scheme" where
  "GetOverlapByteCount env f l s =
    (case level_files l s of None \<Rightarrow> (0, s) | Some fs \<Rightarrow> overlap_bytes env f fs 0 s)"

definition GetOverlapKeyCount :: "penv \<Rightarrow> fptr \<Rightarrow> int \<Rightarrow> ('d, 'm) fdev_scheme \<Rightarrow> u64" where
  "GetOverlapKeyCount env f l s =
    (case level_files l s of
       None \<Rightarrow> 0
     | Some fs \<Rightarrow> foldl (\<lambda>n g. if f \<noteq> g \<and> IsOverlapping env (fheap s f) (fheap s g)
                                 then n + f_num_entries (fheap s g) else n) 0 fs)"

definition IsHighTombstone :: "penv \<Rightarrow> fptr \<Rightarrow> ('d, 'm) fdev_scheme \<Rightarrow> bool" where
  "IsHighTombstone env f s =
    (let zf = fheap s f; fp = fpops env;
         ratio = (if f_num_entries zf \<noteq> 0
                  then fp_div fp (fp_mul fp fp_1 (fp_of_u64 fp (f_num_deletions zf)))
                                 (fp_of_u64 fp (f_num_entries zf)) else fp_0)
     in fp_le fp (tombstone_density (params s)) ratio)"


section \<open>The order of the keys\<close>

text \<open>What the level lists rely on from \<open>sstableKeyCompare\<close>: it is a total preorder.\<close>

locale key_order =
  fixes env :: penv
  assumes cmp_total: "0 < sstableKeyCompare env a b \<Longrightarrow> sstableKeyCompare env b a \<le> 0"
    and cmp_trans: "sstableKeyCompare env a b \<le> 0 \<Longrightarrow> sstableKeyCompare env b c \<le> 0 \<Longrightarrow>
      sstableKeyCompare env a c \<le> 0"

definition level_sorted :: "penv \<Rightarrow> (fptr \<Rightarrow> zonefile) \<Rightarrow> fptr list \<Rightarrow> bool" where
  "level_sorted env h = sorted_wrt (\<lambda>a b. sstableKeyCompare env (f_smallest (h a)) (f_smallest (h b)) \<le> 0)"

text \<open>Every level list is sorted by smallest key, and no file is recorded twice.\<close>

definition records_ok :: "penv \<Rightarrow> ('d, 'm) fdev_scheme \<Rightarrow> bool" where
  "records_ok env s \<longleftrightarrow> distinct (concat (levelwise_file_list s)) \<and>
    (\<forall>fs \<in> set (levelwise_file_list s). level_sorted env (fheap s) fs)"

lemma set_insert_by_smallest: "set (insert_by_smallest env h f gs) = insert f (set gs)"
  by (induction gs) auto

lemma mset_insert_by_smallest: "mset (insert_by_smallest env h f gs) = add_mset f (mset gs)"
  by (induction gs) auto

context key_order
begin

lemma insert_sorted: "level_sorted env h gs \<Longrightarrow> level_sorted env h (insert_by_smallest env h f gs)"
proof (induction gs)
  case (Cons g gs)
  show ?case
  proof (cases "sstableKeyCompare env (f_smallest (h g)) (f_smallest (h f)) \<le> 0")
    case True
    then show ?thesis using Cons by (auto simp: level_sorted_def set_insert_by_smallest)
  next
    case False
    then have fg: "sstableKeyCompare env (f_smallest (h f)) (f_smallest (h g)) \<le> 0"
      by (intro cmp_total) simp
    then have "\<forall>x \<in> set gs. sstableKeyCompare env (f_smallest (h f)) (f_smallest (h x)) \<le> 0"
      using Cons.prems by (auto simp: level_sorted_def intro: cmp_trans)
    then show ?thesis using Cons.prems False fg by (simp add: level_sorted_def)
  qed
qed (simp add: level_sorted_def)

end

lemma mset_concat_update:
  assumes "i < length xss"
  shows "mset (concat (xss[i := ys])) + mset (xss ! i) = mset (concat xss) + mset ys"
  using assms
proof (induction xss arbitrary: i)
  case (Cons xs xss)
  show ?case
  proof (cases i)
    case (Suc j)
    then show ?thesis using Cons.IH [of j] Cons.prems by (simp add: union_assoc)
  qed simp
qed simp

lemma level_sorted_heap_cong:
  "(\<And>f. f_smallest (h' f) = f_smallest (h f)) \<Longrightarrow> level_sorted env h' = level_sorted env h"
  by (simp add: level_sorted_def fun_eq_iff)

lemma records_ok_upd_file:
  assumes "\<And>zf. f_smallest (g zf) = f_smallest zf"
  shows "records_ok env (upd_file f g s) = records_ok env s"
proof -
  have "level_sorted env (fheap (upd_file f g s)) = level_sorted env (fheap s)"
    by (rule level_sorted_heap_cong) (simp add: upd_file_def assms)
  then show ?thesis by (simp add: records_ok_def) (simp add: upd_file_def)
qed

lemma RemoveZoneFileRecord_ok:
  assumes "records_ok env s"
  shows "records_ok env (RemoveZoneFileRecord f s)"
    and "f \<notin> set (concat (levelwise_file_list (RemoveZoneFileRecord f s)))"
proof -
  have c: "concat (map (removeAll f) xss) = removeAll f (concat xss)" for xss
    by (induction xss) simp_all
  show "f \<notin> set (concat (levelwise_file_list (RemoveZoneFileRecord f s)))"
    by (simp add: RemoveZoneFileRecord_def)
  have "level_sorted env h (removeAll f fs)" if "level_sorted env h fs" for h fs
    using that by (simp add: level_sorted_def removeAll_filter_not_eq sorted_wrt_filter)
  then show "records_ok env (RemoveZoneFileRecord f s)"
    using assms c [of "levelwise_file_list s"]
    by (auto simp: records_ok_def RemoveZoneFileRecord_def distinct_removeAll)
qed

context key_order
begin

lemma AddZoneFileRecord_ok:
  assumes "records_ok env s" "f \<notin> set (concat (levelwise_file_list s))"
  shows "records_ok env (AddZoneFileRecord env f s)"
proof (cases "\<not> f_has_keys (fheap s f) \<or> f_level (fheap s f) < 0 \<or> f_io_type (fheap s f) \<noteq> IO_kData")
  case False
  define l where "l = nat (f_level (fheap s f))"
  define xss where "xss = (if l \<ge> length (levelwise_file_list s)
    then levelwise_file_list s @ replicate (l + 1 - length (levelwise_file_list s)) []
    else levelwise_file_list s)"
  define ys where "ys = insert_by_smallest env (fheap s) f (xss ! l)"
  have l: "l < length xss" by (simp add: xss_def)
  have cx: "concat xss = concat (levelwise_file_list s)" by (simp add: xss_def)
  have sx: "set xss \<subseteq> set (levelwise_file_list s) \<union> {[]}" by (auto simp: xss_def)
  have "mset (concat (xss[l := ys])) = add_mset f (mset (concat xss))"
    using mset_concat_update [OF l, of ys] mset_insert_by_smallest [of env "fheap s" f "xss ! l"]
    by (simp add: ys_def)
  then have "distinct (concat (xss[l := ys]))"
    using assms cx by (metis distinct.simps(2) mset.simps(2) mset_eq_imp_distinct_iff records_ok_def)
  moreover have "level_sorted env (fheap s) fs" if "fs \<in> set (xss[l := ys])" for fs
  proof -
    have xs: "level_sorted env (fheap s) gs" if "gs \<in> set xss" for gs
      using that sx assms(1) by (auto simp: records_ok_def level_sorted_def)
    show ?thesis
      using that set_update_subset_insert [of xss l ys] xs insert_sorted nth_mem [OF l]
      by (auto simp: ys_def)
  qed
  moreover have "AddZoneFileRecord env f s = s\<lparr>levelwise_file_list := xss[l := ys]\<rparr>"
    using False by (simp add: AddZoneFileRecord_def Let_def l_def xss_def ys_def)
  ultimately show ?thesis by (simp add: records_ok_def)
qed (simp add: AddZoneFileRecord_def assms)

end

lemma AddZoneFileRecord_mem:
  "set (concat (levelwise_file_list (AddZoneFileRecord env f s))) =
    set (concat (levelwise_file_list s)) \<union>
    (if f_has_keys (fheap s f) \<and> 0 \<le> f_level (fheap s f) \<and> f_io_type (fheap s f) = IO_kData
     then {f} else {})"
proof (cases "f_has_keys (fheap s f) \<and> 0 \<le> f_level (fheap s f) \<and> f_io_type (fheap s f) = IO_kData")
  case True
  define l where "l = nat (f_level (fheap s f))"
  define xss where "xss = (if l \<ge> length (levelwise_file_list s)
    then levelwise_file_list s @ replicate (l + 1 - length (levelwise_file_list s)) []
    else levelwise_file_list s)"
  define ys where "ys = insert_by_smallest env (fheap s) f (xss ! l)"
  have l: "l < length xss" by (simp add: xss_def)
  have cx: "concat xss = concat (levelwise_file_list s)" by (simp add: xss_def)
  have "mset (concat (xss[l := ys])) = add_mset f (mset (concat xss))"
    using mset_concat_update [OF l, of ys] mset_insert_by_smallest [of env "fheap s" f "xss ! l"]
    by (simp add: ys_def)
  then have "set (concat (xss[l := ys])) = insert f (set (concat (levelwise_file_list s)))"
    using cx by (metis set_mset_add_mset_insert set_mset_mset)
  moreover have "AddZoneFileRecord env f s = s\<lparr>levelwise_file_list := xss[l := ys]\<rparr>"
    using True by (simp add: AddZoneFileRecord_def Let_def l_def xss_def ys_def)
  ultimately show ?thesis using True by (simp del: set_concat)
qed (auto simp: AddZoneFileRecord_def)

section \<open>A concrete environment\<close>

text \<open>Bytewise comparison, stable sorting, a shuffle that reverses, and integer arithmetic for the
  floating-point operations.\<close>

fun bytes_cmp :: "byte list \<Rightarrow> byte list \<Rightarrow> int" where
  "bytes_cmp [] [] = 0"
| "bytes_cmp [] (b # bs) = -1"
| "bytes_cmp (a # as) [] = 1"
| "bytes_cmp (a # as) (b # bs) = (if a < b then -1 else if b < a then 1 else bytes_cmp as bs)"

fun ins_by :: "(nat \<Rightarrow> nat \<Rightarrow> bool) \<Rightarrow> nat \<Rightarrow> nat list \<Rightarrow> nat list" where
  "ins_by lt x [] = [x]"
| "ins_by lt x (y # ys) = (if lt y x then y # ins_by lt x ys else x # y # ys)"

definition sample_env :: penv where
  "sample_env = \<lparr> sstableKeyCompare = bytes_cmp, std_sort = (\<lambda>lt xs. foldr (ins_by lt) xs []),
     std_shuffle = (\<lambda>st xs. (rev xs, st + 1)),
     fpops = \<lparr>fp_stod = \<lambda>_. None, fp_le = (\<le>), fp_lt = (<), fp_mul = (*), fp_div = (div),
       fp_add = (+), fp_of_u64 = id, fp_to_u64 = id, fp_to_int = uint, fp_ceil = id,
       fp_sub = minus, fp_abs = id, fp_pow10 = word_of_int\<rparr> \<rparr>"

lemma bytes_cmp_total: "0 < bytes_cmp a b \<Longrightarrow> bytes_cmp b a \<le> 0"
  by (induction a b rule: bytes_cmp.induct) (auto split: if_splits)

lemma bytes_cmp_trans: "bytes_cmp a b \<le> 0 \<Longrightarrow> bytes_cmp b c \<le> 0 \<Longrightarrow> bytes_cmp a c \<le> 0"
proof (induction a b arbitrary: c rule: bytes_cmp.induct)
  case (2 b bs)
  then show ?case by (cases c) auto
next
  case (4 a as b bs)
  then show ?case by (cases c) (auto split: if_splits)
next
  case 1
  then show ?case by simp
qed simp

interpretation bytes_key: key_order sample_env
  by unfold_locales (auto simp: sample_env_def intro: bytes_cmp_total bytes_cmp_trans)

section \<open>Properties\<close>

text \<open>
  C28: Level lists. Recording a file (removing an old record first, as the code does when the file is
  already recorded) keeps every level list sorted by smallest key and every file recorded at most
  once; afterwards a data file with keys and a level is recorded.
\<close>

theorem CreateOrUpdateRecord_keeps_order:
  assumes "key_order env" "records_ok env s"
    and "f \<in> set (concat (levelwise_file_list s)) \<Longrightarrow> f_is_recorded (fheap s f)"
  shows "records_ok env (CreateOrUpdateRecord env f s) \<and>
    (f_has_keys (fheap s f) \<and> 0 \<le> f_level (fheap s f) \<and> f_io_type (fheap s f) = IO_kData \<longrightarrow>
      f \<in> set (concat (levelwise_file_list (CreateOrUpdateRecord env f s))))"
proof (cases "f_level (fheap s f) < 0")
  case True
  then show ?thesis using assms by (simp add: CreateOrUpdateRecord_def)
next
  case False
  define s1 where "s1 = (if f_is_recorded (fheap s f) then RemoveZoneFileRecord f s else s)"
  have "records_ok env s1" "f \<notin> set (concat (levelwise_file_list s1))"
    using assms(2,3) RemoveZoneFileRecord_ok [OF assms(2), of f] by (auto simp: s1_def)
  then have a: "records_ok env (AddZoneFileRecord env f s1)"
    by (rule key_order.AddZoneFileRecord_ok [OF assms(1)])
  have h: "fheap s1 = fheap s" by (simp add: s1_def RemoveZoneFileRecord_def)
  have e: "CreateOrUpdateRecord env f s =
      upd_file f (f_is_recorded_update (\<lambda>_. True)) (AddZoneFileRecord env f s1)"
    using False by (simp add: CreateOrUpdateRecord_def s1_def Let_def)
  have "records_ok env (CreateOrUpdateRecord env f s)"
    using a by (simp add: e records_ok_upd_file)
  moreover have "levelwise_file_list (CreateOrUpdateRecord env f s) =
      levelwise_file_list (AddZoneFileRecord env f s1)" by (simp add: e upd_file_def)
  ultimately show ?thesis using AddZoneFileRecord_mem [of env f s1] h by (auto simp del: set_concat)
qed

definition sample_fdev :: "ram zbdlib fdev" where
  "sample_fdev = zbd.extend sample_zbd
    \<lparr> fheap = (\<lambda>f. (ZoneFile_new (of_nat f))\<lparr>f_has_keys := True, f_level := 1, f_io_type := IO_kData,
        f_smallest := [of_nat (10 * f)], f_largest := [of_nat (10 * f + 5)],
        f_linkfiles := [''f'']\<rparr>),
      next_fptr = 10, levelwise_file_list = [[], [1, 3]] \<rparr>"

theorem CreateOrUpdateRecord_keeps_order_witness:
  "2 \<in> set (concat (levelwise_file_list (CreateOrUpdateRecord sample_env 2 sample_fdev))) \<and>
   records_ok sample_env (CreateOrUpdateRecord sample_env 2 sample_fdev)"
proof -
  have "records_ok sample_env sample_fdev"
    by (simp add: records_ok_def level_sorted_def sample_env_def sample_fdev_def zbd.extend_def)
  then show ?thesis
    using CreateOrUpdateRecord_keeps_order [OF bytes_key.key_order_axioms, of sample_fdev 2]
    by (simp add: sample_fdev_def zbd.extend_def del: set_concat)
qed

end
