(* ===== verification/Zone_Scan.thy ===== *)
theory Zone_Scan
  imports File_Records
begin

text \<open>
  The searches over zones that the placement code repeats (\<open>src/fs/zbd_extension_zenfs.cc\<close>): acquire a
  zone, keep it if it is better than the zone held so far and release the other, otherwise release
  it. \<open>scan_zones\<close> is that loop for the non-empty zones of the \<open>Match...\<close> and \<open>ChooseZone...\<close>
  functions, \<open>scan_empty\<close> the loop that stops at the first empty zone, \<open>scan_least_wear\<close> the one that
  compares reset counts.

  One lemma per loop says what it does: the search never fails, ends holding at most one zone, and
  leaves every other zone as it was.
\<close>

section \<open>Searching a zone to fill\<close>

text \<open>\<open>(z->used_capacity_ > 0) && !z->IsFull() && z->capacity_ >= min_capacity\<close>\<close>

definition suitable :: "u32 \<Rightarrow> zone \<Rightarrow> bool" where
  "suitable minc z \<longleftrightarrow> z_used z > 0 \<and> \<not> IsFull z \<and> z_capacity z \<ge> ucast minc"

text \<open>
  \<open>cands\<close> are the zones in the order they are visited, each with what the loop knows about it (the
  contribution of an extent, a key distance); \<open>score\<close> rates a zone and \<open>better v b\<close> is the condition
  under which a rating \<open>v\<close> replaces the best rating \<open>b\<close> so far.
\<close>

fun scan_zones :: "(zone \<Rightarrow> 'k \<Rightarrow> 'v) \<Rightarrow> ('v \<Rightarrow> 'v \<Rightarrow> bool) \<Rightarrow> u32 \<Rightarrow> (zptr \<times> 'k) list \<Rightarrow> zptr option \<Rightarrow> 'v
    \<Rightarrow> ('d, 'm) zbd_scheme \<Rightarrow> IOStatus \<times> zptr option \<times> 'v \<times> ('d, 'm) zbd_scheme" where
  "scan_zones score better minc [] alloc best s = (OK, alloc, best, s)"
| "scan_zones score better minc ((z, k) # zs) alloc best s =
    (case Zone_Acquire z s of (got, s1) \<Rightarrow>
       if \<not> got then scan_zones score better minc zs alloc best s1
       else if suitable minc (zheap s1 z) then
         (let v = score (zheap s1 z) k
          in if better v best then
               (case alloc of
                  None \<Rightarrow> scan_zones score better minc zs (Some z) v s1
                | Some a \<Rightarrow>
                    (case Zone_CheckRelease a s1 of (st, s2) \<Rightarrow>
                       if st \<noteq> OK then
                         (case Zone_CheckRelease z s2 of (st', s3) \<Rightarrow>
                            (if st' \<noteq> OK then st' else st, alloc, best, s3))
                       else scan_zones score better minc zs (Some z) v s2))
             else
               (case Zone_CheckRelease z s1 of (st, s2) \<Rightarrow>
                  if st \<noteq> OK then (st, alloc, best, s2)
                  else scan_zones score better minc zs alloc best s2))
       else
         (case Zone_CheckRelease z s1 of (st, s2) \<Rightarrow>
            if st \<noteq> OK then (st, alloc, best, s2)
            else scan_zones score better minc zs alloc best s2))"

text \<open>The choice the loop makes, as a fold over the free and suitable candidates.\<close>

definition pick_step :: "(zone \<Rightarrow> 'k \<Rightarrow> 'v) \<Rightarrow> ('v \<Rightarrow> 'v \<Rightarrow> bool) \<Rightarrow> u32 \<Rightarrow> (zptr \<Rightarrow> zone)
    \<Rightarrow> zptr \<times> 'k \<Rightarrow> zptr option \<times> 'v \<Rightarrow> zptr option \<times> 'v" where
  "pick_step score better minc h = (\<lambda>(z, k) (alloc, best).
    if z_busy (h z) \<or> alloc = Some z \<or> \<not> suitable minc (h z) \<or> \<not> better (score (h z) k) best
    then (alloc, best) else (Some z, score (h z) k))"

definition pick_zone :: "(zone \<Rightarrow> 'k \<Rightarrow> 'v) \<Rightarrow> ('v \<Rightarrow> 'v \<Rightarrow> bool) \<Rightarrow> u32 \<Rightarrow> (zptr \<Rightarrow> zone)
    \<Rightarrow> (zptr \<times> 'k) list \<Rightarrow> zptr option \<times> 'v \<Rightarrow> zptr option \<times> 'v" where
  "pick_zone score better minc h zs = fold (pick_step score better minc h) zs"

definition holding :: "zptr option \<Rightarrow> ('d, 'm) zbd_scheme \<Rightarrow> ('d, 'm) zbd_scheme" where
  "holding a s = (case a of None \<Rightarrow> s | Some z \<Rightarrow> acquired z s)"

text \<open>Ratings do not look at the busy flag.\<close>

definition busy_blind :: "(zone \<Rightarrow> 'k \<Rightarrow> 'v) \<Rightarrow> bool" where
  "busy_blind score \<longleftrightarrow> (\<forall>z k. score (z\<lparr>z_busy := True\<rparr>) k = score z k)"

lemma suitable_busy [simp]: "suitable minc (z\<lparr>z_busy := b\<rparr>) = suitable minc z"
  by (simp add: suitable_def zone_ops)

lemma holding_zheap:
  "zheap (holding a s) z = (if a = Some z then (zheap s z)\<lparr>z_busy := True\<rparr> else zheap s z)"
  by (auto simp: holding_def split: option.split)

lemma scan_zones_eq:
  assumes "busy_blind score" "\<forall>a. alloc = Some a \<longrightarrow> \<not> z_busy (zheap s a)"
  shows "scan_zones score better minc zs alloc best (holding alloc s) =
    (case pick_zone score better minc (zheap s) zs (alloc, best) of (a, b) \<Rightarrow> (OK, a, b, holding a s))"
  using assms(2)
proof (induction zs arbitrary: alloc best)
  case (Cons zk zs)
  obtain z k where zk: "zk = (z, k)" by fastforce
  let ?h = "holding alloc s"
  have step: "pick_zone score better minc (zheap s) (zk # zs) (alloc, best) =
    pick_zone score better minc (zheap s) zs (pick_step score better minc (zheap s) zk (alloc, best))"
    by (simp add: pick_zone_def)
  consider (busy) "z_busy (zheap s z) \<or> alloc = Some z"
    | (free) "\<not> z_busy (zheap s z)" "alloc \<noteq> Some z" by blast
  then show ?case
  proof cases
    case busy
    then have "z_busy (zheap ?h z)" by (auto simp: holding_zheap)
    moreover have "pick_step score better minc (zheap s) zk (alloc, best) = (alloc, best)"
      using busy by (auto simp: pick_step_def zk)
    ultimately show ?thesis using Cons step by (simp add: zk Acquire_eq)
  next
    case free
    have hz: "zheap ?h z = zheap s z" using free by (simp add: holding_zheap)
    have nb: "\<not> z_busy (zheap ?h z)" using free hz by simp
    have rel: "Zone_CheckRelease z (acquired z ?h) = (OK, ?h)" by (rule CheckRelease_acquired [OF nb])
    have sc: "score (zheap (acquired z ?h) z) k = score (zheap s z) k"
      using assms(1) hz by (simp add: busy_blind_def)
    have su: "suitable minc (zheap (acquired z ?h) z) = suitable minc (zheap s z)" by (simp add: hz)
    show ?thesis
    proof (cases "suitable minc (zheap s z) \<and> better (score (zheap s z) k) best")
      case False
      then have "pick_step score better minc (zheap s) zk (alloc, best) = (alloc, best)"
        by (auto simp: pick_step_def zk)
      then show ?thesis
        using False Cons.IH [OF Cons.prems, of best] step nb rel sc su
        by (auto simp: zk Acquire_eq Let_def simp del: zheap_acquired)
    next
      case True
      then have ps: "pick_step score better minc (zheap s) zk (alloc, best) =
          (Some z, score (zheap s z) k)"
        using free by (simp add: pick_step_def zk)
      have IH: "scan_zones score better minc zs (Some z) (score (zheap s z) k) (acquired z s) =
        (case pick_zone score better minc (zheap s) zs (Some z, score (zheap s z) k) of
           (a, b) \<Rightarrow> (OK, a, b, holding a s))"
        using Cons.IH [of "Some z" "score (zheap s z) k"] free by (simp add: holding_def)
      have "Zone_CheckRelease a (acquired z ?h) = (OK, acquired z s)" if "alloc = Some a" for a
        using CheckRelease_acquired_other [of a z s] that Cons.prems free
        by (auto simp: holding_def)
      then show ?thesis
        using True IH step ps nb sc su
        by (auto simp: zk Acquire_eq Let_def holding_def simp del: zheap_acquired split: option.splits)
    qed
  qed
qed (simp add: pick_zone_def)

lemma scan_zones_None:
  assumes "busy_blind score"
  shows "scan_zones score better minc zs None best s =
    (case pick_zone score better minc (zheap s) zs (None, best) of (a, b) \<Rightarrow> (OK, a, b, holding a s))"
  using scan_zones_eq [OF assms, of None s] by (simp add: holding_def)

text \<open>What is picked is free, suitable and among the candidates.\<close>

lemma pick_zone_sound:
  assumes "pick_zone score better minc h zs (None, best) = (Some z, b)"
  shows "\<exists>k. (z, k) \<in> set zs \<and> \<not> z_busy (h z) \<and> suitable minc (h z) \<and> b = score (h z) k"
proof -
  let ?P = "\<lambda>(a, b). \<forall>z. a = Some z \<longrightarrow>
    (\<exists>k. (z, k) \<in> set zs \<and> \<not> z_busy (h z) \<and> suitable minc (h z) \<and> b = score (h z) k)"
  have "?P (fold (pick_step score better minc h) zs (None, best))"
    by (rule fold_invariant [where Q = "\<lambda>x. x \<in> set zs"])
      (auto simp: pick_step_def split: prod.splits if_splits)
  then show ?thesis using assms by (simp add: pick_zone_def)
qed

text \<open>What is picked is the best: \<open>le\<close> is the order the comparison \<open>better\<close> decides.\<close>

lemma pick_zone_best:
  assumes "pick_zone score better minc h zs (alloc, best) = (a, b)"
    and "distinct (map fst zs)" "\<forall>x \<in> set zs. alloc \<noteq> Some (fst x)"
    and le: "\<And>v w. better v w \<Longrightarrow> le v w" "\<And>v w. \<not> better v w \<Longrightarrow> le w v"
    and trans: "\<And>u v w. le u v \<Longrightarrow> le v w \<Longrightarrow> le u w" and refl: "\<And>v. le v v"
  shows "le b best \<and>
    (\<forall>(z, k) \<in> set zs. \<not> z_busy (h z) \<and> suitable minc (h z) \<longrightarrow> le b (score (h z) k)) \<and>
    (a = None \<longrightarrow> alloc = None \<and>
      (\<forall>(z, k) \<in> set zs. \<not> z_busy (h z) \<and> suitable minc (h z) \<longrightarrow> \<not> better (score (h z) k) best))"
  using assms(1-3)
proof (induction zs arbitrary: alloc best)
  case Nil
  then show ?case by (simp add: pick_zone_def refl)
next
  case (Cons zk zs)
  obtain z k where zk: "zk = (z, k)" by fastforce
  define ab where "ab = pick_step score better minc h zk (alloc, best)"
  obtain alloc' best' where ab': "ab = (alloc', best')" by fastforce
  have run: "pick_zone score better minc h zs (alloc', best') = (a, b)"
    using Cons.prems(1) ab' by (simp add: pick_zone_def ab_def)
  have "\<forall>x \<in> set zs. alloc' \<noteq> Some (fst x)"
    using Cons.prems(2,3) ab' by (auto simp: ab_def pick_step_def zk split: if_splits)
  note IH = Cons.IH [OF run _ this]
  have d: "distinct (map fst zs)" using Cons.prems(2) by simp
  consider (keep) "ab = (alloc, best)" "z_busy (h z) \<or> \<not> suitable minc (h z) \<or> \<not> better (score (h z) k) best"
    | (take) "ab = (Some z, score (h z) k)" "better (score (h z) k) best"
  proof -
    have "ab = (if z_busy (h z) \<or> \<not> suitable minc (h z) \<or> \<not> better (score (h z) k) best
        then (alloc, best) else (Some z, score (h z) k))"
      using Cons.prems(3) by (simp add: ab_def pick_step_def zk)
    then show ?thesis using that by metis
  qed
  then show ?case
  proof cases
    case keep
    then have "alloc' = alloc" "best' = best" using ab' by auto
    then show ?thesis using IH [OF d] keep(2) le(2) trans by (auto simp: zk)
  next
    case take
    then have "alloc' = Some z" "best' = score (h z) k" using ab' by auto
    then show ?thesis using IH [OF d] take(2) le(1) trans by (auto simp: zk)
  qed
qed

section \<open>Searching an empty zone\<close>

text \<open>The loop of \<open>AllocateEmptyZoneDefault\<close> and its relatives: the first free empty zone.\<close>

fun scan_empty :: "zptr list \<Rightarrow> ('d, 'm) zbd_scheme
    \<Rightarrow> IOStatus \<times> zptr option \<times> ('d, 'm) zbd_scheme" where
  "scan_empty [] s = (OK, None, s)"
| "scan_empty (z # zs) s =
    (case Zone_Acquire z s of (got, s1) \<Rightarrow>
       if \<not> got then scan_empty zs s1
       else if IsEmpty (zheap s1 z) then (OK, Some z, s1)
       else case Zone_CheckRelease z s1 of (st, s2) \<Rightarrow>
         if st \<noteq> OK then (st, None, s2) else scan_empty zs s2)"

lemma scan_empty_eq:
  "scan_empty zs s =
    (case List.find (\<lambda>z. \<not> z_busy (zheap s z) \<and> IsEmpty (zheap s z)) zs of
       None \<Rightarrow> (OK, None, s) | Some z \<Rightarrow> (OK, Some z, acquired z s))"
  by (induction zs) (auto simp: Acquire_eq CheckRelease_acquired simp del: zheap_acquired)

text \<open>The loop of \<open>AllocateEmptyZoneLeastWear\<close>; among equals the last one wins.\<close>

fun scan_least_wear :: "zptr list \<Rightarrow> zptr option \<Rightarrow> ('d, 'm) zbd_scheme
    \<Rightarrow> IOStatus \<times> zptr option \<times> ('d, 'm) zbd_scheme" where
  "scan_least_wear [] alloc s = (OK, alloc, s)"
| "scan_least_wear (z # zs) alloc s =
    (case Zone_Acquire z s of (got, s1) \<Rightarrow>
       if \<not> got then scan_least_wear zs alloc s1
       else if \<not> IsEmpty (zheap s1 z) then
         (case Zone_CheckRelease z s1 of (st, s2) \<Rightarrow>
            if st \<noteq> OK then (st, None, s2) else scan_least_wear zs alloc s2)
       else case alloc of
         None \<Rightarrow> scan_least_wear zs (Some z) s1
       | Some a \<Rightarrow>
           if z_reset_count (zheap s1 a) < z_reset_count (zheap s1 z) then
             (case Zone_CheckRelease z s1 of (st, s2) \<Rightarrow>
                if st \<noteq> OK then (st, None, s2) else scan_least_wear zs alloc s2)
           else
             (case Zone_CheckRelease a s1 of (st, s2) \<Rightarrow>
                if st \<noteq> OK then (st, None, s2) else scan_least_wear zs (Some z) s2))"

definition free_empty :: "('d, 'm) zbd_scheme \<Rightarrow> zptr \<Rightarrow> bool" where
  "free_empty s z \<longleftrightarrow> \<not> z_busy (zheap s z) \<and> IsEmpty (zheap s z)"

lemma holding_preds:
  "IsEmpty (zheap (holding a s) z) = IsEmpty (zheap s z)"
  "z_reset_count (zheap (holding a s) z) = z_reset_count (zheap s z)"
  by (simp_all add: holding_zheap zone_ops)

lemma scan_least_wear_spec:
  assumes "\<forall>a. alloc = Some a \<longrightarrow> free_empty s a"
  shows "\<exists>out. scan_least_wear zs alloc (holding alloc s) = (OK, out, holding out s) \<and>
    (\<forall>z. out = Some z \<longrightarrow> free_empty s z \<and> (z \<in> set zs \<or> alloc = Some z) \<and>
       (\<forall>q. free_empty s q \<and> (q \<in> set zs \<or> alloc = Some q) \<longrightarrow>
          z_reset_count (zheap s z) \<le> z_reset_count (zheap s q))) \<and>
    (out = None \<longrightarrow> alloc = None \<and> (\<forall>q \<in> set zs. \<not> free_empty s q))"
  using assms
proof (induction zs arbitrary: alloc)
  case Nil
  then show ?case by (auto intro!: exI [of _ alloc])
next
  case (Cons z zs)
  let ?h = "holding alloc s"
  have rc: "z_reset_count (zheap (acquired z ?h) q) = z_reset_count (zheap s q)" for q
    by (simp add: holding_preds)
  consider (skip) "z_busy (zheap s z) \<or> alloc = Some z"
    | (full) "\<not> z_busy (zheap s z)" "alloc \<noteq> Some z" "\<not> IsEmpty (zheap s z)"
    | (worse) a where "\<not> z_busy (zheap s z)" "alloc = Some a" "a \<noteq> z" "IsEmpty (zheap s z)"
        "z_reset_count (zheap s a) < z_reset_count (zheap s z)"
    | (take) "\<not> z_busy (zheap s z)" "IsEmpty (zheap s z)" "alloc \<noteq> Some z"
        "\<forall>a. alloc = Some a \<longrightarrow> z_reset_count (zheap s z) \<le> z_reset_count (zheap s a)"
    by (metis leI option.inject)
  then show ?case
  proof cases
    case skip
    then have "z_busy (zheap ?h z)" by (auto simp: holding_zheap)
    then have "scan_least_wear (z # zs) alloc ?h = scan_least_wear zs alloc ?h" by (simp add: Acquire_eq)
    moreover have "free_empty s q \<and> (q \<in> set (z # zs) \<or> alloc = Some q) \<longleftrightarrow>
        free_empty s q \<and> (q \<in> set zs \<or> alloc = Some q)" for q
      using skip by (auto simp: free_empty_def)
    ultimately show ?thesis using Cons.IH [OF Cons.prems] skip by (auto simp: free_empty_def)
  next
    case full
    have nb: "\<not> z_busy (zheap ?h z)" using full by (simp add: holding_zheap)
    have "scan_least_wear (z # zs) alloc ?h = scan_least_wear zs alloc ?h"
      using nb full CheckRelease_acquired [OF nb]
      by (simp add: Acquire_eq holding_preds del: zheap_acquired)
    then show ?thesis using Cons.IH [OF Cons.prems] full by (auto simp: free_empty_def)
  next
    case worse
    have nb: "\<not> z_busy (zheap ?h z)" using worse by (simp add: holding_zheap)
    have run: "scan_least_wear (z # zs) alloc ?h = scan_least_wear zs alloc ?h"
      using nb worse rc CheckRelease_acquired [OF nb]
      by (simp add: Acquire_eq holding_preds del: zheap_acquired)
    obtain out where out: "scan_least_wear zs alloc ?h = (OK, out, holding out s)"
      "\<forall>y. out = Some y \<longrightarrow> free_empty s y \<and> (y \<in> set zs \<or> alloc = Some y) \<and>
        (\<forall>q. free_empty s q \<and> (q \<in> set zs \<or> alloc = Some q) \<longrightarrow>
           z_reset_count (zheap s y) \<le> z_reset_count (zheap s q))" "out = None \<longrightarrow> alloc = None"
      using Cons.IH [OF Cons.prems] by blast
    obtain y where y: "out = Some y" using out(3) worse by auto
    have "free_empty s a" using Cons.prems worse by simp
    then have "z_reset_count (zheap s y) \<le> z_reset_count (zheap s a)" using out(2) y worse by blast
    then have "z_reset_count (zheap s y) \<le> z_reset_count (zheap s z)" using worse by simp
    then show ?thesis using run out y by auto
  next
    case take
    have nb: "\<not> z_busy (zheap ?h z)" using take by (simp add: holding_zheap)
    have "Zone_CheckRelease a (acquired z ?h) = (OK, acquired z s)" if "alloc = Some a" for a
      using CheckRelease_acquired_other [of a z s] that Cons.prems take
      by (auto simp: holding_def free_empty_def)
    then have run: "scan_least_wear (z # zs) alloc ?h = scan_least_wear zs (Some z) (holding (Some z) s)"
      using nb take rc
      by (auto simp: Acquire_eq holding_preds holding_def simp del: zheap_acquired split: option.splits)
    have "\<forall>a. Some z = Some a \<longrightarrow> free_empty s a" using take by (simp add: free_empty_def)
    from Cons.IH [OF this] obtain out
      where out: "scan_least_wear zs (Some z) (holding (Some z) s) = (OK, out, holding out s)"
        "\<forall>y. out = Some y \<longrightarrow> free_empty s y \<and> (y \<in> set zs \<or> Some z = Some y) \<and>
          (\<forall>q. free_empty s q \<and> (q \<in> set zs \<or> Some z = Some q) \<longrightarrow>
             z_reset_count (zheap s y) \<le> z_reset_count (zheap s q))" "out \<noteq> None" by auto
    obtain y where y: "out = Some y" using out(3) by blast
    have "z_reset_count (zheap s y) \<le> z_reset_count (zheap s z)"
      using out(2) y take by (auto simp: free_empty_def)
    then have "z_reset_count (zheap s y) \<le> z_reset_count (zheap s a)" if "alloc = Some a" for a
      using take(4) that order_trans by blast
    then show ?thesis using run out y by auto
  qed
qed

end
