(* ===== verification/Placement.thy ===== *)
theory Placement
  imports Zone_Scan
begin

text \<open>
  The placement policies of \<open>src/fs/zbd_extension_zenfs.cc\<close>: the functions \<open>Match...\<close> that look for an
  open zone to continue in, the helpers that weigh zones by the files they hold, and the allocators
  of empty zones. A policy gets the file, its lifetime hint, the minimum capacity and the value of
  \<open>*best_diff_out\<close>; it returns the status, the new \<open>*best_diff_out\<close> and the zone, which it leaves
  acquired. \<open>None\<close> marks an undefined access: a level that does not exist, the name of a file without
  links, a division by zero, a null zone pointer.

  The locale \<open>zone_matcher\<close> is the contract all policies share; every policy is an interpretation.
\<close>

abbreviation (input) LIFETIME_DIFF_NOT_GOOD :: u32 where "LIFETIME_DIFF_NOT_GOOD \<equiv> 100"
abbreviation (input) LIFETIME_DIFF_COULD_BE_WORSE :: u32 where "LIFETIME_DIFF_COULD_BE_WORSE \<equiv> 50"

definition GetLifeTimeDiff :: "WriteLifeTimeHint \<Rightarrow> WriteLifeTimeHint \<Rightarrow> u32" where
  "GetLifeTimeDiff zone_lifetime file_lifetime =
    (if file_lifetime = WLTH_NOT_SET \<or> file_lifetime = WLTH_NONE then
       (if file_lifetime = zone_lifetime then 0 else LIFETIME_DIFF_NOT_GOOD)
     else if zone_lifetime > file_lifetime then zone_lifetime - file_lifetime
     else if zone_lifetime = file_lifetime then LIFETIME_DIFF_COULD_BE_WORSE
     else LIFETIME_DIFF_NOT_GOOD)"

type_synonym ('d, 'm) match_result = "(IOStatus \<times> u32 \<times> zptr option \<times> ('d, 'm) fdev_scheme) option"

text \<open>The zones of the device, in the form the searches take.\<close>

definition all_zones :: "('d, 'm) zbd_scheme \<Rightarrow> (zptr \<times> unit) list" where
  "all_zones s = map (\<lambda>z. (z, ())) (io_zones s)"

section \<open>Policies that look at the zones alone\<close>

definition MatchLifetimeBased :: "fptr \<Rightarrow> WriteLifeTimeHint \<Rightarrow> u32 \<Rightarrow> u32 \<Rightarrow> ('d, 'm) fdev_scheme
    \<Rightarrow> ('d, 'm) match_result" where
  "MatchLifetimeBased f fl minc bd s =
    (case scan_zones (\<lambda>z _. GetLifeTimeDiff (z_lifetime z) fl) (\<lambda>diff best. diff \<le> best) minc
       (all_zones s) None LIFETIME_DIFF_NOT_GOOD s of (st, a, best, s1) \<Rightarrow>
       Some (if st \<noteq> OK then (st, bd, None, s1) else (OK, best, a, s1)))"

text \<open>The zones are rated 0 when they fulfil the policy's condition; any other rating is refused.\<close>

definition match_condition :: "(zone \<Rightarrow> bool) \<Rightarrow> u32 \<Rightarrow> u32 \<Rightarrow> ('d, 'm) fdev_scheme
    \<Rightarrow> ('d, 'm) match_result" where
  "match_condition P minc bd s =
    (case scan_zones (\<lambda>z _. if P z then 0 else LIFETIME_DIFF_NOT_GOOD) (\<lambda>diff best. diff = 0) minc
       (all_zones s) None LIFETIME_DIFF_NOT_GOOD s of (st, a, best, s1) \<Rightarrow>
       Some (if st \<noteq> OK then (st, bd, None, s1) else (OK, best, a, s1)))"

definition MatchArrivalTimeBased :: "fptr \<Rightarrow> WriteLifeTimeHint \<Rightarrow> u32 \<Rightarrow> u32 \<Rightarrow> ('d, 'm) fdev_scheme
    \<Rightarrow> ('d, 'm) match_result" where
  "MatchArrivalTimeBased f fl minc bd s =
    match_condition (\<lambda>z. max 1 (z_level z) = max 1 (f_level (fheap s f))) minc bd s"

definition MatchTombstoneDensity :: "penv \<Rightarrow> fptr \<Rightarrow> WriteLifeTimeHint \<Rightarrow> u32 \<Rightarrow> u32
    \<Rightarrow> ('d, 'm) fdev_scheme \<Rightarrow> ('d, 'm) match_result" where
  "MatchTombstoneDensity env f fl minc bd s =
    (if \<not> IsHighTombstone env f s then Some (OK, LIFETIME_DIFF_NOT_GOOD, None, s)
     else match_condition (\<lambda>z. z_policy z = kTombstoneDensity) minc bd s)"

definition MatchTombstoneTTL :: "fptr \<Rightarrow> WriteLifeTimeHint \<Rightarrow> u32 \<Rightarrow> u32 \<Rightarrow> ('d, 'm) fdev_scheme
    \<Rightarrow> ('d, 'm) match_result" where
  "MatchTombstoneTTL f fl minc bd s = MatchLifetimeBased f fl minc bd s"

definition MatchClusterTogether :: "fptr \<Rightarrow> WriteLifeTimeHint \<Rightarrow> u32 \<Rightarrow> u32 \<Rightarrow> ('d, 'm) fdev_scheme
    \<Rightarrow> ('d, 'm) match_result" where
  "MatchClusterTogether f fl minc bd s =
    match_condition (\<lambda>z. z_policy z = kClusterTogether) minc bd s"

section \<open>Weighing zones by the files they hold\<close>

text \<open>The extents of a \<open>ZoneFileSnapshot\<close>: start of the zone and length. Taking the snapshot reads the
  file's first name.\<close>

definition snapshot_extents :: "fptr \<Rightarrow> ('d, 'm) fdev_scheme \<Rightarrow> (u64 \<times> u64) list option" where
  "snapshot_extents f s =
    (case GetFilename (fheap s f) of
       None \<Rightarrow> None
     | Some _ \<Rightarrow> Some (map (\<lambda>e. (z_start (zheap s (e_zone e)), e_length e)) (f_extents (fheap s f))))"

definition GetPerZoneContribution :: "penv \<Rightarrow> fptr \<Rightarrow> double \<Rightarrow> (u64 \<Rightarrow> u64) \<Rightarrow> ('d, 'm) fdev_scheme
    \<Rightarrow> (u64 \<Rightarrow> u64) option" where
  "GetPerZoneContribution env f factor m s =
    map_option (foldl (\<lambda>m (zs, len). m(zs := fp_to_u64 (fpops env)
        (fp_add (fpops env) (fp_of_u64 (fpops env) (m zs))
          (fp_mul (fpops env) factor (fp_of_u64 (fpops env) len))))) m) (snapshot_extents f s)"

fun GetPerZoneContributions :: "penv \<Rightarrow> fptr list \<Rightarrow> double \<Rightarrow> (u64 \<Rightarrow> u64) \<Rightarrow> ('d, 'm) fdev_scheme
    \<Rightarrow> (u64 \<Rightarrow> u64) option" where
  "GetPerZoneContributions env [] factor m s = Some m"
| "GetPerZoneContributions env (f # fs) factor m s =
    (case GetPerZoneContribution env f factor m s of
       None \<Rightarrow> None | Some m1 \<Rightarrow> GetPerZoneContributions env fs factor m1 s)"

text \<open>The loops with a weight that shrinks with the distance; a file may be left out.\<close>

definition fade_0_8 :: "penv \<Rightarrow> double \<Rightarrow> double" where
  "fade_0_8 env factor =
    (let g = fp_mul (fpops env) factor fp_0_8 in if fp_lt (fpops env) g fp_0_2 then fp_0_2 else g)"

definition fade_0_5 :: "penv \<Rightarrow> double \<Rightarrow> double" where
  "fade_0_5 env factor = fp_mul (fpops env) factor fp_0_5"

fun weigh_files :: "penv \<Rightarrow> (double \<Rightarrow> double) \<Rightarrow> fptr option \<Rightarrow> fptr list \<Rightarrow> double \<Rightarrow> (u64 \<Rightarrow> u64)
    \<Rightarrow> ('d, 'm) fdev_scheme \<Rightarrow> (u64 \<Rightarrow> u64) option" where
  "weigh_files env fade skip [] factor m s = Some m"
| "weigh_files env fade skip (f # fs) factor m s =
    (if skip = Some f then weigh_files env fade skip fs factor m s
     else case GetPerZoneContribution env f factor m s of
       None \<Rightarrow> None
     | Some m1 \<Rightarrow> weigh_files env fade skip fs (fade factor) m1 s)"

text \<open>Both directions from position \<open>i\<close>: upwards from \<open>j\<close>, then downwards below \<open>i\<close>.\<close>

definition weigh_around :: "penv \<Rightarrow> (double \<Rightarrow> double) \<Rightarrow> fptr option \<Rightarrow> fptr list \<Rightarrow> nat \<Rightarrow> nat
    \<Rightarrow> ('d, 'm) fdev_scheme \<Rightarrow> (u64 \<Rightarrow> u64) option" where
  "weigh_around env fade skip fs i j s =
    (case weigh_files env fade skip (drop j fs) fp_1 (\<lambda>_. 0) s of
       None \<Rightarrow> None
     | Some m \<Rightarrow> weigh_files env fade skip (rev (take i fs)) fp_1 m s)"

definition ChooseZoneWithHighestContrib :: "zptr option \<Rightarrow> u64 \<Rightarrow> (u64 \<Rightarrow> u64) \<Rightarrow> u32
    \<Rightarrow> ('d, 'm) fdev_scheme \<Rightarrow> IOStatus \<times> zptr option \<times> u64 \<times> ('d, 'm) fdev_scheme" where
  "ChooseZoneWithHighestContrib alloc highest m minc s =
    scan_zones (\<lambda>z _. m (z_start z)) (\<lambda>c highest. c > highest) minc (all_zones s) alloc highest s"

text \<open>The zones of a list of extents that the device knows, each with the extent's length.\<close>

definition extent_zones :: "(u64 \<times> u64) list \<Rightarrow> ('d, 'm) fdev_scheme \<Rightarrow> (zptr \<times> u64) list" where
  "extent_zones exts s =
    List.map_filter (\<lambda>(zs, len). map_option (\<lambda>p. (p, len)) (zone_start_to_pointer_map s zs)) exts"

definition choose_extent_zone :: "(u64 \<times> u64) list \<Rightarrow> u32 \<Rightarrow> ('d, 'm) fdev_scheme
    \<Rightarrow> IOStatus \<times> zptr option \<times> u64 \<times> ('d, 'm) fdev_scheme" where
  "choose_extent_zone exts minc s =
    scan_zones (\<lambda>z len. len) (\<lambda>c highest. c > highest) minc (extent_zones exts s) None 0 s"

text \<open>
  \<open>ChooseZoneWithClosestFile\<close>: the files before and after the position, nearest first; a round looks
  at the next one on either side.
\<close>

fun closest_file_loop :: "fptr list \<Rightarrow> fptr list \<Rightarrow> u32 \<Rightarrow> ('d, 'm) fdev_scheme
    \<Rightarrow> (IOStatus \<times> zptr option \<times> ('d, 'm) fdev_scheme) option" where
  "closest_file_loop [] [] minc s = Some (OK, None, s)"
| "closest_file_loop ps ns minc s =
    (case (case ps of [] \<Rightarrow> Some [] | p # _ \<Rightarrow> snapshot_extents p s,
           case ns of [] \<Rightarrow> Some [] | n # _ \<Rightarrow> snapshot_extents n s) of
       (Some e1, Some e2) \<Rightarrow>
         (case choose_extent_zone (e1 @ e2) minc s of (st, a, highest, s1) \<Rightarrow>
            if st \<noteq> OK then Some (st, a, s1)
            else if a \<noteq> None then Some (OK, a, s1)
            else closest_file_loop (tl ps) (tl ns) minc s1)
     | _ \<Rightarrow> None)"

definition ChooseZoneWithClosestFile :: "nat \<Rightarrow> fptr list \<Rightarrow> u32 \<Rightarrow> ('d, 'm) fdev_scheme
    \<Rightarrow> (IOStatus \<times> zptr option \<times> ('d, 'm) fdev_scheme) option" where
  "ChooseZoneWithClosestFile i fs minc s =
    closest_file_loop (rev (take i fs)) (drop (i + 1) fs) minc s"

text \<open>\<open>labs\<close> of a difference computed in \<open>uint64_t\<close>.\<close>

definition labs64 :: "u64 \<Rightarrow> u64" where
  "labs64 w = word_of_int \<bar>sint w\<bar>"

text \<open>\<open>ChooseZoneWithClosestRank\<close>: the loop runs while \<open>prev_index > 0\<close>, that is while at least two
  files remain before the position, and a file remains after it.\<close>

fun closest_rank_loop :: "u64 \<Rightarrow> fptr list \<Rightarrow> fptr list \<Rightarrow> u32 \<Rightarrow> ('d, 'm) fdev_scheme
    \<Rightarrow> (IOStatus \<times> zptr option \<times> ('d, 'm) fdev_scheme) option" where
  "closest_rank_loop rank (p # q # ps) (n # ns) minc s =
    (let prev_diff = labs64 (rank - f_rank (fheap s p));
         next_diff = labs64 (f_rank (fheap s n) - rank)
     in if prev_diff < next_diff then
          (case snapshot_extents p s of
             None \<Rightarrow> None
           | Some exts \<Rightarrow>
               (case choose_extent_zone exts minc s of (st, a, highest, s1) \<Rightarrow>
                  if st \<noteq> OK then Some (st, a, s1)
                  else if a \<noteq> None then Some (OK, a, s1)
                  else closest_rank_loop rank (q # ps) (n # ns) minc s1))
        else
          (case snapshot_extents n s of
             None \<Rightarrow> None
           | Some exts \<Rightarrow>
               (case choose_extent_zone exts minc s of (st, a, highest, s1) \<Rightarrow>
                  if st \<noteq> OK then Some (st, a, s1)
                  else if a \<noteq> None then Some (OK, a, s1)
                  else closest_rank_loop rank (p # q # ps) ns minc s1)))"
| "closest_rank_loop rank ps ns minc s = Some (OK, None, s)"

definition ChooseZoneWithClosestRank :: "fptr \<Rightarrow> nat \<Rightarrow> fptr list \<Rightarrow> u32 \<Rightarrow> ('d, 'm) fdev_scheme
    \<Rightarrow> (IOStatus \<times> zptr option \<times> ('d, 'm) fdev_scheme) option" where
  "ChooseZoneWithClosestRank f i fs minc s =
    closest_rank_loop (f_rank (fheap s f)) (rev (take i fs)) (drop (i + 1) fs) minc s"

text \<open>What the policies report for the zone found.\<close>

definition match_found :: "zptr option \<Rightarrow> ('d, 'm) fdev_scheme \<Rightarrow> ('d, 'm) match_result" where
  "match_found a s =
    Some (case a of None \<Rightarrow> (OK, LIFETIME_DIFF_NOT_GOOD, None, s) | Some z \<Rightarrow> (OK, 0, Some z, s))"

section \<open>Ranking files by overlap\<close>

definition set_rank :: "fptr \<Rightarrow> u64 \<Rightarrow> ('d, 'm) fdev_scheme \<Rightarrow> ('d, 'm) fdev_scheme" where
  "set_rank f r s = upd_file f (f_rank_update (\<lambda>_. r)) s"

definition number_ranks :: "fptr list \<Rightarrow> ('d, 'm) fdev_scheme \<Rightarrow> ('d, 'm) fdev_scheme" where
  "number_ranks fs s = fold (\<lambda>(i, f). set_rank f (of_nat (i + 1))) (enumerate 0 fs) s"

definition sort_by_rank :: "penv \<Rightarrow> fptr list \<Rightarrow> ('d, 'm) fdev_scheme \<Rightarrow> fptr list" where
  "sort_by_rank env fs s = std_sort env (\<lambda>a b. f_rank (fheap s a) < f_rank (fheap s b)) fs"

fun overlap_size_ranks :: "penv \<Rightarrow> int \<Rightarrow> fptr list \<Rightarrow> ('d, 'm) fdev_scheme
    \<Rightarrow> ('d, 'm) fdev_scheme option" where
  "overlap_size_ranks env l [] s = Some s"
| "overlap_size_ranks env l (f # fs) s =
    (case GetOverlapByteCount env f l s of (n, s1) \<Rightarrow>
       if f_compensated_file_size (fheap s1 f) = 0 then None
       else overlap_size_ranks env l fs
              (set_rank f (n * 1024 div f_compensated_file_size (fheap s1 f)) s1))"

definition OverlapRankHelperSizeBased :: "penv \<Rightarrow> fptr list \<Rightarrow> int \<Rightarrow> int \<Rightarrow> ('d, 'm) fdev_scheme
    \<Rightarrow> (fptr list \<times> ('d, 'm) fdev_scheme) option" where
  "OverlapRankHelperSizeBased env fs own target s =
    (if level_files own s = None \<or> level_files target s = None
     then Some (fs, fold (\<lambda>f. set_rank f 0) fs s)
     else case overlap_size_ranks env target fs s of
       None \<Rightarrow> None
     | Some s1 \<Rightarrow> (let fs1 = sort_by_rank env fs s1 in Some (fs1, number_ranks fs1 s1)))"

fun overlap_key_ranks :: "penv \<Rightarrow> int \<Rightarrow> fptr list \<Rightarrow> ('d, 'm) fdev_scheme
    \<Rightarrow> ('d, 'm) fdev_scheme option" where
  "overlap_key_ranks env l [] s = Some s"
| "overlap_key_ranks env l (f # fs) s =
    (if f_num_entries (fheap s f) = 0 then None
     else overlap_key_ranks env l fs
            (set_rank f (GetOverlapKeyCount env f l s * 1024 div f_num_entries (fheap s f)) s))"

definition OverlapRankHelperKeyBased :: "penv \<Rightarrow> fptr list \<Rightarrow> int \<Rightarrow> int \<Rightarrow> ('d, 'm) fdev_scheme
    \<Rightarrow> (fptr list \<times> ('d, 'm) fdev_scheme) option" where
  "OverlapRankHelperKeyBased env fs own target s =
    (if level_files own s = None \<or> level_files target s = None
     then Some (fs, fold (\<lambda>f. set_rank f 0) fs s)
     else case overlap_key_ranks env target fs s of
       None \<Rightarrow> None
     | Some s1 \<Rightarrow> Some (sort_by_rank env fs s1, s1))"

text \<open>Adding to each file the rank of the first overlapping file of the level above.\<close>

definition add_upper_ranks :: "penv \<Rightarrow> fptr list \<Rightarrow> fptr list \<Rightarrow> ('d, 'm) fdev_scheme
    \<Rightarrow> ('d, 'm) fdev_scheme" where
  "add_upper_ranks env own upper s =
    fold (\<lambda>f s. case List.find (\<lambda>g. IsOverlapping env (fheap s f) (fheap s g)) upper of
            None \<Rightarrow> s
          | Some g \<Rightarrow> set_rank f (f_rank (fheap s f) + f_rank (fheap s g)) s) own s"

text \<open>The level a file would be moved to by trivial moves.\<close>

function trivial_level :: "penv \<Rightarrow> fptr \<Rightarrow> int \<Rightarrow> ('d, 'm) fdev_scheme \<Rightarrow> int" where
  "trivial_level env f level s =
    (if level < uint (max_level (params s)) \<and> GetOverlapFileCount env f (level + 1) s = 0
     then trivial_level env f (level + 1) s else level)"
  by auto
termination
  by (relation "measure (\<lambda>(env, f, level, s). nat (uint (max_level (params s)) - level))") auto

declare trivial_level.simps [simp del]

definition index_of :: "fptr \<Rightarrow> fptr list \<Rightarrow> nat" where
  "index_of f fs = length (takeWhile (\<lambda>g. g \<noteq> f) fs)"

definition others :: "fptr \<Rightarrow> fptr list \<Rightarrow> fptr list" where
  "others f fs = filter (\<lambda>g. g \<noteq> f) fs"


section \<open>Policies that look at other files\<close>

definition MatchCAZA :: "penv \<Rightarrow> fptr \<Rightarrow> WriteLifeTimeHint \<Rightarrow> u32 \<Rightarrow> u32 \<Rightarrow> ('d, 'm) fdev_scheme
    \<Rightarrow> ('d, 'm) match_result" where
  "MatchCAZA env f fl minc bd s =
    (let level = f_level (fheap s f); ps = params s;
         o1 = (if GetPolicy ps (level - 1) = kCAZA \<or> GetSecondaryPolicy ps (level - 1) = kCAZA
               then GetOverlappingFiles env [] f (level - 1) s else []);
         ov = (if GetPolicy ps (level + 1) = kCAZA \<or> GetSecondaryPolicy ps (level + 1) = kCAZA
               then GetOverlappingFiles env o1 f (level + 1) s else o1)
     in if ov = [] \<and> level > 0 then Some (OK, LIFETIME_DIFF_NOT_GOOD, None, s)
        else case GetPerZoneContributions env ov fp_1 (\<lambda>_. 0) s of
          None \<Rightarrow> None
        | Some m \<Rightarrow>
            (case ChooseZoneWithHighestContrib None 0 m minc s of (st, a, highest, s1) \<Rightarrow>
               if st \<noteq> OK then Some (st, bd, None, s1)
               else if a = None \<and> level = 0 then
                 (case ChooseZoneWithHighestContrib a 0 (\<lambda>_. 0) minc s1 of (st2, a2, highest2, s2) \<Rightarrow>
                    if st2 \<noteq> OK then Some (st2, bd, None, s2) else match_found a2 s2)
               else match_found a s1))"

text \<open>The position of the file among the files of its level, by smallest key.\<close>

definition index_middle :: "penv \<Rightarrow> fptr \<Rightarrow> fptr list \<Rightarrow> ('d, 'm) fdev_scheme \<Rightarrow> nat" where
  "index_middle env f fs s =
    length (takeWhile
      (\<lambda>g. sstableKeyCompare env (f_smallest (fheap s g)) (f_smallest (fheap s f)) < 0) fs)"

text \<open>\<open>need_new\<close> is the policy's judgement that a new zone would be better.\<close>

definition plaza_result :: "bool \<Rightarrow> zptr \<Rightarrow> ('d, 'm) fdev_scheme \<Rightarrow> ('d, 'm) match_result" where
  "plaza_result need_new z s =
    Some (if need_new
          then (OK, LIFETIME_DIFF_COULD_BE_WORSE, Some z,
                s\<lparr>need_flag := True, nearest_need_new := nearest_need_new s + 1\<rparr>)
          else (OK, 0, Some z, s\<lparr>nearest_real_success := nearest_real_success s + 1\<rparr>))"

definition MatchPlazaBase :: "penv \<Rightarrow> fptr \<Rightarrow> WriteLifeTimeHint \<Rightarrow> u32 \<Rightarrow> u32 \<Rightarrow> ('d, 'm) fdev_scheme
    \<Rightarrow> ('d, 'm) match_result" where
  "MatchPlazaBase env f fl minc bd s =
    (case level_files (f_level (fheap s f)) s of
       None \<Rightarrow> Some (OK, LIFETIME_DIFF_NOT_GOOD, None, s)
     | Some fs \<Rightarrow>
         (let i = index_middle env f fs s
          in case weigh_around env (fade_0_8 env) (Some f) fs i i s of
               None \<Rightarrow> None
             | Some m \<Rightarrow>
                 (case ChooseZoneWithHighestContrib None 0 m minc s of (st, a, highest, s1) \<Rightarrow>
                    if st \<noteq> OK then Some (st, LIFETIME_DIFF_NOT_GOOD, None, s1)
                    else case a of
                      None \<Rightarrow> Some (OK, LIFETIME_DIFF_NOT_GOOD, None, s1)
                    | Some z \<Rightarrow>
                        plaza_result (fp_lt (fpops env)
                          (fp_div (fpops env) (fp_mul (fpops env) fp_1 (fp_of_u64 (fpops env) highest))
                             (fp_of_u64 (fpops env) (z_used (zheap s1 z))))
                          (nearest_newzone_threshold (params s1))) z s1)))"

text \<open>How many of the files around position \<open>i\<close> have an extent in the zone.\<close>

fun files_in_zone :: "u64 \<Rightarrow> fptr list \<Rightarrow> ('d, 'm) fdev_scheme \<Rightarrow> nat option" where
  "files_in_zone zs [] s = Some 0"
| "files_in_zone zs (f # fs) s =
    (case (snapshot_extents f s, files_in_zone zs fs s) of
       (Some exts, Some n) \<Rightarrow> Some (if zs \<in> fst ` set exts then n + 1 else n)
     | _ \<Rightarrow> None)"

definition open_zone_count :: "int \<Rightarrow> ('d, 'm) fdev_scheme \<Rightarrow> nat" where
  "open_zone_count l s =
    length (filter (\<lambda>z. IsUsed (zheap s z) \<and> \<not> IsFull (zheap s z) \<and> z_level (zheap s z) = l)
      (io_zones s))"

definition MatchPlazaIntermediate :: "penv \<Rightarrow> fptr \<Rightarrow> WriteLifeTimeHint \<Rightarrow> u32 \<Rightarrow> u32
    \<Rightarrow> ('d, 'm) fdev_scheme \<Rightarrow> ('d, 'm) match_result" where
  "MatchPlazaIntermediate env f fl minc bd s =
    (let level = f_level (fheap s f)
     in case level_files level s of
       None \<Rightarrow> Some (OK, LIFETIME_DIFF_NOT_GOOD, None, s)
     | Some fs \<Rightarrow>
         (let i = index_middle env f fs s
          in case weigh_around env (fade_0_8 env) (Some f) fs i i s of
               None \<Rightarrow> None
             | Some m \<Rightarrow>
                 (case ChooseZoneWithHighestContrib None 0 m minc s of (st, a, highest, s1) \<Rightarrow>
                    if st \<noteq> OK then Some (st, LIFETIME_DIFF_NOT_GOOD, None, s1)
                    else case a of
                      None \<Rightarrow> Some (OK, LIFETIME_DIFF_NOT_GOOD, None, s1)
                    | Some z \<Rightarrow>
                        (let left = max (int i - 5) 0;
                             right = min (int i + 4) (int (length fs) - 1);
                             considered = max (right - left + 1) 1;
                             near = take (nat (right - left + 1)) (drop (nat left) fs);
                             zto = zones_to_open (params s1); lc = uint (max_level (params s1))
                         in case files_in_zone (z_start (zheap s1 z)) near s1 of
                              None \<Rightarrow> None
                            | Some n \<Rightarrow>
                                if level < int (length zto) \<and> level > lc then None
                                else plaza_result
                                  (fp_lt (fpops env)
                                     (fp_div (fpops env)
                                        (fp_mul (fpops env) fp_1 (fp_of_u64 (fpops env) (of_nat n)))
                                        (fp_of_u64 (fpops env) (of_int considered)))
                                     (nearest_newzone_threshold (params s1)) \<or>
                                   (level < int (length zto) \<and>
                                    int (open_zone_count level s1) < uint (zto ! nat level))) z s1))))"

text \<open>The user key of an internal key is all but its last eight bytes.\<close>

definition user_key :: "byte list \<Rightarrow> byte list" where
  "user_key k = take (length k - 8) k"

definition string_is_numeric :: "byte list \<Rightarrow> bool" where
  "string_is_numeric k = list_all (\<lambda>b. 48 \<le> b \<and> b \<le> 57) k"

definition key_number :: "penv \<Rightarrow> byte list \<Rightarrow> double option" where
  "key_number env k = fp_stod (fpops env) (map (\<lambda>b. char_of (unat b)) k)"

text \<open>
  The largest key distance of a file with an extent in each zone. The map is keyed by zone pointers
  and iterated in their order; a zone start the device does not know yields a null pointer.
\<close>

definition note_diff :: "penv \<Rightarrow> double \<Rightarrow> zptr \<Rightarrow> (zptr \<times> double) list \<Rightarrow> (zptr \<times> double) list" where
  "note_diff env d z m =
    (let old = (case map_of m z of None \<Rightarrow> fp_m1 | Some v \<Rightarrow> v);
         new = (if fp_lt (fpops env) old d then d else old)
     in insort_key fst (z, new) (filter (\<lambda>(y, _). y \<noteq> z) m))"

fun zone_diffs :: "penv \<Rightarrow> double \<Rightarrow> fptr list \<Rightarrow> (zptr \<times> double) list \<Rightarrow> ('d, 'm) fdev_scheme
    \<Rightarrow> (zptr \<times> double) list option" where
  "zone_diffs env new [] m s = Some m"
| "zone_diffs env new (f # fs) m s =
    (let k = user_key (f_smallest (fheap s f))
     in if \<not> string_is_numeric k then zone_diffs env new fs m s
        else case (key_number env k, snapshot_extents f s) of
          (Some cur, Some exts) \<Rightarrow>
            (let d = fp_abs (fpops env) (fp_sub (fpops env) new cur);
                 ps = map (\<lambda>(zs, _). zone_start_to_pointer_map s zs) exts
             in if None \<in> set ps then None
                else zone_diffs env new fs (fold (\<lambda>p. note_diff env d (the p)) ps m) s)
        | _ \<Rightarrow> None)"

definition MatchPlazaAdvanced :: "penv \<Rightarrow> fptr \<Rightarrow> WriteLifeTimeHint \<Rightarrow> u32 \<Rightarrow> u32
    \<Rightarrow> ('d, 'm) fdev_scheme \<Rightarrow> ('d, 'm) match_result" where
  "MatchPlazaAdvanced env f fl minc bd s =
    (let level = f_level (fheap s f); new_key = user_key (f_smallest (fheap s f))
     in if level < 2 \<or> \<not> string_is_numeric new_key then MatchArrivalTimeBased f fl minc bd s
        else case level_files level s of
          None \<Rightarrow> Some (OK, LIFETIME_DIFF_NOT_GOOD, None, s)
        | Some fs \<Rightarrow>
            (case key_number env new_key of
               None \<Rightarrow> None
             | Some new \<Rightarrow>
                 (case zone_diffs env new fs [] s of
                    None \<Rightarrow> None
                  | Some m \<Rightarrow>
                      (case scan_zones (\<lambda>z d. d)
                         (\<lambda>d chosen. fp_le (fpops env) fp_0 d \<and> fp_le (fpops env) d chosen) minc m None
                         fp_1e100 s of (st, a, chosen, s1) \<Rightarrow>
                         if st \<noteq> OK then Some (st, LIFETIME_DIFF_NOT_GOOD, None, s1)
                         else case a of
                           None \<Rightarrow> Some (OK, LIFETIME_DIFF_NOT_GOOD, None, s1)
                         | Some z \<Rightarrow>
                             plaza_result (fp_lt (fpops env) (nearest_newzone_threshold (params s1))
                               (fp_div (fpops env) chosen
                                  (fp_pow10 (fpops env) (int (length new_key) - 1)))) z s1))))"

definition MatchSameLevelNearbyKeysSimple :: "penv \<Rightarrow> fptr \<Rightarrow> WriteLifeTimeHint \<Rightarrow> u32 \<Rightarrow> u32
    \<Rightarrow> ('d, 'm) fdev_scheme \<Rightarrow> ('d, 'm) match_result" where
  "MatchSameLevelNearbyKeysSimple env f fl minc bd s =
    (let level = f_level (fheap s f)
     in case level_files level s of
       None \<Rightarrow> Some (OK, LIFETIME_DIFF_NOT_GOOD, None, s)
     | Some _ \<Rightarrow>
         (let s1 = AddZoneFileRecord env f (RemoveZoneFileRecord f s);
              fs = levelwise_file_list s1 ! nat level
          in case ChooseZoneWithClosestFile (index_of f fs) fs minc s1 of
               None \<Rightarrow> None
             | Some (st, a, s2) \<Rightarrow> if st \<noteq> OK then Some (st, bd, None, s2) else match_found a s2))"

text \<open>The common part of the three ranking policies: choose by contribution around the file's rank.\<close>

definition choose_by_rank :: "penv \<Rightarrow> (double \<Rightarrow> double) \<Rightarrow> fptr \<Rightarrow> fptr list \<Rightarrow> u32 \<Rightarrow> u32
    \<Rightarrow> ('d, 'm) fdev_scheme \<Rightarrow> ('d, 'm) match_result" where
  "choose_by_rank env fade f own minc bd s =
    (let i = index_of f own
     in case weigh_around env fade None own i (i + 1) s of
          None \<Rightarrow> None
        | Some m \<Rightarrow>
            (case ChooseZoneWithHighestContrib None 0 m minc s of (st, a, highest, s1) \<Rightarrow>
               if st \<noteq> OK then Some (st, bd, None, s1) else match_found a s1))"

definition MatchOverlapChildren :: "penv \<Rightarrow> fptr \<Rightarrow> WriteLifeTimeHint \<Rightarrow> u32 \<Rightarrow> u32
    \<Rightarrow> ('d, 'm) fdev_scheme \<Rightarrow> ('d, 'm) match_result" where
  "MatchOverlapChildren env f fl minc bd s =
    (let s1 = RecomputeCompensatedFileSizes (ComputeCompensatedSize f s);
         level = trivial_level env f (f_level (fheap s1 f)) s1;
         s2 = (if level > f_level (fheap s1 f)
               then AddZoneFileRecord env f
                      (upd_file f (f_level_update (\<lambda>_. level)) (RemoveZoneFileRecord f s1))
               else s1)
     in case level_files level s2 of
          None \<Rightarrow> Some (OK, LIFETIME_DIFF_NOT_GOOD, None, s2)
        | Some fs \<Rightarrow>
            (case OverlapRankHelperSizeBased env (f # others f fs) level (level + 1) s2 of
               None \<Rightarrow> None
             | Some (own, s3) \<Rightarrow>
                 (let up = (if level - 1 \<ge> 0 then others f (levelwise_file_list s3 ! nat (level - 1)) else [])
                  in case OverlapRankHelperSizeBased env up (level - 1) level s3 of
                       None \<Rightarrow> None
                     | Some (upper, s4) \<Rightarrow>
                         (let s5 = add_upper_ranks env own upper s4
                          in choose_by_rank env (fade_0_8 env) f (sort_by_rank env own s5) minc bd s5))))"

text \<open>This policy and the next index the level lists without a bound check.\<close>

definition MatchOverlapGrandchildren :: "penv \<Rightarrow> fptr \<Rightarrow> WriteLifeTimeHint \<Rightarrow> u32 \<Rightarrow> u32
    \<Rightarrow> ('d, 'm) fdev_scheme \<Rightarrow> ('d, 'm) match_result" where
  "MatchOverlapGrandchildren env f fl minc bd s =
    (let s1 = RecomputeCompensatedFileSizes (ComputeCompensatedSize f s);
         level = trivial_level env f (f_level (fheap s1 f)) s1
     in case level_files level s1 of
          None \<Rightarrow> None
        | Some fs \<Rightarrow>
            (case OverlapRankHelperSizeBased env (f # others f fs) level (level + 2) s1 of
               None \<Rightarrow> None
             | Some (own, s2) \<Rightarrow>
                 (let up = (if level - 1 > 0 then others f (levelwise_file_list s2 ! nat (level - 1)) else [])
                  in case OverlapRankHelperSizeBased env up (level - 1) (level + 1) s2 of
                       None \<Rightarrow> None
                     | Some (upper, s3) \<Rightarrow>
                         (let s4 = add_upper_ranks env own upper s3
                          in choose_by_rank env (fade_0_5 env) f (sort_by_rank env own s4) minc bd s4))))"

definition sort_by_size :: "penv \<Rightarrow> fptr list \<Rightarrow> ('d, 'm) fdev_scheme \<Rightarrow> fptr list" where
  "sort_by_size env fs s =
    std_sort env (\<lambda>a b. f_compensated_file_size (fheap s a) > f_compensated_file_size (fheap s b)) fs"

definition MatchCompensatedSize :: "penv \<Rightarrow> fptr \<Rightarrow> WriteLifeTimeHint \<Rightarrow> u32 \<Rightarrow> u32
    \<Rightarrow> ('d, 'm) fdev_scheme \<Rightarrow> ('d, 'm) match_result" where
  "MatchCompensatedSize env f fl minc bd s =
    (let s1 = RecomputeCompensatedFileSizes (ComputeCompensatedSize f s);
         level = trivial_level env f (f_level (fheap s1 f)) s1
     in case level_files level s1 of
          None \<Rightarrow> None
        | Some fs \<Rightarrow>
            (let own = sort_by_size env (f # others f fs) s1; s2 = number_ranks own s1;
                 up = (if level - 1 > 0 then others f (levelwise_file_list s2 ! nat (level - 1)) else []);
                 upper = sort_by_size env up s2; s3 = number_ranks upper s2;
                 s4 = add_upper_ranks env own upper s3
             in choose_by_rank env (fade_0_5 env) f (sort_by_rank env own s4) minc bd s4))"

definition MatchOAZA :: "penv \<Rightarrow> fptr \<Rightarrow> WriteLifeTimeHint \<Rightarrow> u32 \<Rightarrow> u32 \<Rightarrow> ('d, 'm) fdev_scheme
    \<Rightarrow> ('d, 'm) match_result" where
  "MatchOAZA env f fl minc bd s =
    (let s1 = RecomputeCompensatedFileSizes (ComputeCompensatedSize f s);
         level = f_level (fheap s1 f); maxl = uint (max_level (params s1))
     in case level_files level s1 of
          None \<Rightarrow> Some (OK, LIFETIME_DIFF_NOT_GOOD, None, s1)
        | Some fs \<Rightarrow>
            if level < maxl \<and> GetOverlapFileCount env f (level + 1) s1 = 0 then
              Some (OK, LIFETIME_DIFF_NOT_GOOD, None,
                AddZoneFileRecord env f
                  (upd_file f (f_level_update (\<lambda>l. l + 1)) (RemoveZoneFileRecord f s1)))
            else if level = maxl \<and> GetOverlapFileCount env f (level - 1) s1 = 0 then
              Some (OK, LIFETIME_DIFF_NOT_GOOD, None, s1)
            else
              (case OverlapRankHelperKeyBased env (f # others f fs) level
                      (if level < maxl then level + 1 else level - 1) s1 of
                 None \<Rightarrow> None
               | Some (own, s2) \<Rightarrow>
                   (case (if real_oaza (params s2) \<noteq> 0
                          then ChooseZoneWithClosestRank f (index_of f own) own minc s2
                          else ChooseZoneWithClosestFile (index_of f own) own minc s2) of
                      None \<Rightarrow> None
                    | Some (st, a, s3) \<Rightarrow>
                        if st \<noteq> OK then Some (st, bd, None, s3) else match_found a s3)))"


section \<open>The contract of a policy\<close>

text \<open>\<open>core zf\<close>: a file object without the members a policy may change (its level, its rank and its
  size estimates). \<open>same_zones s s'\<close>: the zones, the tokens and the cores of the file objects are
  untouched (the level lists may differ). \<open>matched minc out s s'\<close>: the only change to the zones is that
  \<open>out\<close>, if any, has been acquired, and \<open>out\<close> is a zone of the device that was free and has room.\<close>

definition core :: "zonefile \<Rightarrow> zonefile" where
  "core zf = zf\<lparr>f_level := 0, f_rank := 0, f_file_size_meta := 0, f_compensated_file_size := 0\<rparr>"

definition same_files :: "('d, 'm) fdev_scheme \<Rightarrow> ('d, 'm) fdev_scheme \<Rightarrow> bool" where
  "same_files s s' \<longleftrightarrow> fdev.more s' = fdev.more s \<and> next_fptr s' = next_fptr s \<and>
    (\<forall>g. core (fheap s' g) = core (fheap s g))"

lemma same_files_refl [simp]: "same_files s s" by (simp add: same_files_def)

lemma same_files_trans: "same_files s s' \<Longrightarrow> same_files s' s'' \<Longrightarrow> same_files s s''"
  by (simp add: same_files_def)

definition same_device :: "('d, 'm) zbd_scheme \<Rightarrow> ('d, 'm) zbd_scheme \<Rightarrow> bool" where
  "same_device s s' \<longleftrightarrow> dev s' = dev s \<and> io_zones s' = io_zones s \<and> meta_zones s' = meta_zones s \<and>
    zone_start_to_pointer_map s' = zone_start_to_pointer_map s \<and>
    active_io_zones s' = active_io_zones s \<and> open_io_zones s' = open_io_zones s \<and>
    max_nr_active_io_zones s' = max_nr_active_io_zones s \<and>
    max_nr_open_io_zones s' = max_nr_open_io_zones s \<and>
    finish_threshold s' = finish_threshold s \<and> params s' = params s \<and>
    zone_deferred_status s' = zone_deferred_status s \<and> migrating s' = migrating s"

definition same_zones :: "('d, 'm) fdev_scheme \<Rightarrow> ('d, 'm) fdev_scheme \<Rightarrow> bool" where
  "same_zones s s' \<longleftrightarrow> same_device s s' \<and> same_files s s' \<and> zheap s' = zheap s"

definition matched :: "u32 \<Rightarrow> zptr option \<Rightarrow> ('d, 'm) fdev_scheme \<Rightarrow> ('d, 'm) fdev_scheme \<Rightarrow> bool" where
  "matched minc out s s' \<longleftrightarrow> same_device s s' \<and> same_files s s' \<and> zheap s' = zheap (holding out s) \<and>
    (\<forall>z. out = Some z \<longrightarrow> \<not> z_busy (zheap s z) \<and> suitable minc (zheap s z) \<and>
       z \<in> set (io_zones s) \<union> ran (zone_start_to_pointer_map s))"

lemma same_zones_refl [simp]: "same_zones s s"
  by (simp add: same_zones_def same_device_def)

lemma same_zones_trans: "same_zones s s' \<Longrightarrow> same_zones s' s'' \<Longrightarrow> same_zones s s''"
  by (simp add: same_zones_def same_device_def same_files_def)

lemma same_zones_fold:
  "(\<And>x s. same_zones s (g x s)) \<Longrightarrow> same_zones s (fold g xs s)"
  by (induction xs arbitrary: s) (auto intro: same_zones_trans)

lemma zheap_holding_cong: "zheap s' = zheap s \<Longrightarrow> zheap (holding a s') = zheap (holding a s)"
  by (simp add: holding_def split: option.split)

lemma matched_after: "same_zones s s1 \<Longrightarrow> matched minc out s1 s2 \<Longrightarrow> matched minc out s s2"
  using zheap_holding_cong [of s1 s] by (auto simp: same_zones_def matched_def same_device_def same_files_def)

lemma matched_before: "matched minc out s s1 \<Longrightarrow> same_zones s1 s2 \<Longrightarrow> matched minc out s s2"
  by (simp add: same_zones_def matched_def same_device_def same_files_def)

lemma matched_None [simp]: "matched minc None s s' = same_zones s s'"
  by (auto simp: matched_def same_zones_def holding_def)

text \<open>Updates of a file object that keep its core.\<close>

lemma same_zones_upd_file: "(\<And>zf. core (g zf) = core zf) \<Longrightarrow> same_zones s (upd_file f g s)"
  by (simp add: same_zones_def same_device_def same_files_def upd_file_def)

lemma same_zones_setters [simp]:
  "same_zones s (upd_file f (f_level_update l) s)" "same_zones s (upd_file f (f_file_size_meta_update m) s)"
  by (simp_all add: same_zones_upd_file core_def)

lemma same_zones_records [simp]:
  "same_zones s (RemoveZoneFileRecord f s)" "same_zones s (AddZoneFileRecord env f s)"
  "same_zones s (set_rank f r s)" "same_zones s (ComputeCompensatedSize f s)"
  by (simp_all add: RemoveZoneFileRecord_def AddZoneFileRecord_def Let_def same_zones_def
      same_device_def same_files_def set_rank_def ComputeCompensatedSize_def upd_file_def core_def)

lemma same_zones_folds [simp]:
  "same_zones s (RecomputeCompensatedFileSizes s)" "same_zones s (number_ranks fs s)"
  "same_zones s (fold (\<lambda>f. set_rank f r) fs s)"
  unfolding RecomputeCompensatedFileSizes_def number_ranks_def
  by (auto intro!: same_zones_fold)

lemma same_zones_add_upper [simp]: "same_zones s (add_upper_ranks env own upper s)"
  unfolding add_upper_ranks_def by (rule same_zones_fold) (simp split: option.split)

lemma same_zones_right: "same_zones a b \<Longrightarrow> same_zones s b = same_zones s a"
  by (auto simp: same_zones_def same_device_def same_files_def)

lemma same_zones_left: "same_zones a b \<Longrightarrow> same_zones b s = same_zones a s"
  by (auto simp: same_zones_def same_device_def same_files_def)

lemma matched_left: "same_zones a b \<Longrightarrow> matched minc out b s = matched minc out a s"
  using zheap_holding_cong [of b a]
  by (auto simp: same_zones_def matched_def same_device_def same_files_def)

lemmas same_zones_push [simp] = same_zones_setters [THEN same_zones_right]
  same_zones_records [THEN same_zones_right] same_zones_folds [THEN same_zones_right]
  same_zones_add_upper [THEN same_zones_right]
  same_zones_setters [THEN same_zones_left]
  same_zones_records [THEN same_zones_left] same_zones_folds [THEN same_zones_left]
  same_zones_add_upper [THEN same_zones_left]
  same_zones_setters [THEN matched_left]
  same_zones_records [THEN matched_left] same_zones_folds [THEN matched_left]
  same_zones_add_upper [THEN matched_left]

lemma same_zones_compensated:
  "same_zones s (RecomputeCompensatedFileSizes (ComputeCompensatedSize f s))"
  by simp

lemma same_zones_overlap_bytes:
  "overlap_bytes env f gs n s = (m, s') \<Longrightarrow> same_zones s s'"
proof (induction gs arbitrary: n s)
  case (Cons g gs)
  then show ?case
    by (auto simp: GetFileSizeMeta_def Let_def split: if_splits
        intro: same_zones_trans [OF same_zones_setters(2)])
qed simp

lemma same_zones_size_ranks:
  "overlap_size_ranks env l fs s = Some s' \<Longrightarrow> same_zones s s'"
proof (induction fs arbitrary: s)
  case (Cons f fs)
  obtain n s1 where B: "GetOverlapByteCount env f l s = (n, s1)" by fastforce
  have 1: "same_zones s s1"
    using B same_zones_overlap_bytes by (auto simp: GetOverlapByteCount_def split: option.splits)
  let ?s2 = "set_rank f (n * 1024 div f_compensated_file_size (fheap s1 f)) s1"
  have "overlap_size_ranks env l fs ?s2 = Some s'"
    using Cons.prems B by (simp split: if_splits)
  then have "same_zones ?s2 s'" by (rule Cons.IH)
  then show ?case using 1 same_zones_trans by simp
qed simp

lemma same_zones_key_ranks:
  "overlap_key_ranks env l fs s = Some s' \<Longrightarrow> same_zones s s'"
proof (induction fs arbitrary: s)
  case (Cons f fs)
  then show ?case
    by (auto split: if_splits intro: same_zones_trans [OF same_zones_records(3)])
qed simp

lemma same_zones_rank_helpers:
  "OverlapRankHelperSizeBased env fs own target s = Some (fs', s') \<Longrightarrow> same_zones s s'"
  "OverlapRankHelperKeyBased env fs own target s = Some (fs', s') \<Longrightarrow> same_zones s s'"
  by (auto simp: OverlapRankHelperSizeBased_def OverlapRankHelperKeyBased_def Let_def
      split: if_splits option.splits
      intro: same_zones_key_ranks same_zones_trans [OF same_zones_size_ranks])

lemma same_device_holding: "same_device s (holding a s)"
  by (simp add: holding_def same_device_def acquired_def upd_zone_def split: option.split)

lemma same_files_holding [simp]: "same_files s (holding a s)"
  by (simp add: holding_def same_files_def acquired_def upd_zone_def split: option.split)

text \<open>Every search ends like this.\<close>

lemma scan_matched:
  assumes "scan_zones score better minc zs None best s = (st, a, b, s')" "busy_blind score"
    and "fst ` set zs \<subseteq> set (io_zones s) \<union> ran (zone_start_to_pointer_map s)"
  shows "st = OK \<and> matched minc a s s'"
proof -
  obtain a' b' where P: "pick_zone score better minc (zheap s) zs (None, best) = (a', b')" by fastforce
  then have e: "st = OK" "a = a'" "s' = holding a s"
    using assms by (auto simp: scan_zones_None)
  show ?thesis
    using pick_zone_sound [of score better minc "zheap s" zs best _ b'] P e assms(3)
    by (fastforce simp: matched_def same_device_holding)
qed

lemma busy_blind_simps [simp]:
  "busy_blind (\<lambda>z _. GetLifeTimeDiff (z_lifetime z) fl)" "busy_blind (\<lambda>z _. m (z_start z))"
  "busy_blind (\<lambda>z k. k)"
  by (simp_all add: busy_blind_def)

lemma all_zones_known [simp]: "fst ` set (all_zones s) \<subseteq> set (io_zones s) \<union> B"
  by (auto simp: all_zones_def)

lemma scan_all_matched:
  "scan_zones score better minc (all_zones s) None best s = (st, a, b, s') \<Longrightarrow> busy_blind score \<Longrightarrow>
     st = OK \<and> matched minc a s s'"
  by (rule scan_matched [OF _ _ all_zones_known])

lemma note_diffs_known:
  "fst ` set (fold (\<lambda>p. note_diff env d (the p)) ps m) \<subseteq> fst ` set m \<union> the ` set ps"
proof (induction ps arbitrary: m)
  case (Cons p ps)
  have "fst ` set (note_diff env d (the p) m) \<subseteq> insert (the p) (fst ` set m)"
    by (auto simp: note_diff_def Let_def set_insort_key)
  with Cons.IH [of "note_diff env d (the p) m"] show ?case by auto
qed simp

lemma zone_diffs_known:
  "zone_diffs env new fs m s = Some m' \<Longrightarrow>
     fst ` set m' \<subseteq> fst ` set m \<union> ran (zone_start_to_pointer_map s)"
proof (induction fs arbitrary: m)
  case (Cons f fs)
  show ?case
  proof (cases "string_is_numeric (user_key (f_smallest (fheap s f)))")
    case False
    then show ?thesis using Cons by (simp add: Let_def)
  next
    case True
    then obtain exts :: "(u64 \<times> u64) list" and d where e: "zone_diffs env new fs
        (fold (\<lambda>p. note_diff env d (the p)) (map (\<lambda>(zs, _). zone_start_to_pointer_map s zs) exts) m) s = Some m'"
      "None \<notin> set (map (\<lambda>(zs, _). zone_start_to_pointer_map s zs) exts)"
      using Cons.prems by (auto simp: Let_def split: option.splits if_splits)
    have "the ` set (map (\<lambda>(zs, _). zone_start_to_pointer_map s zs) exts) \<subseteq> ran (zone_start_to_pointer_map s)"
      using e(2) by (force simp: ran_def)
    then show ?thesis
      using Cons.IH [OF e(1)]
        note_diffs_known [of env d "map (\<lambda>(zs, _). zone_start_to_pointer_map s zs) exts" m]
      by blast
  qed
qed simp

lemma extent_zones_known: "fst ` set (extent_zones exts s) \<subseteq> A \<union> ran (zone_start_to_pointer_map s)"
  by (auto simp: extent_zones_def map_filter_def ran_def)

lemma choose_contrib_matched:
  "ChooseZoneWithHighestContrib None h m minc s = (st, a, b, s') \<Longrightarrow> st = OK \<and> matched minc a s s'"
  unfolding ChooseZoneWithHighestContrib_def by (erule scan_matched) simp_all

lemma choose_extent_matched:
  "choose_extent_zone exts minc s = (st, a, b, s') \<Longrightarrow> st = OK \<and> matched minc a s s'"
  unfolding choose_extent_zone_def by (erule scan_matched) (simp_all add: extent_zones_known)

lemma closest_file_matched:
  "closest_file_loop ps ns minc s = Some (st, a, s') \<Longrightarrow> st = OK \<and> matched minc a s s'"
  by (induction ps ns minc s rule: closest_file_loop.induct)
    (auto split: option.splits prod.splits if_splits dest!: choose_extent_matched intro: matched_after)

lemma extent_round:
  assumes "(case choose_extent_zone exts minc s of (st, a, highest, s1) \<Rightarrow>
      if st \<noteq> OK then Some (st, a, s1) else if a \<noteq> None then Some (OK, a, s1) else k s1)
      = Some (st', a', s')"
    and "\<And>s1. k s1 = Some (st', a', s') \<Longrightarrow> st' = OK \<and> matched minc a' s1 s'"
  shows "st' = OK \<and> matched minc a' s s'"
proof -
  obtain st a h s1 where C: "choose_extent_zone exts minc s = (st, a, h, s1)" by (metis prod_cases4)
  note M = choose_extent_matched [OF C]
  show ?thesis
  proof (cases a)
    case None
    then show ?thesis using assms C M by (auto intro: matched_after)
  qed (use assms C M in auto)
qed

lemma closest_rank_matched:
  "closest_rank_loop r ps ns minc s = Some (st, a, s') \<Longrightarrow> st = OK \<and> matched minc a s s'"
proof (induction "length ps + length ns" arbitrary: ps ns s rule: less_induct)
  case less
  show ?case
  proof (cases "\<exists>p q ps' n ns'. ps = p # q # ps' \<and> ns = n # ns'")
    case True
    then obtain p q ps' n ns' where e: "ps = p # q # ps'" "ns = n # ns'" by blast
    have 1: "closest_rank_loop r (q # ps') (n # ns') minc s1 = Some (st, a, s') \<Longrightarrow>
        st = OK \<and> matched minc a s1 s'" for s1
      by (rule less.hyps) (simp_all add: e)
    have 2: "closest_rank_loop r (p # q # ps') ns' minc s1 = Some (st, a, s') \<Longrightarrow>
        st = OK \<and> matched minc a s1 s'" for s1
      by (rule less.hyps) (simp_all add: e)
    show ?thesis
      using less.prems extent_round [OF _ 1] extent_round [OF _ 2]
      by (simp add: e Let_def split: if_splits option.splits)
  next
    case False
    then have "closest_rank_loop r ps ns minc s = Some (OK, None, s)"
      by (cases "(r, ps, ns, minc, s)" rule: closest_rank_loop.cases) auto
    then show ?thesis using less.prems by simp
  qed
qed

locale zone_matcher =
  fixes M :: "fptr \<Rightarrow> WriteLifeTimeHint \<Rightarrow> u32 \<Rightarrow> u32 \<Rightarrow> ('d, 'm) fdev_scheme \<Rightarrow> ('d, 'm) match_result"
  assumes M_matched: "M f fl minc bd s = Some (st, bd', out, s') \<Longrightarrow> st = OK \<and> matched minc out s s'"

lemma match_found_matched:
  "match_found a s = Some (st, bd', out, s') \<Longrightarrow> st = OK \<and> out = a \<and> s' = s"
  by (auto simp: match_found_def split: option.splits)

lemma plaza_result_matched:
  "plaza_result nn z s = Some (st, bd', out, s') \<Longrightarrow> st = OK \<and> out = Some z \<and> same_zones s s'"
  by (auto simp: plaza_result_def same_zones_def same_device_def same_files_def split: if_splits)

lemma match_condition_matched:
  assumes "match_condition P minc bd s = Some (st, bd', out, s')" "\<And>z. P (z\<lparr>z_busy := True\<rparr>) = P z"
  shows "st = OK \<and> matched minc out s s'"
proof -
  have "busy_blind (\<lambda>z (_ :: unit). if P z then 0 else 100 :: u32)"
    by (simp add: busy_blind_def assms(2))
  then show ?thesis
    using assms(1)
    by (auto simp: match_condition_def split: prod.splits if_splits dest: scan_all_matched)
qed


interpretation lifetime: zone_matcher MatchLifetimeBased
  by unfold_locales
    (auto simp: MatchLifetimeBased_def split: prod.splits if_splits dest: scan_all_matched)

interpretation arrival: zone_matcher MatchArrivalTimeBased
  by unfold_locales (auto simp: MatchArrivalTimeBased_def dest: match_condition_matched)

interpretation tombstone: zone_matcher "MatchTombstoneDensity env" for env
  by unfold_locales
    (auto simp: MatchTombstoneDensity_def split: if_splits dest: match_condition_matched)

interpretation ttl: zone_matcher MatchTombstoneTTL
  by unfold_locales (auto simp: MatchTombstoneTTL_def dest: lifetime.M_matched)

interpretation cluster: zone_matcher MatchClusterTogether
  by unfold_locales (auto simp: MatchClusterTogether_def dest: match_condition_matched)

text \<open>The ending shared by the policies that choose by contribution.\<close>

lemma contrib_found_matched:
  assumes "(case ChooseZoneWithHighestContrib None h m minc s of (st, a, highest, s1) \<Rightarrow>
      if st \<noteq> OK then Some (st, bd0, None, s1) else match_found a s1) = Some (st', bd', out, s')"
  shows "st' = OK \<and> matched minc out s s'"
proof -
  obtain st a h' s1 where C: "ChooseZoneWithHighestContrib None h m minc s = (st, a, h', s1)"
    by (metis prod_cases4)
  then show ?thesis using assms choose_contrib_matched [OF C] by (auto dest: match_found_matched)
qed

lemma choose_by_rank_matched:
  "choose_by_rank env fade f own minc bd s = Some (st, bd', out, s') \<Longrightarrow> st = OK \<and> matched minc out s s'"
  by (auto simp: choose_by_rank_def Let_def split: option.splits dest: contrib_found_matched)

interpretation caza: zone_matcher "MatchCAZA env" for env
proof unfold_locales
  fix f fl minc bd s st bd' out s'
  assume M: "MatchCAZA env f fl minc bd s = Some (st, bd', out, s')"
  define k where "k = (\<lambda>m. case ChooseZoneWithHighestContrib None 0 m minc s of (st, a, highest, s1) \<Rightarrow>
     if st \<noteq> OK then Some (st, bd, None, s1)
     else if a = None \<and> f_level (fheap s f) = 0 then
       (case ChooseZoneWithHighestContrib a 0 (\<lambda>_. 0) minc s1 of (st2, a2, highest2, s2) \<Rightarrow>
          if st2 \<noteq> OK then Some (st2, bd, None, s2) else match_found a2 s2)
     else match_found a s1)"
  have k: "st = OK \<and> matched minc out s s'" if K: "k m = Some (st, bd', out, s')" for m
  proof -
    obtain st1 a h s1 where C: "ChooseZoneWithHighestContrib None 0 m minc s = (st1, a, h, s1)"
      by (metis prod_cases4)
    note M1 = choose_contrib_matched [OF C]
    show ?thesis
    proof (cases "a = None \<and> f_level (fheap s f) = 0")
      case True
      then have "same_zones s s1" using M1 by simp
      then show ?thesis
        using K C M1 True by (auto simp: k_def intro: matched_after dest: contrib_found_matched)
    next
      case False
      then have "match_found a s1 = Some (st, bd', out, s')" using K C M1 by (auto simp: k_def)
      then show ?thesis using M1 match_found_matched by blast
    qed
  qed
  show "st = OK \<and> matched minc out s s'"
    using M k unfolding MatchCAZA_def Let_def k_def [symmetric]
    by (auto split: if_splits option.splits)
qed

text \<open>The ending of the three PLAZA policies.\<close>

lemma plaza_found_matched:
  assumes "matched minc a s s1" "a = Some z" "plaza_result nn z s1 = Some (st', bd', out, s')"
  shows "st' = OK \<and> matched minc out s s'"
  using plaza_result_matched [OF assms(3)] assms(1,2) matched_before by blast

interpretation plaza_base: zone_matcher "MatchPlazaBase env" for env
  by unfold_locales
    (auto simp: MatchPlazaBase_def Let_def split: option.splits prod.splits if_splits
      dest!: choose_contrib_matched dest: plaza_found_matched)

interpretation plaza_intermediate: zone_matcher "MatchPlazaIntermediate env" for env
  by unfold_locales
    (auto simp: MatchPlazaIntermediate_def Let_def split: option.splits prod.splits if_splits
      dest!: choose_contrib_matched dest: plaza_found_matched)

interpretation plaza_advanced: zone_matcher "MatchPlazaAdvanced env" for env
proof unfold_locales
  fix f fl minc bd s st bd' out s'
  assume M: "MatchPlazaAdvanced env f fl minc bd s = Some (st, bd', out, s')"
  have S: "st = OK \<and> matched minc a s s1" if "zone_diffs env new fs [] s = Some m"
    "scan_zones (\<lambda>z d. d) better minc m None best s = (st, a, b, s1)" for new fs m better best st a b s1
    using zone_diffs_known [OF that(1)] by (intro scan_matched [OF that(2)]) auto
  show "st = OK \<and> matched minc out s s'"
    using M
    by (auto simp: MatchPlazaAdvanced_def Let_def split: option.splits prod.splits if_splits
        dest!: S dest: plaza_found_matched arrival.M_matched)
qed

interpretation nearby: zone_matcher "MatchSameLevelNearbyKeysSimple env" for env
proof unfold_locales
  fix f fl minc bd s st bd' out s'
  assume M: "MatchSameLevelNearbyKeysSimple env f fl minc bd s = Some (st, bd', out, s')"
  let ?s1 = "AddZoneFileRecord env f (RemoveZoneFileRecord f s)"
  have "same_zones s ?s1" by (rule same_zones_trans [of _ "RemoveZoneFileRecord f s"]) simp_all
  then show "st = OK \<and> matched minc out s s'"
    using M by (auto simp: MatchSameLevelNearbyKeysSimple_def Let_def ChooseZoneWithClosestFile_def
        split: option.splits prod.splits if_splits
        dest!: closest_file_matched match_found_matched intro: matched_after)
qed

interpretation children: zone_matcher "MatchOverlapChildren env" for env
proof unfold_locales
  fix f fl minc bd s st bd' out s'
  assume M: "MatchOverlapChildren env f fl minc bd s = Some (st, bd', out, s')"
  define s1 where "s1 = RecomputeCompensatedFileSizes (ComputeCompensatedSize f s)"
  define level where "level = trivial_level env f (f_level (fheap s1 f)) s1"
  define s2 where "s2 = (if level > f_level (fheap s1 f)
     then AddZoneFileRecord env f
            (upd_file f (f_level_update (\<lambda>_. level)) (RemoveZoneFileRecord f s1)) else s1)"
  have 1: "same_zones s s1" unfolding s1_def by (rule same_zones_compensated)
  have 2: "same_zones s s2"
    unfolding s2_def using 1 by simp
  show "st = OK \<and> matched minc out s s'"
    using M 2 unfolding MatchOverlapChildren_def Let_def
      s1_def [symmetric] level_def [symmetric] s2_def [symmetric]
    by (auto split: option.splits dest!: choose_by_rank_matched same_zones_rank_helpers)
      (blast intro: matched_after same_zones_trans)
qed

interpretation grandchildren: zone_matcher "MatchOverlapGrandchildren env" for env
proof unfold_locales
  fix f fl minc bd s st bd' out s'
  assume M: "MatchOverlapGrandchildren env f fl minc bd s = Some (st, bd', out, s')"
  define s1 where "s1 = RecomputeCompensatedFileSizes (ComputeCompensatedSize f s)"
  have "same_zones s s1" unfolding s1_def by simp
  then show "st = OK \<and> matched minc out s s'"
    using M unfolding MatchOverlapGrandchildren_def Let_def s1_def [symmetric]
    by (auto split: option.splits dest!: choose_by_rank_matched same_zones_rank_helpers)
      (blast intro: matched_after same_zones_trans)
qed

interpretation compensated: zone_matcher "MatchCompensatedSize env" for env
proof unfold_locales
  fix f fl minc bd s st bd' out s'
  assume M: "MatchCompensatedSize env f fl minc bd s = Some (st, bd', out, s')"
  have "same_zones s (add_upper_ranks env own upper (number_ranks fs (number_ranks gs
      (RecomputeCompensatedFileSizes (ComputeCompensatedSize f s)))))" for own upper fs gs
    by simp
  then show "st = OK \<and> matched minc out s s'"
    using M unfolding MatchCompensatedSize_def Let_def
    by (auto split: option.splits dest!: choose_by_rank_matched intro: matched_after)
qed

interpretation oaza: zone_matcher "MatchOAZA env" for env
proof unfold_locales
  fix f fl minc bd s st bd' out s'
  assume M: "MatchOAZA env f fl minc bd s = Some (st, bd', out, s')"
  define s1 where "s1 = RecomputeCompensatedFileSizes (ComputeCompensatedSize f s)"
  have 1: "same_zones s s1" unfolding s1_def by (rule same_zones_compensated)
  have 2: "same_zones s (AddZoneFileRecord env f (upd_file f (f_level_update g) (RemoveZoneFileRecord f s1)))" for g
    using 1 by simp
  show "st = OK \<and> matched minc out s s'"
    using M 1 2 unfolding MatchOAZA_def Let_def s1_def [symmetric]
      ChooseZoneWithClosestRank_def ChooseZoneWithClosestFile_def
    by (auto split: option.splits if_splits
        dest!: closest_rank_matched closest_file_matched match_found_matched same_zones_rank_helpers)
      (blast intro: matched_after same_zones_trans)+
qed

end
