(* ===== verification/Zone_Allocator.thy ===== *)
theory Zone_Allocator
  imports Placement
begin

text \<open>
  Allocation of I/O zones: the allocators of empty zones (\<open>src/fs/zbd_extension_zenfs.cc\<close>), the choice
  of the placement policy and \<open>AllocateIOZone\<close> with its token handling (\<open>src/fs/zbd_zenfs.cc\<close>).

  The locale \<open>empty_zone_allocator\<close> is the contract of the empty zone allocators; every allocator is
  an interpretation. The main result follows the tokens through \<open>AllocateIOZone\<close>: whatever branch is
  taken, the caller ends with one open token exactly when it gets a zone, and the active tokens stay
  balanced.
\<close>

section \<open>Allocators of empty zones\<close>

type_synonym ('d, 'm) alloc_result = "(IOStatus \<times> zptr option \<times> ('d, 'm) zbd_scheme) option"

definition AllocateEmptyZoneDefault :: "('d, 'm) zbd_scheme \<Rightarrow> ('d, 'm) alloc_result" where
  "AllocateEmptyZoneDefault s = Some (scan_empty (io_zones s) s)"

text \<open>\<open>n\<close> zones remain to be visited, beginning at the position kept from the last call.\<close>

fun sequential_loop :: "nat \<Rightarrow> ('d, 'm) zbd_scheme \<Rightarrow> ('d, 'm) alloc_result" where
  "sequential_loop 0 s = Some (OK, None, s)"
| "sequential_loop (Suc n) s =
    (if seq_zone_pos s \<ge> length (io_zones s) then None
     else
       let z = io_zones s ! seq_zone_pos s;
           pos = seq_zone_pos s + 1;
           s0 = s\<lparr>seq_zone_pos := (if pos \<ge> length (io_zones s) then 0 else pos)\<rparr>
       in case Zone_Acquire z s0 of (got, s1) \<Rightarrow>
            if \<not> got then sequential_loop n s1
            else if IsEmpty (zheap s1 z) then Some (OK, Some z, s1)
            else case Zone_CheckRelease z s1 of (st, s2) \<Rightarrow>
              if st \<noteq> OK then Some (st, None, s2) else sequential_loop n s2)"

definition AllocateEmptyZoneSequential :: "('d, 'm) zbd_scheme \<Rightarrow> ('d, 'm) alloc_result" where
  "AllocateEmptyZoneSequential s = sequential_loop (length (io_zones s)) s"

definition AllocateEmptyZoneLeastWear :: "('d, 'm) zbd_scheme \<Rightarrow> ('d, 'm) alloc_result" where
  "AllocateEmptyZoneLeastWear s = Some (scan_least_wear (io_zones s) None s)"

definition AllocateEmptyZoneRandom :: "penv \<Rightarrow> ('d, 'm) zbd_scheme \<Rightarrow> ('d, 'm) alloc_result" where
  "AllocateEmptyZoneRandom env s =
    (case std_shuffle env (rng_state s) (io_zones s) of (zs, rng) \<Rightarrow>
       Some (scan_empty zs (s\<lparr>rng_state := rng\<rparr>)))"

text \<open>The zones by reset count, cut into one interval per level; the interval of the level first,
  then the nearest empty zone above and below it.\<close>

definition AllocateEmptyZoneHotnessBased :: "penv \<Rightarrow> int \<Rightarrow> ('d, 'm) zbd_scheme \<Rightarrow> ('d, 'm) alloc_result" where
  "AllocateEmptyZoneHotnessBased env level s =
    (if level \<le> 0 then AllocateEmptyZoneLeastWear s
     else
       let fp = fpops env;
           zs = std_sort env (\<lambda>a b. z_reset_count (zheap s a) < z_reset_count (zheap s b)) (io_zones s);
           interval = fp_div fp (fp_mul fp fp_1 (fp_of_u64 fp (of_nat (length zs))))
                                (fp_of_u64 fp (ucast (max_level (params s))));
           lower = max (fp_to_int fp (fp_mul fp interval (fp_of_u64 fp (of_int (level - 1))))) 0;
           upper = min (fp_to_int fp (fp_ceil fp (fp_mul fp interval (fp_of_u64 fp (of_int level)))))
                       (int (length zs));
           ups = (if upper < 0 then [] else drop (nat upper) zs);
           downs = rev (take (nat lower) zs)
       in if lower > int (length zs) then None
          else case scan_empty (take (nat (upper - lower)) (drop (nat lower) zs)) s of (st, a, s1) \<Rightarrow>
            if st \<noteq> OK then Some (st, None, s1)
            else if a \<noteq> None then Some (OK, a, s1)
            else case scan_empty ups s1 of (st, ua, s2) \<Rightarrow>
              if st \<noteq> OK then Some (st, None, s2)
              else case scan_empty downs s2 of (st, la, s3) \<Rightarrow>
                if st \<noteq> OK then Some (st, None, s3)
                else case (la, ua) of
                  (None, None) \<Rightarrow> AllocateEmptyZoneDefault s3
                | (None, Some u) \<Rightarrow> Some (OK, Some u, s3)
                | (Some l, None) \<Rightarrow> Some (OK, Some l, s3)
                | (Some l, Some u) \<Rightarrow>
                    (let li = lower - 1 - int (length (takeWhile (\<lambda>z. z \<noteq> l) downs));
                         ui = upper + int (length (takeWhile (\<lambda>z. z \<noteq> u) ups))
                     in if lower - li < ui - upper
                        then Some (OK, Some l, snd (Zone_CheckRelease u s3))
                        else Some (OK, Some u, snd (Zone_CheckRelease l s3))))"

text \<open>The level counts for the largest level seen, kept in a \<open>uint8_t\<close>.\<close>

definition AllocateEmptyZone :: "penv \<Rightarrow> int \<Rightarrow> ('d, 'm) zbd_scheme \<Rightarrow> ('d, 'm) alloc_result" where
  "AllocateEmptyZone env level s =
    (let s1 = (if level > 0 \<and> level > uint (max_level (params s))
               then s\<lparr>params := (params s)\<lparr>max_level := of_int level\<rparr>\<rparr> else s)
     in case empty_zone_allocator (params s1) of
          kDefault \<Rightarrow> AllocateEmptyZoneDefault s1
        | kSequential \<Rightarrow> AllocateEmptyZoneSequential s1
        | kRandom \<Rightarrow> AllocateEmptyZoneRandom env s1
        | kLeastWear \<Rightarrow> AllocateEmptyZoneLeastWear s1
        | kHotnessBased \<Rightarrow> AllocateEmptyZoneHotnessBased env level s1
        | kUserDefinedAlloc \<Rightarrow> AllocateEmptyZoneSequential s1)"

section \<open>Choosing a policy\<close>

text \<open>\<open>function_map\<close>: a policy without an entry is a null member function.\<close>

definition policy_match :: "penv \<Rightarrow> PlacementPolicyType \<Rightarrow> fptr \<Rightarrow> WriteLifeTimeHint \<Rightarrow> u32 \<Rightarrow> u32
    \<Rightarrow> ('d, 'm) fdev_scheme \<Rightarrow> ('d, 'm) match_result" where
  "policy_match env p =
    (case p of
       kLifetimeBased \<Rightarrow> MatchLifetimeBased
     | kCAZA \<Rightarrow> MatchCAZA env
     | kPlazaBase \<Rightarrow> MatchPlazaBase env
     | KPlazaIntermediate \<Rightarrow> MatchPlazaIntermediate env
     | kPlazaAdvanced \<Rightarrow> MatchPlazaAdvanced env
     | kSameLevelNearbyKeysSimple \<Rightarrow> MatchSameLevelNearbyKeysSimple env
     | kArrivalTimeBased \<Rightarrow> MatchArrivalTimeBased
     | kTombstoneDensity \<Rightarrow> MatchTombstoneDensity env
     | kTombstoneTTL \<Rightarrow> MatchTombstoneTTL
     | kClusterTogether \<Rightarrow> MatchClusterTogether
     | kOverlapChildren \<Rightarrow> MatchOverlapChildren env
     | kOverlapGrandchildren \<Rightarrow> MatchOverlapGrandchildren env
     | kCompensatedSize \<Rightarrow> MatchCompensatedSize env
     | kOAZA \<Rightarrow> MatchOAZA env
     | kLeveledLifetimeBased \<Rightarrow> (\<lambda>f fl minc bd s. None)
     | kUserDefinedPlacement \<Rightarrow> (\<lambda>f fl minc bd s. None))"

text \<open>\<open>*best_diff_out = std::max(d, *best_diff_out)\<close> under the conditions of the code, in order.\<close>

definition raise_diff :: "penv \<Rightarrow> PlacementPolicyType \<Rightarrow> int \<Rightarrow> u8 \<Rightarrow> fptr \<Rightarrow> ('d, 'm) fdev_scheme
    \<Rightarrow> u32 \<Rightarrow> u32" where
  "raise_diff env primary level maxl f s bd =
    (let cbw = LIFETIME_DIFF_COULD_BE_WORSE;
         d1 = (if primary = kArrivalTimeBased \<or> primary = kClusterTogether then max cbw bd else bd);
         d2 = (if primary = kTombstoneDensity \<and> IsHighTombstone env f s then max cbw d1 else d1);
         d3 = (if primary = kCAZA \<and> real_caza (params s) \<noteq> 0 then max cbw d2 else d2);
         d4 = (if primary = kOAZA \<and> real_oaza (params s) \<noteq> 0 \<and> level < uint maxl \<and>
                  f_level (fheap s f) > level then max LIFETIME_DIFF_NOT_GOOD d3 else d3)
     in if primary = kOAZA \<and> real_oaza (params s) = 0 \<and> f_level (fheap s f) < uint maxl
        then max cbw d4 else d4)"

definition GetBestOpenZoneMatch :: "penv \<Rightarrow> fptr \<Rightarrow> WriteLifeTimeHint \<Rightarrow> u32 \<Rightarrow> u32
    \<Rightarrow> ('d, 'm) fdev_scheme \<Rightarrow> ('d, 'm) match_result" where
  "GetBestOpenZoneMatch env f fl minc bd s =
    (let zf = fheap s f; level = f_level zf; ps = params s
     in if level < 0 \<or> \<not> f_has_keys zf \<or> f_io_type zf \<noteq> IO_kData
        then MatchLifetimeBased f fl 0 bd s
        else
          let maxl = max_level ps;
              primary = (if level \<le> uint (min_boundary ps) then upper_level_policy ps
                         else if level \<ge> uint (max_boundary ps) then lower_level_policy ps
                         else middle_level_policy ps);
              fallback = (if level \<le> uint (min_boundary ps) then upper_level_policy_fallback ps
                          else if level \<ge> uint (max_boundary ps) then lower_level_policy_fallback ps
                          else middle_level_policy_fallback ps);
              s0 = s\<lparr>alloc_count := alloc_count s + 1\<rparr>
          in case policy_match env primary f fl minc bd s0 of
               None \<Rightarrow> None
             | Some (st1, bd1, out1, s1) \<Rightarrow>
                 if out1 \<noteq> None then Some (st1, bd1, out1, s1)
                 else case policy_match env fallback f fl minc bd1 s1 of
                   None \<Rightarrow> None
                 | Some (st2, bd2, out2, s2) \<Rightarrow>
                     let bd3 = raise_diff env primary level maxl f s2 bd2
                     in if out2 \<noteq> None then Some (st2, bd3, out2, s2)
                        else case MatchLifetimeBased f fl minc bd3 s2 of
                          None \<Rightarrow> None
                        | Some (st4, bd4, out4, s4) \<Rightarrow>
                            Some (st4, max LIFETIME_DIFF_COULD_BE_WORSE bd4, out4,
                              s4\<lparr>failure_count := failure_count s4 + 1\<rparr>))"

section \<open>Allocating a zone for a file\<close>

text \<open>\<open>while (!got_token && !GetActiveIOZoneTokenIfAvailable()) FinishCheapestIOZone();\<close>\<close>

partial_function (option) wait_active_token ::
  "('d, 'e) backend_scheme \<Rightarrow> bool \<Rightarrow> ('d, 'm) fdev_scheme \<Rightarrow> (IOStatus \<times> ('d, 'm) fdev_scheme) option" where
  "wait_active_token be got s =
    (if got then Some (OK, s)
     else case GetActiveIOZoneTokenIfAvailable s of (ok, s1) \<Rightarrow>
       if ok then Some (OK, s1)
       else case FinishCheapestIOZone be s1 of (st, s2) \<Rightarrow>
         if st \<noteq> OK then Some (st, s2) else wait_active_token be False s2)"

declare wait_active_token.simps [code]

text \<open>Opening a new zone for the file, holding an open token.\<close>

definition open_new_zone :: "penv \<Rightarrow> ('d, 'e) backend_scheme \<Rightarrow> fptr \<Rightarrow> WriteLifeTimeHint \<Rightarrow> bool
    \<Rightarrow> ('d, 'm) fdev_scheme \<Rightarrow> (IOStatus \<times> zptr option \<times> ('d, 'm) fdev_scheme) option" where
  "open_new_zone env be f fl got s =
    (case wait_active_token be got s of
       None \<Rightarrow> None
     | Some (st, s1) \<Rightarrow>
         if st \<noteq> OK then Some (st, None, PutOpenIOZoneToken s1)
         else case AllocateEmptyZone env (f_level (fheap s1 f)) s1 of
           None \<Rightarrow> None
         | Some (st, a, s2) \<Rightarrow>
             if st \<noteq> OK then Some (st, None, PutOpenIOZoneToken (PutActiveIOZoneToken s2))
             else case a of
               None \<Rightarrow> Some (OK, None, PutActiveIOZoneToken s2)
             | Some z \<Rightarrow>
                 let level = f_level (fheap s2 f);
                     s3 = upd_zone z (\<lambda>zn. zn\<lparr>z_lifetime := fl, z_policy := GetPolicy (params s2) level,
                                             z_level := level\<rparr>) s2
                 in Some (OK, Some z,
                      if need_flag s3 then s3\<lparr>nearest_got_new := nearest_got_new s3 + 1\<rparr> else s3))"

text \<open>What happens after the best open zone has been looked up.\<close>

definition use_match :: "penv \<Rightarrow> ('d, 'e) backend_scheme \<Rightarrow> fptr \<Rightarrow> WriteLifeTimeHint \<Rightarrow> u32
    \<Rightarrow> zptr option \<Rightarrow> ('d, 'm) fdev_scheme
    \<Rightarrow> (IOStatus \<times> zptr option \<times> ('d, 'm) fdev_scheme) option" where
  "use_match env be f fl best_diff alloc s =
    (if best_diff < LIFETIME_DIFF_COULD_BE_WORSE then Some (OK, alloc, s)
     else case GetActiveIOZoneTokenIfAvailable s of (got, s1) \<Rightarrow>
       case alloc of
         None \<Rightarrow> open_new_zone env be f fl got s1
       | Some a \<Rightarrow>
           if \<not> got \<and> best_diff = LIFETIME_DIFF_COULD_BE_WORSE then Some (OK, alloc, s1)
           else if GetEmptyZoneCount s1 > reserve_zone_count (params s1) then
             (case Zone_CheckRelease a s1 of (st, s2) \<Rightarrow>
                if st \<noteq> OK then
                  (let s3 = PutOpenIOZoneToken s2
                   in Some (st, None, if got then PutActiveIOZoneToken s3 else s3))
                else open_new_zone env be f fl got s2)
           else if got then Some (OK, alloc, PutActiveIOZoneToken s1)
           else Some (OK, alloc, s1))"

text \<open>The placement log entry reads the file's first name.\<close>

definition AllocateIOZoneNoLock :: "penv \<Rightarrow> ('d, 'e) backend_scheme \<Rightarrow> WriteLifeTimeHint \<Rightarrow> IOType
    \<Rightarrow> fptr \<Rightarrow> u64 \<Rightarrow> ('d, 'm) fdev_scheme
    \<Rightarrow> (IOStatus \<times> zptr option \<times> ('d, 'm) fdev_scheme) option" where
  "AllocateIOZoneNoLock env be fl io_type f minc s =
    (let s1 = (if f_level (fheap s f) > uint (max_level (params s))
               then s\<lparr>params := (params s)\<lparr>max_level := of_int (f_level (fheap s f))\<rparr>\<rparr> else s);
         s2 = s1\<lparr>need_flag := False\<rparr>
     in if GetZoneDeferredStatus s2 \<noteq> OK then Some (GetZoneDeferredStatus s2, None, s2)
        else case (if io_type \<noteq> IO_kWAL then ApplyFinishThreshold be s2 else (OK, s2)) of (st, s3) \<Rightarrow>
          if st \<noteq> OK then Some (st, None, s3)
          else case WaitForOpenIOZoneToken (io_type = IO_kWAL) s3 of
            None \<Rightarrow> None
          | Some s4 \<Rightarrow>
              (case GetBestOpenZoneMatch env f fl (ucast minc) LIFETIME_DIFF_NOT_GOOD s4 of
                 None \<Rightarrow> None
               | Some (st, best_diff, alloc, s5) \<Rightarrow>
                   if st \<noteq> OK then Some (st, None, PutOpenIOZoneToken s5)
                   else case use_match env be f fl best_diff alloc s5 of
                     None \<Rightarrow> None
                   | Some (st, a, s6) \<Rightarrow>
                       if st \<noteq> OK then Some (st, None, s6)
                       else if a \<noteq> None then
                         (if log_zonestats_placement_delete (params s6) \<noteq> 0 \<and>
                             GetFilename (fheap s6 f) = None
                          then None else Some (OK, a, s6))
                       else Some (OK, None, PutOpenIOZoneToken s6)))"

definition AllocateIOZone :: "penv \<Rightarrow> ('d, 'e) backend_scheme \<Rightarrow> WriteLifeTimeHint \<Rightarrow> IOType \<Rightarrow> fptr
    \<Rightarrow> ('d, 'm) fdev_scheme \<Rightarrow> (IOStatus \<times> zptr option \<times> ('d, 'm) fdev_scheme) option" where
  "AllocateIOZone env be fl io_type f s =
    AllocateIOZoneNoLock env be fl io_type f
      (if fragmentation_enabled (params s) = 0 then f_alloc_size (fheap s f) else 0) s"

text \<open>Waiting for the migration flag with nobody to clear it does not return.\<close>

definition TakeMigrateZone :: "penv \<Rightarrow> ('d, 'e) backend_scheme \<Rightarrow> fptr \<Rightarrow> WriteLifeTimeHint \<Rightarrow> u32
    \<Rightarrow> ('d, 'm) fdev_scheme \<Rightarrow> (IOStatus \<times> zptr option \<times> ('d, 'm) fdev_scheme) option" where
  "TakeMigrateZone env be f fl minc s =
    (if migrating s then None
     else case AllocateIOZoneNoLock env be fl (f_io_type (fheap s f)) f (ucast minc)
                 (s\<lparr>migrating := True\<rparr>) of
       None \<Rightarrow> None
     | Some (st, a, s1) \<Rightarrow>
         Some (st, a, if st = OK \<and> a \<noteq> None then s1 else s1\<lparr>migrating := False\<rparr>))"


section \<open>The contract of an empty zone allocator\<close>

text \<open>The part of the device the token accounting speaks of, zone objects apart.\<close>

definition same_view :: "('d, 'm) zbd_scheme \<Rightarrow> ('d, 'm) zbd_scheme \<Rightarrow> bool" where
  "same_view s s' \<longleftrightarrow> dev s' = dev s \<and> io_zones s' = io_zones s \<and> meta_zones s' = meta_zones s \<and>
    active_io_zones s' = active_io_zones s \<and> open_io_zones s' = open_io_zones s \<and>
    max_nr_active_io_zones s' = max_nr_active_io_zones s \<and>
    max_nr_open_io_zones s' = max_nr_open_io_zones s \<and>
    zone_deferred_status s' = zone_deferred_status s \<and>
    zone_start_to_pointer_map s' = zone_start_to_pointer_map s \<and> zbd.more s' = zbd.more s"

definition empty_alloc :: "zptr option \<Rightarrow> ('d, 'm) zbd_scheme \<Rightarrow> ('d, 'm) zbd_scheme \<Rightarrow> bool" where
  "empty_alloc out s s' \<longleftrightarrow> same_view s s' \<and> zheap s' = zheap (holding out s) \<and>
    (\<forall>z. out = Some z \<longrightarrow> free_empty s z \<and> z \<in> set (io_zones s))"

lemma same_view_refl [simp]: "same_view s s" by (simp add: same_view_def)

lemma same_view_holding: "same_view s (holding a s)"
  by (simp add: holding_def same_view_def acquired_def upd_zone_def split: option.split)

lemma acquired_status [simp]:
  "zone_deferred_status (acquired p s) = zone_deferred_status s"
  "migrating (acquired p s) = migrating s"
  "zone_start_to_pointer_map (acquired p s) = zone_start_to_pointer_map s"
  "zbd.more (acquired p s) = zbd.more s"
  by (simp_all add: acquired_def upd_zone_def)

locale empty_zone_allocator =
  fixes A :: "('d, 'm) zbd_scheme \<Rightarrow> ('d, 'm) alloc_result"
  assumes A_empty: "A s = Some (st, out, s') \<Longrightarrow> st = OK \<and> empty_alloc out s s'"

lemma scan_empty_holding:
  assumes "scan_empty zs s = (st, out, s')"
  shows "st = OK \<and> s' = holding out s \<and> (\<forall>z. out = Some z \<longrightarrow> free_empty s z \<and> z \<in> set zs)"
  using assms
  by (auto simp: scan_empty_eq holding_def free_empty_def find_Some_iff in_set_conv_nth
      split: option.splits)

lemma scan_empty_alloc:
  "scan_empty zs s = (st, out, s') \<Longrightarrow> set zs \<subseteq> set (io_zones s) \<Longrightarrow> st = OK \<and> empty_alloc out s s'"
  using scan_empty_holding [of zs s st out s'] by (auto simp: empty_alloc_def same_view_holding)

interpretation default: empty_zone_allocator AllocateEmptyZoneDefault
  by unfold_locales (auto simp: AllocateEmptyZoneDefault_def dest: scan_empty_alloc)

lemma sequential_loop_alloc:
  "sequential_loop n s = Some (st, out, s') \<Longrightarrow> st = OK \<and> empty_alloc out s s'"
proof (induction n arbitrary: s)
  case 0
  then show ?case by (simp add: empty_alloc_def holding_def)
next
  case (Suc n)
  define pos where "pos = seq_zone_pos s + 1"
  define s0 where "s0 = s\<lparr>seq_zone_pos := (if pos \<ge> length (io_zones s) then 0 else pos)\<rparr>"
  define z where "z = io_zones s ! seq_zone_pos s"
  have r: "seq_zone_pos s < length (io_zones s)" using Suc.prems by (simp split: if_splits)
  then have zin: "z \<in> set (io_zones s)" by (simp add: z_def)
  have zh: "zheap s0 = zheap s" by (simp add: s0_def)
  have cont: "st = OK \<and> empty_alloc out s s'" if "sequential_loop n s0 = Some (st, out, s')"
    using Suc.IH [OF that] zheap_holding_cong [of s0 s out]
    by (auto simp: empty_alloc_def same_view_def s0_def free_empty_def)
  have loop: "sequential_loop (Suc n) s =
      (case Zone_Acquire z s0 of (got, s1) \<Rightarrow>
         if \<not> got then sequential_loop n s1
         else if IsEmpty (zheap s1 z) then Some (OK, Some z, s1)
         else case Zone_CheckRelease z s1 of (st, s2) \<Rightarrow>
           if st \<noteq> OK then Some (st, None, s2) else sequential_loop n s2)"
  proof -
    have "(length (io_zones s) \<le> seq_zone_pos s) = False" using r by simp
    then show ?thesis
      unfolding z_def s0_def pos_def by (simp only: sequential_loop.simps if_False Let_def)
  qed
  consider (busy) "z_busy (zheap s z)" | (empty) "\<not> z_busy (zheap s z)" "IsEmpty (zheap s z)"
    | (full) "\<not> z_busy (zheap s z)" "\<not> IsEmpty (zheap s z)" by blast
  then show ?case
  proof cases
    case busy
    then show ?thesis using Suc.prems cont by (simp only: loop) (simp add: Acquire_eq zh)
  next
    case empty
    then have "st = OK \<and> out = Some z \<and> s' = acquired z s0"
      using Suc.prems by (simp only: loop) (auto simp: Acquire_eq zh simp del: zheap_acquired)
    then show ?thesis
      using empty zin by (auto simp: empty_alloc_def same_view_def free_empty_def holding_def s0_def)
  next
    case full
    then have "\<not> z_busy (zheap s0 z)" by (simp add: zh)
    then show ?thesis
      using Suc.prems cont full CheckRelease_acquired [of s0 z]
      by (simp only: loop) (simp add: Acquire_eq zh del: zheap_acquired)
  qed
qed

interpretation sequential: empty_zone_allocator AllocateEmptyZoneSequential
  by unfold_locales (auto simp: AllocateEmptyZoneSequential_def dest: sequential_loop_alloc)

interpretation least_wear: empty_zone_allocator AllocateEmptyZoneLeastWear
proof unfold_locales
  fix s st out s'
  assume "AllocateEmptyZoneLeastWear s = Some (st, out, s')"
  then show "st = OK \<and> empty_alloc out s s'"
    using scan_least_wear_spec [of None s "io_zones s"]
    by (auto simp: AllocateEmptyZoneLeastWear_def empty_alloc_def holding_def same_view_holding
        split: option.split) (auto simp: same_view_def acquired_def upd_zone_def)
qed

text \<open>What the remaining allocators rely on from the library algorithms: they permute.\<close>

locale std_algorithms =
  fixes env :: penv
  assumes sort_perm: "mset (std_sort env r xs) = mset xs"
    and shuffle_perm: "std_shuffle env g xs = (ys, g') \<Longrightarrow> mset ys = mset xs"
begin

lemma set_std_sort: "set (std_sort env r xs) = set xs"
  using sort_perm by (metis set_mset_mset)

end

sublocale std_algorithms \<subseteq> random: empty_zone_allocator "AllocateEmptyZoneRandom env"
proof unfold_locales
  fix s :: "('a, 'b) zbd_scheme" and st out s'
  assume A: "AllocateEmptyZoneRandom env s = Some (st, out, s')"
  obtain zs g where sh: "std_shuffle env (rng_state s) (io_zones s) = (zs, g)" by fastforce
  have "set zs = set (io_zones s)" using shuffle_perm [OF sh] by (metis set_mset_mset)
  then have "st = OK \<and> empty_alloc out (s\<lparr>rng_state := g\<rparr>) s'"
    using A sh by (auto simp: AllocateEmptyZoneRandom_def dest!: scan_empty_alloc)
  then show "st = OK \<and> empty_alloc out s s'"
    using zheap_holding_cong [of "s\<lparr>rng_state := g\<rparr>" s out]
    by (auto simp: empty_alloc_def same_view_def free_empty_def)
qed


lemma scan_two:
  assumes "scan_empty ups s = (st, ua, s2)" "scan_empty downs s2 = (st', la, s3)"
  shows "st = OK \<and> st' = OK \<and> (la = None \<longrightarrow> s3 = holding ua s) \<and> (ua = None \<longrightarrow> s3 = holding la s) \<and>
    (\<forall>u. ua = Some u \<longrightarrow> free_empty s u \<and> u \<in> set ups) \<and>
    (\<forall>l. la = Some l \<longrightarrow> free_empty s l \<and> l \<in> set downs) \<and>
    (\<forall>u l. ua = Some u \<and> la = Some l \<longrightarrow>
       Zone_CheckRelease u s3 = (OK, acquired l s) \<and> Zone_CheckRelease l s3 = (OK, acquired u s))"
proof -
  note 1 = scan_empty_holding [OF assms(1)] and 2 = scan_empty_holding [OF assms(2)]
  have s3: "s3 = holding la (holding ua s)" using 1 2 by simp
  have fe: "free_empty s l \<and> ua \<noteq> Some l" if "la = Some l" for l
    using 1 2 that by (auto simp: free_empty_def holding_zheap holding_preds split: if_splits)
  have "Zone_CheckRelease u s3 = (OK, acquired l s) \<and> Zone_CheckRelease l s3 = (OK, acquired u s)"
    if "ua = Some u" "la = Some l" for u l
  proof -
    have "u \<noteq> l" "\<not> z_busy (zheap s u)" "\<not> z_busy (zheap (acquired u s) l)"
      using fe that 1 2 by (auto simp: free_empty_def holding_def)
    then show ?thesis
      using CheckRelease_acquired_other [of u l s] CheckRelease_acquired [of "acquired u s" l] that s3
      by (simp add: holding_def)
  qed
  then show ?thesis using 1 2 s3 fe by (auto simp: holding_def split: option.splits)
qed

sublocale std_algorithms \<subseteq> hotness: empty_zone_allocator "AllocateEmptyZoneHotnessBased env level"
proof unfold_locales
  fix s :: "('a, 'b) zbd_scheme" and st out s'
  assume A: "AllocateEmptyZoneHotnessBased env level s = Some (st, out, s')"
  show "st = OK \<and> empty_alloc out s s'"
  proof (cases "level \<le> 0")
    case True
    then show ?thesis
      using A least_wear.A_empty by (simp add: AllocateEmptyZoneHotnessBased_def)
  next
    case False
    define zs where "zs = std_sort env (\<lambda>a b. z_reset_count (zheap s a) < z_reset_count (zheap s b)) (io_zones s)"
    have zs: "set zs = set (io_zones s)" by (simp add: zs_def set_std_sort)
    obtain lower upper where A': "(let ups = (if upper < 0 then [] else drop (nat upper) zs);
           downs = rev (take (nat lower) zs)
       in if lower > int (length zs) then None
          else case scan_empty (take (nat (upper - lower)) (drop (nat lower) zs)) s of (st, a, s1) \<Rightarrow>
            if st \<noteq> OK then Some (st, None, s1)
            else if a \<noteq> None then Some (OK, a, s1)
            else case scan_empty ups s1 of (st, ua, s2) \<Rightarrow>
              if st \<noteq> OK then Some (st, None, s2)
              else case scan_empty downs s2 of (st, la, s3) \<Rightarrow>
                if st \<noteq> OK then Some (st, None, s3)
                else case (la, ua) of
                  (None, None) \<Rightarrow> AllocateEmptyZoneDefault s3
                | (None, Some u) \<Rightarrow> Some (OK, Some u, s3)
                | (Some l, None) \<Rightarrow> Some (OK, Some l, s3)
                | (Some l, Some u) \<Rightarrow>
                    (let li = lower - 1 - int (length (takeWhile (\<lambda>z. z \<noteq> l) downs));
                         ui = upper + int (length (takeWhile (\<lambda>z. z \<noteq> u) ups))
                     in if lower - li < ui - upper
                        then Some (OK, Some l, snd (Zone_CheckRelease u s3))
                        else Some (OK, Some u, snd (Zone_CheckRelease l s3)))) = Some (st, out, s')"
      using A False unfolding AllocateEmptyZoneHotnessBased_def zs_def [symmetric] Let_def
      by (simp only: if_False)
    define mid where "mid = take (nat (upper - lower)) (drop (nat lower) zs)"
    define ups where "ups = (if upper < 0 then [] else drop (nat upper) zs)"
    define downs where "downs = rev (take (nat lower) zs)"
    have sub: "set mid \<subseteq> set zs" "set ups \<subseteq> set zs" "set downs \<subseteq> set zs"
      by (auto simp: mid_def ups_def downs_def dest: in_set_takeD in_set_dropD)
    obtain st1 a s1 where S1: "scan_empty mid s = (st1, a, s1)" by (metis prod_cases3)
    obtain st2 ua s2 where S2: "scan_empty ups s1 = (st2, ua, s2)" by (metis prod_cases3)
    obtain st3 la s3 where S3: "scan_empty downs s2 = (st3, la, s3)" by (metis prod_cases3)
    note T = scan_two [OF S2 S3]
    note M = scan_empty_alloc [OF S1] and H = scan_empty_holding [OF S1]
    show ?thesis
    proof (cases a)
      case (Some z)
      then show ?thesis
        using A' S1 M sub(1) zs by (auto simp: Let_def mid_def split: if_splits)
    next
      case None
      then have s1: "s1 = s" using H by (simp add: holding_def)
      have A2: "(case (la, ua) of
            (None, None) \<Rightarrow> AllocateEmptyZoneDefault s3
          | (None, Some u) \<Rightarrow> Some (OK, Some u, s3)
          | (Some l, None) \<Rightarrow> Some (OK, Some l, s3)
          | (Some l, Some u) \<Rightarrow>
              (let li = lower - 1 - int (length (takeWhile (\<lambda>z. z \<noteq> l) downs));
                   ui = upper + int (length (takeWhile (\<lambda>z. z \<noteq> u) ups))
               in if lower - li < ui - upper
                  then Some (OK, Some l, snd (Zone_CheckRelease u s3))
                  else Some (OK, Some u, snd (Zone_CheckRelease l s3)))) = Some (st, out, s')"
        using A' S1 S2 S3 H T None
        unfolding mid_def [symmetric] ups_def [symmetric] downs_def [symmetric] Let_def
        by (simp split: if_splits)
      show ?thesis
      proof (cases la; cases ua)
        assume "la = None" "ua = None"
        then show ?thesis using A2 T s1 default.A_empty by (simp add: holding_def)
      next
        fix u assume "la = None" "ua = Some u"
        then show ?thesis using A2 T s1 sub zs by (auto simp: empty_alloc_def same_view_holding)
      next
        fix l assume "la = Some l" "ua = None"
        then show ?thesis using A2 T s1 sub zs by (auto simp: empty_alloc_def same_view_holding)
      next
        fix l u assume lu: "la = Some l" "ua = Some u"
        then have "st = OK \<and> (out = Some l \<and> s' = acquired l s \<or> out = Some u \<and> s' = acquired u s)"
          using A2 T s1 by (auto simp: Let_def split: if_splits)
        moreover have "same_view s (acquired p s)" for p by (simp add: same_view_def)
        ultimately show ?thesis
          using T s1 lu sub zs by (auto simp: empty_alloc_def holding_def)
      qed
    qed
  qed
qed

context std_algorithms
begin

lemma AllocateEmptyZone_empty:
  assumes "AllocateEmptyZone env level s = Some (st, out, s')"
  shows "st = OK \<and> empty_alloc out s s'"
proof -
  define s1 where "s1 = (if level > 0 \<and> level > uint (max_level (params s))
     then s\<lparr>params := (params s)\<lparr>max_level := of_int level\<rparr>\<rparr> else s)"
  have "st = OK \<and> empty_alloc out s1 s'"
    using assms unfolding AllocateEmptyZone_def Let_def s1_def [symmetric]
    by (auto split: EmptyZoneAllocType.splits
        dest: default.A_empty sequential.A_empty random.A_empty least_wear.A_empty hotness.A_empty)
  then show ?thesis
    using zheap_holding_cong [of s1 s out]
    by (auto simp: empty_alloc_def same_view_def free_empty_def s1_def split: if_splits)
qed

end

lemma ins_by_mset: "mset (ins_by r x ys) = add_mset x (mset ys)"
  by (induction ys) auto

interpretation sample_std: std_algorithms sample_env
proof unfold_locales
  show "mset (std_sort sample_env r xs) = mset xs" for r xs
    by (induction xs) (simp_all add: sample_env_def ins_by_mset)
qed (auto simp: sample_env_def)

section \<open>The chosen policy keeps the contract\<close>

interpretation policy: zone_matcher "policy_match env p" for env p
  by unfold_locales
    (auto simp: policy_match_def split: PlacementPolicyType.splits
      dest: lifetime.M_matched caza.M_matched plaza_base.M_matched plaza_intermediate.M_matched
        plaza_advanced.M_matched nearby.M_matched arrival.M_matched tombstone.M_matched
        ttl.M_matched cluster.M_matched children.M_matched grandchildren.M_matched
        compensated.M_matched oaza.M_matched)

lemma matched_count:
  "matched minc out (s\<lparr>alloc_count := n\<rparr>) s' = matched minc out s s'"
  "matched minc out s (s'\<lparr>failure_count := n\<rparr>) = matched minc out s s'"
  by (simp_all add: matched_def same_device_def same_files_def holding_def split: option.split)

lemma matched_weaken: "matched minc out s s' \<Longrightarrow> matched 0 out s s'"
  by (auto simp: matched_def suitable_def)

lemma GetBestOpenZoneMatch_matched:
  assumes "GetBestOpenZoneMatch env f fl minc bd s = Some (st, bd', out, s')"
  shows "st = OK \<and> matched 0 out s s'"
proof (cases "f_level (fheap s f) < 0 \<or> \<not> f_has_keys (fheap s f) \<or> f_io_type (fheap s f) \<noteq> IO_kData")
  case True
  then show ?thesis
    using assms lifetime.M_matched by (simp add: GetBestOpenZoneMatch_def Let_def)
next
  case False
  let ?s0 = "s\<lparr>alloc_count := alloc_count s + 1\<rparr>"
  let ?maxl = "max_level (params s)" and ?level = "f_level (fheap s f)"
  obtain primary fallback where G: "(case policy_match env primary f fl minc bd ?s0 of
       None \<Rightarrow> None
     | Some (st1, bd1, out1, s1) \<Rightarrow>
         if out1 \<noteq> None then Some (st1, bd1, out1, s1)
         else case policy_match env fallback f fl minc bd1 s1 of
           None \<Rightarrow> None
         | Some (st2, bd2, out2, s2) \<Rightarrow>
             let bd3 = raise_diff env primary ?level ?maxl f s2 bd2
             in if out2 \<noteq> None then Some (st2, bd3, out2, s2)
                else case MatchLifetimeBased f fl minc bd3 s2 of
                  None \<Rightarrow> None
                | Some (st4, bd4, out4, s4) \<Rightarrow>
                    Some (st4, max 50 bd4, out4, s4\<lparr>failure_count := failure_count s4 + 1\<rparr>))
       = Some (st, bd', out, s')"
    using assms False unfolding GetBestOpenZoneMatch_def Let_def by (simp only: if_False)
  have "st = OK \<and> matched minc out ?s0 s'"
    using G
    by (auto simp: Let_def matched_count split: option.splits if_splits
        dest!: policy.M_matched lifetime.M_matched)
      (blast intro: matched_after same_zones_trans)+
  then show ?thesis by (auto simp: matched_count dest: matched_weaken)
qed


section \<open>Following the tokens\<close>

text \<open>\<open>keeps s s'\<close>: the zone list, the open tokens, the busy flags and everything outside the device
  are as before.\<close>

definition keeps :: "('d, 'm) zbd_scheme \<Rightarrow> ('d, 'm) zbd_scheme \<Rightarrow> bool" where
  "keeps s s' \<longleftrightarrow> io_zones s' = io_zones s \<and> open_io_zones s' = open_io_zones s \<and>
    zbd.more s' = zbd.more s \<and>
    (\<forall>p. z_busy (zheap s' p) = z_busy (zheap s p))"

lemma keeps_refl [simp]: "keeps s s" by (simp add: keeps_def)
lemma keeps_trans: "keeps s s' \<Longrightarrow> keeps s' s'' \<Longrightarrow> keeps s s''" by (simp add: keeps_def)
lemma frame_keeps: "frame s s' \<Longrightarrow> keeps s s'" by (simp add: frame_def keeps_def)

lemma active_balanced_shift:
  assumes "active_balanced k s" "io_zones s' = io_zones s"
    "\<And>p. zone_active (zheap s' p) = zone_active (zheap s p)"
    "active_io_zones s' = active_io_zones s + d"
  shows "active_balanced (k + d) s'"
  using assms by (simp add: active_balanced_def)

lemma GetActive_cases:
  assumes "GetActiveIOZoneTokenIfAvailable s = (got, s')" "active_balanced k s"
  shows "keeps s s' \<and> zheap s' = zheap s \<and> params s' = params s \<and>
    active_balanced (if got then k + 1 else k) s' \<and> (\<not> got \<longrightarrow> s' = s)"
  using assms
  by (auto simp: token_ops keeps_def active_balanced_def split: if_splits)

lemma PutActive_balanced: "active_balanced (k + 1) s \<Longrightarrow> active_balanced k (PutActiveIOZoneToken s)"
  by (simp add: active_balanced_def)

lemma wait_active_balanced:
  assumes "wait_active_token be got s = Some (st, s')" "active_balanced (if got then k + 1 else k) s"
  shows "keeps s s' \<and> active_balanced (if st = OK then k + 1 else k) s'"
proof -
  let ?P = "\<lambda>b got s (st, s'). b = be \<longrightarrow> active_balanced (if got then k + 1 else k) s \<longrightarrow>
    keeps s s' \<and> active_balanced (if st = OK then k + 1 else k) s'"
  have "?P be got s (st, s')"
  proof (rule wait_active_token.raw_induct [where P = ?P, OF _ assms(1)])
    fix w b got s r
    assume IH: "\<And>b got s y. w b got s = Some y \<Longrightarrow> ?P b got s y"
      and eq: "(if got then Some (OK, s)
       else case GetActiveIOZoneTokenIfAvailable s of (ok, s1) \<Rightarrow>
         if ok then Some (OK, s1)
         else case FinishCheapestIOZone b s1 of (st, s2) \<Rightarrow>
           if st \<noteq> OK then Some (st, s2) else w b False s2) = Some r"
    obtain st s' where r: "r = (st, s')" by fastforce
    obtain ok s1 where G: "GetActiveIOZoneTokenIfAvailable s = (ok, s1)" by fastforce
    obtain st2 s2 where F: "FinishCheapestIOZone b s1 = (st2, s2)" by fastforce
    show "?P b got s r"
      unfolding r prod.case
    proof (intro impI)
      assume b: "b = be" and bal: "active_balanced (if got then k + 1 else k) s"
      consider (has) "got" | (takes) "\<not> got" "ok" | (fin) "\<not> got" "\<not> ok" by blast
      then show "keeps s s' \<and> active_balanced (if st = OK then k + 1 else k) s'"
      proof cases
        case has
        then show ?thesis using eq bal r by auto
      next
        case takes
        then have "st = OK" "s' = s1" using eq G r by auto
        then show ?thesis using GetActive_cases [OF G] bal takes by auto
      next
        case fin
        then have bk: "active_balanced k s" "s1 = s" using GetActive_cases [OF G] bal by auto
        note E = FinishCheapest_effect [OF F, of k]
        have E2: "active_balanced k s2" "keeps s s2" using E bk frame_keeps by auto
        show ?thesis
        proof (cases "st2 = OK")
          case True
          then have "w b False s2 = Some (st, s')" using eq G F fin r by simp
          from IH [OF this] b E2 show ?thesis using keeps_trans by auto
        next
          case False
          then have "st = st2" "s' = s2" using eq G F fin r by auto
          then show ?thesis using E2 False by auto
        qed
      qed
    qed
  qed
  with assms(2) show ?thesis by simp
qed

context std_algorithms
begin

lemma open_new_zone_balanced:
  assumes "open_new_zone env be f fl got s = Some (st, out, s')"
    and "active_balanced (if got then k + 1 else k) s"
  shows "io_zones s' = io_zones s \<and>
    (st \<noteq> OK \<longrightarrow> out = None \<and> open_io_zones s' = open_io_zones s - 1 \<and> active_balanced k s' \<and>
       (\<forall>p. z_busy (zheap s' p) = z_busy (zheap s p))) \<and>
    (st = OK \<longrightarrow> open_io_zones s' = open_io_zones s \<and>
       (\<forall>p. z_busy (zheap s' p) = (z_busy (zheap s p) \<or> out = Some p)) \<and>
       (out = None \<longrightarrow> active_balanced k s') \<and>
       (\<forall>z. out = Some z \<longrightarrow> z \<in> set (io_zones s) \<and> \<not> z_busy (zheap s z) \<and> IsEmpty (zheap s' z) \<and>
          active_balanced (k + 1) s'))"
proof -
  obtain st1 s1 where W: "wait_active_token be got s = Some (st1, s1)"
    using assms(1) by (auto simp: open_new_zone_def split: option.splits)
  note B = wait_active_balanced [OF W assms(2)]
  show ?thesis
  proof (cases "st1 = OK")
    case False
    then have "st = st1" "out = None" "s' = PutOpenIOZoneToken s1"
      using assms(1) W by (auto simp: open_new_zone_def)
    then show ?thesis using B False by (auto simp: keeps_def token_ops active_balanced_def)
  next
    case True
    obtain st2 a s2 where A: "AllocateEmptyZone env (f_level (fheap s1 f)) s1 = Some (st2, a, s2)"
      using assms(1) W True by (auto simp: open_new_zone_def split: option.splits)
    note E = AllocateEmptyZone_empty [OF A]
    have z2: "zheap s2 = zheap (holding a s1)" and v2: "same_view s1 s2"
      using E by (simp_all add: empty_alloc_def)
    have act: "zone_active (zheap s2 p) = zone_active (zheap s1 p)" for p
      by (simp add: z2 holding_zheap zone_active_def zone_ops)
    have b2: "active_balanced (k + 1) s2"
      using active_balanced_shift [of "k + 1" s1 s2 0] B True v2 act by (simp add: same_view_def)
    show ?thesis
    proof (cases a)
      case None
      then have "st = OK" "out = None" "s' = PutActiveIOZoneToken s2"
        using assms(1) W True A E by (auto simp: open_new_zone_def)
      then show ?thesis
        using B v2 z2 None PutActive_balanced [OF b2]
        by (auto simp: keeps_def same_view_def holding_def token_ops)
    next
      case (Some z)
      define g where "g = (\<lambda>zn :: zone. zn\<lparr>z_lifetime := fl,
        z_policy := GetPolicy (params s2) (f_level (fheap s2 f)), z_level := f_level (fheap s2 f)\<rparr>)"
      define s3 where "s3 = upd_zone z g s2"
      have s': "st = OK" "out = Some z"
        "s' = (if need_flag s3 then s3\<lparr>nearest_got_new := nearest_got_new s3 + 1\<rparr> else s3)"
        using assms(1) W True A E Some by (auto simp: open_new_zone_def Let_def s3_def g_def)
      have fe: "free_empty s1 z" "z \<in> set (io_zones s1)" using E Some by (auto simp: empty_alloc_def)
      have zh: "zheap s' = (zheap s2)(z := g (zheap s2 z))" by (simp add: s' s3_def upd_zone_def)
      have "zone_active (zheap s' p) = zone_active (zheap s2 p)" for p
        by (simp add: zh g_def zone_active_def zone_ops)
      then have "active_balanced (k + 1) s'"
        using active_balanced_shift [of "k + 1" s2 s' 0] b2 by (simp add: s' s3_def upd_zone_def)
      moreover have "z_busy (zheap s' p) = (z_busy (zheap s1 p) \<or> p = z)" for p
        by (auto simp: zh g_def z2 Some holding_def)
      moreover have "IsEmpty (zheap s' z)"
        using fe by (simp add: zh g_def z2 holding_zheap free_empty_def zone_ops)
      moreover have "io_zones s' = io_zones s \<and> open_io_zones s' = open_io_zones s"
        using B v2 by (simp add: s' s3_def upd_zone_def keeps_def same_view_def)
      ultimately show ?thesis using s' B fe by (auto simp: keeps_def free_empty_def)
    qed
  qed
qed

end


lemma CheckRelease_busy:
  assumes "z_busy (zheap s a)" "Zone_CheckRelease a s = (st, s')"
  shows "st = OK \<and> io_zones s' = io_zones s \<and> open_io_zones s' = open_io_zones s \<and>
    active_io_zones s' = active_io_zones s \<and>
    (\<forall>p. z_busy (zheap s' p) = (z_busy (zheap s p) \<and> p \<noteq> a)) \<and>
    (\<forall>p. zone_active (zheap s' p) = zone_active (zheap s p))"
  using assms
  by (auto simp: Zone_CheckRelease_def Zone_Release_def upd_zone_def zone_active_def zone_ops split: if_splits)

text \<open>A zone with live data has been written.\<close>

definition used_written :: "('d, 'm) zbd_scheme \<Rightarrow> bool" where
  "used_written s \<longleftrightarrow> (\<forall>p. IsUsed (zheap s p) \<longrightarrow> \<not> IsEmpty (zheap s p))"

context std_algorithms
begin

lemma use_match_balanced:
  assumes U: "use_match env be f fl bd alloc s = Some (st, out, s')" and bal: "active_balanced k s"
    and alloc: "\<forall>a. alloc = Some a \<longrightarrow> z_busy (zheap s a) \<and> zone_active (zheap s a)"
  shows "io_zones s' = io_zones s \<and>
    (st \<noteq> OK \<longrightarrow> out = None \<and> open_io_zones s' = open_io_zones s - 1 \<and> active_balanced k s' \<and>
       (\<forall>p. z_busy (zheap s' p) = (z_busy (zheap s p) \<and> alloc \<noteq> Some p))) \<and>
    (st = OK \<longrightarrow> open_io_zones s' = open_io_zones s \<and>
       (\<forall>p. z_busy (zheap s' p) = (z_busy (zheap s p) \<and> alloc \<noteq> Some p \<or> out = Some p)) \<and>
       (out = None \<longrightarrow> active_balanced k s') \<and>
       (\<forall>z. out = Some z \<longrightarrow> (alloc = Some z \<or> \<not> z_busy (zheap s z)) \<and>
          active_balanced (if IsEmpty (zheap s' z) then k + 1 else k) s'))"
proof -
  obtain got s1 where G: "GetActiveIOZoneTokenIfAvailable s = (got, s1)" by fastforce
  note B = GetActive_cases [OF G bal]
  have keep: ?thesis if "st = OK" "out = alloc" "zheap s' = zheap s" "io_zones s' = io_zones s"
    "open_io_zones s' = open_io_zones s" "active_balanced k s'"
    using that alloc by (auto simp: zone_active_def)
  consider (good) "bd < 50" | (none) "\<not> bd < 50" "alloc = None"
    | (settle) a where "\<not> bd < 50" "alloc = Some a" "\<not> got \<and> bd = 50"
    | (fresh) a where "\<not> bd < 50" "alloc = Some a" "\<not> (\<not> got \<and> bd = 50)"
        "GetEmptyZoneCount s1 > reserve_zone_count (params s1)"
    | (stay) a where "\<not> bd < 50" "alloc = Some a" "\<not> (\<not> got \<and> bd = 50)"
        "\<not> GetEmptyZoneCount s1 > reserve_zone_count (params s1)"
    by blast
  then show ?thesis
  proof cases
    case good
    then show ?thesis using U bal by (intro keep) (auto simp: use_match_def)
  next
    case none
    then have "open_new_zone env be f fl got s1 = Some (st, out, s')"
      using U G by (simp add: use_match_def)
    from open_new_zone_balanced [OF this, of k] B none show ?thesis by (auto simp: keeps_def)
  next
    case settle
    then show ?thesis using U G B by (intro keep) (auto simp: use_match_def keeps_def)
  next
    case fresh
    obtain st2 s2 where C: "Zone_CheckRelease a s1 = (st2, s2)" by fastforce
    have "z_busy (zheap s1 a)" using alloc fresh B by simp
    note R = CheckRelease_busy [OF this C]
    have "open_new_zone env be f fl got s2 = Some (st, out, s')"
      using U G C R fresh by (auto simp: use_match_def)
    moreover have "active_balanced (if got then k + 1 else k) s2"
      using B R active_balanced_shift [of "if got then k + 1 else k" s1 s2 0] by simp
    ultimately show ?thesis
      using open_new_zone_balanced [of be f fl got s2 st out s' k] R B fresh by (auto simp: keeps_def)
  next
    case stay
    then have s': "st = OK" "out = alloc" "s' = (if got then PutActiveIOZoneToken s1 else s1)"
      using U G by (auto simp: use_match_def split: if_splits)
    then show ?thesis using B by (intro keep) (auto simp: keeps_def token_ops active_balanced_def)
  qed
qed

lemma AllocateIOZoneNoLock_balanced:
  assumes A: "AllocateIOZoneNoLock env be fl io_type f minc s = Some (st, out, s')"
    and bal: "active_balanced k s" and uw: "used_written s"
  shows "io_zones s' = io_zones s \<and> (st \<noteq> OK \<longrightarrow> out = None) \<and>
    (\<forall>p. z_busy (zheap s' p) = (z_busy (zheap s p) \<or> out = Some p)) \<and>
    (out = None \<longrightarrow> open_io_zones s' = open_io_zones s \<and> active_balanced k s') \<and>
    (\<forall>z. out = Some z \<longrightarrow> open_io_zones s' = open_io_zones s + 1 \<and> \<not> z_busy (zheap s z) \<and>
       active_balanced (if IsEmpty (zheap s' z) then k + 1 else k) s')"
proof -
  define s2 where "s2 = (if f_level (fheap s f) > uint (max_level (params s))
     then s\<lparr>params := (params s)\<lparr>max_level := of_int (f_level (fheap s f))\<rparr>\<rparr> else s)\<lparr>need_flag := False\<rparr>"
  have s2: "zheap s2 = zheap s" "io_zones s2 = io_zones s" "open_io_zones s2 = open_io_zones s"
    "active_io_zones s2 = active_io_zones s" by (simp_all add: s2_def)
  have b2: "active_balanced k s2" using bal s2 by (simp add: active_balanced_def)
  obtain st3 s3 where F: "(if io_type \<noteq> IO_kWAL then ApplyFinishThreshold be s2 else (OK, s2)) = (st3, s3)"
    by fastforce
  have f3: "active_balanced k s3 \<and> keeps s2 s3 \<and> (\<forall>p. zheap s3 p \<noteq> zheap s2 p \<longrightarrow> IsFull (zheap s3 p))"
  proof (cases "io_type = IO_kWAL \<or> finish_threshold s2 = 0")
    case True
    then show ?thesis using F b2 by (auto simp: ApplyFinishThreshold_def split: if_splits)
  next
    case False
    then have "ApplyFinishThreshold_loop be (io_zones s2) s2 = (st3, s3)"
      using F by (simp add: ApplyFinishThreshold_def)
    from ApplyFinish_loop [OF this b2] frame_keeps show ?thesis by auto
  qed
  have A1: "(if GetZoneDeferredStatus s2 \<noteq> OK then Some (GetZoneDeferredStatus s2, None, s2)
        else if st3 \<noteq> OK then Some (st3, None, s3)
          else case WaitForOpenIOZoneToken (io_type = IO_kWAL) s3 of
            None \<Rightarrow> None
          | Some s4 \<Rightarrow>
              (case GetBestOpenZoneMatch env f fl (ucast minc) 100 s4 of
                 None \<Rightarrow> None
               | Some (st, best_diff, alloc, s5) \<Rightarrow>
                   if st \<noteq> OK then Some (st, None, PutOpenIOZoneToken s5)
                   else case use_match env be f fl best_diff alloc s5 of
                     None \<Rightarrow> None
                   | Some (st, a, s6) \<Rightarrow>
                       if st \<noteq> OK then Some (st, None, s6)
                       else if a \<noteq> None then
                         (if log_zonestats_placement_delete (params s6) \<noteq> 0 \<and>
                             GetFilename (fheap s6 f) = None
                          then None else Some (OK, a, s6))
                       else Some (OK, None, PutOpenIOZoneToken s6))) = Some (st, out, s')"
    using A unfolding AllocateIOZoneNoLock_def Let_def s2_def [symmetric] F prod.case .
  show ?thesis
  proof (cases "GetZoneDeferredStatus s2 \<noteq> OK \<or> st3 \<noteq> OK")
    case True
    then have "st \<noteq> OK" "out = None" "s' = s2 \<or> s' = s3" using A1 by (auto split: if_splits)
    then show ?thesis using f3 b2 s2 by (auto simp: keeps_def)
  next
    case False
    then obtain s4 st5 bd alloc s5 st6 a s6
      where W: "WaitForOpenIOZoneToken (io_type = IO_kWAL) s3 = Some s4"
        and M: "GetBestOpenZoneMatch env f fl (ucast minc) 100 s4 = Some (st5, bd, alloc, s5)"
        and U: "use_match env be f fl bd alloc s5 = Some (st6, a, s6)"
      using A1 GetBestOpenZoneMatch_matched by (fastforce split: option.splits)
    have s4: "zheap s4 = zheap s3" "io_zones s4 = io_zones s3" "open_io_zones s4 = open_io_zones s3 + 1"
      "active_balanced k s4"
      using W f3 by (auto simp: token_ops active_balanced_def split: if_splits)
    have m: "st5 = OK" "matched 0 alloc s4 s5" using GetBestOpenZoneMatch_matched [OF M] by auto
    have z5: "zheap s5 = zheap (holding alloc s4)" using m(2) by (simp add: matched_def)
    have act: "zone_active (zheap s5 p) = zone_active (zheap s4 p)" for p
      by (simp add: z5 holding_zheap zone_active_def zone_ops)
    have b5: "active_balanced k s5"
      using active_balanced_shift [of k s4 s5 0] s4(4) m(2) act
      by (simp add: matched_def same_device_def)
    have al: "z_busy (zheap s5 p) \<and> zone_active (zheap s5 p) \<and> \<not> z_busy (zheap s p)" if "alloc = Some p" for p
    proof -
      have p: "suitable 0 (zheap s4 p)" "\<not> z_busy (zheap s4 p)" using m(2) that by (auto simp: matched_def)
      then have "\<not> IsFull (zheap s3 p)" "IsUsed (zheap s3 p)"
        by (auto simp: suitable_def s4 zone_ops)
      then have "zheap s3 p = zheap s p" using f3 s2 by metis
      then have "zone_active (zheap s p)"
        using uw \<open>\<not> IsFull (zheap s3 p)\<close> \<open>IsUsed (zheap s3 p)\<close>
        by (auto simp: used_written_def zone_active_def)
      then show ?thesis
        using p(2) that \<open>zheap s3 p = zheap s p\<close> act [of p] by (simp add: z5 holding_def s4)
    qed
    have bz: "z_busy (zheap s5 p) = (z_busy (zheap s p) \<or> alloc = Some p)" for p
      using f3 s2 by (auto simp: z5 holding_zheap s4 keeps_def)
    have "\<forall>a. alloc = Some a \<longrightarrow> z_busy (zheap s5 a) \<and> zone_active (zheap s5 a)" using al by blast
    note R = use_match_balanced [OF U b5 this]
    have io: "io_zones s5 = io_zones s" "open_io_zones s5 = open_io_zones s + 1"
      using m(2) s4 f3 s2 by (auto simp: matched_def same_device_def keeps_def)
    have fin: "st \<noteq> OK \<and> st6 \<noteq> OK \<and> out = None \<and> s' = s6 \<or>
        st6 = OK \<and> st = OK \<and> out = a \<and> (a \<noteq> None \<and> s' = s6 \<or> a = None \<and> s' = PutOpenIOZoneToken s6)"
      using A1 False W M U m(1) by (auto split: if_splits)
    have free: "\<not> z_busy (zheap s p)" if "st6 = OK" "a = Some p" for p
    proof (cases "alloc = Some p")
      case True
      then show ?thesis using al by blast
    next
      case False
      then show ?thesis using R that bz by blast
    qed
    show ?thesis
      using fin R io bz free al by (auto simp: token_ops active_balanced_def)
  qed
qed

end

end
