(* ===== verification/Allocator_Safety.thy ===== *)
theory Allocator_Safety
  imports Zone_Allocator
begin

text \<open>
  The properties of the zone allocator, at the level of the calls the file layer makes: what
  \<open>AllocateIOZone\<close> does to tokens and busy flags on every path, what the placement policies may touch,
  and the optimality of the two searches that promise it.
\<close>

section \<open>Tokens and busy flags\<close>

text \<open>
  C10: Allocating a zone. Whatever policies are configured, a call of \<open>AllocateIOZone\<close> that returns
  either returns no zone, and then it gives back every open and active token it took and leaves every
  busy flag as it was, or it returns a zone that was free before, is now the only additional busy
  zone, and has taken exactly one open token for it, and one active token exactly when the zone is
  still empty (an empty zone becomes active with the first write).
\<close>

theorem AllocateIOZone_tokens:
  assumes "std_algorithms env" "active_balanced k s" "used_written s"
    and "AllocateIOZone env be fl io_type f s = Some (st, out, s')"
  shows "io_zones s' = io_zones s \<and> (st \<noteq> OK \<longrightarrow> out = None) \<and>
    (\<forall>p. z_busy (zheap s' p) = (z_busy (zheap s p) \<or> out = Some p)) \<and>
    (case out of
       None \<Rightarrow> open_io_zones s' = open_io_zones s \<and> active_balanced k s'
     | Some z \<Rightarrow> \<not> z_busy (zheap s z) \<and> open_io_zones s' = open_io_zones s + 1 \<and>
         active_balanced (if IsEmpty (zheap s' z) then k + 1 else k) s')"
  using std_algorithms.AllocateIOZoneNoLock_balanced
      [OF assms(1) assms(4) [unfolded AllocateIOZone_def] assms(2,3)]
  by (auto split: option.split)

text \<open>A file without keys, as the write-ahead log is, goes to the zone whose lifetime fits.\<close>

definition sample_wal :: "ram zbdlib fdev" where
  "sample_wal = sample_fdev\<lparr>fheap := (\<lambda>f. (ZoneFile_new (of_nat f))\<lparr>f_io_type := IO_kWAL,
     f_linkfiles := [''000001.log'']\<rparr>)\<rparr>"

lemmas sample_wal_eval = sample_wal_def sample_fdev_def zbd.extend_def sample_defs zone_ops

lemma MatchLifetimeBased_eq:
  "MatchLifetimeBased f fl minc bd s =
    (case pick_zone (\<lambda>z _. GetLifeTimeDiff (z_lifetime z) fl) (\<lambda>diff best. diff \<le> best) minc (zheap s)
       (all_zones s) (None, LIFETIME_DIFF_NOT_GOOD) of (a, b) \<Rightarrow> Some (OK, b, a, holding a s))"
  unfolding MatchLifetimeBased_def by (subst scan_zones_None) (simp_all split: prod.split)

lemma sample_wal_alloc:
  "AllocateIOZone sample_env ram_backend 0 IO_kWAL 0 sample_wal =
    Some (OK, Some 2, acquired 2 (sample_wal\<lparr>need_flag := False, open_io_zones := 1\<rparr>))"
proof -
  let ?s = "sample_wal\<lparr>need_flag := False, open_io_zones := 1\<rparr>"
  have "pick_zone (\<lambda>z _. GetLifeTimeDiff (z_lifetime z) 0) (\<lambda>diff best. diff \<le> best) 0 (zheap ?s)
      (all_zones ?s) (None, 100) = (Some 2, 0)"
    by (simp add: pick_zone_def pick_step_def all_zones_def suitable_def GetLifeTimeDiff_def sample_wal_eval)
  then have "GetBestOpenZoneMatch sample_env 0 0 0 100 ?s = Some (OK, 0, Some 2, acquired 2 ?s)"
    by (simp add: GetBestOpenZoneMatch_def MatchLifetimeBased_eq ZoneFile_new_def holding_def sample_wal_def)
  moreover have "WaitForOpenIOZoneToken True (sample_wal\<lparr>need_flag := False\<rparr>) = Some ?s"
    by (simp add: token_ops allocator_open_limit_def sample_wal_eval)
  moreover have "f_level (fheap sample_wal 0) = -1" "f_alloc_size (fheap sample_wal 0) = 0"
    "GetFilename (fheap (acquired 2 ?s) 0) \<noteq> None" "zone_deferred_status sample_wal = OK"
    "\<not> uint (max_level (params sample_wal)) < -1"
    by (simp_all add: sample_wal_eval ZoneFile_new_def GetFilename_def acquired_def upd_zone_def)
  ultimately show ?thesis
    by (auto simp: AllocateIOZone_def AllocateIOZoneNoLock_def Let_def GetZoneDeferredStatus_def use_match_def)
qed

theorem AllocateIOZone_tokens_witness:
  "\<exists>s'. AllocateIOZone sample_env ram_backend 0 IO_kWAL 0 sample_wal = Some (OK, Some 2, s') \<and>
     open_io_zones s' = open_io_zones sample_wal + 1 \<and> active_balanced 0 s'"
proof -
  have "active_balanced 0 sample_wal" "used_written sample_wal"
    by (simp_all add: active_balanced_def used_written_def zone_active_def sample_wal_eval)
  from AllocateIOZone_tokens [OF sample_std.std_algorithms_axioms this sample_wal_alloc]
  show ?thesis using sample_wal_alloc by (auto simp: acquired_def upd_zone_def sample_wal_eval)
qed

text \<open>
  C31: Migration. \<open>TakeMigrateZone\<close> returns only when no migration is under way. Whenever it returns
  without a zone, whether with an error or not, the migration flag is down again, no token is kept and
  the busy flags are as before, so the next migration is not blocked; a zone it returns was free and
  is acquired with one open token.
\<close>

theorem TakeMigrateZone_releases:
  assumes "std_algorithms env" "active_balanced k s" "used_written s"
    and "TakeMigrateZone env be f fl minc s = Some (st, out, s')"
  shows "\<not> migrating s \<and> (st \<noteq> OK \<longrightarrow> out = None) \<and>
    (\<forall>p. z_busy (zheap s' p) = (z_busy (zheap s p) \<or> out = Some p)) \<and>
    (case out of
       None \<Rightarrow> \<not> migrating s' \<and> open_io_zones s' = open_io_zones s \<and> active_balanced k s'
     | Some z \<Rightarrow> \<not> z_busy (zheap s z) \<and> open_io_zones s' = open_io_zones s + 1 \<and>
         active_balanced (if IsEmpty (zheap s' z) then k + 1 else k) s')"
proof -
  let ?s = "s\<lparr>migrating := True\<rparr>"
  have m: "\<not> migrating s" using assms(4) by (auto simp: TakeMigrateZone_def split: if_splits)
  obtain s1 where A: "AllocateIOZoneNoLock env be fl (f_io_type (fheap s f)) f (ucast minc) ?s =
      Some (st, out, s1)" and s': "s' = (if st = OK \<and> out \<noteq> None then s1 else s1\<lparr>migrating := False\<rparr>)"
    using assms(4) m by (auto simp: TakeMigrateZone_def split: option.splits)
  have "active_balanced k ?s" "used_written ?s"
    using assms(2,3) by (simp_all add: active_balanced_def used_written_def)
  note B = std_algorithms.AllocateIOZoneNoLock_balanced [OF assms(1) A this]
  show ?thesis
    using B m by (auto simp: s' active_balanced_def split: option.split)
qed

lemma sample_wal_migrate:
  "TakeMigrateZone sample_env ram_backend 0 0 0 (sample_wal\<lparr>migrating := True\<rparr>) = None"
  "\<exists>s'. TakeMigrateZone sample_env ram_backend 0 0 0 (sample_wal\<lparr>zone_deferred_status := IOError\<rparr>) =
    Some (IOError, None, s')"
  by (simp_all add: TakeMigrateZone_def AllocateIOZoneNoLock_def Let_def GetZoneDeferredStatus_def
      sample_wal_eval)

theorem TakeMigrateZone_releases_witness:
  "\<exists>s'. TakeMigrateZone sample_env ram_backend 0 0 0 (sample_wal\<lparr>zone_deferred_status := IOError\<rparr>) =
    Some (IOError, None, s') \<and> \<not> migrating s'"
proof -
  let ?s = "sample_wal\<lparr>zone_deferred_status := IOError\<rparr>"
  obtain s' where T: "TakeMigrateZone sample_env ram_backend 0 0 0 ?s = Some (IOError, None, s')"
    using sample_wal_migrate(2) by blast
  have "active_balanced 0 ?s" "used_written ?s"
    by (simp_all add: active_balanced_def used_written_def zone_active_def sample_wal_eval)
  from TakeMigrateZone_releases [OF sample_std.std_algorithms_axioms this T] T show ?thesis by simp
qed

text \<open>
  C29: The closest lifetime. \<open>MatchLifetimeBased\<close> always succeeds. When it returns a zone, that zone is
  one of the device's, free, in use and with room, and no other such zone has a smaller lifetime
  difference; the difference is at most 100. When it returns none, every such zone is out of reach.
\<close>

theorem MatchLifetimeBased_closest:
  assumes "distinct (io_zones s)"
  shows "\<exists>a b. MatchLifetimeBased f fl minc bd s = Some (OK, b, a, holding a s) \<and> b \<le> 100 \<and>
    (\<forall>z. a = Some z \<longrightarrow> z \<in> set (io_zones s) \<and> \<not> z_busy (zheap s z) \<and> suitable minc (zheap s z) \<and>
       b = GetLifeTimeDiff (z_lifetime (zheap s z)) fl) \<and>
    (\<forall>z \<in> set (io_zones s). \<not> z_busy (zheap s z) \<and> suitable minc (zheap s z) \<longrightarrow>
       (if a = None then 100 < GetLifeTimeDiff (z_lifetime (zheap s z)) fl
        else b \<le> GetLifeTimeDiff (z_lifetime (zheap s z)) fl))"
proof -
  obtain a b where P: "pick_zone (\<lambda>z _. GetLifeTimeDiff (z_lifetime z) fl) (\<lambda>diff best. diff \<le> best) minc
      (zheap s) (all_zones s) (None, 100) = (a, b)" by fastforce
  have "distinct (map fst (all_zones s))" using assms by (simp add: all_zones_def comp_def)
  have B: "b \<le> 100 \<and> (\<forall>(z, k) \<in> set (all_zones s). \<not> z_busy (zheap s z) \<and> suitable minc (zheap s z) \<longrightarrow>
        b \<le> GetLifeTimeDiff (z_lifetime (zheap s z)) fl) \<and>
      (a = None \<longrightarrow> (None :: zptr option) = None \<and> (\<forall>(z, k) \<in> set (all_zones s). \<not> z_busy (zheap s z) \<and>
        suitable minc (zheap s z) \<longrightarrow> \<not> GetLifeTimeDiff (z_lifetime (zheap s z)) fl \<le> 100))"
    by (rule pick_zone_best [OF P \<open>distinct (map fst (all_zones s))\<close>]) auto
  from B have best: "b \<le> 100" "\<forall>z \<in> set (io_zones s). \<not> z_busy (zheap s z) \<and> suitable minc (zheap s z) \<longrightarrow>
      b \<le> GetLifeTimeDiff (z_lifetime (zheap s z)) fl \<and>
      (a = None \<longrightarrow> \<not> GetLifeTimeDiff (z_lifetime (zheap s z)) fl \<le> 100)"
    by (auto simp: all_zones_def)
  have "\<forall>z. a = Some z \<longrightarrow> z \<in> set (io_zones s) \<and> \<not> z_busy (zheap s z) \<and> suitable minc (zheap s z) \<and>
       b = GetLifeTimeDiff (z_lifetime (zheap s z)) fl"
  proof (intro allI impI)
    fix z
    assume "a = Some z"
    from pick_zone_sound [OF P [unfolded this]]
    show "z \<in> set (io_zones s) \<and> \<not> z_busy (zheap s z) \<and> suitable minc (zheap s z) \<and>
      b = GetLifeTimeDiff (z_lifetime (zheap s z)) fl" by (auto simp: all_zones_def)
  qed
  moreover have "MatchLifetimeBased f fl minc bd s = Some (OK, b, a, holding a s)"
    by (simp add: MatchLifetimeBased_eq P)
  ultimately show ?thesis using best by (auto simp: not_le)
qed

theorem MatchLifetimeBased_closest_witness:
  "\<exists>b. MatchLifetimeBased 0 0 0 100 sample_wal = Some (OK, b, Some 2, holding (Some 2) sample_wal) \<and> b \<le> 100"
proof -
  have P: "pick_zone (\<lambda>z _. GetLifeTimeDiff (z_lifetime z) 0) (\<lambda>diff best. diff \<le> best) 0
      (zheap sample_wal) (all_zones sample_wal) (None, 100) = (Some 2, 0)"
    by (simp add: pick_zone_def pick_step_def all_zones_def suitable_def GetLifeTimeDiff_def sample_wal_eval)
  have "distinct (io_zones sample_wal)" by (simp add: sample_wal_eval)
  from MatchLifetimeBased_closest [OF this, of 0 0 0 100] show ?thesis
    by (auto simp: MatchLifetimeBased_eq P)
qed

text \<open>
  C30: Wear levelling. \<open>AllocateEmptyZoneLeastWear\<close> always succeeds; it hands out and acquires a free
  empty zone with the smallest reset count among the free empty zones of the device, and returns none
  only when there is no such zone. Every other zone is left as it was.
\<close>

theorem AllocateEmptyZoneLeastWear_least:
  "\<exists>out. AllocateEmptyZoneLeastWear s = Some (OK, out, holding out s) \<and>
    (case out of
       None \<Rightarrow> filter (free_empty s) (io_zones s) = []
     | Some z \<Rightarrow> z \<in> set (io_zones s) \<and> free_empty s z \<and>
         z_reset_count (zheap s z) = Min ((\<lambda>q. z_reset_count (zheap s q)) ` set (filter (free_empty s) (io_zones s))))"
proof -
  obtain out where S: "scan_least_wear (io_zones s) None (holding None s) = (OK, out, holding out s)"
      "\<forall>z. out = Some z \<longrightarrow> free_empty s z \<and> z \<in> set (io_zones s) \<and>
         (\<forall>q. free_empty s q \<and> q \<in> set (io_zones s) \<longrightarrow> z_reset_count (zheap s z) \<le> z_reset_count (zheap s q))"
      "out = None \<longrightarrow> (\<forall>q \<in> set (io_zones s). \<not> free_empty s q)"
    using scan_least_wear_spec [of None s "io_zones s"] by auto
  have "z_reset_count (zheap s z) = Min ((\<lambda>q. z_reset_count (zheap s q)) ` set (filter (free_empty s) (io_zones s)))"
    if "out = Some z" for z
    using S(2) that by (intro Min_eqI [symmetric]) auto
  moreover have "AllocateEmptyZoneLeastWear s = Some (OK, out, holding out s)"
    using S(1) by (simp add: AllocateEmptyZoneLeastWear_def holding_def)
  ultimately show ?thesis using S(2,3) by (auto simp: filter_empty_conv split: option.split)
qed

end
