(* ===== verification/Zonefs_Backend.thy ===== *)
theory Zonefs_Backend
  imports Zone_Model "HOL-Library.Monad_Syntax" "HOL-Library.Multiset"
begin

unbundle bit_operations_syntax

text \<open>
  \<open>ZoneFsBackend\<close> (\<open>src/fs/zonefs_zenfs.cc\<close>, \<open>src/fs/zonefs_zenfs.h\<close>): the backend for a zonefs mount, where
  every zone is a file. Open descriptors are kept in three caches with least-recently-used replacement.
  The system calls are the fields of a record over the kernel's state. Laws about files and descriptors are
  the locale \<open>zonefs_files\<close>; with them the backend reads what is stored and writes where it is told to.
\<close>

section \<open>System calls\<close>

text \<open>\<open>open\<close> and \<open>pread\<close> also tell whether \<open>errno\<close> is \<open>EINTR\<close>. \<open>zk_sysfs\<close> is the number read from a file of
  sysfs, none if the file cannot be opened. \<open>zk_mounts\<close> lists the directory and the device of each mount.\<close>

record fstat =
  st_size :: int
  st_blocks :: int
  st_blksize :: int
  st_mode :: u32

record 'k zonefs_kernel =
  zk_stat :: "string \<Rightarrow> 'k \<Rightarrow> fstat option"
  zk_open :: "string \<Rightarrow> u32 \<Rightarrow> 'k \<Rightarrow> int \<times> bool \<times> 'k"
  zk_close :: "int \<Rightarrow> 'k \<Rightarrow> 'k"
  zk_flock :: "int \<Rightarrow> 'k \<Rightarrow> int \<times> 'k"
  zk_fstat :: "int \<Rightarrow> 'k \<Rightarrow> fstat option"
  zk_truncate :: "string \<Rightarrow> u64 \<Rightarrow> 'k \<Rightarrow> int \<times> 'k"
  zk_fadvise_dontneed :: "int \<Rightarrow> u64 \<Rightarrow> u64 \<Rightarrow> 'k \<Rightarrow> int"
  zk_pread :: "int \<Rightarrow> int \<Rightarrow> u64 \<Rightarrow> 'k \<Rightarrow> int \<times> bool \<times> byte list"
  zk_pwrite :: "int \<Rightarrow> byte list \<Rightarrow> u64 \<Rightarrow> 'k \<Rightarrow> int \<times> 'k"
  zk_mounts :: "'k \<Rightarrow> (string \<times> string) list option"
  zk_sysfs :: "string \<Rightarrow> 'k \<Rightarrow> u32 option"

abbreviation (input) O_RDONLY :: u32 where "O_RDONLY \<equiv> 0"
abbreviation (input) O_WRONLY :: u32 where "O_WRONLY \<equiv> 1"
abbreviation (input) O_DIRECT :: u32 where "O_DIRECT \<equiv> 0x4000"
abbreviation (input) DEFAULT_MAX_LIMIT :: u32 where "DEFAULT_MAX_LIMIT \<equiv> 14"
abbreviation (input) DEFAULT_MAX_RD_LIMIT :: u32 where "DEFAULT_MAX_RD_LIMIT \<equiv> 100"

definition zone_offline :: "u32 \<Rightarrow> bool" where
  "zone_offline mode \<longleftrightarrow> mode AND 0x1B6 = 0"

text \<open>\<open>std::to_string\<close>\<close>

fun to_string :: "nat \<Rightarrow> string" where
  "to_string n = (if n < 10 then [char_of (48 + n)] else to_string (n div 10) @ [char_of (48 + n mod 10)])"

declare to_string.simps [simp del]

section \<open>The descriptor cache\<close>

text \<open>
  The list has nodes with a zone number and a descriptor; the map has an iterator for each zone. A
  \<open>ZoneFsFile\<close> is owned by its node alone, outside of the call that uses it: removing the node closes it.
\<close>

record fdcache =
  c_list :: "(nat \<times> u64 \<times> int) list"
  c_map :: "u64 \<rightharpoonup> nat"
  c_next :: nat
  c_max :: u32
  c_flags :: u32

definition ZoneFsFileCache_new :: "u32 \<Rightarrow> fdcache" where
  "ZoneFsFileCache_new flags =
    \<lparr>c_list = [], c_map = (\<lambda>_. None), c_next = 0,
     c_max = (if flags AND O_RDONLY \<noteq> 0 then DEFAULT_MAX_RD_LIMIT else DEFAULT_MAX_LIMIT), c_flags = flags\<rparr>"

definition node_fd :: "nat \<Rightarrow> (nat \<times> u64 \<times> int) list \<Rightarrow> int option" where
  "node_fd n xs = map_option (\<lambda>(_, _, fd). fd) (List.find (\<lambda>(m, _). m = n) xs)"

definition erase_node :: "nat \<Rightarrow> (nat \<times> u64 \<times> int) list \<Rightarrow> (nat \<times> u64 \<times> int) list" where
  "erase_node n xs = filter (\<lambda>(m, _). m \<noteq> n) xs"

definition close_fd :: "('k, 'l) zonefs_kernel_scheme \<Rightarrow> int option \<Rightarrow> 'k \<Rightarrow> 'k" where
  "close_fd K fd k = (case fd of None \<Rightarrow> k | Some fd \<Rightarrow> zk_close K fd k)"

definition ZoneFsFileCache_Put :: "('k, 'l) zonefs_kernel_scheme \<Rightarrow> u64 \<Rightarrow> fdcache \<Rightarrow> 'k \<Rightarrow> fdcache \<times> 'k" where
  "ZoneFsFileCache_Put K zone c k =
    (case c_map c zone of
       None \<Rightarrow> (c, k)
     | Some n \<Rightarrow> (c\<lparr>c_list := erase_node n (c_list c), c_map := (c_map c)(zone := None)\<rparr>,
                  close_fd K (node_fd n (c_list c)) k))"

text \<open>\<open>Prune\<close> works from the end of the list: the loop runs over the reversed list.\<close>

fun Prune_loop :: "('k, 'l) zonefs_kernel_scheme \<Rightarrow> nat \<Rightarrow> (nat \<times> u64 \<times> int) list \<Rightarrow> (u64 \<rightharpoonup> nat) \<Rightarrow> 'k
    \<Rightarrow> (nat \<times> u64 \<times> int) list \<times> (u64 \<rightharpoonup> nat) \<times> 'k" where
  "Prune_loop K limit [] m k = ([], m, k)"
| "Prune_loop K limit ((n, zone, fd) # rest) m k =
    (if length rest + 1 > limit then Prune_loop K limit rest (m(zone := None)) (zk_close K fd k)
     else ((n, zone, fd) # rest, m, k))"

definition ZoneFsFileCache_Prune :: "('k, 'l) zonefs_kernel_scheme \<Rightarrow> u32 \<Rightarrow> fdcache \<Rightarrow> 'k \<Rightarrow> fdcache \<times> 'k" where
  "ZoneFsFileCache_Prune K limit c k =
    (case Prune_loop K (unat limit) (rev (c_list c)) (c_map c) k of (xs, m, k1) \<Rightarrow>
       (c\<lparr>c_list := rev xs, c_map := m\<rparr>, k1))"

definition ZoneFsFileCache_Get :: "('k, 'l) zonefs_kernel_scheme \<Rightarrow> u64 \<Rightarrow> string \<Rightarrow> fdcache \<Rightarrow> 'k
    \<Rightarrow> int option \<times> bool \<times> fdcache \<times> 'k" where
  "ZoneFsFileCache_Get K zone filename c k =
    (case c_map c zone of
       None \<Rightarrow>
         (case zk_open K filename (c_flags c) k of (fd, eintr, k1) \<Rightarrow>
            if fd = -1 then (None, eintr, c, k1)
            else case ZoneFsFileCache_Prune K (c_max c - 1) c k1 of (c1, k2) \<Rightarrow>
              (Some fd, False, c1\<lparr>c_list := (c_next c1, zone, fd) # c_list c1,
                 c_map := (c_map c1)(zone \<mapsto> c_next c1), c_next := c_next c1 + 1\<rparr>, k2))
     | Some n \<Rightarrow>
         (node_fd n (c_list c), False,
          c\<lparr>c_list := filter (\<lambda>(m, _). m = n) (c_list c) @ erase_node n (c_list c)\<rparr>, k))"

definition ZoneFsFileCache_Resize :: "('k, 'l) zonefs_kernel_scheme \<Rightarrow> u32 \<Rightarrow> fdcache \<Rightarrow> 'k \<Rightarrow> fdcache \<times> 'k" where
  "ZoneFsFileCache_Resize K new_size c k =
    (case (if new_size < c_max c then ZoneFsFileCache_Prune K new_size c k else (c, k)) of (c1, k1) \<Rightarrow>
       (c1\<lparr>c_max := new_size\<rparr>, k1))"

section \<open>The backend\<close>

record 'k zonefs =
  zf_mountpoint :: string
  zf_zone_zero_fd :: int
  zf_readonly :: bool
  zf_rd :: fdcache
  zf_direct_rd :: fdcache
  zf_wr :: fdcache
  zf_block_sz :: u32
  zf_zone_sz :: u64
  zf_nr_zones :: u32
  zf_kernel :: 'k

definition ZoneFsBackend_new :: "string \<Rightarrow> 'k \<Rightarrow> 'k zonefs" where
  "ZoneFsBackend_new mountpoint k =
    \<lparr>zf_mountpoint = mountpoint, zf_zone_zero_fd = -1, zf_readonly = False,
     zf_rd = ZoneFsFileCache_new O_RDONLY, zf_direct_rd = ZoneFsFileCache_new (O_RDONLY OR O_DIRECT),
     zf_wr = ZoneFsFileCache_new (O_WRONLY OR O_DIRECT),
     zf_block_sz = 0, zf_zone_sz = 0, zf_nr_zones = 0, zf_kernel = k\<rparr>"

definition ZoneFsBackend_destroy :: "('k, 'l) zonefs_kernel_scheme \<Rightarrow> 'k zonefs \<Rightarrow> 'k" where
  "ZoneFsBackend_destroy K d =
    (let k = (if zf_zone_zero_fd d \<noteq> -1 then zk_close K (zf_zone_zero_fd d) (zf_kernel d) else zf_kernel d)
     in fold (\<lambda>(_, _, fd). zk_close K fd) (c_list (zf_wr d) @ c_list (zf_direct_rd d) @ c_list (zf_rd d)) k)"

definition zone_file :: "string \<Rightarrow> nat \<Rightarrow> string" where
  "zone_file mountpoint nr = mountpoint @ ''/seq/'' @ to_string nr"

text \<open>Dividing by the zone size traps before \<open>Open\<close> has set it.\<close>

definition LBAToZoneFile :: "u64 \<Rightarrow> 'k zonefs \<Rightarrow> string" where
  "LBAToZoneFile start d = zone_file (zf_mountpoint d) (unat (start div zf_zone_sz d))"

definition LBAToZoneOffset :: "u64 \<Rightarrow> 'k zonefs \<Rightarrow> u64" where
  "LBAToZoneOffset pos d = pos - (pos div zf_zone_sz d) * zf_zone_sz d"

text \<open>The part after the last separator of the device mounted at the mount point.\<close>

definition GetBackingDevice :: "('k, 'l) zonefs_kernel_scheme \<Rightarrow> 'k zonefs \<Rightarrow> string" where
  "GetBackingDevice K d =
    (case zk_mounts K (zf_kernel d) of
       None \<Rightarrow> []
     | Some mnts \<Rightarrow>
         (case List.find (\<lambda>(dir, fsname). dir = zf_mountpoint d \<and> CHR ''/'' \<in> set fsname) mnts of
            None \<Rightarrow> []
          | Some (_, fsname) \<Rightarrow> rev (takeWhile (\<lambda>ch. ch \<noteq> CHR ''/'') (rev fsname))))"

definition GetSysFsValue :: "('k, 'l) zonefs_kernel_scheme \<Rightarrow> string \<Rightarrow> string \<Rightarrow> 'k zonefs \<Rightarrow> u32" where
  "GetSysFsValue K dev_name field d =
    (case zk_sysfs K (''/sys/fs/zonefs/'' @ dev_name @ ''/'' @ field) (zf_kernel d) of
       None \<Rightarrow> DEFAULT_MAX_LIMIT | Some v \<Rightarrow> v)"

definition zonefs_limits :: "('k, 'l) zonefs_kernel_scheme \<Rightarrow> 'k zonefs \<Rightarrow> u32 \<times> u32" where
  "zonefs_limits K d =
    (let backing_dev = GetBackingDevice K d
     in if backing_dev \<noteq> []
        then (GetSysFsValue K backing_dev ''max_active_seq_files'' d, GetSysFsValue K backing_dev ''max_wro_seq_files'' d)
        else (DEFAULT_MAX_LIMIT, DEFAULT_MAX_LIMIT))"

definition ZoneFsBackend_Open :: "('k, 'l) zonefs_kernel_scheme \<Rightarrow> bool \<Rightarrow> bool \<Rightarrow> 'k zonefs
    \<Rightarrow> IOStatus \<times> u32 \<times> u32 \<times> 'k zonefs" where
  "ZoneFsBackend_Open K readonly exclusive d =
    (let seqdirname = zf_mountpoint d @ ''/seq''
     in case zk_stat K seqdirname (zf_kernel d) of
       None \<Rightarrow> (InvalidArgument, 0, 0, d)
     | Some st \<Rightarrow>
         let d1 = d\<lparr>zf_nr_zones := of_int (st_size st)\<rparr>
         in case zk_open K (seqdirname @ ''/0'') O_RDONLY (zf_kernel d1) of (fd, _, k1) \<Rightarrow>
           let d2 = d1\<lparr>zf_kernel := k1\<rparr>
           in if fd < 0 then (InvalidArgument, 0, 0, d2)
              else case zk_flock K fd k1 of (r, k2) \<Rightarrow>
                let d3 = d2\<lparr>zf_kernel := k2\<rparr>
                in if r = -1 then (InvalidArgument, 0, 0, d3\<lparr>zf_kernel := zk_close K fd k2\<rparr>)
                   else case zk_fstat K fd k2 of
                     None \<Rightarrow> (InvalidArgument, 0, 0, d3\<lparr>zf_kernel := zk_close K fd k2\<rparr>)
                   | Some st \<Rightarrow>
                       let d4 = d3\<lparr>zf_zone_sz := of_int (st_blocks st * 512), zf_block_sz := of_int (st_blksize st),
                                   zf_zone_zero_fd := fd\<rparr>
                       in case zonefs_limits K d4 of (max_active, max_open) \<Rightarrow>
                         case ZoneFsFileCache_Resize K max_active (zf_wr d4) (zf_kernel d4) of (wr, k3) \<Rightarrow>
                           (OK, max_active, max_open, d4\<lparr>zf_wr := wr, zf_kernel := k3, zf_readonly := readonly\<rparr>))"

text \<open>The accessors of a zone list, applied to the \<open>stat\<close> of zone \<open>idx\<close>.\<close>

definition zonefs_report :: "u64 \<Rightarrow> nat \<Rightarrow> fstat \<Rightarrow> zone_report" where
  "zonefs_report zone_sz idx st =
    \<lparr>r_swr = True, r_offline = zone_offline (st_mode st),
     r_writable = ((of_int (st_size st) :: u64) < zone_sz \<and> st_mode st AND 0x92 \<noteq> 0),
     r_active = (st_size st > 0 \<and> (of_int (st_size st) :: u64) < zone_sz),
     r_open = False, r_start = of_nat idx * zone_sz, r_max_capacity = zone_sz,
     r_wp = of_nat idx * zone_sz + of_int (st_size st)\<rparr>"

fun zonefs_list_zones :: "('k, 'l) zonefs_kernel_scheme \<Rightarrow> 'k zonefs \<Rightarrow> nat list \<Rightarrow> zone_report list option" where
  "zonefs_list_zones K d [] = Some []"
| "zonefs_list_zones K d (i # is) = do {
     st \<leftarrow> zk_stat K (zone_file (zf_mountpoint d) i) (zf_kernel d);
     rs \<leftarrow> zonefs_list_zones K d is;
     Some (zonefs_report (zf_zone_sz d) i st # rs)
   }"

definition ZoneFsBackend_ListZones :: "('k, 'l) zonefs_kernel_scheme \<Rightarrow> 'k zonefs \<Rightarrow> zone_report list option" where
  "ZoneFsBackend_ListZones K d = zonefs_list_zones K d [0..<unat (zf_nr_zones d)]"

text \<open>\<open>PutZoneFile\<close> is called for the write cache only.\<close>

definition PutZoneFile :: "('k, 'l) zonefs_kernel_scheme \<Rightarrow> u64 \<Rightarrow> u32 \<Rightarrow> 'k zonefs \<Rightarrow> 'k zonefs" where
  "PutZoneFile K start flags d =
    (if flags AND O_WRONLY \<noteq> 0
     then case ZoneFsFileCache_Put K (start div zf_zone_sz d) (zf_wr d) (zf_kernel d) of (c, k) \<Rightarrow>
       d\<lparr>zf_wr := c, zf_kernel := k\<rparr>
     else d)"

definition GetZoneFile :: "('k, 'l) zonefs_kernel_scheme \<Rightarrow> u64 \<Rightarrow> u32 \<Rightarrow> 'k zonefs \<Rightarrow> int option \<times> bool \<times> 'k zonefs" where
  "GetZoneFile K start flags d =
    (let zone = start div zf_zone_sz d; name = LBAToZoneFile start d
     in if flags AND O_WRONLY \<noteq> 0 then
          (case ZoneFsFileCache_Get K zone name (zf_wr d) (zf_kernel d) of (fd, e, c, k) \<Rightarrow>
             (fd, e, d\<lparr>zf_wr := c, zf_kernel := k\<rparr>))
        else if flags AND O_DIRECT \<noteq> 0 then
          (case ZoneFsFileCache_Get K zone name (zf_direct_rd d) (zf_kernel d) of (fd, e, c, k) \<Rightarrow>
             (fd, e, d\<lparr>zf_direct_rd := c, zf_kernel := k\<rparr>))
        else
          (case ZoneFsFileCache_Get K zone name (zf_rd d) (zf_kernel d) of (fd, e, c, k) \<Rightarrow>
             (fd, e, d\<lparr>zf_rd := c, zf_kernel := k\<rparr>)))"

definition ZoneFsBackend_Reset :: "('k, 'l) zonefs_kernel_scheme \<Rightarrow> u64 \<Rightarrow> 'k zonefs
    \<Rightarrow> IOStatus \<times> bool \<times> u64 \<times> 'k zonefs" where
  "ZoneFsBackend_Reset K start d =
    (let filename = LBAToZoneFile start d
     in case zk_truncate K filename 0 (zf_kernel d) of (ret, k1) \<Rightarrow>
       let d1 = d\<lparr>zf_kernel := k1\<rparr>
       in if ret \<noteq> 0 then (IOError, False, 0, d1)
          else
            let d2 = PutZoneFile K start O_WRONLY d1
            in case zk_stat K filename (zf_kernel d2) of
                 None \<Rightarrow> (InvalidArgument, False, 0, d2)
               | Some st \<Rightarrow> if zone_offline (st_mode st) then (OK, True, 0, d2)
                            else (OK, False, zf_zone_sz d2, d2))"

definition ZoneFsBackend_Finish :: "('k, 'l) zonefs_kernel_scheme \<Rightarrow> u64 \<Rightarrow> 'k zonefs \<Rightarrow> IOStatus \<times> 'k zonefs" where
  "ZoneFsBackend_Finish K start d =
    (case zk_truncate K (LBAToZoneFile start d) (zf_zone_sz d) (zf_kernel d) of (ret, k1) \<Rightarrow>
       let d1 = d\<lparr>zf_kernel := k1\<rparr>
       in if ret \<noteq> 0 then (IOError, d1) else (OK, PutZoneFile K start O_WRONLY d1))"

definition ZoneFsBackend_Close :: "('k, 'l) zonefs_kernel_scheme \<Rightarrow> u64 \<Rightarrow> 'k zonefs \<Rightarrow> IOStatus \<times> 'k zonefs" where
  "ZoneFsBackend_Close K start d = (OK, PutZoneFile K start O_WRONLY d)"

text \<open>\<open>-EINVAL\<close> is \<open>-22\<close>.\<close>

definition ZoneFsBackend_InvalidateCache :: "('k, 'l) zonefs_kernel_scheme \<Rightarrow> u64 \<Rightarrow> u64 \<Rightarrow> 'k zonefs \<Rightarrow> int \<times> 'k zonefs" where
  "ZoneFsBackend_InvalidateCache K pos len d =
    (case GetZoneFile K pos O_RDONLY d of (fd, _, d1) \<Rightarrow>
       case fd of
         None \<Rightarrow> (-22, d1)
       | Some fd \<Rightarrow> (zk_fadvise_dontneed K fd (LBAToZoneOffset pos d) len (zf_kernel d1), d1))"

text \<open>
  The transfer loops end because a call transfers at least one byte and at most what it was asked for.
\<close>

function zonefs_read_loop :: "('k, 'l) zonefs_kernel_scheme \<Rightarrow> int \<Rightarrow> int \<Rightarrow> u64 \<Rightarrow> int \<Rightarrow> byte list \<Rightarrow> 'k
    \<Rightarrow> int \<times> bool \<times> byte list" where
  "zonefs_read_loop K fd left offset got buf k =
    (if left = 0 then (got, False, buf)
     else case zk_pread K fd left offset k of (ret, eintr, bytes) \<Rightarrow>
       if 0 < ret \<and> ret \<le> left
       then zonefs_read_loop K fd (left - ret) (offset + of_int ret) (got + ret) (buf @ bytes) k
       else if ret < 0 then (ret, eintr, buf) else (got, False, buf))"
  by pat_completeness auto

termination by (relation "measure (\<lambda>(_, _, left, _). nat left)") auto

definition ZoneFsBackend_Read :: "('k, 'l) zonefs_kernel_scheme \<Rightarrow> int \<Rightarrow> u64 \<Rightarrow> bool \<Rightarrow> 'k zonefs
    \<Rightarrow> int \<times> bool \<times> byte list \<times> 'k zonefs" where
  "ZoneFsBackend_Read K n pos direct d =
    (let flags = (if direct then O_RDONLY OR O_DIRECT else O_RDONLY);
         offset = LBAToZoneOffset pos d;
         read_from_zone = u64_to_int (min (of_int n) (zf_zone_sz d - offset))
     in case GetZoneFile K pos flags d of (fd, e, d1) \<Rightarrow>
       case fd of
         None \<Rightarrow> (-1, e, [], d1)
       | Some fd \<Rightarrow>
           (case zonefs_read_loop K fd read_from_zone offset 0 [] (zf_kernel d1) of (r, e, bytes) \<Rightarrow> (r, e, bytes, d1)))"

text \<open>At the end of the zone the descriptor is given back. \<open>left\<close> bytes of \<open>data\<close> are still to be written.\<close>

function zonefs_write_loop :: "('k, 'l) zonefs_kernel_scheme \<Rightarrow> u64 \<Rightarrow> int \<Rightarrow> byte list \<Rightarrow> int \<Rightarrow> u64 \<Rightarrow> int \<Rightarrow> 'k zonefs
    \<Rightarrow> int \<times> 'k zonefs" where
  "zonefs_write_loop K pos fd data left offset written d =
    (if left = 0 then (written, d)
     else case zk_pwrite K fd (take (nat left) data) offset (zf_kernel d) of (ret, k1) \<Rightarrow>
       let d1 = d\<lparr>zf_kernel := k1\<rparr>
       in if 0 < ret \<and> ret \<le> left
          then zonefs_write_loop K pos fd (drop (nat ret) data) (left - ret) (offset + of_int ret) (written + ret)
                 (if offset + of_int ret = zf_zone_sz d then PutZoneFile K pos O_WRONLY d1 else d1)
          else if ret < 0 then (ret, d1) else (written, d1))"
  by pat_completeness auto

termination by (relation "measure (\<lambda>(_, _, _, _, left, _). nat left)") auto

definition ZoneFsBackend_Write :: "('k, 'l) zonefs_kernel_scheme \<Rightarrow> byte list \<Rightarrow> u64 \<Rightarrow> 'k zonefs \<Rightarrow> int \<times> 'k zonefs" where
  "ZoneFsBackend_Write K data pos d =
    (let offset = LBAToZoneOffset pos d;
         write_to_zone = u64_to_int (min (of_nat (length data)) (zf_zone_sz d - offset))
     in if zf_readonly d then (-1, d)
        else case GetZoneFile K pos (O_WRONLY OR O_DIRECT) d of (fd, _, d1) \<Rightarrow>
          case fd of
            None \<Rightarrow> (-1, d1)
          | Some fd \<Rightarrow> zonefs_write_loop K pos fd data write_to_zone offset 0 d1)"

declare zonefs_read_loop.simps [simp del] zonefs_write_loop.simps [simp del]

definition zonefs_backend :: "('k, 'l) zonefs_kernel_scheme \<Rightarrow> 'k zonefs backend" where
  "zonefs_backend K =
    \<lparr>be_block_sz = zf_block_sz, be_zone_sz = zf_zone_sz, be_nr_zones = zf_nr_zones,
     be_Open = ZoneFsBackend_Open K, be_ListZones = ZoneFsBackend_ListZones K, be_Reset = ZoneFsBackend_Reset K,
     be_Finish = ZoneFsBackend_Finish K, be_Close = ZoneFsBackend_Close K, be_Read = ZoneFsBackend_Read K,
     be_Write = ZoneFsBackend_Write K, be_InvalidateCache = ZoneFsBackend_InvalidateCache K\<rparr>"

section \<open>The cache as a list\<close>

text \<open>
  The reference: the entries in the order of their last use. A new entry is put in front after the last
  ones have been closed.
\<close>

type_synonym entries = "(u64 \<times> int) list"

definition lru_keep :: "('k, 'l) zonefs_kernel_scheme \<Rightarrow> u32 \<Rightarrow> entries \<Rightarrow> 'k \<Rightarrow> entries \<times> 'k" where
  "lru_keep K limit xs k = (take (unat limit) xs, fold (\<lambda>(_, fd). zk_close K fd) (rev (drop (unat limit) xs)) k)"

definition lru_get :: "('k, 'l) zonefs_kernel_scheme \<Rightarrow> u32 \<Rightarrow> u32 \<Rightarrow> u64 \<Rightarrow> string \<Rightarrow> entries \<Rightarrow> 'k
    \<Rightarrow> int option \<times> bool \<times> entries \<times> 'k" where
  "lru_get K limit flags zone name xs k =
    (case map_of xs zone of
       Some fd \<Rightarrow> (Some fd, False, (zone, fd) # filter (\<lambda>(z, _). z \<noteq> zone) xs, k)
     | None \<Rightarrow>
         (case zk_open K name flags k of (fd, eintr, k1) \<Rightarrow>
            if fd = -1 then (None, eintr, xs, k1)
            else case lru_keep K (limit - 1) xs k1 of (ys, k2) \<Rightarrow> (Some fd, False, (zone, fd) # ys, k2)))"

definition lru_put :: "('k, 'l) zonefs_kernel_scheme \<Rightarrow> u64 \<Rightarrow> entries \<Rightarrow> 'k \<Rightarrow> entries \<times> 'k" where
  "lru_put K zone xs k = (filter (\<lambda>(z, _). z \<noteq> zone) xs, close_fd K (map_of xs zone) k)"

definition lru :: "fdcache \<Rightarrow> entries" where
  "lru c = map snd (c_list c)"

text \<open>Every node is in the map and the map has nothing else; the list is no longer than the limit.\<close>

definition cache_ok :: "fdcache \<Rightarrow> bool" where
  "cache_ok c \<longleftrightarrow> distinct (map fst (c_list c)) \<and> distinct (map fst (lru c)) \<and>
    (\<forall>z n. c_map c z = Some n \<longleftrightarrow> (\<exists>fd. (n, z, fd) \<in> set (c_list c))) \<and>
    (\<forall>x \<in> set (c_list c). fst x < c_next c) \<and> (c_max c \<noteq> 0 \<longrightarrow> length (c_list c) \<le> unat (c_max c))"

lemma cache_ok_new: "cache_ok (ZoneFsFileCache_new flags)"
  by (simp add: cache_ok_def ZoneFsFileCache_new_def lru_def)

lemma Prune_loop_eq:
  "Prune_loop K limit xs m k =
    (drop (length xs - limit) xs, fold (\<lambda>(_, z, _) m. m(z := None)) (take (length xs - limit) xs) m,
     fold (\<lambda>(_, _, fd). zk_close K fd) (take (length xs - limit) xs) k)"
proof (induction xs arbitrary: m k)
  case (Cons x xs)
  then show ?case by (cases x) (auto simp: Suc_diff_le)
qed simp

lemma fold_remove: "fold (\<lambda>(_, z, _) m. m(z := None)) xs m y = (if y \<in> (fst \<circ> snd) ` set xs then None else m y)"
  by (induction xs arbitrary: m) auto

lemma cache_entry:
  assumes "cache_ok c" "(n, z, fd) \<in> set (c_list c)"
  shows "node_fd n (c_list c) = Some fd" "map_of (lru c) z = Some fd"
    "filter (\<lambda>(m, _). m = n) (c_list c) = [(n, z, fd)]"
    "map snd (erase_node n (c_list c)) = filter (\<lambda>(y, _). y \<noteq> z) (lru c)"
proof -
  obtain as bs where l: "c_list c = as @ (n, z, fd) # bs" using assms(2) by (meson split_list)
  have d: "distinct (map fst (c_list c))" "distinct (map fst (lru c))" using assms(1) by (auto simp: cache_ok_def)
  have n: "fst x \<noteq> n" "fst (snd x) \<noteq> z" if "x \<in> set as \<union> set bs" for x
    using that d by (auto simp: l lru_def image_iff)
  have as: "filter (\<lambda>(m, _). m = n) as = []" "filter (\<lambda>(m, _). m = n) bs = []"
    using n(1) by (force simp: filter_empty_conv)+
  have nf: "List.find (\<lambda>(m, _). m = n) as = None" using n(1) by (force simp: find_None_iff)
  have "List.find P (as @ x # bs) = (if P x then Some x else List.find P bs)" if "List.find P as = None" for P x
    using that by (induction as) (auto split: if_splits)
  then show "node_fd n (c_list c) = Some fd" by (simp add: node_fd_def l nf)
  show "filter (\<lambda>(m, _). m = n) (c_list c) = [(n, z, fd)]" by (simp add: l as)
  have "(z, fd) \<in> set (lru c)" using assms(2) by (force simp: lru_def)
  then show "map_of (lru c) z = Some fd" using d(2) by simp
  have "filter (\<lambda>(m, _). m \<noteq> n) as = as" "filter (\<lambda>(m, _). m \<noteq> n) bs = bs"
    "filter (\<lambda>(y, _). y \<noteq> z) (map snd as) = map snd as" "filter (\<lambda>(y, _). y \<noteq> z) (map snd bs) = map snd bs"
    using n by (force simp: filter_id_conv)+
  then show "map snd (erase_node n (c_list c)) = filter (\<lambda>(y, _). y \<noteq> z) (lru c)" by (simp add: erase_node_def l lru_def)
qed

lemma cache_miss:
  assumes "cache_ok c" "c_map c z = None"
  shows "map_of (lru c) z = None"
proof -
  have "z \<notin> fst ` set (lru c)" using assms by (force simp: cache_ok_def lru_def)
  then show ?thesis by (simp add: map_of_eq_None_iff)
qed

lemma Prune_refines:
  assumes "cache_ok c" "ZoneFsFileCache_Prune K limit c k = (c', k')"
  shows "cache_ok c'" "(lru c', k') = lru_keep K limit (lru c) k" "length (c_list c') \<le> unat limit"
    "c_max c' = c_max c" "c_flags c' = c_flags c" "c_next c' = c_next c" "set (c_list c') \<subseteq> set (c_list c)"
proof -
  let ?xs = "c_list c" and ?l = "unat limit"
  have r: "rev (drop (length ?xs - ?l) (rev ?xs)) = take ?l ?xs" "take (length ?xs - ?l) (rev ?xs) = rev (drop ?l ?xs)"
    by (cases "?l \<le> length ?xs"; simp add: rev_drop; fail) (simp add: take_rev; cases "?l \<le> length ?xs"; simp)
  have c': "c' = c\<lparr>c_list := take ?l ?xs, c_map := fold (\<lambda>(_, z, _) m. m(z := None)) (rev (drop ?l ?xs)) (c_map c)\<rparr>"
    and k': "k' = fold (\<lambda>(_, _, fd). zk_close K fd) (rev (drop ?l ?xs)) k"
    using assms(2) by (simp_all add: ZoneFsFileCache_Prune_def Prune_loop_eq r)
  show "c_max c' = c_max c" "c_flags c' = c_flags c" "c_next c' = c_next c" "set (c_list c') \<subseteq> set (c_list c)"
    "length (c_list c') \<le> ?l"
    by (simp_all add: c' set_take_subset)
  have "fold (\<lambda>(_, _, fd). zk_close K fd) xs k = fold (\<lambda>(_, fd). zk_close K fd) (map snd xs) k" for xs :: "(nat \<times> u64 \<times> int) list"
    by (induction xs arbitrary: k) auto
  then show "(lru c', k') = lru_keep K limit (lru c) k"
    by (simp add: lru_keep_def c' k' lru_def take_map drop_map rev_map)
  have d: "distinct (map fst ?xs)" "distinct (map (fst \<circ> snd) ?xs)" using assms(1) by (auto simp: cache_ok_def lru_def comp_def)
  have split: "(fst \<circ> snd) ` set (take ?l ?xs) \<inter> (fst \<circ> snd) ` set (drop ?l ?xs) = {}"
    using d(2) set_take_disj_set_drop_if_distinct [of "map (fst \<circ> snd) ?xs" ?l ?l]
    by (simp add: take_map drop_map)
  have part: "x \<in> set ?xs \<longleftrightarrow> x \<in> set (take ?l ?xs) \<or> x \<in> set (drop ?l ?xs)" for x
    by (metis Un_iff append_take_drop_id set_append)
  have m: "c_map c z = Some n \<longleftrightarrow> (\<exists>fd. (n, z, fd) \<in> set ?xs)" for z n using assms(1) by (simp add: cache_ok_def)
  have "c_map c' z = Some n \<longleftrightarrow> (\<exists>fd. (n, z, fd) \<in> set (take ?l ?xs))" for z n
  proof (cases "z \<in> (fst \<circ> snd) ` set (drop ?l ?xs)")
    case True
    then have "\<And>n fd. (n, z, fd) \<notin> set (take ?l ?xs)" using split by force
    then show ?thesis using True by (simp add: c' fold_remove)
  next
    case False
    then have "\<And>n fd. (n, z, fd) \<notin> set (drop ?l ?xs)" by force
    then show ?thesis using False m [of z n] by (auto simp: c' fold_remove part)
  qed
  moreover have "distinct (map fst (take ?l ?xs))" "distinct (map (fst \<circ> snd) (take ?l ?xs))"
    using d by (simp_all flip: take_map)
  ultimately show "cache_ok c'"
    using assms(1) by (auto simp: cache_ok_def lru_def c' dest: in_set_takeD)
qed

lemma mset_partition: "mset (filter P xs) + mset (filter (\<lambda>x. \<not> P x) xs) = mset xs"
  by (induction xs) auto

lemma cache_ok_perm:
  assumes "cache_ok c" "mset xs = mset (c_list c)"
  shows "cache_ok (c\<lparr>c_list := xs\<rparr>)"
proof -
  have "set xs = set (c_list c)" "length xs = length (c_list c)" using assms(2) by (metis set_mset_mset, metis size_mset)
  moreover have "distinct (map fst xs) = distinct (map fst (c_list c))"
    "distinct (map (fst \<circ> snd) xs) = distinct (map (fst \<circ> snd) (c_list c))"
    using assms(2) by (intro mset_eq_imp_distinct_iff; simp)+
  ultimately show ?thesis using assms(1) by (simp add: cache_ok_def lru_def)
qed

lemma Get_refines:
  assumes "cache_ok c" "ZoneFsFileCache_Get K zone name c k = (r, e, c', k')"
  shows "cache_ok c' \<and> (r, e, lru c', k') = lru_get K (c_max c) (c_flags c) zone name (lru c) k \<and>
    c_max c' = c_max c \<and> c_flags c' = c_flags c"
proof (cases "c_map c zone")
  case (Some n)
  then obtain fd where e: "(n, zone, fd) \<in> set (c_list c)" using assms(1) by (auto simp: cache_ok_def)
  note x = cache_entry [OF assms(1) e]
  have c': "c' = c\<lparr>c_list := (n, zone, fd) # erase_node n (c_list c)\<rparr>" "r = Some fd" "e = False" "k' = k"
    using assms(2) Some x by (auto simp: ZoneFsFileCache_Get_def)
  have l: "lru c' = (zone, fd) # filter (\<lambda>(z, _). z \<noteq> zone) (lru c)" using x(4) by (simp add: c' lru_def)
  have "mset (filter (\<lambda>(m, _). m = n) (c_list c) @ erase_node n (c_list c)) = mset (c_list c)"
    by (simp add: erase_node_def mset_partition case_prod_beta)
  then have "cache_ok c'" unfolding c' using x(3) by (intro cache_ok_perm assms(1)) simp
  then show ?thesis using l x(2) by (simp add: lru_get_def c')
next
  case None
  obtain fd b k1 where O: "zk_open K name (c_flags c) k = (fd, b, k1)" by (metis prod_cases3)
  show ?thesis
  proof (cases "fd = -1")
    case True
    then show ?thesis using assms None O cache_miss [OF assms(1) None] by (auto simp: ZoneFsFileCache_Get_def lru_get_def)
  next
    case False
    obtain c1 k2 where P: "ZoneFsFileCache_Prune K (c_max c - 1) c k1 = (c1, k2)" by fastforce
    note p = Prune_refines [OF assms(1) P]
    have c': "c' = c1\<lparr>c_list := (c_next c1, zone, fd) # c_list c1, c_map := (c_map c1)(zone \<mapsto> c_next c1),
        c_next := c_next c1 + 1\<rparr>" "r = Some fd" "e = False" "k' = k2"
      using assms(2) None O P False by (auto simp: ZoneFsFileCache_Get_def)
    have new: "zone \<notin> (fst \<circ> snd) ` set (c_list c1)"
      using cache_miss [OF assms(1) None] p(7) by (force simp: map_of_eq_None_iff lru_def)
    have fresh: "c_next c1 \<notin> fst ` set (c_list c1)" using p(1) by (auto simp: cache_ok_def)
    have "length (c_list c1) + 1 \<le> unat (c_max c)" if "c_max c \<noteq> 0"
    proof -
      have "unat (c_max c - 1) = unat (c_max c) - 1" using that by (metis unat_minus_one)
      moreover have "unat (c_max c) \<noteq> 0" using that by (simp add: unat_eq_0)
      ultimately show ?thesis using p(3) by simp
    qed
    then have "cache_ok c'"
      using p(1,4) new fresh by (auto simp: cache_ok_def c' lru_def image_iff less_Suc_eq)
    then show ?thesis
      using p(2,4,5) cache_miss [OF assms(1) None] O False by (simp add: lru_get_def c' lru_def case_prod_beta prod_eq_iff)
  qed
qed

lemma Put_refines:
  assumes "cache_ok c" "ZoneFsFileCache_Put K zone c k = (c', k')"
  shows "cache_ok c' \<and> (lru c', k') = lru_put K zone (lru c) k \<and> c_max c' = c_max c \<and> c_flags c' = c_flags c"
proof (cases "c_map c zone")
  case None
  then have "zone \<notin> fst ` set (lru c)" using cache_miss [OF assms(1)] by (simp add: map_of_eq_None_iff)
  then have "filter (\<lambda>(z, _). z \<noteq> zone) (lru c) = lru c" by (force simp: filter_id_conv)
  then show ?thesis
    using None assms cache_miss [OF assms(1) None] by (simp add: ZoneFsFileCache_Put_def lru_put_def close_fd_def)
next
  case (Some n)
  then obtain fd where e: "(n, zone, fd) \<in> set (c_list c)" using assms(1) by (auto simp: cache_ok_def)
  note x = cache_entry [OF assms(1) e]
  have c': "c' = c\<lparr>c_list := erase_node n (c_list c), c_map := (c_map c)(zone := None)\<rparr>" "k' = zk_close K fd k"
    using assms(2) Some x(1) by (auto simp: ZoneFsFileCache_Put_def close_fd_def)
  have one: "z = zone \<longleftrightarrow> m = n" if "(m, z, y) \<in> set (c_list c)" for m z y
    using that e assms(1) unfolding cache_ok_def by (metis option.inject eq_key_imp_eq_value fst_conv)
  have "cache_ok c'"
    using assms(1) one le_trans [OF length_filter_le]
    by (auto simp: cache_ok_def c' erase_node_def lru_def distinct_map_filter)
  then show ?thesis using x by (simp add: lru_put_def c' lru_def close_fd_def)
qed

lemma Resize_refines:
  assumes "cache_ok c" "ZoneFsFileCache_Resize K n c k = (c', k')" "c_max c \<noteq> 0"
  shows "cache_ok c' \<and> c_max c' = n \<and> (lru c', k') = lru_keep K n (lru c) k \<and> c_flags c' = c_flags c"
proof (cases "n < c_max c")
  case True
  obtain c1 k1 where P: "ZoneFsFileCache_Prune K n c k = (c1, k1)" by fastforce
  then have c': "c' = c1\<lparr>c_max := n\<rparr>" "k' = k1" using assms(2) True by (auto simp: ZoneFsFileCache_Resize_def)
  show ?thesis using Prune_refines [OF assms(1) P] by (auto simp: c' cache_ok_def lru_def)
next
  case False
  then have "length (c_list c) \<le> unat n" using assms(1,3) by (auto simp: cache_ok_def word_less_nat_alt)
  then show ?thesis
    using assms(1,2) False by (clarsimp simp: ZoneFsFileCache_Resize_def lru_keep_def lru_def cache_ok_def)
qed


section \<open>The backend keeps the geometry\<close>

lemma zonefs_backend_sel [simp]:
  "be_block_sz (zonefs_backend K) = zf_block_sz" "be_zone_sz (zonefs_backend K) = zf_zone_sz"
  "be_nr_zones (zonefs_backend K) = zf_nr_zones" "be_Open (zonefs_backend K) = ZoneFsBackend_Open K"
  "be_ListZones (zonefs_backend K) = ZoneFsBackend_ListZones K"
  "be_Reset (zonefs_backend K) = ZoneFsBackend_Reset K" "be_Finish (zonefs_backend K) = ZoneFsBackend_Finish K"
  "be_Close (zonefs_backend K) = ZoneFsBackend_Close K" "be_Read (zonefs_backend K) = ZoneFsBackend_Read K"
  "be_Write (zonefs_backend K) = ZoneFsBackend_Write K"
  "be_InvalidateCache (zonefs_backend K) = ZoneFsBackend_InvalidateCache K"
  by (simp_all add: zonefs_backend_def)

definition same_mount :: "'k zonefs \<Rightarrow> 'k zonefs \<Rightarrow> bool" where
  "same_mount d d' \<longleftrightarrow> zf_mountpoint d' = zf_mountpoint d \<and> zf_zone_zero_fd d' = zf_zone_zero_fd d \<and>
    zf_readonly d' = zf_readonly d \<and> zf_block_sz d' = zf_block_sz d \<and> zf_zone_sz d' = zf_zone_sz d \<and>
    zf_nr_zones d' = zf_nr_zones d"

lemma same_mount_simps [simp]:
  "same_mount d d" "same_mount d (d'\<lparr>zf_kernel := k\<rparr>) = same_mount d d'" "same_mount d (d'\<lparr>zf_wr := c\<rparr>) = same_mount d d'"
  "same_mount d (d'\<lparr>zf_rd := c\<rparr>) = same_mount d d'" "same_mount d (d'\<lparr>zf_direct_rd := c\<rparr>) = same_mount d d'"
  by (simp_all add: same_mount_def)

lemma same_mount_trans: "same_mount d d' \<Longrightarrow> same_mount d' d'' \<Longrightarrow> same_mount d d''"
  by (simp add: same_mount_def)

lemma same_mount_put [simp]: "same_mount d (PutZoneFile K start flags d') = same_mount d d'"
  by (auto simp: PutZoneFile_def split: prod.split)

lemma same_mount_get: "GetZoneFile K start flags d = (fd, e, d') \<Longrightarrow> same_mount d d'"
  by (auto simp: GetZoneFile_def Let_def split: prod.splits if_splits)

lemma write_loop_mount:
  "zonefs_write_loop K pos fd data left offset n d = (r, d') \<Longrightarrow> same_mount d d' \<and> r \<le> max 0 n + max 0 left"
proof (induction K pos fd data left offset n d arbitrary: r d' rule: zonefs_write_loop.induct)
  case (1 K pos fd data left offset n d)
  obtain ret k1 where W: "zk_pwrite K fd (take (nat left) data) offset (zf_kernel d) = (ret, k1)" by fastforce
  let ?d = "if offset + of_int ret = zf_zone_sz d then PutZoneFile K pos O_WRONLY (d\<lparr>zf_kernel := k1\<rparr>) else d\<lparr>zf_kernel := k1\<rparr>"
  have m: "same_mount d ?d" by simp
  show ?case
  proof (cases "left \<noteq> 0 \<and> 0 < ret \<and> ret \<le> left")
    case True
    then have "zonefs_write_loop K pos fd (drop (nat ret) data) (left - ret) (offset + of_int ret) (n + ret) ?d = (r, d')"
      using 1(2) W by (simp add: zonefs_write_loop.simps [of K pos fd data] Let_def split: if_splits)
    then have "same_mount ?d d' \<and> r \<le> max 0 (n + ret) + max 0 (left - ret)"
      using 1(1) [OF _ W [symmetric] refl] True by simp
    then show ?thesis using same_mount_trans [OF m] True by auto
  next
    case False
    then show ?thesis using 1(2) W by (auto simp: zonefs_write_loop.simps [of K pos fd data] Let_def split: if_splits)
  qed
qed


lemma u64_to_int_le: "u64_to_int w \<le> int (unat w)"
proof -
  have "sint (ucast w :: u32) \<le> uint (ucast w :: u32)" 
    by (simp add: sint_uint signed_take_bit_int_less_eq_self_iff order_trans [OF _ unsigned_greater_eq])
  also have "\<dots> \<le> uint w" by (simp add: unsigned_ucast_eq take_bit_int_less_eq_self_iff)
  finally show ?thesis by (simp add: u64_to_int_def)
qed

lemma zone_part_le:
  "u64_to_int (min (of_nat n) w) \<le> int n"
proof -
  have "u64_to_int (min (of_nat n) w) \<le> int (unat (min (of_nat n) w))" by (rule u64_to_int_le)
  also have "\<dots> \<le> int (unat (of_nat n :: u64))" using min.cobounded1 [of "of_nat n" w] by (simp add: word_le_def)
  also have "\<dots> \<le> int n" by (simp add: unat_of_nat)
  finally show ?thesis .
qed

lemma Write_mount:
  assumes "ZoneFsBackend_Write K data pos d = (r, d')"
  shows "same_mount d d' \<and> r \<le> int (length data)"
proof -
  let ?n = "u64_to_int (min (of_nat (length data)) (zf_zone_sz d - LBAToZoneOffset pos d))"
  obtain fd e d1 where G: "GetZoneFile K pos (O_WRONLY OR O_DIRECT) d = (fd, e, d1)" by (metis prod_cases3)
  note m = same_mount_get [OF G]
  show ?thesis
  proof (cases "zf_readonly d \<or> fd = None")
    case True
    then show ?thesis using assms G m by (auto simp: ZoneFsBackend_Write_def Let_def split: if_splits)
  next
    case False
    then obtain f where "fd = Some f" by auto
    then have "zonefs_write_loop K pos f data ?n (LBAToZoneOffset pos d) 0 d1 = (r, d')"
      using False assms G by (simp add: ZoneFsBackend_Write_def Let_def)
    from write_loop_mount [OF this] show ?thesis
      using same_mount_trans [OF m] zone_part_le [of "length data" "zf_zone_sz d - LBAToZoneOffset pos d"] by auto
  qed
qed

lemma Reset_mount:
  assumes "ZoneFsBackend_Reset K start d = (st, off, mc, d')"
  shows "same_mount d d' \<and> unat mc \<le> unat (zf_zone_sz d)"
proof -
  obtain ret k1 where T: "zk_truncate K (LBAToZoneFile start d) 0 (zf_kernel d) = (ret, k1)" by fastforce
  let ?d = "PutZoneFile K start O_WRONLY (d\<lparr>zf_kernel := k1\<rparr>)"
  have m: "same_mount d ?d" by simp
  show ?thesis
  proof (cases "ret = 0")
    case True
    then have "d' = ?d" "mc = 0 \<or> mc = zf_zone_sz ?d"
      using assms T by (auto simp: ZoneFsBackend_Reset_def Let_def split: option.splits if_splits)
    then show ?thesis using m by (auto simp: same_mount_def)
  qed (use assms T in \<open>auto simp: ZoneFsBackend_Reset_def Let_def\<close>)
qed

lemma Finish_mount: "ZoneFsBackend_Finish K start d = (st, d') \<Longrightarrow> same_mount d d'"
  by (auto simp: ZoneFsBackend_Finish_def Let_def split: prod.splits if_splits)

lemma Close_mount: "ZoneFsBackend_Close K start d = (st, d') \<Longrightarrow> same_mount d d'"
  by (auto simp: ZoneFsBackend_Close_def)

lemma same_mount_geometry: "same_mount d d' \<Longrightarrow> geometry (zonefs_backend K) d' = geometry (zonefs_backend K) d"
  by (simp add: same_mount_def geometry_def)

interpretation zonefs: zoned_backend "zonefs_backend K" for K
proof unfold_locales
  show "unat mc \<le> unat (be_zone_sz (zonefs_backend K) d)"
    if "be_Reset (zonefs_backend K) st d = (OK, False, mc, d')" for st d mc d'
    using Reset_mount that by fastforce
qed (auto dest: Write_mount Reset_mount Finish_mount Close_mount intro: same_mount_geometry)

lemma unat_of_int_u64: "0 \<le> x \<Longrightarrow> nat x < 2 ^ 64 \<Longrightarrow> unat (of_int x :: u64) = nat x"
  by (metis int_nat_eq of_int_of_nat_eq unat_of_nat_u64)

section \<open>Files and descriptors\<close>

text \<open>
  What the backend relies on from the kernel: \<open>kdata\<close> is the content of the files and \<open>kfd\<close> the file a
  descriptor refers to. A new descriptor is not in use; a transfer moves the bytes of the descriptor's file;
  truncating a file keeps what is below the new size.
\<close>

locale zonefs_files =
  fixes K :: "('k, 'l) zonefs_kernel_scheme" and kdata :: "'k \<Rightarrow> string \<Rightarrow> nat \<Rightarrow> byte"
    and kfd :: "'k \<Rightarrow> int \<Rightarrow> string option"
  assumes open_file: "zk_open K name fl k = (fd, e, k') \<Longrightarrow> kdata k' = kdata k \<and>
      (if fd = -1 then kfd k' = kfd k else kfd k fd = None \<and> kfd k' = (kfd k)(fd \<mapsto> name))"
    and close_file: "kdata (zk_close K fd k) = kdata k" "kfd (zk_close K fd k) = (kfd k)(fd := None)"
    and pread_file: "zk_pread K fd n off k = (r, e, bytes) \<Longrightarrow> kfd k fd = Some name \<Longrightarrow> 0 < r \<Longrightarrow>
      r \<le> n \<and> bytes = media_slice (kdata k name) (unat off) (nat r)"
    and pwrite_count: "zk_pwrite K fd data off k = (r, k') \<Longrightarrow> r \<le> int (length data)"
    and pwrite_fds: "zk_pwrite K fd data off k = (r, k') \<Longrightarrow> kfd k' = kfd k"
    and pwrite_others: "zk_pwrite K fd data off k = (r, k') \<Longrightarrow> kfd k fd \<noteq> Some name \<Longrightarrow> kdata k' name = kdata k name"
    and pwrite_in: "zk_pwrite K fd data off k = (r, k') \<Longrightarrow> kfd k fd = Some name \<Longrightarrow> i < nat r \<Longrightarrow>
      kdata k' name (unat off + i) = data ! i"
    and pwrite_out: "zk_pwrite K fd data off k = (r, k') \<Longrightarrow> kfd k fd = Some name \<Longrightarrow>
      i < unat off \<or> unat off + length data \<le> i \<Longrightarrow> kdata k' name i = kdata k name i"
    and truncate_fds: "zk_truncate K name sz k = (r, k') \<Longrightarrow> kfd k' = kfd k"
    and truncate_others: "zk_truncate K name sz k = (r, k') \<Longrightarrow> name' \<noteq> name \<Longrightarrow> kdata k' name' = kdata k name'"
    and truncate_below: "zk_truncate K name sz k = (r, k') \<Longrightarrow> i < unat sz \<Longrightarrow> kdata k' name i = kdata k name i"

text \<open>The entries of a cache are open descriptors of their zones' files, no two the same.\<close>

definition entries_ok :: "(int \<Rightarrow> string option) \<Rightarrow> (u64 \<Rightarrow> string) \<Rightarrow> entries \<Rightarrow> bool" where
  "entries_ok fds nm xs \<longleftrightarrow> distinct (map snd xs) \<and> (\<forall>(z, fd) \<in> set xs. fds fd = Some (nm z))"

text \<open>A change of cache entries that does not close or take over descriptors of others.\<close>

definition fds_kept :: "(int \<Rightarrow> string option) \<Rightarrow> entries \<Rightarrow> (int \<Rightarrow> string option) \<Rightarrow> entries \<Rightarrow> bool" where
  "fds_kept fds xs fds' xs' \<longleftrightarrow>
    (\<forall>fd. fd \<notin> snd ` set xs \<longrightarrow> fds fd \<noteq> None \<longrightarrow> fds' fd = fds fd \<and> fd \<notin> snd ` set xs')"

lemma entries_unique: "entries_ok fds nm xs \<Longrightarrow> (z, fd) \<in> set xs \<Longrightarrow> (y, fd) \<in> set xs \<Longrightarrow> y = z"
  unfolding entries_ok_def distinct_map inj_on_def by (metis prod.inject snd_conv)

lemma entries_filter: "entries_ok fds nm xs \<Longrightarrow> entries_ok fds nm (filter P xs)"
  by (auto simp: entries_ok_def distinct_map_filter)

lemma entries_Cons:
  "entries_ok fds nm ((z, fd) # xs) \<longleftrightarrow> fd \<notin> snd ` set xs \<and> fds fd = Some (nm z) \<and> entries_ok fds nm xs"
  by (auto simp: entries_ok_def)

lemma entries_update: "entries_ok fds nm xs \<Longrightarrow> fd \<notin> snd ` set xs \<Longrightarrow> entries_ok (fds(fd := v)) nm xs"
  unfolding entries_ok_def by force

context zonefs_files
begin

lemma fold_close:
  "kdata (fold (\<lambda>(_, fd). zk_close K fd) xs k) = kdata k"
  "kfd (fold (\<lambda>(_, fd). zk_close K fd) xs k) fd = (if fd \<in> snd ` set xs then None else kfd k fd)"
  by (induction xs arbitrary: k) (auto simp: close_file)

lemma keep_ok:
  assumes "entries_ok (kfd k) nm xs" "lru_keep K limit xs k = (xs', k')"
  shows "entries_ok (kfd k') nm xs' \<and> kdata k' = kdata k \<and> fds_kept (kfd k) xs (kfd k') xs' \<and> set xs' \<subseteq> set xs"
proof -
  have e: "xs' = take (unat limit) xs" "k' = fold (\<lambda>(_, fd). zk_close K fd) (rev (drop (unat limit) xs)) k"
    using assms(2) by (auto simp: lru_keep_def)
  have "snd ` set (take (unat limit) xs) \<inter> snd ` set (drop (unat limit) xs) = {}"
    using assms(1) set_take_disj_set_drop_if_distinct [of "map snd xs" "unat limit" "unat limit"]
    by (simp add: entries_ok_def take_map drop_map)
  then have "(a, fd) \<in> set (take (unat limit) xs) \<Longrightarrow> (b, fd) \<notin> set (drop (unat limit) xs)" for a b fd by force
  then show ?thesis
    using assms(1) by (auto simp: e entries_ok_def fds_kept_def fold_close take_map [symmetric] image_iff
        dest: in_set_takeD in_set_dropD)
qed

lemma get_ok:
  assumes "entries_ok (kfd k) nm xs" "lru_get K limit fl z (nm z) xs k = (r, e, xs', k')"
  shows "entries_ok (kfd k') nm xs' \<and> kdata k' = kdata k \<and> fds_kept (kfd k) xs (kfd k') xs' \<and>
    (\<forall>fd. r = Some fd \<longrightarrow> kfd k' fd = Some (nm z))"
proof (cases "map_of xs z")
  case (Some fd)
  then have m: "(z, fd) \<in> set xs" by (rule map_of_SomeD)
  have x: "xs' = (z, fd) # filter (\<lambda>(y, _). y \<noteq> z) xs" "k' = k" "r = Some fd"
    using assms(2) Some by (auto simp: lru_get_def)
  have "fd \<notin> snd ` set (filter (\<lambda>(y, _). y \<noteq> z) xs)"
    using m entries_unique [OF assms(1)] by auto
  moreover have "kfd k fd = Some (nm z)" using m assms(1) by (auto simp: entries_ok_def)
  moreover have "snd ` set xs' \<subseteq> snd ` set xs" using m by (auto simp: x intro: rev_image_eqI)
  ultimately show ?thesis
    using entries_filter [OF assms(1)] unfolding x fds_kept_def by (auto simp: entries_Cons)
next
  case None
  obtain fd b k1 where O: "zk_open K (nm z) fl k = (fd, b, k1)" by (metis prod_cases3)
  note o = open_file [OF O]
  show ?thesis
  proof (cases "fd = -1")
    case True
    then show ?thesis using assms None O o by (auto simp: lru_get_def fds_kept_def)
  next
    case False
    obtain ys k2 where L: "lru_keep K (limit - 1) xs k1 = (ys, k2)" by fastforce
    have x: "xs' = (z, fd) # ys" "k' = k2" "r = Some fd" using assms(2) None O False L by (auto simp: lru_get_def)
    have o': "kfd k fd = None" "kfd k1 = (kfd k)(fd \<mapsto> nm z)" "kdata k1 = kdata k" using o False by auto
    have fresh: "fd \<notin> snd ` set xs" using assms(1) o'(1) by (auto simp: entries_ok_def)
    have "entries_ok (kfd k1) nm xs" using assms(1) fresh by (auto simp: entries_ok_def o' image_iff)
    note kp = keep_ok [OF this L]
    have "kfd k2 fd = Some (nm z)" using kp fresh by (auto simp: fds_kept_def o')
    then show ?thesis
      using kp fresh o' by (auto simp: x entries_ok_def fds_kept_def image_iff)
  qed
qed

lemma put_ok:
  assumes "entries_ok (kfd k) nm xs" "lru_put K z xs k = (xs', k')"
  shows "entries_ok (kfd k') nm xs' \<and> kdata k' = kdata k \<and> fds_kept (kfd k) xs (kfd k') xs'"
proof -
  have xs': "xs' = filter (\<lambda>(y, _). y \<noteq> z) xs" using assms(2) by (auto simp: lru_put_def)
  show ?thesis
  proof (cases "map_of xs z")
    case None
    then show ?thesis
      using assms by (auto simp: lru_put_def close_fd_def entries_ok_def fds_kept_def distinct_map_filter)
  next
    case (Some fd)
    then have m: "(z, fd) \<in> set xs" by (rule map_of_SomeD)
    have k': "k' = zk_close K fd k" using assms(2) Some by (auto simp: lru_put_def close_fd_def)
    have "fd \<notin> snd ` set xs'" using m entries_unique [OF assms(1)] by (auto simp: xs')
    then have "entries_ok (kfd k') nm xs'"
      using entries_filter [OF assms(1)] entries_update by (simp add: xs' k' close_file)
    moreover have "fd \<in> snd ` set xs" "snd ` set xs' \<subseteq> snd ` set xs" using m by (force, auto simp: xs')
    ultimately show ?thesis by (auto simp: k' close_file fds_kept_def)
  qed
qed

end

section \<open>Zones as files\<close>

lemma digits_value_to_string: "digits_value (to_string n) = n"
proof (induction n rule: to_string.induct)
  case (1 n)
  have c: "of_char (char_of (48 + m :: nat)) = 48 + m" if "m < 10" for m :: nat using that by simp
  show ?case
  proof (cases "n < 10")
    case True
    then show ?thesis by (simp add: to_string.simps [of n] digits_value_def c)
  next
    case False
    then have "digits_value (to_string n) = 10 * digits_value (to_string (n div 10)) + n mod 10"
      by (simp add: to_string.simps [of n] digits_value_def c)
    then show ?thesis using 1 False by simp
  qed
qed

lemma zone_file_inj [simp]: "zone_file mp a = zone_file mp b \<longleftrightarrow> a = b"
  by (metis zone_file_def same_append_eq digits_value_to_string)

definition zonefs_media :: "('k \<Rightarrow> string \<Rightarrow> nat \<Rightarrow> byte) \<Rightarrow> 'k zonefs \<Rightarrow> nat \<Rightarrow> byte" where
  "zonefs_media kdata d i =
    kdata (zf_kernel d) (zone_file (zf_mountpoint d) (i div unat (zf_zone_sz d))) (i mod unat (zf_zone_sz d))"

definition zone_name :: "'k zonefs \<Rightarrow> u64 \<Rightarrow> string" where
  "zone_name d z = zone_file (zf_mountpoint d) (unat z)"

lemma zone_name_inj [simp]: "zone_name d y = zone_name d z \<longleftrightarrow> y = z"
  by (auto simp: zone_name_def dest: unsigned_word_eqI)

text \<open>The caches are in order, and they share no descriptor with each other or with the lock on zone 0.\<close>

definition fds_ok :: "('k \<Rightarrow> int \<Rightarrow> string option) \<Rightarrow> 'k zonefs \<Rightarrow> bool" where
  "fds_ok kfd d \<longleftrightarrow> zf_zone_sz d \<noteq> 0 \<and>
    cache_ok (zf_rd d) \<and> cache_ok (zf_direct_rd d) \<and> cache_ok (zf_wr d) \<and>
    entries_ok (kfd (zf_kernel d)) (zone_name d) (lru (zf_rd d)) \<and>
    entries_ok (kfd (zf_kernel d)) (zone_name d) (lru (zf_direct_rd d)) \<and>
    entries_ok (kfd (zf_kernel d)) (zone_name d) (lru (zf_wr d)) \<and>
    snd ` set (lru (zf_rd d)) \<inter> snd ` set (lru (zf_direct_rd d)) = {} \<and>
    snd ` set (lru (zf_rd d)) \<inter> snd ` set (lru (zf_wr d)) = {} \<and>
    snd ` set (lru (zf_direct_rd d)) \<inter> snd ` set (lru (zf_wr d)) = {} \<and>
    kfd (zf_kernel d) (zf_zone_zero_fd d) = Some (zone_name d 0) \<and>
    zf_zone_zero_fd d \<notin> snd ` set (lru (zf_rd d)) \<union> snd ` set (lru (zf_direct_rd d)) \<union> snd ` set (lru (zf_wr d))"

lemma entries_kept:
  assumes "entries_ok fds nm ys" "fds_kept fds xs fds' xs'" "snd ` set ys \<inter> snd ` set xs = {}"
  shows "entries_ok fds' nm ys \<and> snd ` set ys \<inter> snd ` set xs' = {}"
proof -
  have y: "fds' fd = fds fd \<and> fd \<notin> snd ` set xs'" if "(z, fd) \<in> set ys" for z fd
  proof -
    have "fds fd \<noteq> None" "fd \<notin> snd ` set xs" using that assms(1,3) by (auto simp: entries_ok_def, force)
    then show ?thesis using assms(2) by (simp add: fds_kept_def)
  qed
  then have "entries_ok fds' nm ys" using assms(1) by (auto simp: entries_ok_def)
  moreover have "snd ` set ys \<inter> snd ` set xs' = {}" using y by (force simp: disjoint_iff)
  ultimately show ?thesis by blast
qed

context zonefs_files
begin

lemma cache_get_ok:
  assumes "cache_ok c" "entries_ok (kfd k) nm (lru c)" "ZoneFsFileCache_Get K z (nm z) c k = (r, e, c', k')"
  shows "cache_ok c' \<and> entries_ok (kfd k') nm (lru c') \<and> kdata k' = kdata k \<and>
    fds_kept (kfd k) (lru c) (kfd k') (lru c') \<and> (\<forall>fd. r = Some fd \<longrightarrow> kfd k' fd = Some (nm z))"
  using Get_refines [OF assms(1,3)] get_ok [OF assms(2), of "c_max c" "c_flags c" z r e "lru c'" k'] by metis

lemma zero_kept:
  assumes "fds_kept fds xs fds' xs'" "fds fd = Some nm" "fd \<notin> snd ` set xs"
  shows "fds' fd = Some nm \<and> fd \<notin> snd ` set xs'"
  using assms by (simp add: fds_kept_def)

lemma GetZoneFile_ok:
  assumes "fds_ok kfd d" "GetZoneFile K pos flags d = (r, e, d')"
  shows "fds_ok kfd d' \<and> kdata (zf_kernel d') = kdata (zf_kernel d) \<and>
    (\<forall>fd. r = Some fd \<longrightarrow> kfd (zf_kernel d') fd = Some (zone_name d (pos div zf_zone_sz d)))"
proof -
  let ?z = "pos div zf_zone_sz d"
  have nm: "LBAToZoneFile pos d = zone_name d ?z" by (simp add: LBAToZoneFile_def zone_name_def)
  have n': "zone_name (d\<lparr>zf_wr := c, zf_kernel := k\<rparr>) = zone_name d" "zone_name (d\<lparr>zf_rd := c, zf_kernel := k\<rparr>) = zone_name d"
    "zone_name (d\<lparr>zf_direct_rd := c, zf_kernel := k\<rparr>) = zone_name d" for c k by (simp_all add: zone_name_def fun_eq_iff)
  note ok = assms(1) [unfolded fds_ok_def]
  consider (wr) c k where "ZoneFsFileCache_Get K ?z (zone_name d ?z) (zf_wr d) (zf_kernel d) = (r, e, c, k)"
      "d' = d\<lparr>zf_wr := c, zf_kernel := k\<rparr>"
    | (direct) c k where "ZoneFsFileCache_Get K ?z (zone_name d ?z) (zf_direct_rd d) (zf_kernel d) = (r, e, c, k)"
      "d' = d\<lparr>zf_direct_rd := c, zf_kernel := k\<rparr>"
    | (rd) c k where "ZoneFsFileCache_Get K ?z (zone_name d ?z) (zf_rd d) (zf_kernel d) = (r, e, c, k)"
      "d' = d\<lparr>zf_rd := c, zf_kernel := k\<rparr>"
    using assms(2) unfolding GetZoneFile_def Let_def nm by (auto split: if_splits prod.splits)
  then show ?thesis
  proof cases
    case wr
    have g: "cache_ok c" "entries_ok (kfd k) (zone_name d) (lru c)" "kdata k = kdata (zf_kernel d)"
      "fds_kept (kfd (zf_kernel d)) (lru (zf_wr d)) (kfd k) (lru c)" "\<forall>fd. r = Some fd \<longrightarrow> kfd k fd = Some (zone_name d ?z)"
      using cache_get_ok [where nm = "zone_name d", OF _ _ wr(1)] ok by auto
    show ?thesis
      using g ok entries_kept [OF _ g(4), of "zone_name d" "lru (zf_rd d)"] entries_kept [OF _ g(4), of "zone_name d" "lru (zf_direct_rd d)"]
        zero_kept [OF g(4), of "zf_zone_zero_fd d"]
      unfolding fds_ok_def wr(2) n' by simp
  next
    case direct
    have g: "cache_ok c" "entries_ok (kfd k) (zone_name d) (lru c)" "kdata k = kdata (zf_kernel d)"
      "fds_kept (kfd (zf_kernel d)) (lru (zf_direct_rd d)) (kfd k) (lru c)" "\<forall>fd. r = Some fd \<longrightarrow> kfd k fd = Some (zone_name d ?z)"
      using cache_get_ok [where nm = "zone_name d", OF _ _ direct(1)] ok by auto
    show ?thesis
      using g ok entries_kept [OF _ g(4), of "zone_name d" "lru (zf_rd d)"] entries_kept [OF _ g(4), of "zone_name d" "lru (zf_wr d)"]
        zero_kept [OF g(4), of "zf_zone_zero_fd d"]
      unfolding fds_ok_def direct(2) n' by (simp add: Int_commute)
  next
    case rd
    have g: "cache_ok c" "entries_ok (kfd k) (zone_name d) (lru c)" "kdata k = kdata (zf_kernel d)"
      "fds_kept (kfd (zf_kernel d)) (lru (zf_rd d)) (kfd k) (lru c)" "\<forall>fd. r = Some fd \<longrightarrow> kfd k fd = Some (zone_name d ?z)"
      using cache_get_ok [where nm = "zone_name d", OF _ _ rd(1)] ok by auto
    show ?thesis
      using g ok entries_kept [OF _ g(4), of "zone_name d" "lru (zf_direct_rd d)"] entries_kept [OF _ g(4), of "zone_name d" "lru (zf_wr d)"]
        zero_kept [OF g(4), of "zf_zone_zero_fd d"]
      unfolding fds_ok_def rd(2) n' by (simp add: Int_commute)
  qed
qed

lemma PutZoneFile_ok:
  assumes "fds_ok kfd d"
  shows "fds_ok kfd (PutZoneFile K pos flags d) \<and> kdata (zf_kernel (PutZoneFile K pos flags d)) = kdata (zf_kernel d)"
proof (cases "flags AND O_WRONLY = 0")
  case False
  note ok = assms [unfolded fds_ok_def]
  obtain c k where P: "ZoneFsFileCache_Put K (pos div zf_zone_sz d) (zf_wr d) (zf_kernel d) = (c, k)" by fastforce
  have n': "zone_name (d\<lparr>zf_wr := c, zf_kernel := k\<rparr>) = zone_name d" by (simp add: zone_name_def fun_eq_iff)
  have d': "PutZoneFile K pos flags d = d\<lparr>zf_wr := c, zf_kernel := k\<rparr>" using False P by (simp add: PutZoneFile_def)
  have r: "cache_ok c" "lru_put K (pos div zf_zone_sz d) (lru (zf_wr d)) (zf_kernel d) = (lru c, k)"
    using Put_refines [OF _ P] ok by auto
  have g: "entries_ok (kfd k) (zone_name d) (lru c)" "kdata k = kdata (zf_kernel d)"
    "fds_kept (kfd (zf_kernel d)) (lru (zf_wr d)) (kfd k) (lru c)"
    using put_ok [OF _ r(2)] ok by auto
  show ?thesis
    using g r(1) ok entries_kept [OF _ g(3), of "zone_name d" "lru (zf_rd d)"] entries_kept [OF _ g(3), of "zone_name d" "lru (zf_direct_rd d)"]
      zero_kept [OF g(3), of "zf_zone_zero_fd d"]
    unfolding fds_ok_def d' n' by simp
qed (simp add: PutZoneFile_def assms)

end

text \<open>Positions and sizes within a zone.\<close>

lemma zone_position:
  assumes "zf_zone_sz d \<noteq> 0"
  shows "unat (pos div zf_zone_sz d) = unat pos div unat (zf_zone_sz d)"
    "unat (LBAToZoneOffset pos d) = unat pos mod unat (zf_zone_sz d)"
    "unat (LBAToZoneOffset pos d) < unat (zf_zone_sz d)"
proof -
  show d: "unat (pos div zf_zone_sz d) = unat pos div unat (zf_zone_sz d)" by (simp add: unat_div)
  have "LBAToZoneOffset pos d = pos mod zf_zone_sz d"
    by (simp add: LBAToZoneOffset_def minus_div_mult_eq_mod)
  then show o: "unat (LBAToZoneOffset pos d) = unat pos mod unat (zf_zone_sz d)" by (simp add: unat_mod)
  show "unat (LBAToZoneOffset pos d) < unat (zf_zone_sz d)" using assms by (simp add: o unat_gt_0)
qed

lemma div_mod_shift:
  assumes "a mod s + i < (s :: nat)"
  shows "(a + i) div s = a div s" "(a + i) mod s = a mod s + i"
proof -
  have e: "a + i = (a mod s + i) + s * (a div s)" by simp
  have "s \<noteq> 0" using assms by simp
  then have "((a mod s + i) + s * (a div s)) div s = a div s" "((a mod s + i) + s * (a div s)) mod s = a mod s + i"
    using assms div_mult_self2 [of s "a mod s + i" "a div s"] mod_mult_self2 [of "a mod s + i" s "a div s"] by (simp_all only: div_less mod_less add_0_right not_False_eq_True simp_thms)
  then show "(a + i) div s = a div s" "(a + i) mod s = a mod s + i" by (simp_all only: e [symmetric])
qed

lemma zone_part:
  assumes "n < 2 ^ 31"
  shows "u64_to_int (min (of_nat n) w) = int (min n (unat w))"
proof -
  have n: "unat (of_nat n :: u64) = n" using assms by (simp add: unat_of_nat_u64)
  then have m: "unat (min (of_nat n) w) = min n (unat w)" by (auto simp: min_def word_le_nat_alt)
  then have v: "unat (ucast (min (of_nat n) w) :: u32) = min n (unat w)" using assms by (simp add: unat_ucast_u32 min_def)
  have "sint (v :: u32) = int (unat v)" if "unat v < 2 ^ 31" for v
  proof -
    have "uint v < 2 ^ 31" using that by (metis of_nat_less_iff of_nat_numeral of_nat_power uint_nat)
    then show ?thesis using signed_take_bit_int_eq_self [of 31 "uint v"] unsigned_greater_eq [of v]
      by (simp add: sint_uint order_trans [OF _ unsigned_greater_eq])
  qed
  from this [of "ucast (min (of_nat n) w)"] show ?thesis
    unfolding u64_to_int_def v using assms by simp
qed

lemma zonefs_media_slice:
  assumes "zf_zone_sz d \<noteq> 0" "unat (LBAToZoneOffset pos d) + n \<le> unat (zf_zone_sz d)"
  shows "media_slice (zonefs_media kdata d) (unat pos) n =
    media_slice (kdata (zf_kernel d) (zone_name d (pos div zf_zone_sz d))) (unat (LBAToZoneOffset pos d)) n"
proof (rule nth_equalityI; simp)
  fix i assume i: "i < n"
  let ?s = "unat (zf_zone_sz d)"
  have o: "unat pos mod ?s + i < ?s" using assms zone_position(2) [OF assms(1)] i by simp
  then have "(unat pos + i) div ?s = unat pos div ?s" "(unat pos + i) mod ?s = unat pos mod ?s + i"
    by (simp_all add: div_mod_shift)
  then show "zonefs_media kdata d (unat pos + i) =
      kdata (zf_kernel d) (zone_name d (pos div zf_zone_sz d)) (unat (LBAToZoneOffset pos d) + i)"
    using zone_position [OF assms(1)] by (simp add: zonefs_media_def zone_name_def)
qed

context zonefs_files
begin

lemma read_loop_bytes:
  assumes "zonefs_read_loop K fd left off got buf k = (r, e, bytes)" "kfd k fd = Some name"
    "0 \<le> left" "0 \<le> got" "unat off = start + nat got" "buf = media_slice (kdata k name) start (nat got)"
    "unat off + nat left < 2 ^ 64" "0 \<le> r"
  shows "r \<le> got + left \<and> bytes = media_slice (kdata k name) start (nat r)"
  using assms(1,3-)
proof (induction "nat left" arbitrary: left off got buf rule: less_induct)
  case less
  obtain ret eintr bs where R: "zk_pread K fd left off k = (ret, eintr, bs)" by (metis prod_cases3)
  show ?case
  proof (cases "left \<noteq> 0 \<and> 0 < ret \<and> ret \<le> left")
    case True
    then have L: "zonefs_read_loop K fd (left - ret) (off + of_int ret) (got + ret) (buf @ bs) k = (r, e, bytes)"
      using less.prems(1) R by (simp add: zonefs_read_loop.simps [of K fd left])
    have "bs = media_slice (kdata k name) (unat off) (nat ret)" using pread_file [OF R assms(2)] True by blast
    then have b: "buf @ bs = media_slice (kdata k name) start (nat (got + ret))"
      using less.prems(3-5) True by (simp add: nat_add_distrib media_slice_add)
    have "unat (of_int ret :: u64) = nat ret" using True less.prems(2,6) by (intro unat_of_int_u64) auto
    then have o: "unat (off + of_int ret) = unat off + nat ret"
      using True less.prems(6) by (subst unat_add_u64) auto
    have split: "x + nat ret + nat (left - ret) = x + nat left" for x using True by linarith
    show ?thesis
      using less.hyps [OF _ L _ _ _ b] less.prems True o split by (simp add: nat_add_distrib)
  next
    case False
    then show ?thesis
      using less.prems R by (auto simp: zonefs_read_loop.simps [of K fd left] split: if_splits)
  qed
qed

text \<open>The bytes on the media after some of the data has been written.\<close>

lemma write_loop_bytes:
  assumes "zonefs_write_loop K pos fd data left off n d = (r, d')" "kfd (zf_kernel d) fd = Some name"
    "0 \<le> left" "nat left \<le> length data" "unat off + nat left \<le> unat (zf_zone_sz d)" "fds_ok kfd d" "0 \<le> n"
  shows "fds_ok kfd d' \<and> (\<forall>nm. nm \<noteq> name \<longrightarrow> kdata (zf_kernel d') nm = kdata (zf_kernel d) nm) \<and>
    (\<forall>i. i < unat off \<or> unat off + nat left \<le> i \<longrightarrow> kdata (zf_kernel d') name i = kdata (zf_kernel d) name i) \<and>
    (0 \<le> r \<longrightarrow> n \<le> r \<and> (\<forall>i < nat (r - n). kdata (zf_kernel d') name (unat off + i) = data ! i))"
  using assms
proof (induction "nat left" arbitrary: left off n d data rule: less_induct)
  case less
  show ?case
  proof (cases "left = 0")
    case True
    then show ?thesis using less.prems by (simp add: zonefs_write_loop.simps)
  next
    case False
    obtain ret k1 where W: "zk_pwrite K fd (take (nat left) data) off (zf_kernel d) = (ret, k1)" by fastforce
    let ?d1 = "d\<lparr>zf_kernel := k1\<rparr>"
    have ok1: "fds_ok kfd ?d1" using less.prems(6) pwrite_fds [OF W] by (simp add: fds_ok_def zone_name_def [abs_def])
    have others: "kdata k1 nm = kdata (zf_kernel d) nm" if "nm \<noteq> name" for nm
      using pwrite_others [OF W, of nm] less.prems(2) that by simp
    have out: "kdata k1 name i = kdata (zf_kernel d) name i" if "i < unat off \<or> unat off + nat left \<le> i" for i
      using pwrite_out [OF W less.prems(2), of i] that less.prems(4) by simp
    show ?thesis
    proof (cases "0 < ret \<and> ret \<le> left")
      case True
      let ?d2 = "if off + of_int ret = zf_zone_sz d then PutZoneFile K pos O_WRONLY ?d1 else ?d1"
      have L: "zonefs_write_loop K pos fd (drop (nat ret) data) (left - ret) (off + of_int ret) (n + ret) ?d2 = (r, d')"
        using less.prems(1) W False True by (simp add: zonefs_write_loop.simps [of K pos fd data] Let_def split: if_splits)
      have ok2: "fds_ok kfd ?d2" "kdata (zf_kernel ?d2) = kdata k1" using PutZoneFile_ok [OF ok1] ok1 by auto
      have "unat (of_int ret :: u64) = nat ret"
        using True less.prems(5) unat_lt_u64 [of "zf_zone_sz d"] by (intro unat_of_int_u64) auto
      then have o: "unat (off + of_int ret) = unat off + nat ret"
        using True less.prems(5) unat_lt_u64 [of "zf_zone_sz d"] by (subst unat_add_u64) auto
      have sz: "zf_zone_sz ?d2 = zf_zone_sz d" using same_mount_put [of ?d1 K pos O_WRONLY ?d1] by (simp add: same_mount_def)
      have in1: "kdata k1 name (unat off + i) = data ! i" if "i < nat ret" for i
        using pwrite_in [OF W less.prems(2) that] that True by (subst (asm) nth_take) auto
      show ?thesis
      proof (cases "left = ret")
        case True
        then have e: "r = n + ret" "d' = ?d2" using L by (simp_all add: zonefs_write_loop.simps)
        show ?thesis
          using ok2 others out in1 less.prems(3,7) \<open>0 < ret \<and> ret \<le> left\<close> by (simp add: e True)
      next
        case False
        have "off + of_int ret \<noteq> zf_zone_sz d"
        proof
          assume "off + of_int ret = zf_zone_sz d"
          then have "unat off + nat ret = unat (zf_zone_sz d)" using o by simp
          then show False using less.prems(5) False True by linarith
        qed
        then have d2: "?d2 = ?d1" by simp
        have split: "x + nat ret + nat (left - ret) = x + nat left" "nat (left - ret) \<le> length data - nat ret"
          "nat ret \<le> length data" for x
          using True less.prems(4) by linarith+
        have "kfd (zf_kernel ?d1) fd = Some name" using less.prems(2) pwrite_fds [OF W] by simp
        then have IH: "fds_ok kfd d'" "\<forall>nm. nm \<noteq> name \<longrightarrow> kdata (zf_kernel d') nm = kdata k1 nm"
          "\<forall>i. i < unat off + nat ret \<or> unat off + nat left \<le> i \<longrightarrow> kdata (zf_kernel d') name i = kdata k1 name i"
          "0 \<le> r \<longrightarrow> n + ret \<le> r \<and> (\<forall>i < nat (r - (n + ret)). kdata (zf_kernel d') name (unat off + nat ret + i) = data ! (nat ret + i))"
          using less.hyps [OF _ L [unfolded d2]] less.prems(2-7) True False ok1 by (simp_all add: o split)
        have "kdata (zf_kernel d') name (unat off + i) = data ! i" if "0 \<le> r" "i < nat (r - n)" for i
        proof (cases "i < nat ret")
          case True
          then show ?thesis using IH(3) in1 by simp
        next
          case False
          then show ?thesis using IH(4) that spec [OF conjunct2 [OF mp [OF IH(4) that(1)]], of "i - nat ret"] by simp
        qed
        then show ?thesis using IH others out True by auto
      qed
    next
      case False
      then have "d' = ?d1" "r = (if ret < 0 then ret else n)"
        using less.prems(1) W \<open>left \<noteq> 0\<close> by (auto simp: zonefs_write_loop.simps [of K pos fd data] Let_def split: if_splits)
      then show ?thesis using ok1 others out less.prems(7) by simp
    qed
  qed
qed

end

definition zonefs_written :: "('k \<Rightarrow> string \<Rightarrow> nat \<Rightarrow> byte) \<Rightarrow> byte list \<Rightarrow> u64 \<Rightarrow> int \<Rightarrow> 'k zonefs \<Rightarrow> 'k zonefs \<Rightarrow> bool" where
  "zonefs_written kdata data pos r d d' \<longleftrightarrow> r \<le> int (length data) \<and>
    (\<forall>i < nat r. zonefs_media kdata d' (unat pos + i) = data ! i) \<and>
    (\<forall>i. i < unat pos \<or> unat pos + length data \<le> i \<longrightarrow> zonefs_media kdata d' i = zonefs_media kdata d i)"

context zonefs_files
begin

lemma same_media:
  assumes "same_mount d d'" "kdata (zf_kernel d') = kdata (zf_kernel d)"
  shows "zonefs_media kdata d' = zonefs_media kdata d"
  using assms by (simp add: zonefs_media_def same_mount_def fun_eq_iff)

lemma Read_media:
  assumes ok: "fds_ok kfd d" and n: "0 \<le> n" "n < 2 ^ 31" and R: "ZoneFsBackend_Read K n pos direct d = (r, e, bytes, d')"
  shows "fds_ok kfd d' \<and> zonefs_media kdata d' = zonefs_media kdata d \<and>
    (0 \<le> r \<longrightarrow> r \<le> n \<and> bytes = media_slice (zonefs_media kdata d) (unat pos) (nat r))"
proof -
  let ?o = "LBAToZoneOffset pos d" and ?fl = "if direct then O_RDONLY OR O_DIRECT else O_RDONLY"
  obtain fd b d1 where G: "GetZoneFile K pos ?fl d = (fd, b, d1)" by (metis prod_cases3)
  have g: "fds_ok kfd d1" "kdata (zf_kernel d1) = kdata (zf_kernel d)"
    "\<forall>f. fd = Some f \<longrightarrow> kfd (zf_kernel d1) f = Some (zone_name d (pos div zf_zone_sz d))"
    using GetZoneFile_ok [OF ok G] by auto
  have z: "zf_zone_sz d \<noteq> 0" using ok by (simp add: fds_ok_def)
  note m = same_media [OF same_mount_get [OF G] g(2)]
  show ?thesis
  proof (cases fd)
    case None
    then show ?thesis using R G g(1) m by (simp add: ZoneFsBackend_Read_def Let_def)
  next
    case (Some f)
    define left where "left = u64_to_int (min (of_int n) (zf_zone_sz d - ?o))"
    have L: "zonefs_read_loop K f left ?o 0 [] (zf_kernel d1) = (r, e, bytes)" "d' = d1"
      using R G Some by (auto simp: ZoneFsBackend_Read_def Let_def left_def split: prod.splits)
    have sz: "unat (zf_zone_sz d - ?o) = unat (zf_zone_sz d) - unat ?o"
      using zone_position(3) [OF z, of pos] by (intro unat_sub_u64) (simp add: word_le_nat_alt)
    have "left = int (min (nat n) (unat (zf_zone_sz d) - unat ?o))"
      using zone_part [of "nat n" "zf_zone_sz d - ?o"] n sz by (simp add: left_def)
    then have l: "0 \<le> left" "left \<le> n" "unat ?o + nat left \<le> unat (zf_zone_sz d)"
      using n zone_position(3) [OF z, of pos] by auto
    have "r \<le> left \<and> bytes = media_slice (kdata (zf_kernel d1) (zone_name d (pos div zf_zone_sz d))) (unat ?o) (nat r)" if "0 \<le> r"
      using read_loop_bytes [OF L(1) _ l(1), of _ "unat ?o"] g(3) Some l(3) that unat_lt_u64 [of "zf_zone_sz d"] by simp
    moreover have "unat ?o + nat r \<le> unat (zf_zone_sz d)" if "r \<le> left" using that l by auto
    ultimately show ?thesis
      using g m l L(2) zonefs_media_slice [OF z, of pos "nat r" kdata] by auto
  qed
qed

lemma Write_media:
  assumes ok: "fds_ok kfd d" and n: "length data < 2 ^ 31" and W: "ZoneFsBackend_Write K data pos d = (r, d')"
  shows "fds_ok kfd d' \<and> zonefs_written kdata data pos r d d'"
proof -
  let ?o = "LBAToZoneOffset pos d"
  obtain fd b d1 where G: "GetZoneFile K pos (O_WRONLY OR O_DIRECT) d = (fd, b, d1)" by (metis prod_cases3)
  have g: "fds_ok kfd d1" "kdata (zf_kernel d1) = kdata (zf_kernel d)"
    "\<forall>f. fd = Some f \<longrightarrow> kfd (zf_kernel d1) f = Some (zone_name d (pos div zf_zone_sz d))"
    using GetZoneFile_ok [OF ok G] by auto
  have z: "zf_zone_sz d \<noteq> 0" using ok by (simp add: fds_ok_def)
  note mnt = same_mount_get [OF G]
  note m = same_media [OF mnt g(2)]
  note le = conjunct2 [OF Write_mount [OF W]]
  show ?thesis
  proof (cases "zf_readonly d \<or> fd = None")
    case True
    then show ?thesis using W G g(1) m ok by (auto simp: ZoneFsBackend_Write_def Let_def zonefs_written_def split: if_splits)
  next
    case False
    then obtain f where f: "fd = Some f" by auto
    define left where "left = u64_to_int (min (of_nat (length data)) (zf_zone_sz d - ?o))"
    let ?name = "zone_name d (pos div zf_zone_sz d)" and ?s = "unat (zf_zone_sz d)"
    have L: "zonefs_write_loop K pos f data left ?o 0 d1 = (r, d')"
      using W G f False by (simp add: ZoneFsBackend_Write_def Let_def left_def)
    have sz: "unat (zf_zone_sz d - ?o) = ?s - unat ?o"
      using zone_position(3) [OF z, of pos] by (intro unat_sub_u64) (simp add: word_le_nat_alt)
    have "left = int (min (length data) (?s - unat ?o))"
      using zone_part [OF n, of "zf_zone_sz d - ?o"] sz by (simp add: left_def)
    then have l: "0 \<le> left" "nat left \<le> length data" "unat ?o + nat left \<le> ?s"
      using zone_position(3) [OF z, of pos] by auto
    have s1: "zf_zone_sz d1 = zf_zone_sz d" using mnt by (simp add: same_mount_def)
    have w: "fds_ok kfd d'" "\<forall>nm. nm \<noteq> ?name \<longrightarrow> kdata (zf_kernel d') nm = kdata (zf_kernel d) nm"
      "\<forall>i. i < unat ?o \<or> unat ?o + nat left \<le> i \<longrightarrow> kdata (zf_kernel d') ?name i = kdata (zf_kernel d) ?name i"
      "0 \<le> r \<longrightarrow> (\<forall>i < nat r. kdata (zf_kernel d') ?name (unat ?o + i) = data ! i)"
      using write_loop_bytes [OF L _ l(1,2) _ g(1)] g(2,3) f l(3) s1 by auto
    have rl: "r \<le> left" using conjunct2 [OF write_loop_mount [OF L]] l(1) by simp
    have mnt': "same_mount d d'" using Write_mount [OF W] by blast
    have nm: "?name = zone_file (zf_mountpoint d) (unat pos div ?s)" using zone_position(1) [OF z] by (simp add: zone_name_def)
    have o: "unat ?o = unat pos mod ?s" by (rule zone_position(2) [OF z])
    have m': "zonefs_media kdata d' i = kdata (zf_kernel d') (zone_file (zf_mountpoint d) (i div ?s)) (i mod ?s)" for i
      using mnt' by (simp add: zonefs_media_def same_mount_def)
    have "zonefs_media kdata d' i = zonefs_media kdata d i" if "i < unat pos \<or> unat pos + length data \<le> i" for i
    proof (cases "i div ?s = unat pos div ?s")
      case True
      have "unat pos div ?s * ?s + i mod ?s = i" "unat pos div ?s * ?s + unat ?o = unat pos"
        using div_mult_mod_eq [of i ?s] div_mult_mod_eq [of "unat pos" ?s] True o by simp_all
      then have "i mod ?s < unat ?o \<or> unat ?o + nat left \<le> i mod ?s" using that l(2) by linarith
      then show ?thesis using w(3) unfolding m' True nm [symmetric] by (auto simp: zonefs_media_def True nm)
    next
      case False
      then show ?thesis using w(2) unfolding m' nm by (simp add: zonefs_media_def)
    qed
    moreover have "zonefs_media kdata d' (unat pos + i) = data ! i" if "i < nat r" for i
    proof -
      have "unat pos mod ?s + i < ?s" using that rl l(3) unfolding o by linarith
      then show ?thesis using w(4) that unfolding m' nm o by (simp add: div_mod_shift)
    qed
    ultimately show ?thesis using w(1) le by (simp add: zonefs_written_def)
  qed
qed

lemma Reset_media:
  assumes ok: "fds_ok kfd d" and R: "ZoneFsBackend_Reset K start d = (st, off, mc, d')" and a: "unat (zf_zone_sz d) dvd unat start"
  shows "fds_ok kfd d' \<and> (\<forall>i. i < unat start \<or> unat start + unat (zf_zone_sz d) \<le> i \<longrightarrow> zonefs_media kdata d' i = zonefs_media kdata d i)"
proof -
  obtain ret k1 where T: "zk_truncate K (LBAToZoneFile start d) 0 (zf_kernel d) = (ret, k1)" by fastforce
  let ?d1 = "d\<lparr>zf_kernel := k1\<rparr>" and ?s = "unat (zf_zone_sz d)"
  have ok1: "fds_ok kfd ?d1" using ok truncate_fds [OF T] by (simp add: fds_ok_def zone_name_def [abs_def])
  have d': "fds_ok kfd d' \<and> kdata (zf_kernel d') = kdata k1"
    using R T PutZoneFile_ok [OF ok1, of start O_WRONLY] ok1
    by (auto simp: ZoneFsBackend_Reset_def Let_def split: if_splits option.splits)
  have mnt: "same_mount d d'" using Reset_mount [OF R] by blast
  have z: "zf_zone_sz d \<noteq> 0" using ok by (simp add: fds_ok_def)
  have nm: "LBAToZoneFile start d = zone_file (zf_mountpoint d) (unat start div ?s)"
    using zone_position(1) [OF z] by (simp add: LBAToZoneFile_def)
  have "i div ?s \<noteq> unat start div ?s" if "i < unat start \<or> unat start + ?s \<le> i" for i
  proof
    assume e: "i div ?s = unat start div ?s"
    have "i = unat start div ?s * ?s + i mod ?s" using div_mult_mod_eq [of i ?s] e by simp
    moreover have "i mod ?s < ?s" using z by (simp add: unat_gt_0)
    ultimately show False using that a by (auto simp: dvd_div_mult_self)
  qed
  then show ?thesis
    using d' mnt truncate_others [OF T] by (simp add: zonefs_media_def same_mount_def nm)
qed

lemma Finish_media:
  assumes ok: "fds_ok kfd d" and F: "ZoneFsBackend_Finish K start d = (st, d')"
  shows "fds_ok kfd d' \<and> zonefs_media kdata d' = zonefs_media kdata d"
proof -
  obtain ret k1 where T: "zk_truncate K (LBAToZoneFile start d) (zf_zone_sz d) (zf_kernel d) = (ret, k1)" by fastforce
  let ?d1 = "d\<lparr>zf_kernel := k1\<rparr>" and ?s = "unat (zf_zone_sz d)"
  have ok1: "fds_ok kfd ?d1" using ok truncate_fds [OF T] by (simp add: fds_ok_def zone_name_def [abs_def])
  have d': "fds_ok kfd d' \<and> kdata (zf_kernel d') = kdata k1"
    using F T PutZoneFile_ok [OF ok1, of start O_WRONLY] ok1
    by (auto simp: ZoneFsBackend_Finish_def Let_def split: if_splits)
  have "i mod ?s < ?s" for i using ok by (simp add: fds_ok_def unat_gt_0)
  then have "kdata k1 nm (i mod ?s) = kdata (zf_kernel d) nm (i mod ?s)" for nm i
    using truncate_others [OF T, of nm] truncate_below [OF T] by (cases "nm = LBAToZoneFile start d") auto
  then show ?thesis
    using d' Finish_mount [OF F] by (simp add: zonefs_media_def same_mount_def fun_eq_iff)
qed

lemma Close_media:
  assumes "fds_ok kfd d" "ZoneFsBackend_Close K start d = (st, d')"
  shows "fds_ok kfd d' \<and> zonefs_media kdata d' = zonefs_media kdata d"
  using assms PutZoneFile_ok [OF assms(1), of start O_WRONLY] same_media [OF Close_mount [OF assms(2)]]
  by (auto simp: ZoneFsBackend_Close_def)

end

section \<open>A mount in memory\<close>

text \<open>Every path is a file with read and write permission; descriptors are numbered from 3.\<close>

record zram =
  zr_data :: "string \<Rightarrow> nat \<Rightarrow> byte"
  zr_fds :: "int \<Rightarrow> string option"
  zr_next :: nat

definition zram_file :: "zram \<Rightarrow> int \<Rightarrow> string option" where
  "zram_file k fd = (if 3 \<le> fd \<and> nat fd < zr_next k then zr_fds k fd else None)"

definition zram_pwrite :: "int \<Rightarrow> byte list \<Rightarrow> u64 \<Rightarrow> zram \<Rightarrow> int \<times> zram" where
  "zram_pwrite fd data off k =
    (case zram_file k fd of
       None \<Rightarrow> (-1, k)
     | Some name \<Rightarrow> (int (length data), k\<lparr>zr_data := (zr_data k)(name := \<lambda>i.
         if unat off \<le> i \<and> i < unat off + length data then data ! (i - unat off) else zr_data k name i)\<rparr>))"

definition zram_kernel :: "zram zonefs_kernel" where
  "zram_kernel =
    \<lparr>zk_stat = (\<lambda>name k. Some \<lparr>st_size = 4, st_blocks = 1, st_blksize = 64, st_mode = 0x1B6\<rparr>),
     zk_open = (\<lambda>name fl k. (int (max 3 (zr_next k)), False,
       k\<lparr>zr_fds := (zr_fds k)(int (max 3 (zr_next k)) \<mapsto> name), zr_next := max 3 (zr_next k) + 1\<rparr>)),
     zk_close = (\<lambda>fd k. k\<lparr>zr_fds := (zr_fds k)(fd := None)\<rparr>),
     zk_flock = (\<lambda>fd k. (0, k)),
     zk_fstat = (\<lambda>fd k. Some \<lparr>st_size = 0, st_blocks = 1, st_blksize = 64, st_mode = 0x1B6\<rparr>),
     zk_truncate = (\<lambda>name n k. (0, k)),
     zk_fadvise_dontneed = (\<lambda>fd off n k. 0),
     zk_pread = (\<lambda>fd n off k. case zram_file k fd of None \<Rightarrow> (-1, False, [])
       | Some name \<Rightarrow> (n, False, media_slice (zr_data k name) (unat off) (nat n))),
     zk_pwrite = zram_pwrite,
     zk_mounts = (\<lambda>k. Some [(''/mnt'', ''/dev/sda'')]),
     zk_sysfs = (\<lambda>path k. Some 2)\<rparr>"

interpretation zram: zonefs_files zram_kernel zr_data zram_file
proof unfold_locales
  fix name fl k fd e k'
  assume "zk_open zram_kernel name fl k = (fd, e, k')"
  then show "zr_data k' = zr_data k \<and>
      (if fd = -1 then zram_file k' = zram_file k else zram_file k fd = None \<and> zram_file k' = (zram_file k)(fd \<mapsto> name))"
    by (auto simp: zram_kernel_def zram_file_def fun_eq_iff)
qed (auto simp: zram_kernel_def zram_file_def zram_pwrite_def fun_eq_iff split: option.splits if_splits)

definition sample_mount :: "zram zonefs" where
  "sample_mount = snd (snd (snd (ZoneFsBackend_Open zram_kernel False False
    (ZoneFsBackend_new ''/mnt'' \<lparr>zr_data = (\<lambda>_ _. 0), zr_fds = (\<lambda>_. None), zr_next = 3\<rparr>))))"

lemma sample_mount_eq:
  "sample_mount = \<lparr>zf_mountpoint = ''/mnt'', zf_zone_zero_fd = 3, zf_readonly = False,
     zf_rd = ZoneFsFileCache_new O_RDONLY, zf_direct_rd = ZoneFsFileCache_new (O_RDONLY OR O_DIRECT),
     zf_wr = (ZoneFsFileCache_new (O_WRONLY OR O_DIRECT))\<lparr>c_max := 2\<rparr>,
     zf_block_sz = 64, zf_zone_sz = 512, zf_nr_zones = 4,
     zf_kernel = \<lparr>zr_data = (\<lambda>_ _. 0), zr_fds = [3 \<mapsto> ''/mnt/seq/0''], zr_next = 4\<rparr>\<rparr>"
  by (simp add: sample_mount_def ZoneFsBackend_Open_def ZoneFsBackend_new_def zram_kernel_def Let_def zonefs_limits_def
      GetBackingDevice_def GetSysFsValue_def ZoneFsFileCache_Resize_def ZoneFsFileCache_Prune_def ZoneFsFileCache_new_def)

lemma zone_0_name: "to_string 0 = ''0''"
  by (simp add: to_string.simps char_of_eq_iff)

lemma sample_mount_ok: "fds_ok zram_file sample_mount"
  by (simp add: sample_mount_eq fds_ok_def cache_ok_def lru_def ZoneFsFileCache_new_def entries_ok_def zram_file_def
      zone_name_def zone_file_def zone_0_name)

section \<open>Properties\<close>



text \<open>
  C36: Zones as files. Under the laws of files and descriptors, every operation of the backend keeps the
  caches in order, and the device it presents behaves as the zone code expects: what \<open>Read\<close> reports was on
  the media at that position, \<open>Write\<close> stores as many bytes as it reports and touches only the range it was
  given, a reset affects its zone alone, finishing and closing a zone keep all data.
\<close>

theorem ZoneFsBackend_contract:
  assumes "zonefs_files K kdata kfd" "fds_ok kfd d"
  shows "(0 \<le> n \<and> n < 2 ^ 31 \<longrightarrow> (case ZoneFsBackend_Read K n pos direct d of (r, e, bytes, d') \<Rightarrow>
      fds_ok kfd d' \<and> zonefs_media kdata d' = zonefs_media kdata d \<and>
      (0 \<le> r \<longrightarrow> r \<le> n \<and> bytes = media_slice (zonefs_media kdata d) (unat pos) (nat r)))) \<and>
    (length data < 2 ^ 31 \<longrightarrow> (case ZoneFsBackend_Write K data pos d of (r, d') \<Rightarrow>
      fds_ok kfd d' \<and> zonefs_written kdata data pos r d d')) \<and>
    (unat (zf_zone_sz d) dvd unat start \<longrightarrow> (case ZoneFsBackend_Reset K start d of (st, off, mc, d') \<Rightarrow>
      fds_ok kfd d' \<and> (\<forall>i. i < unat start \<or> unat start + unat (zf_zone_sz d) \<le> i \<longrightarrow>
        zonefs_media kdata d' i = zonefs_media kdata d i))) \<and>
    (case ZoneFsBackend_Finish K start d of (st, d') \<Rightarrow> fds_ok kfd d' \<and> zonefs_media kdata d' = zonefs_media kdata d) \<and>
    (case ZoneFsBackend_Close K start d of (st, d') \<Rightarrow> fds_ok kfd d' \<and> zonefs_media kdata d' = zonefs_media kdata d)"
proof (intro conjI impI)
  note laws = zonefs_files.Read_media [OF assms] zonefs_files.Write_media [OF assms] zonefs_files.Reset_media [OF assms]
    zonefs_files.Finish_media [OF assms] zonefs_files.Close_media [OF assms]
  show "case ZoneFsBackend_Read K n pos direct d of (r, e, bytes, d') \<Rightarrow>
      fds_ok kfd d' \<and> zonefs_media kdata d' = zonefs_media kdata d \<and>
      (0 \<le> r \<longrightarrow> r \<le> n \<and> bytes = media_slice (zonefs_media kdata d) (unat pos) (nat r))" if "0 \<le> n \<and> n < 2 ^ 31"
    using laws(1) that by (fastforce split: prod.split)
  show "case ZoneFsBackend_Write K data pos d of (r, d') \<Rightarrow> fds_ok kfd d' \<and> zonefs_written kdata data pos r d d'"
    if "length data < 2 ^ 31"
    using laws(2) that by (fastforce split: prod.split)
  show "case ZoneFsBackend_Reset K start d of (st, off, mc, d') \<Rightarrow>
      fds_ok kfd d' \<and> (\<forall>i. i < unat start \<or> unat start + unat (zf_zone_sz d) \<le> i \<longrightarrow>
        zonefs_media kdata d' i = zonefs_media kdata d i)" if "unat (zf_zone_sz d) dvd unat start"
    using laws(3) that by (fastforce split: prod.split)
  show "case ZoneFsBackend_Finish K start d of (st, d') \<Rightarrow> fds_ok kfd d' \<and> zonefs_media kdata d' = zonefs_media kdata d"
    using laws(4) by (simp split: prod.split)
  show "case ZoneFsBackend_Close K start d of (st, d') \<Rightarrow> fds_ok kfd d' \<and> zonefs_media kdata d' = zonefs_media kdata d"
    using laws(5) by (simp split: prod.split)
qed

theorem ZoneFsBackend_contract_witness:
  "fds_ok zram_file sample_mount \<and>
    (case ZoneFsBackend_Write zram_kernel [1, 2, 3] 512 sample_mount of (r, d') \<Rightarrow>
      r = 3 \<and> fds_ok zram_file d' \<and> zonefs_media zr_data d' 513 = 2 \<and> zonefs_media zr_data d' 511 = 0)"
proof -
  obtain r d' where W: "ZoneFsBackend_Write zram_kernel [1, 2, 3] 512 sample_mount = (r, d')" by fastforce
  then have r: "r = 3"
    by (simp add: ZoneFsBackend_Write_def sample_mount_eq Let_def GetZoneFile_def LBAToZoneOffset_def LBAToZoneFile_def
        ZoneFsFileCache_Get_def ZoneFsFileCache_Prune_def ZoneFsFileCache_new_def zonefs_write_loop.simps u64_to_int_def
        zram_kernel_def zram_pwrite_def zram_file_def split: prod.splits)
  have w: "fds_ok zram_file d'" "zonefs_written zr_data [1, 2, 3] 512 3 sample_mount d'"
    using ZoneFsBackend_contract [OF zram.zonefs_files_axioms sample_mount_ok, where data = "[1, 2, 3]" and pos = 512] W r by simp_all
  have "zonefs_media zr_data d' (unat (512 :: u64) + 1) = [1, 2, 3] ! 1"
    using w(2) unfolding zonefs_written_def by (elim conjE allE [of _ 1]) simp
  moreover have "zonefs_media zr_data d' 511 = zonefs_media zr_data sample_mount 511"
    using w(2) unfolding zonefs_written_def by simp
  moreover have "zonefs_media zr_data sample_mount 511 = 0" by (simp add: zonefs_media_def sample_mount_eq)
  ultimately show ?thesis using w(1) sample_mount_ok by (simp add: W r)
qed

end
