(* ===== verification/Coding.thy ===== *)
theory Coding
  imports Zenfs_Prelude
begin

text \<open>
  RocksDB's \<open>util/coding.h\<close> and \<open>util/crc32c.h\<close>, which ZenFS uses for everything it stores, as a record
  of functions. The laws the file system relies on (what was put is what is got, a getter consumes
  its input, masking a checksum can be undone) are the locale \<open>coding_laws\<close>; the little-endian and
  varint encodings that the headers document are an instance.

  A \<open>Slice\<close> is a list of bytes. A getter returns \<open>None\<close> where the C++ function returns false.
\<close>

section \<open>The interface\<close>

record coding =
  EncodeFixed32 :: "u32 \<Rightarrow> byte list"
  EncodeFixed64 :: "u64 \<Rightarrow> byte list"
  DecodeFixed64 :: "byte list \<Rightarrow> u64"
  GetFixed32 :: "byte list \<Rightarrow> (u32 \<times> byte list) option"
  GetFixed64 :: "byte list \<Rightarrow> (u64 \<times> byte list) option"
  PutLengthPrefixedSlice :: "byte list \<Rightarrow> byte list"
  GetLengthPrefixedSlice :: "byte list \<Rightarrow> (byte list \<times> byte list) option"
  native_u32 :: "u32 \<Rightarrow> byte list"  \<comment> \<open>the bytes of a \<open>uint32_t\<close> in memory\<close>
  crc32c_Value :: "byte list \<Rightarrow> u32"
  crc32c_Extend :: "u32 \<Rightarrow> byte list \<Rightarrow> u32"
  crc32c_Mask :: "u32 \<Rightarrow> u32"
  crc32c_Unmask :: "u32 \<Rightarrow> u32"

text \<open>\<open>PutFixed32\<close> and \<open>PutFixed64\<close> append the encoding; the sources use them on an output string.\<close>

abbreviation (input) PutFixed32 :: "('e) coding_scheme \<Rightarrow> u32 \<Rightarrow> byte list" where
  "PutFixed32 c \<equiv> EncodeFixed32 c"

abbreviation (input) PutFixed64 :: "('e) coding_scheme \<Rightarrow> u64 \<Rightarrow> byte list" where
  "PutFixed64 c \<equiv> EncodeFixed64 c"

locale coding_laws =
  fixes c :: "'e coding_scheme"
  assumes get32 [simp]: "GetFixed32 c (EncodeFixed32 c v @ rest) = Some (v, rest)"
    and get32_length: "GetFixed32 c xs = Some (v, rest) \<Longrightarrow> length xs = length rest + 4"
    and get32_short: "length xs < 4 \<Longrightarrow> GetFixed32 c xs = None"
    and length32 [simp]: "length (EncodeFixed32 c v) = 4"
    and get64 [simp]: "GetFixed64 c (EncodeFixed64 c w @ rest) = Some (w, rest)"
    and get64_length: "GetFixed64 c xs = Some (w, rest) \<Longrightarrow> length xs = length rest + 8"
    and decode64: "DecodeFixed64 c (EncodeFixed64 c w @ rest) = w"
    and length64 [simp]: "length (EncodeFixed64 c w) = 8"
    and get_slice: "length x < 2 ^ 32 \<Longrightarrow>
      GetLengthPrefixedSlice c (PutLengthPrefixedSlice c x @ rest) = Some (x, rest)"
    and get_slice_shrinks: "GetLengthPrefixedSlice c xs = Some (x, rest) \<Longrightarrow> length rest < length xs"
    and native_length [simp]: "length (native_u32 c v) = 4"
    and value_extend: "crc32c_Value c xs = crc32c_Extend c 0 xs"
    and unmask_mask [simp]: "crc32c_Unmask c (crc32c_Mask c v) = v"
begin

lemma get32_Nil [simp]: "GetFixed32 c [] = None"
  by (rule get32_short) simp

lemma get32_end [simp]: "GetFixed32 c (EncodeFixed32 c v) = Some (v, [])"
  using get32 [of v "[]"] by simp

lemma get64_end [simp]: "GetFixed64 c (EncodeFixed64 c w) = Some (w, [])"
  using get64 [of w "[]"] by simp

end

section \<open>Names as bytes\<close>

definition string_bytes :: "string \<Rightarrow> byte list" where
  "string_bytes s = map (\<lambda>ch. of_nat (of_char ch)) s"

definition bytes_string :: "byte list \<Rightarrow> string" where
  "bytes_string bs = map (\<lambda>b. char_of (unat b)) bs"

lemma unat_of_char: "unat (of_nat (of_char ch) :: byte) = of_char ch"
  using nat_of_char_less_256 [of ch] by (simp add: unat_of_nat)

lemma bytes_string_bytes [simp]: "bytes_string (string_bytes s) = s"
  by (simp add: bytes_string_def string_bytes_def unat_of_char comp_def)

lemma length_string_bytes [simp]: "length (string_bytes s) = length s"
  by (simp add: string_bytes_def)

lemma bytes_string_Nil_iff [simp]: "bytes_string bs = [] \<longleftrightarrow> bs = []"
  by (simp add: bytes_string_def)

section \<open>The documented encodings\<close>

fun le_bytes :: "nat \<Rightarrow> nat \<Rightarrow> byte list" where
  "le_bytes 0 n = []"
| "le_bytes (Suc k) n = of_nat n # le_bytes k (n div 256)"

fun le_nat :: "byte list \<Rightarrow> nat" where
  "le_nat [] = 0"
| "le_nat (b # bs) = unat b + 256 * le_nat bs"

fun varint :: "nat \<Rightarrow> nat \<Rightarrow> byte list" where
  "varint 0 n = []"
| "varint (Suc k) n = (if n < 128 then [of_nat n] else of_nat (128 + n mod 128) # varint k (n div 128))"

fun get_varint :: "nat \<Rightarrow> byte list \<Rightarrow> (nat \<times> byte list) option" where
  "get_varint 0 bs = None"
| "get_varint (Suc k) [] = None"
| "get_varint (Suc k) (b # bs) =
    (if unat b < 128 then Some (unat b, bs)
     else case get_varint k bs of None \<Rightarrow> None | Some (v, r) \<Rightarrow> Some (unat b - 128 + 128 * v, r))"

definition le_get :: "nat \<Rightarrow> byte list \<Rightarrow> (nat \<times> byte list) option" where
  "le_get k bs = (if length bs < k then None else Some (le_nat (take k bs), drop k bs))"

text \<open>The checksum of the instance adds up the bytes; the laws ask no more of it.\<close>

definition le_coding :: coding where
  "le_coding =
    \<lparr> EncodeFixed32 = (\<lambda>v. le_bytes 4 (unat v)), EncodeFixed64 = (\<lambda>v. le_bytes 8 (unat v)),
      DecodeFixed64 = (\<lambda>bs. of_nat (le_nat (take 8 bs))),
      GetFixed32 = (\<lambda>bs. map_option (apfst of_nat) (le_get 4 bs)),
      GetFixed64 = (\<lambda>bs. map_option (apfst of_nat) (le_get 8 bs)),
      PutLengthPrefixedSlice = (\<lambda>bs. varint 5 (length bs) @ bs),
      GetLengthPrefixedSlice = (\<lambda>bs. case get_varint 5 bs of
          None \<Rightarrow> None
        | Some (n, r) \<Rightarrow> if length r < n then None else Some (take n r, drop n r)),
      native_u32 = (\<lambda>v. le_bytes 4 (unat v)),
      crc32c_Value = (\<lambda>bs. of_nat (sum_list (map unat bs))),
      crc32c_Extend = (\<lambda>crc bs. crc + of_nat (sum_list (map unat bs))),
      crc32c_Mask = (\<lambda>v. v + 0xa282ead8), crc32c_Unmask = (\<lambda>v. v - 0xa282ead8) \<rparr>"

lemma length_le_bytes [simp]: "length (le_bytes k n) = k"
  by (induction k arbitrary: n) auto

lemma le_nat_bytes: "le_nat (le_bytes k n) = n mod 256 ^ k"
proof (induction k arbitrary: n)
  case (Suc k)
  have "unat (of_nat n :: byte) = n mod 256" by (simp add: unat_of_nat)
  with Suc show ?case by (simp add: mod_mult2_eq)
qed simp

lemma unat_byte: "n < 256 \<Longrightarrow> unat (of_nat n :: byte) = n"
  by (simp add: unat_of_nat)

lemma get_varint_put: "n < 128 ^ Suc k \<Longrightarrow> get_varint (Suc k) (varint (Suc k) n @ r) = Some (n, r)"
proof (induction k arbitrary: n)
  case 0
  then show ?case by (simp add: unat_byte)
next
  case (Suc k)
  show ?case
  proof (cases "n < 128")
    case True
    then show ?thesis by (simp add: unat_byte)
  next
    case False
    have "n mod 128 < 128" by simp
    then have u: "unat (of_nat (128 + n mod 128) :: byte) = 128 + n mod 128"
      by (intro unat_byte) linarith
    have "n div 128 < 128 ^ Suc k" using Suc.prems by (simp add: div_less_iff_less_mult mult.commute)
    from Suc.IH [OF this] False show ?thesis
      by (subst varint.simps, subst if_not_P [OF False], subst append_Cons, subst get_varint.simps)
        (simp only: u, simp)
  qed
qed

lemma get_varint_shrinks: "get_varint k bs = Some (v, r) \<Longrightarrow> length r < length bs"
  by (induction k bs arbitrary: v r rule: get_varint.induct)
    (auto split: if_splits option.splits)

lemma le_get_put: "n < 256 ^ k \<Longrightarrow> le_get k (le_bytes k n @ r) = Some (n, r)"
  by (simp add: le_get_def le_nat_bytes)

lemma unat_u32_bound: "unat (v :: u32) < 256 ^ 4"
  using unsigned_less [of v] by simp

lemma unat_u64_bound: "unat (v :: u64) < 256 ^ 8"
  using unsigned_less [of v] by simp

interpretation le: coding_laws le_coding
proof
  fix v :: u32 and w :: u64 and rest :: "byte list"
  show "GetFixed32 le_coding (EncodeFixed32 le_coding v @ rest) = Some (v, rest)"
    using le_get_put [OF unat_u32_bound] by (simp add: le_coding_def)
  show "GetFixed64 le_coding (EncodeFixed64 le_coding w @ rest) = Some (w, rest)"
    using le_get_put [OF unat_u64_bound] by (simp add: le_coding_def)
  show "DecodeFixed64 le_coding (EncodeFixed64 le_coding w @ rest) = w"
    using unat_u64_bound [of w] by (simp add: le_coding_def le_nat_bytes)
next
  fix x rest :: "byte list"
  assume "length x < 2 ^ 32"
  then have "length x < 128 ^ Suc 4" by simp
  from get_varint_put [OF this] have "get_varint 5 (varint 5 (length x) @ x @ rest) = Some (length x, x @ rest)"
    by (simp only: eval_nat_numeral)
  then
  show "GetLengthPrefixedSlice le_coding (PutLengthPrefixedSlice le_coding x @ rest) = Some (x, rest)"
    by (simp add: le_coding_def)
next
  fix xs x rest
  assume "GetLengthPrefixedSlice le_coding xs = Some (x, rest)"
  then show "length rest < length xs"
    using get_varint_shrinks by (fastforce simp: le_coding_def split: option.splits if_splits)
qed (auto simp: le_coding_def le_get_def split: if_splits)

end
