(* ===== verification/Zone_Codec.thy ===== *)
theory Zone_Codec
  imports File_Records Coding
begin

text \<open>
  How a file is written to and read from the metadata log: \<open>EncodeTo\<close>, \<open>DecodeFrom\<close> and \<open>MergeUpdate\<close>
  of the classes \<open>ZoneExtent\<close> and \<open>ZoneFile\<close> (\<open>src/fs/zbd_zonefile_zenfs.cc\<close>), and the accounting of a
  file's extents in the zones that hold them.

  The lemmas show that decoding inverts encoding, that decoding returns on every input, and how both
  directions move the used capacity of the zones.
\<close>

section \<open>Accounting of extents\<close>

text \<open>\<open>zone->used_capacity_ += extent->length_\<close> and its inverse.\<close>

definition charge :: "zptr \<Rightarrow> u64 \<Rightarrow> ('d, 'm) zbd_scheme \<Rightarrow> ('d, 'm) zbd_scheme" where
  "charge p n s = upd_zone p (\<lambda>z. z\<lparr>z_used := z_used z + n\<rparr>) s"

definition charge_extents :: "extent list \<Rightarrow> ('d, 'm) zbd_scheme \<Rightarrow> ('d, 'm) zbd_scheme" where
  "charge_extents es s = fold (\<lambda>e. charge (e_zone e) (e_length e)) es s"

text \<open>\<open>(int) -length\<close>: the 64-bit value is cut to 32 bits.\<close>

definition neg_int :: "u64 \<Rightarrow> int" where
  "neg_int n = sint (ucast (- n) :: u32)"

fun ClearExtents_loop :: "extent list \<Rightarrow> ('d, 'm) zbd_scheme \<Rightarrow> ('d, 'm) zbd_scheme option" where
  "ClearExtents_loop [] s = Some s"
| "ClearExtents_loop (e # es) s =
    (let s1 = upd_zone (e_zone e) (\<lambda>z. z\<lparr>z_used := z_used z - e_length e\<rparr>) s
     in case (if dynamic_level_adjustment (params s1) \<noteq> 0
              then UpdateBytesOfLevel (e_zone e) (e_level e) (neg_int (e_length e)) s1 else Some s1) of
          None \<Rightarrow> None
        | Some s2 \<Rightarrow> ClearExtents_loop es s2)"

definition ClearExtents :: "fptr \<Rightarrow> ('d, 'm) fdev_scheme \<Rightarrow> ('d, 'm) fdev_scheme option" where
  "ClearExtents f s =
    map_option (upd_file f (f_extents_update (\<lambda>_. []))) (ClearExtents_loop (f_extents (fheap s f)) s)"

section \<open>Encoding\<close>

abbreviation (input) kFileID :: u32 where "kFileID \<equiv> 1"
abbreviation (input) kFileNameDeprecated :: u32 where "kFileNameDeprecated \<equiv> 2"
abbreviation (input) kFileSize :: u32 where "kFileSize \<equiv> 3"
abbreviation (input) kWriteLifeTimeHint :: u32 where "kWriteLifeTimeHint \<equiv> 4"
abbreviation (input) kExtent :: u32 where "kExtent \<equiv> 5"
abbreviation (input) kModificationTime :: u32 where "kModificationTime \<equiv> 6"
abbreviation (input) kActiveExtentStart :: u32 where "kActiveExtentStart \<equiv> 7"
abbreviation (input) kIsSparse :: u32 where "kIsSparse \<equiv> 8"
abbreviation (input) kLinkedFilename :: u32 where "kLinkedFilename \<equiv> 9"

definition ZoneExtent_EncodeTo :: "'e coding_scheme \<Rightarrow> extent \<Rightarrow> byte list" where
  "ZoneExtent_EncodeTo c e = PutFixed64 c (e_start e) @ PutFixed64 c (e_length e)"

definition encode_extents :: "'e coding_scheme \<Rightarrow> extent list \<Rightarrow> byte list" where
  "encode_extents c es =
    concat (map (\<lambda>e. PutFixed32 c kExtent @ PutLengthPrefixedSlice c (ZoneExtent_EncodeTo c e)) es)"

definition encode_links :: "'e coding_scheme \<Rightarrow> string list \<Rightarrow> byte list" where
  "encode_links c ls =
    concat (map (\<lambda>l. PutFixed32 c kLinkedFilename @ PutLengthPrefixedSlice c (string_bytes l)) ls)"

definition ZoneFile_EncodeTo :: "'e coding_scheme \<Rightarrow> zonefile \<Rightarrow> u32 \<Rightarrow> byte list" where
  "ZoneFile_EncodeTo c zf extent_start =
    PutFixed32 c kFileID @ PutFixed64 c (f_file_id zf) @
    PutFixed32 c kFileSize @ PutFixed64 c (f_file_size zf) @
    PutFixed32 c kWriteLifeTimeHint @ PutFixed32 c (f_lifetime zf) @
    encode_extents c (drop (unat extent_start) (f_extents zf)) @
    PutFixed32 c kModificationTime @ PutFixed64 c (f_m_time zf) @
    PutFixed32 c kActiveExtentStart @ PutFixed64 c (f_extent_start zf) @
    (if f_is_sparse zf then PutFixed32 c kIsSparse else []) @
    encode_links c (f_linkfiles zf)"

definition EncodeUpdateTo :: "'e coding_scheme \<Rightarrow> zonefile \<Rightarrow> byte list" where
  "EncodeUpdateTo c zf = ZoneFile_EncodeTo c zf (f_nr_synced_extents zf)"

definition EncodeSnapshotTo_file :: "'e coding_scheme \<Rightarrow> zonefile \<Rightarrow> byte list" where
  "EncodeSnapshotTo_file c zf = ZoneFile_EncodeTo c zf 0"

definition MetadataSynced :: "zonefile \<Rightarrow> zonefile" where
  "MetadataSynced zf = zf\<lparr>f_nr_synced_extents := of_nat (length (f_extents zf))\<rparr>"

definition MetadataUnsynced :: "zonefile \<Rightarrow> zonefile" where
  "MetadataUnsynced zf = zf\<lparr>f_nr_synced_extents := 0\<rparr>"

section \<open>Decoding\<close>

text \<open>A getter that fails leaves its variable as it was; the size has been checked before.\<close>

definition ZoneExtent_DecodeFrom :: "'e coding_scheme \<Rightarrow> byte list \<Rightarrow> IOStatus \<times> u64 \<times> u64" where
  "ZoneExtent_DecodeFrom c input =
    (if length input \<noteq> 16 then (Corruption, 0, 0)
     else case GetFixed64 c input of
       None \<Rightarrow> (OK, 0, 0)
     | Some (st, rest) \<Rightarrow>
         (case GetFixed64 c rest of None \<Rightarrow> (OK, st, 0) | Some (len, _) \<Rightarrow> (OK, st, len)))"

text \<open>
  One round of the loop, after the tag has been read: an error status, or the rest of the input and the
  new state. The extent's slice is empty when it cannot be read.
\<close>

definition decode_field :: "'e coding_scheme \<Rightarrow> ('d, 'b) backend_scheme \<Rightarrow> fptr \<Rightarrow> u32 \<Rightarrow> byte list
    \<Rightarrow> ('d, 'm) fdev_scheme \<Rightarrow> IOStatus \<times> byte list \<times> ('d, 'm) fdev_scheme" where
  "decode_field c be f tag input s =
    (if tag = kFileSize then
       (case GetFixed64 c input of
          None \<Rightarrow> (Corruption, input, s)
        | Some (v, rest) \<Rightarrow> (OK, rest, upd_file f (f_file_size_update (\<lambda>_. v)) s))
     else if tag = kWriteLifeTimeHint then
       (case GetFixed32 c input of
          None \<Rightarrow> (Corruption, input, s)
        | Some (v, rest) \<Rightarrow> (OK, rest, upd_file f (f_lifetime_update (\<lambda>_. v)) s))
     else if tag = kExtent then
       (let (sl, rest) = (case GetLengthPrefixedSlice c input of None \<Rightarrow> ([], input) | Some r \<Rightarrow> r)
        in case ZoneExtent_DecodeFrom c sl of (st, start, len) \<Rightarrow>
             if st \<noteq> OK then (st, rest, s)
             else case GetIOZone be start s of
               None \<Rightarrow> (Corruption, rest, s)
             | Some z \<Rightarrow>
                 (OK, rest, upd_file f (\<lambda>zf. zf\<lparr>f_extents := f_extents zf @
                     [\<lparr>e_start = start, e_length = len, e_zone = z, e_level = -1\<rparr>]\<rparr>) (charge z len s)))
     else if tag = kModificationTime then
       (case GetFixed64 c input of
          None \<Rightarrow> (Corruption, input, s)
        | Some (v, rest) \<Rightarrow> (OK, rest, upd_file f (f_m_time_update (\<lambda>_. v)) s))
     else if tag = kActiveExtentStart then
       (case GetFixed64 c input of
          None \<Rightarrow> (Corruption, input, s)
        | Some (v, rest) \<Rightarrow> (OK, rest, upd_file f (f_extent_start_update (\<lambda>_. v)) s))
     else if tag = kIsSparse then (OK, input, upd_file f (f_is_sparse_update (\<lambda>_. True)) s)
     else if tag = kLinkedFilename then
       (case GetLengthPrefixedSlice c input of
          None \<Rightarrow> (Corruption, input, s)
        | Some (sl, rest) \<Rightarrow>
            if sl = [] then (Corruption, rest, s)
            else (OK, rest, upd_file f (\<lambda>zf. zf\<lparr>f_linkfiles := f_linkfiles zf @ [bytes_string sl]\<rparr>) s))
     else (Corruption, input, s))"

partial_function (option) DecodeFrom_loop :: "'e coding_scheme \<Rightarrow> ('d, 'b) backend_scheme \<Rightarrow> fptr
    \<Rightarrow> byte list \<Rightarrow> ('d, 'm) fdev_scheme \<Rightarrow> (IOStatus \<times> ('d, 'm) fdev_scheme) option" where
  "DecodeFrom_loop c be f input s =
    (case GetFixed32 c input of
       None \<Rightarrow> Some (OK, s)
     | Some (tag, rest) \<Rightarrow>
         (case decode_field c be f tag rest s of (st, rest', s') \<Rightarrow>
            if st \<noteq> OK then Some (st, s') else DecodeFrom_loop c be f rest' s'))"

declare DecodeFrom_loop.simps [code]

definition ZoneFile_DecodeFrom :: "'e coding_scheme \<Rightarrow> ('d, 'b) backend_scheme \<Rightarrow> fptr \<Rightarrow> byte list
    \<Rightarrow> ('d, 'm) fdev_scheme \<Rightarrow> (IOStatus \<times> ('d, 'm) fdev_scheme) option" where
  "ZoneFile_DecodeFrom c be f input s =
    (case GetFixed32 c input of
       None \<Rightarrow> Some (Corruption, s)
     | Some (tag, rest) \<Rightarrow>
         if tag \<noteq> kFileID then Some (Corruption, s)
         else case GetFixed64 c rest of
           None \<Rightarrow> Some (Corruption, s)
         | Some (fid, rest') \<Rightarrow>
             (case DecodeFrom_loop c be f rest' (upd_file f (f_file_id_update (\<lambda>_. fid)) s) of
                None \<Rightarrow> None
              | Some (st, s1) \<Rightarrow>
                  if st \<noteq> OK then Some (st, s1) else Some (OK, upd_file f MetadataSynced s1)))"

section \<open>Merging an update\<close>

definition MergeUpdate :: "fptr \<Rightarrow> fptr \<Rightarrow> bool \<Rightarrow> ('d, 'm) fdev_scheme
    \<Rightarrow> (IOStatus \<times> ('d, 'm) fdev_scheme) option" where
  "MergeUpdate f u replace s =
    (if f_file_id (fheap s f) \<noteq> f_file_id (fheap s u) then Some (Corruption, s)
     else
       let s1 = upd_file f (\<lambda>zf. zf\<lparr>f_file_size := f_file_size (fheap s u),
                  f_lifetime := f_lifetime (fheap s u), f_m_time := f_m_time (fheap s u)\<rparr>) s
       in case (if replace then ClearExtents f s1 else Some s1) of
            None \<Rightarrow> None
          | Some s2 \<Rightarrow>
              let es = f_extents (fheap s2 u);
                  s3 = upd_file f (\<lambda>zf. zf\<lparr>f_extents := f_extents zf @ map (e_level_update (\<lambda>_. -1)) es\<rparr>)
                         (charge_extents es s2)
              in Some (OK, upd_file f (\<lambda>zf. (MetadataSynced (zf\<lparr>
                   f_extent_start := f_extent_start (fheap s3 u),
                   f_is_sparse := f_is_sparse (fheap s3 u)\<rparr>))\<lparr>
                   f_linkfiles := f_linkfiles (fheap s3 u)\<rparr>) s3))"

section \<open>Accounting lemmas\<close>

lemma zheap_charge:
  "zheap (charge p n s) q = (if q = p then (zheap s q)\<lparr>z_used := z_used (zheap s q) + n\<rparr> else zheap s q)"
  by (simp add: charge_def upd_zone_def)

lemma charge_frame [simp]:
  "io_zones (charge p n s) = io_zones s" "dev (charge p n s) = dev s" "params (charge p n s) = params s"
  "fheap (charge p n t) = fheap t"
  by (simp_all add: charge_def upd_zone_def)

lemma upd_file_frame [simp]:
  "zheap (upd_file f g s) = zheap s" "io_zones (upd_file f g s) = io_zones s" "dev (upd_file f g s) = dev s"
  "params (upd_file f g s) = params s"
  "fheap (upd_file f g s) h = (if h = f then g (fheap s f) else fheap s h)"
  by (simp_all add: upd_file_def)

lemma charge_upd_file: "charge p n (upd_file f g s) = upd_file f g (charge p n s)"
  by (simp add: charge_def upd_zone_def upd_file_def)

lemma upd_file_twice [simp]: "upd_file f g (upd_file f h s) = upd_file f (\<lambda>zf. g (h zf)) s"
  by (simp add: upd_file_def)

lemma charge_extents_simps [simp]:
  "charge_extents [] s = s"
  "charge_extents (e # es) s = charge_extents es (charge (e_zone e) (e_length e) s)"
  by (simp_all add: charge_extents_def)

lemma charge_extents_frame [simp]:
  "io_zones (charge_extents es s) = io_zones s" "dev (charge_extents es s) = dev s"
  "params (charge_extents es s) = params s" "fheap (charge_extents es t) = fheap t"
  by (induction es arbitrary: s t) simp_all

lemma charge_extents_upd_file:
  "charge_extents es (upd_file f g s) = upd_file f g (charge_extents es s)"
  by (induction es arbitrary: s) (simp_all add: charge_upd_file)

lemma charge_extents_used:
  "zheap (charge_extents es s) p =
    (zheap s p)\<lparr>z_used := z_used (zheap s p) + (\<Sum>e\<leftarrow>filter (\<lambda>e. e_zone e = p) es. e_length e)\<rparr>"
  by (induction es arbitrary: s) (simp_all add: zheap_charge ac_simps)

lemma GetIOZone_charge [simp]: "GetIOZone be off (charge p n s) = GetIOZone be off s"
  by (simp add: GetIOZone_def zheap_charge) (rule arg_cong2 [where f = List.find], auto)

lemma GetIOZone_upd_file [simp]: "GetIOZone be off (upd_file f g s) = GetIOZone be off s"
  by (simp add: GetIOZone_def)

section \<open>Decoding inverts encoding\<close>

text \<open>The extents as they come back from the log: the level is not stored.\<close>

abbreviation (input) unleveled :: "extent list \<Rightarrow> extent list" where
  "unleveled es \<equiv> map (e_level_update (\<lambda>_. -1)) es"

definition load_extents :: "fptr \<Rightarrow> extent list \<Rightarrow> ('d, 'm) fdev_scheme \<Rightarrow> ('d, 'm) fdev_scheme" where
  "load_extents f es s =
    upd_file f (\<lambda>zf. zf\<lparr>f_extents := f_extents zf @ unleveled es\<rparr>) (charge_extents es s)"

text \<open>The fields of a file that the log stores, in a fresh object.\<close>

definition stored_fields :: "zonefile \<Rightarrow> extent list \<Rightarrow> zonefile \<Rightarrow> zonefile" where
  "stored_fields zf es old = old
    \<lparr>f_file_id := f_file_id zf, f_file_size := f_file_size zf, f_lifetime := f_lifetime zf,
     f_extents := f_extents old @ unleveled es, f_m_time := f_m_time zf, f_extent_start := f_extent_start zf,
     f_is_sparse := (f_is_sparse zf \<or> f_is_sparse old), f_linkfiles := f_linkfiles old @ f_linkfiles zf\<rparr>"

lemma extent_unleveled:
  "\<lparr>e_start = e_start e, e_length = e_length e, e_zone = e_zone e, e_level = l\<rparr> = e\<lparr>e_level := l\<rparr>"
  by (cases e) simp

context coding_laws
begin

lemma length_extent: "length (ZoneExtent_EncodeTo c e) = 16"
  by (simp add: ZoneExtent_EncodeTo_def)

lemma extent_roundtrip: "ZoneExtent_DecodeFrom c (ZoneExtent_EncodeTo c e) = (OK, e_start e, e_length e)"
  unfolding ZoneExtent_DecodeFrom_def using length_extent [of e]
  by (simp add: ZoneExtent_EncodeTo_def)

lemma loop_step:
  "decode_field c be f tag rest s = (OK, rest', s') \<Longrightarrow>
    DecodeFrom_loop c be f (EncodeFixed32 c tag @ rest) s = DecodeFrom_loop c be f rest' s'"
  by (subst DecodeFrom_loop.simps) simp

lemma loop_end [simp]: "DecodeFrom_loop c be f [] s = Some (OK, s)"
  by (subst DecodeFrom_loop.simps) simp

lemma loop_extents:
  assumes "\<forall>e \<in> set es. GetIOZone be (e_start e) s = Some (e_zone e)"
  shows "DecodeFrom_loop c be f (encode_extents c es @ rest) s =
    DecodeFrom_loop c be f rest (load_extents f es s)"
  using assms
proof (induction es arbitrary: s)
  case Nil
  then show ?case by (simp add: encode_extents_def load_extents_def upd_file_def)
next
  case (Cons e es)
  let ?s = "upd_file f (\<lambda>zf. zf\<lparr>f_extents := f_extents zf @ [e\<lparr>e_level := -1\<rparr>]\<rparr>)
    (charge (e_zone e) (e_length e) s)"
  have "DecodeFrom_loop c be f (encode_extents c (e # es) @ rest) s =
      DecodeFrom_loop c be f (encode_extents c es @ rest) ?s"
    using Cons.prems extent_roundtrip [of e] get_slice [of "ZoneExtent_EncodeTo c e"]
    by (simp add: encode_extents_def) (rule loop_step, simp add: decode_field_def length_extent extent_unleveled)
  also have "\<dots> = DecodeFrom_loop c be f rest (load_extents f es ?s)"
    by (rule Cons.IH) (use Cons.prems in simp)
  also have "load_extents f es ?s = load_extents f (e # es) s"
    by (simp add: load_extents_def charge_extents_upd_file)
  finally show ?case .
qed

lemma loop_links:
  assumes "\<forall>l \<in> set ls. l \<noteq> [] \<and> length l < 2 ^ 32"
  shows "DecodeFrom_loop c be f (encode_links c ls) s =
    Some (OK, upd_file f (\<lambda>zf. zf\<lparr>f_linkfiles := f_linkfiles zf @ ls\<rparr>) s)"
  using assms
proof (induction ls arbitrary: s)
  case Nil
  then show ?case by (simp add: encode_links_def upd_file_def)
next
  case (Cons l ls)
  let ?s = "upd_file f (\<lambda>zf. zf\<lparr>f_linkfiles := f_linkfiles zf @ [l]\<rparr>) s"
  have "string_bytes l \<noteq> []" using Cons.prems by (metis bytes_string_Nil_iff bytes_string_bytes list.set_intros(1))
  then have "DecodeFrom_loop c be f (encode_links c (l # ls)) s = DecodeFrom_loop c be f (encode_links c ls) ?s"
    using Cons.prems get_slice [of "string_bytes l"]
    by (simp add: encode_links_def) (rule loop_step, simp add: decode_field_def)
  also have "\<dots> = Some (OK, upd_file f (\<lambda>zf. zf\<lparr>f_linkfiles := f_linkfiles zf @ ls\<rparr>) ?s)"
    by (rule Cons.IH) (use Cons.prems in simp)
  finally show ?case by simp
qed

lemma DecodeFrom_EncodeTo:
  assumes "\<forall>e \<in> set (drop (unat k) (f_extents zf)). GetIOZone be (e_start e) s = Some (e_zone e)"
    and "\<forall>l \<in> set (f_linkfiles zf). l \<noteq> [] \<and> length l < 2 ^ 32"
  shows "ZoneFile_DecodeFrom c be f (ZoneFile_EncodeTo c zf k) s =
    Some (OK, upd_file f (\<lambda>old. MetadataSynced (stored_fields zf (drop (unat k) (f_extents zf)) old))
      (charge_extents (drop (unat k) (f_extents zf)) s))"
proof -
  let ?es = "drop (unat k) (f_extents zf)"
  let ?s1 = "upd_file f (\<lambda>x. x\<lparr>f_file_id := f_file_id zf, f_file_size := f_file_size zf, f_lifetime := f_lifetime zf\<rparr>) s"
  let ?s2 = "upd_file f (\<lambda>x. x\<lparr>f_m_time := f_m_time zf, f_extent_start := f_extent_start zf\<rparr>) (load_extents f ?es ?s1)"
  let ?s3 = "if f_is_sparse zf then upd_file f (f_is_sparse_update (\<lambda>_. True)) ?s2 else ?s2"
  have es: "\<forall>e \<in> set ?es. GetIOZone be (e_start e) ?s1 = Some (e_zone e)" using assms(1) by simp
  have fields: "ZoneFile_DecodeFrom c be f (ZoneFile_EncodeTo c zf k) s =
      map_option (\<lambda>(st, s1). if st \<noteq> OK then (st, s1) else (OK, upd_file f MetadataSynced s1))
        (DecodeFrom_loop c be f (encode_extents c ?es @ PutFixed32 c kModificationTime @ PutFixed64 c (f_m_time zf) @
          PutFixed32 c kActiveExtentStart @ PutFixed64 c (f_extent_start zf) @
          (if f_is_sparse zf then PutFixed32 c kIsSparse else []) @ encode_links c (f_linkfiles zf)) ?s1)"
    by (simp add: ZoneFile_DecodeFrom_def ZoneFile_EncodeTo_def loop_step decode_field_def split: option.split)
  also have "\<dots> = map_option (\<lambda>(st, s1). if st \<noteq> OK then (st, s1) else (OK, upd_file f MetadataSynced s1))
      (DecodeFrom_loop c be f ((if f_is_sparse zf then PutFixed32 c kIsSparse else []) @ encode_links c (f_linkfiles zf)) ?s2)"
    by (simp add: loop_extents [OF es] loop_step decode_field_def)
  also have "\<dots> = map_option (\<lambda>(st, s1). if st \<noteq> OK then (st, s1) else (OK, upd_file f MetadataSynced s1))
      (DecodeFrom_loop c be f (encode_links c (f_linkfiles zf)) ?s3)"
    by (simp add: loop_step decode_field_def)
  also have "\<dots> = Some (OK, upd_file f (\<lambda>old. MetadataSynced (stored_fields zf ?es old)) (charge_extents ?es s))"
    by (auto simp: loop_links [OF assms(2)] load_extents_def charge_extents_upd_file stored_fields_def
        intro!: arg_cong2 [where f = "\<lambda>g. upd_file f g"])
  finally show ?thesis .
qed

text \<open>Decoding returns on every input: every field it accepts shortens the input.\<close>

lemma decode_field_shrinks: "decode_field c be f tag input s = (OK, rest, s') \<Longrightarrow> length rest \<le> length input"
  using get_slice_shrinks get32_length get64_length
  by (fastforce simp: decode_field_def Let_def split: if_splits option.splits prod.splits)

lemma DecodeFrom_loop_returns: "\<exists>r. DecodeFrom_loop c be f input s = Some r"
proof (induction "length input" arbitrary: input s rule: less_induct)
  case less
  show ?case
  proof (cases "GetFixed32 c input")
    case None
    then show ?thesis by (subst DecodeFrom_loop.simps) simp
  next
    case (Some tr)
    obtain tag rest where tr: "tr = (tag, rest)" by fastforce
    obtain st rest' s' where d: "decode_field c be f tag rest s = (st, rest', s')" by (metis prod_cases3)
    show ?thesis
    proof (cases "st = OK")
      case True
      have "length rest' < length input"
        using get32_length [OF Some [unfolded tr]] decode_field_shrinks d True by fastforce
      from less [OF this] show ?thesis by (subst DecodeFrom_loop.simps) (simp add: Some tr d True)
    qed (subst DecodeFrom_loop.simps, simp add: Some tr d)
  qed
qed

end

section \<open>Properties\<close>

lemma ClearExtents_loop_used:
  assumes "dynamic_level_adjustment (params s) = 0"
  shows "ClearExtents_loop es s = Some (s\<lparr>zheap := (\<lambda>p. (zheap s p)\<lparr>z_used :=
    z_used (zheap s p) - (\<Sum>e\<leftarrow>filter (\<lambda>e. e_zone e = p) es. e_length e)\<rparr>)\<rparr>)"
  using assms
proof (induction es arbitrary: s)
  case (Cons e es)
  let ?s = "upd_zone (e_zone e) (\<lambda>z. z\<lparr>z_used := z_used z - e_length e\<rparr>) s"
  have p: "params ?s = params s" by (simp add: upd_zone_def)
  have "ClearExtents_loop (e # es) s = ClearExtents_loop es ?s"
    using Cons.prems by (simp add: Let_def p)
  with Cons.IH [of ?s] Cons.prems show ?case
    by (simp add: p) (auto simp: upd_zone_def fun_eq_iff algebra_simps intro!: arg_cong2 [where f = "\<lambda>h. zheap_update h"])
qed simp

lemma MergeUpdate_append:
  assumes "u \<noteq> f" "f_file_id (fheap s f) = f_file_id (fheap s u)"
  shows "MergeUpdate f u False s = Some (OK, upd_file f (\<lambda>zf. (MetadataSynced (zf
    \<lparr>f_file_size := f_file_size (fheap s u), f_lifetime := f_lifetime (fheap s u), f_m_time := f_m_time (fheap s u),
     f_extents := f_extents zf @ unleveled (f_extents (fheap s u)),
     f_extent_start := f_extent_start (fheap s u), f_is_sparse := f_is_sparse (fheap s u)\<rparr>))
    \<lparr>f_linkfiles := f_linkfiles (fheap s u)\<rparr>) (charge_extents (f_extents (fheap s u)) s))"
  using assms by (simp add: MergeUpdate_def Let_def charge_extents_upd_file)

text \<open>
  C15: Snapshot of a file. Decoding what \<open>EncodeSnapshotTo\<close> wrote into a fresh file object succeeds and
  restores the identifier, size, lifetime hint, modification time, open extent, sparseness, names and
  all extents with their zones, marks them as synced, and charges each zone with the bytes of the
  extents in it, and nothing else.
\<close>

theorem ZoneFile_snapshot_roundtrip:
  assumes "coding_laws c" "fheap s f = ZoneFile_new 0"
    and "\<forall>e \<in> set (f_extents zf). GetIOZone be (e_start e) s = Some (e_zone e)"
    and "\<forall>l \<in> set (f_linkfiles zf). l \<noteq> [] \<and> length l < 2 ^ 32"
  shows "\<exists>s'. ZoneFile_DecodeFrom c be f (EncodeSnapshotTo_file c zf) s = Some (OK, s') \<and>
    fheap s' = (fheap s)(f := MetadataSynced ((ZoneFile_new (f_file_id zf))
      \<lparr>f_file_size := f_file_size zf, f_lifetime := f_lifetime zf, f_m_time := f_m_time zf,
       f_extent_start := f_extent_start zf, f_is_sparse := f_is_sparse zf, f_linkfiles := f_linkfiles zf,
       f_extents := map (\<lambda>e. e\<lparr>e_level := -1\<rparr>) (f_extents zf)\<rparr>)) \<and>
    (\<forall>p. zheap s' p = (zheap s p)\<lparr>z_used := z_used (zheap s p) +
       (\<Sum>e\<leftarrow>filter (\<lambda>e. e_zone e = p) (f_extents zf). e_length e)\<rparr>) \<and>
    io_zones s' = io_zones s \<and> dev s' = dev s"
proof -
  have "stored_fields zf (f_extents zf) (ZoneFile_new 0) = (ZoneFile_new (f_file_id zf))
      \<lparr>f_file_size := f_file_size zf, f_lifetime := f_lifetime zf, f_m_time := f_m_time zf,
       f_extent_start := f_extent_start zf, f_is_sparse := f_is_sparse zf, f_linkfiles := f_linkfiles zf,
       f_extents := map (\<lambda>e. e\<lparr>e_level := -1\<rparr>) (f_extents zf)\<rparr>"
    by (simp add: stored_fields_def ZoneFile_new_def)
  then show ?thesis
    using coding_laws.DecodeFrom_EncodeTo [OF assms(1), of 0 zf be s f] assms(2-4)
    by (simp add: EncodeSnapshotTo_file_def charge_extents_used)
      (simp add: upd_file_def)
qed

definition sample_file :: zonefile where
  "sample_file = (ZoneFile_new 7)\<lparr>f_file_size := 96, f_extents := [\<lparr>e_start = 4096, e_length = 64, e_zone = 1, e_level = 1\<rparr>,
     \<lparr>e_start = 8256, e_length = 32, e_zone = 2, e_level = 1\<rparr>], f_nr_synced_extents := 1, f_linkfiles := [''a.sst'']\<rparr>"

definition sample_blank :: "ram zbdlib fdev" where
  "sample_blank = sample_fdev\<lparr>fheap := (\<lambda>f. if f = 5 then sample_file\<lparr>f_extents :=
     [\<lparr>e_start = 4096, e_length = 64, e_zone = 1, e_level = -1\<rparr>]\<rparr> else ZoneFile_new 0),
     params := default_params\<lparr>dynamic_level_adjustment := 0\<rparr>\<rparr>"

lemma sample_blank_zones:
  "\<forall>e \<in> set (f_extents sample_file). GetIOZone ram_backend (e_start e) sample_blank = Some (e_zone e)"
  by (simp add: sample_file_def sample_blank_def sample_fdev_def zbd.extend_def GetIOZone_def sample_defs)

theorem ZoneFile_snapshot_roundtrip_witness:
  "\<exists>s'. ZoneFile_DecodeFrom le_coding ram_backend 6 (EncodeSnapshotTo_file le_coding sample_file) sample_blank =
      Some (OK, s') \<and> f_linkfiles (fheap s' 6) = [''a.sst''] \<and> z_used (zheap s' 1) = 764"
proof -
  have f: "fheap sample_blank 6 = ZoneFile_new 0" by (simp add: sample_blank_def)
  have l: "\<forall>l \<in> set (f_linkfiles sample_file). l \<noteq> [] \<and> length l < 2 ^ 32" by (simp add: sample_file_def)
  show ?thesis
    using ZoneFile_snapshot_roundtrip [OF le.coding_laws_axioms f sample_blank_zones l]
    by (auto simp: sample_file_def sample_blank_def sample_fdev_def zbd.extend_def MetadataSynced_def sample_defs)
qed

text \<open>
  C32: Corrupt metadata. Whatever bytes are decoded, \<open>DecodeFrom\<close> returns with a status.
\<close>

theorem ZoneFile_DecodeFrom_returns:
  assumes "coding_laws c"
  shows "\<exists>st s'. ZoneFile_DecodeFrom c be f input s = Some (st, s')"
proof -
  define run where "run = (\<lambda>inp g. the (DecodeFrom_loop c be f inp (upd_file f g s)))"
  have "DecodeFrom_loop c be f inp (upd_file f g s) = Some (run inp g)" for inp g
    using coding_laws.DecodeFrom_loop_returns [OF assms, of be f inp "upd_file f g s"] by (auto simp: run_def)
  then show ?thesis by (simp add: ZoneFile_DecodeFrom_def split: option.split prod.split)
qed

theorem ZoneFile_DecodeFrom_returns_witness:
  "\<exists>st s'. ZoneFile_DecodeFrom le_coding ram_backend 6 [1, 0, 0, 0, 9, 9] sample_blank = Some (st, s')"
  by (rule ZoneFile_DecodeFrom_returns) (rule le.coding_laws_axioms)



text \<open>
  Dropping a decoded file. With dynamic level adjustment (the default) a file object that came from
  the metadata log, and so has extents without a level, cannot be destroyed: \<open>ClearExtents\<close> calls
  \<open>UpdateBytesOfLevel\<close> with level -1, which indexes the vector with -1.
\<close>

theorem ClearExtents_decoded_undefined:
  assumes "dynamic_level_adjustment (params s) \<noteq> 0" "f_extents (fheap s f) \<noteq> []"
    and "\<forall>e \<in> set (f_extents (fheap s f)). e_level e = -1"
  shows "ClearExtents f s = None"
  using assms by (cases "f_extents (fheap s f)")
    (auto simp: ClearExtents_def Let_def UpdateBytesOfLevel_def upd_zone_def)

theorem ClearExtents_decoded_undefined_witness:
  "ClearExtents 5 (sample_blank\<lparr>params := default_params\<rparr>) = None"
  by (rule ClearExtents_decoded_undefined) (simp_all add: sample_blank_def default_params_def)

end
