(* ===== verification/Zone_Read.thy ===== *)
theory Zone_Read
  imports Zone_Codec
begin

text \<open>
  Reading a file: \<open>GetExtent\<close>, \<open>PositionedRead\<close> and \<open>InvalidateCache\<close> of class \<open>ZoneFile\<close>
  (\<open>src/fs/zbd_zonefile_zenfs.cc\<close>). The specification is the content of the file: the bytes its
  extents hold on the media, one after the other. \<open>PositionedRead\<close> is shown to return exactly the
  requested part of it.

  The caller's buffer is represented by the bytes the result slice shows; a direct read whose length
  is rounded up to a block also writes after them, which callers of direct reads provide room for.
\<close>

section \<open>Operations\<close>

fun GetExtent :: "u64 \<Rightarrow> extent list \<Rightarrow> (extent \<times> u64) option" where
  "GetExtent off [] = None"
| "GetExtent off (e # es) =
    (if off < e_length e then Some (e, e_start e + off) else GetExtent (off - e_length e) es)"

text \<open>Passing a \<open>size_t\<close> as the \<open>int\<close> parameter of \<open>ZonedBlockDevice::Read\<close>.\<close>

definition int_of_size :: "u64 \<Rightarrow> int" where
  "int_of_size n = sint (ucast n :: u32)"

partial_function (option) PositionedRead_loop ::
  "('d, 'b) backend_scheme \<Rightarrow> bool \<Rightarrow> extent list \<Rightarrow> u64 \<Rightarrow> u64 \<Rightarrow> byte list \<Rightarrow> u64 \<Rightarrow> u64 \<Rightarrow> u64 \<Rightarrow> int
     \<Rightarrow> ('d, 'm) fdev_scheme \<Rightarrow> (int \<times> byte list \<times> ('d, 'm) fdev_scheme) option" where
  "PositionedRead_loop be direct es offset r_sz ptr read r_off extent_end r s =
    (if read = r_sz then Some (r, ptr, s)
     else
       let bs = ucast (be_block_sz be (dev s));
           rem = r_sz - read;
           pread_sz = (if rem + r_off > extent_end then extent_end - r_off else rem);
           aligned = (pread_sz mod bs = 0);
           bytes_to_align = (if direct \<and> \<not> aligned then bs - pread_sz mod bs else 0)
       in if bs = 0 then None
          else case Zbd_Read be r_off (int_of_size (pread_sz + bytes_to_align))
                 (direct \<and> (direct \<or> aligned)) s of
            None \<Rightarrow> None
          | Some (r, buf, s1) \<Rightarrow>
              if r \<le> 0 then Some (r, ptr, s1)
              else
                let got = (if of_int r \<le> pread_sz then of_int r else pread_sz);
                    ptr' = ptr @ take (unat got) buf;
                    read' = read + got;
                    r_off' = r_off + got
                in if read' \<noteq> r_sz \<and> r_off' = extent_end then
                     (case GetExtent (offset + read') es of
                        None \<Rightarrow> Some (r, ptr', s1)
                      | Some (e, _) \<Rightarrow>
                          PositionedRead_loop be direct es offset r_sz ptr' read' (e_start e)
                            (e_start e + e_length e) r s1)
                   else PositionedRead_loop be direct es offset r_sz ptr' read' r_off' extent_end r s1)"

declare PositionedRead_loop.simps [code]

definition PositionedRead :: "('d, 'b) backend_scheme \<Rightarrow> fptr \<Rightarrow> u64 \<Rightarrow> u64 \<Rightarrow> bool \<Rightarrow> ('d, 'm) fdev_scheme
    \<Rightarrow> (IOStatus \<times> byte list \<times> ('d, 'm) fdev_scheme) option" where
  "PositionedRead be f offset n direct s =
    (let zf = fheap s f
     in if offset \<ge> f_file_size zf then Some (OK, [], s)
        else case GetExtent offset (f_extents zf) of
          None \<Rightarrow> Some (OK, [], s)
        | Some (e, r_off) \<Rightarrow>
            let r_sz = (if offset + n > f_file_size zf then f_file_size zf - offset else n)
            in case PositionedRead_loop be direct (f_extents zf) offset r_sz [] 0 r_off
                      (e_start e + e_length e) 0 s of
                 None \<Rightarrow> None
               | Some (r, bytes, s1) \<Rightarrow>
                   if r < 0 then Some (IOError, [], s1) else Some (OK, bytes, s1))"

text \<open>The loop of \<open>InvalidateCache\<close>; it does not end if the backend accepts ranges of no bytes.\<close>

partial_function (option) InvalidateCache_loop ::
  "('d, 'b) backend_scheme \<Rightarrow> extent list \<Rightarrow> u64 \<Rightarrow> u64 \<Rightarrow> ('d, 'm) fdev_scheme
     \<Rightarrow> (IOStatus \<times> ('d, 'm) fdev_scheme) option" where
  "InvalidateCache_loop be es offset left s =
    (if left = 0 then Some (OK, s)
     else case GetExtent offset es of
       None \<Rightarrow> Some (IOError, s)
     | Some (e, dev_offset) \<Rightarrow>
         let extent_end = e_start e + e_length e;
             sz = min left (extent_end - dev_offset)
         in case Zbd_InvalidateCache be dev_offset sz s of (st, s1) \<Rightarrow>
              if st \<noteq> OK then Some (st, s1)
              else InvalidateCache_loop be es (offset + sz) (left - sz) s1)"

declare InvalidateCache_loop.simps [code]

definition ZoneFile_InvalidateCache :: "('d, 'b) backend_scheme \<Rightarrow> fptr \<Rightarrow> u64 \<Rightarrow> u64 \<Rightarrow> ('d, 'm) fdev_scheme
    \<Rightarrow> (IOStatus \<times> ('d, 'm) fdev_scheme) option" where
  "ZoneFile_InvalidateCache be f pos sz s =
    InvalidateCache_loop be (f_extents (fheap s f)) pos
      (if sz = 0 then f_file_size (fheap s f) else sz) s"

section \<open>The content of a file\<close>

definition content :: "(nat \<Rightarrow> byte) \<Rightarrow> extent list \<Rightarrow> byte list" where
  "content m es = concat (map (\<lambda>e. media_slice m (unat (e_start e)) (unat (e_length e))) es)"

text \<open>Extents end before \<open>lim\<close>.\<close>

definition extents_below :: "nat \<Rightarrow> extent list \<Rightarrow> bool" where
  "extents_below lim es \<longleftrightarrow> list_all (\<lambda>e. unat (e_start e) + unat (e_length e) \<le> lim) es"

definition at_boundary :: "extent list \<Rightarrow> nat \<Rightarrow> bool" where
  "at_boundary es n \<longleftrightarrow> (\<exists>k. n = length (content (\<lambda>_. 0) (take k es)))"

lemma content_simps [simp]:
  "content m [] = []"
  "content m (e # es) = media_slice m (unat (e_start e)) (unat (e_length e)) @ content m es"
  by (simp_all add: content_def)

lemma content_append [simp]: "content m (es @ es') = content m es @ content m es'"
  by (simp add: content_def)

lemma length_content: "length (content m es) = length (content m' es)"
  by (induction es) simp_all

lemma take_media_slice: "k \<le> n \<Longrightarrow> take k (media_slice m pos n) = media_slice m pos k"
  by (metis add_diff_inverse_nat append_eq_conv_conj length_media_slice media_slice_add not_le)

lemma drop_media_slice: "k \<le> n \<Longrightarrow> drop k (media_slice m pos n) = media_slice m (pos + k) (n - k)"
  by (metis add_diff_inverse_nat append_eq_conv_conj length_media_slice media_slice_add not_le)

lemma at_boundary_Cons:
  "at_boundary (e # es) n \<Longrightarrow> n = 0 \<or> (unat (e_length e) \<le> n \<and> at_boundary es (n - unat (e_length e)))"
proof -
  assume "at_boundary (e # es) n"
  then obtain k where k: "n = length (content (\<lambda>_. 0) (take k (e # es)))" by (auto simp: at_boundary_def)
  then show ?thesis by (cases k) (auto simp: at_boundary_def)
qed

text \<open>What \<open>GetExtent\<close> finds: the bytes from the offset to the end of the extent.\<close>

lemma GetExtent_content:
  assumes "GetExtent off es = Some (e, d)" "extents_below lim es" "lim < 2 ^ 64"
  shows "e \<in> set es \<and> unat (e_start e) \<le> unat d \<and> unat d < unat (e_start e) + unat (e_length e) \<and>
    unat (e_start e + e_length e) = unat (e_start e) + unat (e_length e) \<and>
    take (unat (e_start e) + unat (e_length e) - unat d) (drop (unat off) (content m es)) =
      media_slice m (unat d) (unat (e_start e) + unat (e_length e) - unat d) \<and>
    unat off + (unat (e_start e) + unat (e_length e) - unat d) \<le> length (content m es) \<and>
    at_boundary es (unat off + (unat (e_start e) + unat (e_length e) - unat d)) \<and>
    (at_boundary es (unat off) \<longrightarrow> d = e_start e)"
  using assms(1,2)
proof (induction es arbitrary: off)
  case (Cons a es)
  have a: "unat (e_start a) + unat (e_length a) < 2 ^ 64" using Cons.prems(2) assms(3) by (simp add: extents_below_def)
  show ?case
  proof (cases "off < e_length a")
    case True
    then have ed: "e = a" "d = e_start a + off" using Cons.prems(1) by auto
    have off: "unat off < unat (e_length a)" using True by (simp add: word_less_nat_alt)
    have d: "unat d = unat (e_start a) + unat off" using off a by (simp add: ed unat_add_u64)
    have e: "unat (e_start a + e_length a) = unat (e_start a) + unat (e_length a)" using a by (simp add: unat_add_u64)
    have "at_boundary (a # es) (unat (e_length a))"
      unfolding at_boundary_def by (intro exI [of _ 1]) simp
    moreover have "at_boundary (a # es) (unat off) \<longrightarrow> d = e_start a"
      using off at_boundary_Cons [of a es "unat off"] by (auto simp: ed unat_eq_0)
    ultimately show ?thesis
      using off by (simp add: ed(1) d e drop_media_slice)
  next
    case False
    then have off: "unat (e_length a) \<le> unat off" "unat (off - e_length a) = unat off - unat (e_length a)"
      by (simp_all add: word_le_nat_alt unat_sub_u64 not_less)
    have G: "GetExtent (off - e_length a) es = Some (e, d)" "extents_below lim es"
      using False Cons.prems by (auto simp: extents_below_def)
    note IH = Cons.IH [OF G]
    let ?k = "unat (e_start e) + unat (e_length e) - unat d"
    have "at_boundary es (unat off - unat (e_length a) + ?k)" using IH unfolding off(2) by blast
    then obtain k where "unat off - unat (e_length a) + ?k = length (content (\<lambda>_. 0) (take k es))"
      unfolding at_boundary_def by blast
    then have "at_boundary (a # es) (unat off + ?k)"
      using off unfolding at_boundary_def by (intro exI [of _ "Suc k"]) simp
    moreover have "at_boundary (a # es) (unat off) \<longrightarrow> d = e_start e"
    proof
      assume "at_boundary (a # es) (unat off)"
      from at_boundary_Cons [OF this] have "at_boundary es (unat off - unat (e_length a))"
        using off by (auto simp: at_boundary_def intro: exI [of _ 0])
      then show "d = e_start e" using IH off by simp
    qed
    ultimately show ?thesis using IH off by auto
  qed
qed simp

lemma GetExtent_None: "GetExtent off es = None \<Longrightarrow> length (content m es) \<le> unat off"
proof (induction es arbitrary: off)
  case (Cons a es)
  then have n: "e_length a \<le> off" "GetExtent (off - e_length a) es = None" by (auto split: if_splits)
  from Cons.IH [OF n(2)] n(1)
  have "length (content m es) \<le> unat off - unat (e_length a)" "unat (e_length a) \<le> unat off"
    by (simp_all add: word_le_nat_alt unat_sub_u64)
  then show ?case by simp
qed simp

section \<open>The read loop returns the content\<close>

text \<open>Reads that end below \<open>lim\<close> return data: \<open>pread\<close> returns 0 only at the end of the device.\<close>

definition reads_nonempty :: "('d, 'b) backend_scheme \<Rightarrow> nat \<Rightarrow> bool" where
  "reads_nonempty be lim \<longleftrightarrow> (\<forall>n pos direct d r e bytes d'.
     be_Read be n pos direct d = (r, e, bytes, d') \<and> 0 < n \<and> unat pos + nat n \<le> lim \<longrightarrow> r \<noteq> 0)"

text \<open>No read reports an error.\<close>

definition reads_succeed :: "('d, 'b) backend_scheme \<Rightarrow> bool" where
  "reads_succeed be \<longleftrightarrow> (\<forall>n pos direct d. 0 \<le> n \<longrightarrow> 0 \<le> fst (be_Read be n pos direct d))"

lemma int_of_size_small: "unat n < 2 ^ 31 \<Longrightarrow> int_of_size n = int (unat n)"
proof -
  assume "unat n < 2 ^ 31"
  then have "int (unat n) < int (2 ^ 31)" by (simp only: of_nat_less_iff)
  then have n: "uint n < 2 ^ 31" by simp
  then have "uint (ucast n :: u32) = uint n"
    by (simp add: unsigned_ucast_eq take_bit_int_eq_self)
  moreover have "signed_take_bit 31 (uint n) = uint n"
    using n order_trans [of "- 2147483648" 0 "uint n"] by (intro signed_take_bit_int_eq_self) simp_all
  ultimately show ?thesis by (simp add: int_of_size_def sint_uint)
qed

text \<open>
  The loop invariant: \<open>ptr\<close> holds the bytes read so far, and as long as there are bytes left to read
  the range from \<open>r_off\<close> to \<open>ee\<close> is the rest of an extent and holds the bytes that follow.
\<close>

definition reading :: "(nat \<Rightarrow> byte) \<Rightarrow> nat \<Rightarrow> extent list \<Rightarrow> nat \<Rightarrow> nat \<Rightarrow> nat \<Rightarrow> nat \<Rightarrow> nat \<Rightarrow> bool" where
  "reading m hi es offset r_sz rd r_off ee \<longleftrightarrow> rd \<le> r_sz \<and> offset + rd \<le> length (content m es) \<and>
    (rd < r_sz \<longrightarrow> r_off < ee \<and> ee \<le> hi \<and> offset + rd + (ee - r_off) \<le> length (content m es) \<and>
       take (ee - r_off) (drop (offset + rd) (content m es)) = media_slice m r_off (ee - r_off) \<and>
       at_boundary es (offset + rd + (ee - r_off)))"

lemma reading_advance:
  assumes "reading m hi es offset r_sz rd r_off ee" "rd < r_sz" "g \<le> r_sz - rd" "g \<le> ee - r_off"
  shows "take (rd + g) (drop offset (content m es)) =
      take rd (drop offset (content m es)) @ media_slice m r_off g"
    and "rd + g = r_sz \<or> r_off + g < ee \<Longrightarrow> reading m hi es offset r_sz (rd + g) (r_off + g) ee"
proof -
  let ?c = "content m es"
  have I: "r_off < ee" "offset + rd + (ee - r_off) \<le> length ?c"
    "take (ee - r_off) (drop (offset + rd) ?c) = media_slice m r_off (ee - r_off)"
    using assms by (auto simp: reading_def)
  have "take g (drop (offset + rd) ?c) = take g (media_slice m r_off (ee - r_off))"
    using I(3) assms(4) by (metis min_absorb1 take_take)
  then show "take (rd + g) (drop offset ?c) = take rd (drop offset ?c) @ media_slice m r_off g"
    using assms(4) by (simp add: take_add take_media_slice add.commute [of rd offset])
  have "take (ee - (r_off + g)) (drop (offset + (rd + g)) ?c) = media_slice m (r_off + g) (ee - (r_off + g))"
  proof -
    have "drop g (take (ee - r_off) (drop (offset + rd) ?c)) = drop g (media_slice m r_off (ee - r_off))"
      using I(3) by simp
    then show ?thesis using assms(4) by (simp add: drop_take drop_media_slice ac_simps)
  qed
  then show "reading m hi es offset r_sz (rd + g) (r_off + g) ee" if "rd + g = r_sz \<or> r_off + g < ee"
    using assms I(2) that unfolding reading_def by (auto simp: algebra_simps)
qed

lemma reading_next:
  assumes "GetExtent off es = Some (e, d)" "extents_below hi es" "hi < 2 ^ 64" "unat off = offset + rd"
    "rd \<le> r_sz"
  shows "reading m hi es offset r_sz rd (unat d) (unat (e_start e + e_length e)) \<and>
    (at_boundary es (offset + rd) \<longrightarrow> d = e_start e)"
proof -
  note G = GetExtent_content [OF assms(1-3), of m]
  have "unat (e_start e) + unat (e_length e) \<le> hi"
    using G assms(2) by (auto simp: extents_below_def list_all_iff)
  then show ?thesis using G assms(4,5) unfolding reading_def by (auto simp: add.assoc)
qed

context steady_storage
begin

lemma Zbd_Read_loop_step:
  assumes R: "be_Read be left offset direct (dev s) = (r1, e, bytes, d)"
  shows "Zbd_Read_loop be buf offset left direct r ret s =
    (if left = 0 then Some (if r < 0 then r else ret, buf, s)
     else if r1 \<le> 0 then Some (if r1 < 0 then r1 else ret, buf, s\<lparr>dev := d\<rparr>)
     else Zbd_Read_loop be (buf @ take (nat r1) bytes) (offset + of_int r1) (left - r1) direct r1 (ret + r1)
       (s\<lparr>dev := d\<rparr>))"
proof -
  have "\<not> e" "0 < r1 \<Longrightarrow> r1 \<le> left" using read_steady [OF R] read_bytes [OF R] by auto
  then show ?thesis by (subst Zbd_Read_loop.simps) (auto simp: R Let_def)
qed

lemma Zbd_Read_loop_nonzero:
  assumes "reads_nonempty be lim" "lim < 2 ^ 64"
    and "Zbd_Read_loop be buf offset left direct r ret s = Some (v, buf', s')"
    and "0 \<le> left" "0 \<le> ret" "0 < ret + left" "unat offset + nat left \<le> lim"
  shows "v \<noteq> 0 \<and> (\<exists>d. s' = s\<lparr>dev := d\<rparr>) \<and> (reads_succeed be \<and> (left = 0 \<longrightarrow> 0 \<le> r) \<longrightarrow> 0 < v)"
  using assms(3-)
proof (induction "nat left" arbitrary: buf offset left r ret s rule: less_induct)
  case less
  obtain r1 e bytes d where R: "be_Read be left offset direct (dev s) = (r1, e, bytes, d)"
    by (metis prod_cases4)
  note S = Zbd_Read_loop_step [OF R, of buf r ret]
  consider (fin) "left = 0" | (err) "left \<noteq> 0" "r1 \<le> 0" | (more) "left \<noteq> 0" "0 < r1" by linarith
  then show ?case
  proof cases
    case fin
    then show ?thesis using less.prems S by (auto intro: exI [of _ "dev s"])
  next
    case err
    have "r1 \<noteq> 0" using assms(1) R err less.prems unfolding reads_nonempty_def by (metis less_le)
    moreover have "\<not> reads_succeed be" if "r1 < 0"
      using that R less.prems unfolding reads_succeed_def by (metis fst_conv not_le)
    ultimately show ?thesis using less.prems S err by auto
  next
    case more
    have le: "r1 \<le> left" using read_bytes [OF R] more by simp
    have "(of_int r1 :: u64) = of_nat (nat r1)" using more by simp
    then have off: "unat (offset + of_int r1) = unat offset + nat r1"
      using more le less.prems(2,5) assms(2) by (simp add: unat_add_u64 unat_of_nat_u64 del: of_nat_nat)
    show ?thesis
      using less.hyps [of "left - r1" "buf @ take (nat r1) bytes" "offset + of_int r1" r1 "ret + r1" "s\<lparr>dev := d\<rparr>"]
        S more le off less.prems by auto
  qed
qed

lemma Zbd_Read_ok:
  assumes "reads_nonempty be lim" "lim < 2 ^ 64" "0 < n" "unat offset + nat n \<le> lim"
  shows "\<exists>r buf d. Zbd_Read be offset n direct s = Some (r, buf, s\<lparr>dev := d\<rparr>) \<and> media d = media (dev s) \<and>
    geometry be d = geometry be (dev s) \<and> r \<noteq> 0 \<and> (reads_succeed be \<longrightarrow> 0 < r) \<and>
    (0 < r \<longrightarrow> r \<le> n \<and> buf = media_slice (media (dev s)) (unat offset) (nat r))"
proof -
  obtain r buf s' where R: "Zbd_Read be offset n direct s = Some (r, buf, s')"
    using Zbd_Read_loop_returns [of n "[]" offset direct "-1" 0 s] assms(3) by (auto simp: Zbd_Read_def)
  note L = R [unfolded Zbd_Read_def]
  obtain d where d: "r \<noteq> 0" "s' = s\<lparr>dev := d\<rparr>" "reads_succeed be \<longrightarrow> 0 < r"
    using Zbd_Read_loop_nonzero [OF assms(1,2) L] assms(3,4) by auto
  show ?thesis
    using Zbd_Read_loop_media [OF L] assms(2-4) d R by auto
qed

lemma PositionedRead_step:
  assumes ne: "reads_nonempty be lim" "lim + 2 ^ 31 < 2 ^ 64"
    and sz: "unat r_sz + bsz < 2 ^ 31" "unat read < unat r_sz"
    and bs: "bsz = unat (be_block_sz be (dev s))" "0 < bsz"
    and ext: "unat r_off < unat ee" "unat ee + bsz \<le> lim"
  shows "\<exists>r1 d. media d = media (dev s) \<and> geometry be d = geometry be (dev s) \<and>
    (r1 < 0 \<and> \<not> reads_succeed be \<and> PositionedRead_loop be direct es offset r_sz ptr read r_off ee r s = Some (r1, ptr, s\<lparr>dev := d\<rparr>) \<or>
     0 < r1 \<and> (\<exists>g. 0 < unat g \<and> unat g \<le> unat r_sz - unat read \<and> unat g \<le> unat ee - unat r_off \<and>
       PositionedRead_loop be direct es offset r_sz ptr read r_off ee r s =
        (let ptr' = ptr @ media_slice (media (dev s)) (unat r_off) (unat g)
         in if read + g \<noteq> r_sz \<and> r_off + g = ee then
              (case GetExtent (offset + (read + g)) es of
                 None \<Rightarrow> Some (r1, ptr', s\<lparr>dev := d\<rparr>)
               | Some (e, _) \<Rightarrow> PositionedRead_loop be direct es offset r_sz ptr' (read + g) (e_start e)
                   (e_start e + e_length e) r1 (s\<lparr>dev := d\<rparr>))
            else PositionedRead_loop be direct es offset r_sz ptr' (read + g) (r_off + g) ee r1 (s\<lparr>dev := d\<rparr>))))"
proof -
  define bs :: u64 where "bs = ucast (be_block_sz be (dev s))"
  define p where "p = (if (r_sz - read) + r_off > ee then ee - r_off else r_sz - read)"
  define pad where "pad = (if direct \<and> p mod bs \<noteq> 0 then bs - p mod bs else 0)"
  have ubs: "unat bs = bsz" using bs(1) by (simp add: bs_def unat_ucast_u64)
  have rem: "unat (r_sz - read) = unat r_sz - unat read"
    using sz(2) by (intro unat_sub_u64) (simp add: word_le_nat_alt)
  have "unat (r_sz - read + r_off) = unat (r_sz - read) + unat r_off"
    using ext sz ne(2) rem by (intro unat_add_u64) linarith
  moreover have "unat (ee - r_off) = unat ee - unat r_off"
    using ext(1) by (intro unat_sub_u64) (simp add: word_le_nat_alt)
  ultimately have p: "unat p = min (unat r_sz - unat read) (unat ee - unat r_off)"
    using rem by (auto simp: p_def word_less_nat_alt)
  have "unat (p mod bs) < bsz" using bs(2) by (simp add: unat_mod ubs)
  then have pad: "unat pad \<le> bsz"
    by (auto simp: pad_def ubs unat_sub_u64 word_le_nat_alt)
  have pp: "unat (p + pad) = unat p + unat pad"
    using p pad sz by (intro unat_add_u64) auto
  have n: "int_of_size (p + pad) = int (unat p + unat pad)"
    using p pad sz pp by (subst int_of_size_small) auto
  obtain r1 buf d where Z: "Zbd_Read be r_off (int_of_size (p + pad)) direct s = Some (r1, buf, s\<lparr>dev := d\<rparr>)"
    "media d = media (dev s)" "geometry be d = geometry be (dev s)" "r1 \<noteq> 0" "reads_succeed be \<longrightarrow> 0 < r1"
    "0 < r1 \<longrightarrow> r1 \<le> int (unat p + unat pad) \<and> buf = media_slice (media (dev s)) (unat r_off) (nat r1)"
  proof -
    have "0 < int (unat p + unat pad)" "unat r_off + nat (int (unat p + unat pad)) \<le> lim"
      unfolding nat_int using p pad ext sz by linarith+
    from Zbd_Read_ok [OF ne(1) _ this, of direct s] ne(2) that show ?thesis
      unfolding n by (simp del: of_nat_add) blast
  qed
  define g where "g = (if of_int r1 \<le> p then of_int r1 else p)"
  have step: "PositionedRead_loop be direct es offset r_sz ptr read r_off ee r s =
    (if r1 \<le> 0 then Some (r1, ptr, s\<lparr>dev := d\<rparr>)
     else let ptr' = ptr @ take (unat g) buf
         in if read + g \<noteq> r_sz \<and> r_off + g = ee then
              (case GetExtent (offset + (read + g)) es of
                 None \<Rightarrow> Some (r1, ptr', s\<lparr>dev := d\<rparr>)
               | Some (e, _) \<Rightarrow> PositionedRead_loop be direct es offset r_sz ptr' (read + g) (e_start e)
                   (e_start e + e_length e) r1 (s\<lparr>dev := d\<rparr>))
            else PositionedRead_loop be direct es offset r_sz ptr' (read + g) (r_off + g) ee r1 (s\<lparr>dev := d\<rparr>))"
  proof -
    have ne: "bs \<noteq> 0" "read \<noteq> r_sz" "(direct \<and> (direct \<or> p mod bs = 0)) = direct"
      using ubs bs(2) sz(2) by auto
    show ?thesis
      by (subst PositionedRead_loop.simps,
          unfold Let_def bs_def [symmetric] p_def [symmetric] pad_def [symmetric])
        (simp add: ne Z(1) split del: if_split, unfold g_def, rule refl)
  qed
  show ?thesis
  proof (cases "0 < r1")
    case False
    then show ?thesis using step Z(2-5) by (intro exI [of _ r1] exI [of _ d]) auto
  next
    case True
    have "(of_int r1 :: u64) = of_nat (nat r1)" using True by simp
    moreover have "nat r1 \<le> unat p + unat pad" using Z(6) True by linarith
    ultimately have "unat (of_int r1 :: u64) = nat r1"
      using unat_of_nat_u64 [of "nat r1"] p pad sz by (simp del: of_nat_nat)
    then have g: "unat g = min (nat r1) (unat p)" by (auto simp: g_def word_le_nat_alt)
    have b: "take (unat g) buf = media_slice (media (dev s)) (unat r_off) (unat g)"
      using Z(6) True g by (simp add: take_media_slice)
    have "0 < unat g" "unat g \<le> unat r_sz - unat read" "unat g \<le> unat ee - unat r_off"
      using g p True sz(2) ext(1) by (auto simp: min_def)
    then show ?thesis using step True Z(2,3) b by (intro exI [of _ r1] exI [of _ d]) auto
  qed
qed

lemma PositionedRead_loop_content:
  assumes ne: "reads_nonempty be lim" "lim + 2 ^ 31 < 2 ^ 64" and es: "extents_below hi es" "hi + bsz \<le> lim"
    and sz: "unat offset + unat r_sz < 2 ^ 64" "unat r_sz + bsz < 2 ^ 31"
    and bs: "bsz = unat (be_block_sz be (dev s))" "0 < bsz" and m: "m = media (dev s)"
    and inv: "reading m hi es (unat offset) (unat r_sz) (unat rd) (unat r_off) (unat ee)"
      "ptr = take (unat rd) (drop (unat offset) (content m es))" "0 \<le> r"
  shows "\<exists>r' bytes d. PositionedRead_loop be direct es offset r_sz ptr rd r_off ee r s =
      Some (r', bytes, s\<lparr>dev := d\<rparr>) \<and> media d = m \<and>
    (r' < 0 \<and> \<not> reads_succeed be \<or> 0 \<le> r' \<and> bytes = take (unat r_sz) (drop (unat offset) (content m es)))"
  using bs m inv
proof (induction "unat r_sz - unat rd" arbitrary: ptr rd r_off ee r s rule: less_induct)
  case less
  show ?case
  proof (cases "rd = r_sz")
    case True
    then show ?thesis
      using less.prems by (subst PositionedRead_loop.simps) (auto intro!: exI [of _ "dev s"])
  next
    case False
    then have lt: "unat rd < unat r_sz"
      using less.prems(4) by (auto simp: reading_def word_unat_eq_iff)
    have ee: "unat r_off < unat ee" "unat ee \<le> hi" using less.prems(4) lt by (auto simp: reading_def)
    then have "unat ee + bsz \<le> lim" using es(2) by simp
    from PositionedRead_step [OF ne sz(2) lt less.prems(1,2) ee(1) this, of direct es offset ptr r]
    obtain r1 d where S: "media d = m" "geometry be d = geometry be (dev s)"
      "r1 < 0 \<and> \<not> reads_succeed be \<and> PositionedRead_loop be direct es offset r_sz ptr rd r_off ee r s = Some (r1, ptr, s\<lparr>dev := d\<rparr>) \<or>
       0 < r1 \<and> (\<exists>g. 0 < unat g \<and> unat g \<le> unat r_sz - unat rd \<and> unat g \<le> unat ee - unat r_off \<and>
       PositionedRead_loop be direct es offset r_sz ptr rd r_off ee r s =
        (let ptr' = ptr @ media_slice m (unat r_off) (unat g)
         in if rd + g \<noteq> r_sz \<and> r_off + g = ee then
              (case GetExtent (offset + (rd + g)) es of
                 None \<Rightarrow> Some (r1, ptr', s\<lparr>dev := d\<rparr>)
               | Some (e, _) \<Rightarrow> PositionedRead_loop be direct es offset r_sz ptr' (rd + g) (e_start e)
                   (e_start e + e_length e) r1 (s\<lparr>dev := d\<rparr>))
            else PositionedRead_loop be direct es offset r_sz ptr' (rd + g) (r_off + g) ee r1 (s\<lparr>dev := d\<rparr>)))"
      using less.prems(3) by blast
    show ?thesis
    proof (cases "r1 < 0")
      case True
      then show ?thesis using S by auto
    next
      case False
      then obtain g where g: "0 < r1" "0 < unat g" "unat g \<le> unat r_sz - unat rd" "unat g \<le> unat ee - unat r_off"
        and L: "PositionedRead_loop be direct es offset r_sz ptr rd r_off ee r s =
          (let ptr' = ptr @ media_slice m (unat r_off) (unat g)
         in if rd + g \<noteq> r_sz \<and> r_off + g = ee then
              (case GetExtent (offset + (rd + g)) es of
                 None \<Rightarrow> Some (r1, ptr', s\<lparr>dev := d\<rparr>)
               | Some (e, _) \<Rightarrow> PositionedRead_loop be direct es offset r_sz ptr' (rd + g) (e_start e)
                   (e_start e + e_length e) r1 (s\<lparr>dev := d\<rparr>))
            else PositionedRead_loop be direct es offset r_sz ptr' (rd + g) (r_off + g) ee r1 (s\<lparr>dev := d\<rparr>))"
        using S(3) by blast
      define ptr' where "ptr' = ptr @ media_slice m (unat r_off) (unat g)"
      have u: "unat (rd + g) = unat rd + unat g" "unat (r_off + g) = unat r_off + unat g"
        "unat (offset + (rd + g)) = unat offset + (unat rd + unat g)"
        using g lt ee sz(1) unat_lt_u64 [of ee] unat_lt_u64 [of r_sz] by (simp_all add: unat_add_u64)
      have p': "ptr' = take (unat (rd + g)) (drop (unat offset) (content m es))"
        using reading_advance(1) [OF less.prems(4) lt g(3,4)] less.prems(5) by (simp add: ptr'_def u)
      have bz: "be_block_sz be d = be_block_sz be (dev s)" using S(2) by (simp add: geometry_def)
      have dec: "unat r_sz - unat (rd + g) < unat r_sz - unat rd" using g(2,3) u lt by simp
      have IH: "\<exists>r' bytes d'. PositionedRead_loop be direct es offset r_sz ptr' (rd + g) ro e' r1 (s\<lparr>dev := d\<rparr>) =
          Some (r', bytes, s\<lparr>dev := d'\<rparr>) \<and> media d' = m \<and>
          (r' < 0 \<and> \<not> reads_succeed be \<or> 0 \<le> r' \<and> bytes = take (unat r_sz) (drop (unat offset) (content m es)))"
        if "reading m hi es (unat offset) (unat r_sz) (unat (rd + g)) (unat ro) (unat e')" for ro e'
        using less.hyps [OF dec, of "s\<lparr>dev := d\<rparr>" ro e' ptr' r1] less.prems(1,2) bz S(1) that p' g(1) by simp
      show ?thesis
      proof (cases "rd + g \<noteq> r_sz \<and> r_off + g = ee")
        case False
        have "unat rd + unat g = unat r_sz \<or> unat r_off + unat g < unat ee"
          using False u g(4) ee(1) by (auto simp: word_unat_eq_iff)
        from IH [of "r_off + g" ee] reading_advance(2) [OF less.prems(4) lt g(3,4) this]
        show ?thesis unfolding L Let_def if_not_P [OF False] ptr'_def [symmetric] by (simp add: u)
      next
        case True
        have eq: "unat g = unat ee - unat r_off" using True u by auto
        then have b: "at_boundary es (unat offset + (unat rd + unat g))"
          "unat offset + (unat rd + unat g) \<le> length (content m es)"
          using less.prems(4) lt by (auto simp: reading_def add.assoc)
        show ?thesis
        proof (cases "GetExtent (offset + (rd + g)) es")
          case None
          then have "length (content m es) \<le> unat offset + (unat rd + unat g)"
            using GetExtent_None [OF None, of m] u by simp
          then have "ptr' = take (unat r_sz) (drop (unat offset) (content m es))"
            using p' u g(3) lt by simp
          then show ?thesis using L True None S(1) g(1) by (auto simp: ptr'_def intro!: exI [of _ d])
        next
          case (Some ed)
          obtain e d0 where ed: "ed = (e, d0)" by fastforce
          have "unat rd + unat g \<le> unat r_sz" using g(3) lt by simp
          from reading_next [OF Some [unfolded ed] es(1) _ u(3) this, of m] es(2) ne(2) b(1)
          have "reading m hi es (unat offset) (unat r_sz) (unat rd + unat g) (unat (e_start e))
              (unat (e_start e + e_length e))" by auto
          from IH [of "e_start e" "e_start e + e_length e"] this
          show ?thesis using L True Some ed by (simp add: u ptr'_def)
        qed
      qed
    qed
  qed
qed

end

section \<open>Properties\<close>

lemma PositionedRead_part:
  assumes "steady_storage be media" "reads_nonempty be lim" "lim + 2 ^ 31 < 2 ^ 64"
    and "extents_below hi (f_extents (fheap s f))" "hi + unat (be_block_sz be (dev s)) \<le> lim"
    and "0 < unat (be_block_sz be (dev s))" "unat n + unat (be_block_sz be (dev s)) < 2 ^ 31"
    and "unat offset + unat n < 2 ^ 64"
  shows "\<exists>st bytes d. PositionedRead be f offset n direct s = Some (st, bytes, s\<lparr>dev := d\<rparr>) \<and>
    media d = media (dev s) \<and>
    (st = OK \<and> bytes = take (unat n) (drop (unat offset)
       (take (unat (f_file_size (fheap s f))) (content (media (dev s)) (f_extents (fheap s f))))) \<or>
     st = IOError \<and> bytes = [] \<and> \<not> reads_succeed be)"
proof -
  let ?zf = "fheap s f" and ?m = "media (dev s)"
  let ?es = "f_extents ?zf" and ?fs = "unat (f_file_size ?zf)"
  consider (past) "f_file_size ?zf \<le> offset" | (none) "offset < f_file_size ?zf" "GetExtent offset ?es = None"
    | (some) e d where "offset < f_file_size ?zf" "GetExtent offset ?es = Some (e, d)"
    by (metis not_le not_None_eq surj_pair)
  then show ?thesis
  proof cases
    case past
    then have "PositionedRead be f offset n direct s = Some (OK, [], s\<lparr>dev := dev s\<rparr>)"
      by (simp add: PositionedRead_def Let_def)
    moreover have "?fs \<le> unat offset" using past by (simp add: word_le_nat_alt)
    ultimately show ?thesis by (intro exI [of _ OK] exI [of _ "[]"] exI [of _ "dev s"]) simp
  next
    case none
    then have "PositionedRead be f offset n direct s = Some (OK, [], s\<lparr>dev := dev s\<rparr>)"
      by (simp add: PositionedRead_def Let_def)
    moreover have "length (content ?m ?es) \<le> unat offset" by (rule GetExtent_None [OF none(2)])
    ultimately show ?thesis by (intro exI [of _ OK] exI [of _ "[]"] exI [of _ "dev s"]) simp
  next
    case some
    define r_sz where "r_sz = (if offset + n > f_file_size ?zf then f_file_size ?zf - offset else n)"
    have lt: "unat offset < ?fs" using some(1) by (simp add: word_less_nat_alt)
    have sz: "unat r_sz = min (unat n) (?fs - unat offset)"
      using lt some(1) assms(8)
      by (auto simp: r_sz_def word_less_nat_alt unat_add_u64 unat_sub_u64 word_le_nat_alt min_def)
    have part: "take (unat r_sz) (drop (unat offset) (content ?m ?es)) =
        take (unat n) (drop (unat offset) (take ?fs (content ?m ?es)))"
      by (simp add: sz drop_take min.commute)
    have "reading ?m hi ?es (unat offset) (unat r_sz) (unat (0 :: u64)) (unat d) (unat (e_start e + e_length e))"
      using reading_next [OF some(2) assms(4), of "unat offset" 0 "unat r_sz" ?m] assms(3,5) by simp
    from steady_storage.PositionedRead_loop_content [OF assms(1-5) _ _ refl assms(6) refl this]
    obtain r' bytes d' where
      L: "PositionedRead_loop be direct ?es offset r_sz [] 0 d (e_start e + e_length e) 0 s = Some (r', bytes, s\<lparr>dev := d'\<rparr>)"
      "media d' = ?m" "r' < 0 \<and> \<not> reads_succeed be \<or> 0 \<le> r' \<and> bytes = take (unat r_sz) (drop (unat offset) (content ?m ?es))"
      using assms(7,8) sz by fastforce
    have "PositionedRead be f offset n direct s =
        (if r' < 0 then Some (IOError, [], s\<lparr>dev := d'\<rparr>) else Some (OK, bytes, s\<lparr>dev := d'\<rparr>))"
      using some(2) L(1) linorder_not_le [THEN iffD2, OF some(1)]
      by (simp add: PositionedRead_def Let_def flip: r_sz_def)
    then show ?thesis using L(2,3) part by auto
  qed
qed

text \<open>
  C4: Reading a file. On a device whose reads below \<open>lim\<close> return data, and for a file whose extents lie
  below \<open>lim\<close>, \<open>PositionedRead\<close> returns, leaves media, zones and files alone, and either reports an
  I/O error with an empty result (only if reads of the device can fail) or returns exactly the requested part of the file's content: the bytes
  of its extents from the offset on, at most \<open>n\<close> of them, cut at the size of the file. This holds for
  buffered and direct reads, and across any number of extents.
\<close>

theorem PositionedRead_content:
  assumes "steady_storage be media" "reads_nonempty be lim" "lim + 2 ^ 31 < 2 ^ 64"
    and "extents_below hi (f_extents (fheap s f))" "hi + unat (be_block_sz be (dev s)) \<le> lim"
    and "0 < unat (be_block_sz be (dev s))" "unat n + unat (be_block_sz be (dev s)) < 2 ^ 31"
    and "unat offset + unat n < 2 ^ 64"
  shows "\<exists>st bytes d. PositionedRead be f offset n direct s = Some (st, bytes, s\<lparr>dev := d\<rparr>) \<and>
    media d = media (dev s) \<and>
    (st = OK \<and> bytes = take (unat n) (drop (unat offset)
       (take (unat (f_file_size (fheap s f))) (content (media (dev s)) (f_extents (fheap s f))))) \<or>
     st = IOError \<and> bytes = [] \<and> \<not> reads_succeed be)"
  using assms by (rule PositionedRead_part)

lemma ram_reads_nonempty: "reads_nonempty ram_backend lim"
  by (auto simp: reads_nonempty_def Zbdlib_Read_def ram_kernel_def)

lemma ram_reads_succeed: "reads_succeed ram_backend"
  by (simp add: reads_succeed_def Zbdlib_Read_def ram_kernel_def)

theorem PositionedRead_content_witness:
  "\<exists>bytes d. PositionedRead ram_backend 5 10 70 True sample_blank = Some (OK, bytes, sample_blank\<lparr>dev := d\<rparr>) \<and> length bytes = 54"
proof -
  have "extents_below 16384 (f_extents (fheap sample_blank 5))" "unat (be_block_sz ram_backend (dev sample_blank)) = 64"
    "f_file_size (fheap sample_blank 5) = 96" "length (f_extents (fheap sample_blank 5)) = 1"
    "e_length (hd (f_extents (fheap sample_blank 5))) = 64"
    by (simp_all add: extents_below_def sample_blank_def sample_file_def sample_fdev_def zbd.extend_def sample_defs)
  moreover from this have "length (content m (f_extents (fheap sample_blank 5))) = 64" for m
    by (cases "f_extents (fheap sample_blank 5)") auto
  ultimately show ?thesis
    using PositionedRead_content [OF ram.steady_storage_axioms ram_reads_nonempty,
        of 32768 16384 sample_blank 5 70 10 True] ram_reads_succeed by auto
qed

end
