(* ===== verification/Data_Frame.thy ===== *)
theory Data_Frame
  imports Zone_Allocator Zone_Read
begin

text \<open>
  What an operation that allocates or finishes zones may not touch: the bytes on the media, the zone
  lists, the file objects (up to the members a placement policy computes), and the start and the
  written part of every zone. \<open>AllocateIOZone\<close> is shown to stay within this frame whatever policy it
  runs; the write path builds on it.
\<close>

section \<open>The frame\<close>

text \<open>A zone after it may have been finished.\<close>

definition grown :: "u64 \<Rightarrow> zone \<Rightarrow> zone \<Rightarrow> bool" where
  "grown zsz z z' \<longleftrightarrow> z_start z' = z_start z \<and> z_used z' = z_used z \<and> z_max_capacity z' = z_max_capacity z \<and>
    (z_wp z' = z_wp z \<and> z_capacity z' = z_capacity z \<or> z_wp z' = z_start z + zsz \<and> z_capacity z' = 0)"

lemma grown_refl [simp]: "grown zsz z z" by (simp add: grown_def)

lemma grown_trans: "grown zsz z z' \<Longrightarrow> grown zsz z' z'' \<Longrightarrow> grown zsz z z''"
  by (auto simp: grown_def)

lemma grown_wf: "grown zsz z z' \<Longrightarrow> zone_wf zsz z \<Longrightarrow> zone_wf zsz z'"
  by (auto simp: grown_def zone_wf_def unat_add_u64 word_le_nat_alt)

lemma grown_wp: "grown zsz z z' \<Longrightarrow> zone_wf zsz z \<Longrightarrow> unat (z_wp z) \<le> unat (z_wp z')"
  by (auto simp: grown_def zone_wf_def unat_add_u64)

definition data_frame :: "('d, 'b) backend_scheme \<Rightarrow> ('d \<Rightarrow> nat \<Rightarrow> byte) \<Rightarrow> ('d, 'm) fdev_scheme
    \<Rightarrow> ('d, 'm) fdev_scheme \<Rightarrow> bool" where
  "data_frame be media s s' \<longleftrightarrow> io_zones s' = io_zones s \<and> meta_zones s' = meta_zones s \<and>
    zone_start_to_pointer_map s' = zone_start_to_pointer_map s \<and>
    geometry be (dev s') = geometry be (dev s) \<and> media (dev s') = media (dev s) \<and> same_files s s' \<and>
    (\<forall>p. grown (be_zone_sz be (dev s)) (zheap s p) (zheap s' p)) \<and>
    (\<forall>p. p \<notin> set (io_zones s) \<longrightarrow> z_busy (zheap s p) \<longrightarrow> z_busy (zheap s' p))"

lemma data_frame_refl [simp]: "data_frame be media s s"
  by (simp add: data_frame_def)

lemma data_frame_trans [trans]:
  "data_frame be media s s' \<Longrightarrow> data_frame be media s' s'' \<Longrightarrow> data_frame be media s s''"
  using geometry_zone_sz [of be "dev s'" "dev s"]
  by (auto simp: data_frame_def intro: same_files_trans grown_trans)

text \<open>Changes of the bookkeeping only.\<close>

lemma data_frame_book:
  assumes "data_frame be media s s'" "dev s'' = dev s'" "zheap s'' = zheap s'" "io_zones s'' = io_zones s'"
    "meta_zones s'' = meta_zones s'" "zone_start_to_pointer_map s'' = zone_start_to_pointer_map s'"
    "zbd.more s'' = zbd.more s'"
  shows "data_frame be media s s''"
proof -
  have "fheap s'' = fheap s'" "next_fptr s'' = next_fptr s'" "fdev.more s'' = fdev.more s'"
    using assms(7) by (metis fdev.surjective fdev.select_convs zbd.surjective zbd.select_convs)+
  then show ?thesis using assms by (simp add: data_frame_def same_files_def)
qed

section \<open>Finishing zones\<close>

lemma matched_data_frame: "matched minc out s s' \<Longrightarrow> data_frame be media s s'"
  by (auto simp: matched_def data_frame_def same_device_def holding_def grown_def split: option.splits)

lemma frame_more: "zbd.more s' = zbd.more s \<Longrightarrow> same_files s s'"
  for s s' :: "('d, 'm) fdev_scheme"
proof -
  assume "zbd.more s' = zbd.more s"
  then have "fheap s' = fheap s" "next_fptr s' = next_fptr s" "fdev.more s' = fdev.more s"
    by (metis fdev.surjective fdev.select_convs zbd.surjective zbd.select_convs)+
  then show ?thesis by (simp add: same_files_def)
qed

lemma empty_alloc_data_frame: "empty_alloc out s s' \<Longrightarrow> data_frame be media s s'"
  by (auto simp: empty_alloc_def same_view_def data_frame_def grown_def holding_def frame_more
      split: option.splits)

lemma data_frame_tokens [simp]:
  "data_frame be media s (PutActiveIOZoneToken s') = data_frame be media s s'"
  "data_frame be media s (PutOpenIOZoneToken s') = data_frame be media s s'"
  "data_frame be media (PutActiveIOZoneToken s) s' = data_frame be media s s'"
  "data_frame be media s (s'\<lparr>nearest_got_new := n\<rparr>) = data_frame be media s s'"
  "data_frame be media s (s'\<lparr>migrating := b\<rparr>) = data_frame be media s s'"
  by (simp_all add: token_ops data_frame_def same_files_def)

lemma data_frame_CheckRelease:
  "Zone_CheckRelease p s = (st, s') \<Longrightarrow> p \<in> set (io_zones s) \<Longrightarrow> data_frame be media s s'"
  by (auto simp: Zone_CheckRelease_def Zone_Release_def upd_zone_def data_frame_def grown_def same_files_def
      split: if_splits)

lemma data_frame_GetActive:
  "GetActiveIOZoneTokenIfAvailable s = (got, s') \<Longrightarrow> data_frame be media s s' \<and> io_zones s' = io_zones s"
  by (auto simp: token_ops data_frame_def same_files_def split: if_splits)

context zoned_storage
begin

lemma Zone_Finish_data_frame: "Zone_Finish be p s = (st, s') \<Longrightarrow> data_frame be media s s'"
  using geometry_zone_sz [OF finish_geometry]
  by (auto simp: Zone_Finish_def Let_def upd_zone_def data_frame_def same_files_def grown_def finish_media
      finish_geometry split: prod.splits if_splits)

lemma ApplyFinish_data_frame_loop:
  "ApplyFinishThreshold_loop be zs s = (st, s') \<Longrightarrow> data_frame be media s s'"
proof (induction zs arbitrary: s)
  case (Cons z zs)
  then show ?case
    by (auto simp: ApplyFinish_step split: if_splits prod.splits dest!: Zone_Finish_data_frame Cons.IH
        intro: data_frame_trans)
qed simp

lemma ApplyFinish_data_frame: "ApplyFinishThreshold be s = (st, s') \<Longrightarrow> data_frame be media s s'"
  by (auto simp: ApplyFinishThreshold_def ApplyFinish_data_frame_loop split: if_splits)

lemma ApplyFinish_frame: "ApplyFinishThreshold be s = (st, s') \<Longrightarrow> frame s s'"
proof -
  have L: "ApplyFinishThreshold_loop be zs s = (st, s') \<Longrightarrow> frame s s'" for zs s
  proof (induction zs arbitrary: s)
    case (Cons z zs)
    then show ?case
      by (auto simp: ApplyFinish_step split: if_splits prod.splits dest!: Zone_Finish_effect(1) Cons.IH
          intro: frame_trans [OF frame_trans [OF _ PutActive_effect(1)]])
  qed simp
  assume "ApplyFinishThreshold be s = (st, s')"
  then show ?thesis using L by (auto simp: ApplyFinishThreshold_def split: if_splits)
qed

lemma FinishCheapest_data_frame:
  assumes "FinishCheapestIOZone be s = (st, s')" "distinct (io_zones s)"
  shows "data_frame be media s s'"
proof (cases "cheapest_zone s")
  case None
  then show ?thesis using assms by (simp add: FinishCheapest_eq)
next
  case (Some v)
  let ?s = "s\<lparr>finish_bytes_written := finish_bytes_written s + z_capacity (zheap s v)\<rparr>"
  obtain st1 s1 where F: "Zone_Finish be v ?s = (st1, s1)" by fastforce
  have "data_frame be media s ?s" by (rule data_frame_book [OF data_frame_refl]) simp_all
  then have "data_frame be media s s1" using Zone_Finish_data_frame [OF F] data_frame_trans by blast
  then show ?thesis using assms F Some by (auto simp: FinishCheapest_eq split: if_splits)
qed

lemma wait_active_data_frame:
  assumes "wait_active_token be got s = Some (st, s')" "distinct (io_zones s)"
  shows "data_frame be media s s'"
proof -
  let ?P = "\<lambda>b got s (st, s'). b = be \<longrightarrow> distinct (io_zones s) \<longrightarrow> data_frame be media s s'"
  have "?P be got s (st, s')"
  proof (rule wait_active_token.raw_induct [where P = ?P, OF _ assms(1)])
    fix w b got s r
    assume IH: "\<And>b got s y. w b got s = Some y \<Longrightarrow> ?P b got s y"
      and eq: "(if got then Some (OK, s)
       else case GetActiveIOZoneTokenIfAvailable s of (ok, s1) \<Rightarrow>
         if ok then Some (OK, s1)
         else case FinishCheapestIOZone b s1 of (st, s2) \<Rightarrow>
           if st \<noteq> OK then Some (st, s2) else w b False s2) = Some r"
    obtain st s' where r: "r = (st, s')" by fastforce
    obtain ok s1 where G: "GetActiveIOZoneTokenIfAvailable s = (ok, s1)" by fastforce
    obtain st2 s2 where F: "FinishCheapestIOZone b s1 = (st2, s2)" by fastforce
    have 1: "data_frame be media s s1" "io_zones s1 = io_zones s" using data_frame_GetActive [OF G] by auto
    show "?P b got s r"
      unfolding r prod.case
    proof (intro impI)
      assume b: "b = be" and d: "distinct (io_zones s)"
      have d1: "distinct (io_zones s1)" using 1 d by simp
      have 2: "data_frame be media s1 s2" using FinishCheapest_data_frame F b d1 by blast
      then have d2: "distinct (io_zones s2)" using d1 by (simp add: data_frame_def)
      have "data_frame be media s2 s'" if "w b False s2 = Some (st, s')" using IH [OF that] b d2 by simp
      then show "data_frame be media s s'"
        using eq G F r b 1 2 by (auto split: if_splits intro: data_frame_trans)
    qed
  qed
  with assms(2) show ?thesis by simp
qed

end

section \<open>Allocating a zone\<close>

text \<open>\<open>usable z\<close>: a zone that can be written to, or an empty one.\<close>

locale zone_allocation = zoned_storage be media + std_algorithms env
  for be :: "('d, 'b) backend_scheme" and media and env
begin

lemma open_new_zone_data_frame:
  assumes "open_new_zone env be f fl got s = Some (st, out, s')" "distinct (io_zones s)"
  shows "data_frame be media s s' \<and> (\<forall>z. out = Some z \<longrightarrow> z \<in> set (io_zones s) \<and> IsEmpty (zheap s' z))"
proof -
  obtain st1 s1 where W: "wait_active_token be got s = Some (st1, s1)"
    using assms(1) by (auto simp: open_new_zone_def split: option.splits)
  note D = wait_active_data_frame [OF W assms(2)]
  show ?thesis
  proof (cases "st1 = OK")
    case False
    then show ?thesis using assms(1) W D by (auto simp: open_new_zone_def)
  next
    case True
    obtain st2 a s2 where A: "AllocateEmptyZone env (f_level (fheap s1 f)) s1 = Some (st2, a, s2)"
      using assms(1) W True by (auto simp: open_new_zone_def split: option.splits)
    note E = AllocateEmptyZone_empty [OF A]
    have D2: "data_frame be media s s2" using D E empty_alloc_data_frame data_frame_trans by blast
    show ?thesis
    proof (cases a)
      case None
      then show ?thesis using assms(1) W True A E D2 by (auto simp: open_new_zone_def)
    next
      case (Some z)
      define s3 where "s3 = upd_zone z (\<lambda>zn. zn\<lparr>z_lifetime := fl,
        z_policy := GetPolicy (params s2) (f_level (fheap s2 f)), z_level := f_level (fheap s2 f)\<rparr>) s2"
      have s': "out = Some z"
        "s' = (if need_flag s3 then s3\<lparr>nearest_got_new := nearest_got_new s3 + 1\<rparr> else s3)"
        using assms(1) W True A E Some by (auto simp: open_new_zone_def Let_def s3_def)
      have "data_frame be media s2 s3"
        by (simp add: s3_def upd_zone_def data_frame_def grown_def same_files_def)
      then have "data_frame be media s s3" using D2 data_frame_trans by blast
      then have "data_frame be media s s'"
        unfolding s'(2) by simp
      moreover have "IsEmpty (zheap s' z)" "z \<in> set (io_zones s)"
        using E Some D
        by (simp_all add: s'(2) empty_alloc_def free_empty_def s3_def upd_zone_def zone_ops holding_def
            data_frame_def)
      ultimately show ?thesis using s'(1) by simp
    qed
  qed
qed

lemma use_match_data_frame:
  assumes U: "use_match env be f fl bd alloc s = Some (st, out, s')" and d: "distinct (io_zones s)"
    and al: "\<forall>a. alloc = Some a \<longrightarrow> a \<in> set (io_zones s)"
  shows "data_frame be media s s' \<and> (\<forall>z. out = Some z \<longrightarrow> alloc = Some z \<and> zheap s' = zheap s \<or>
    z \<in> set (io_zones s) \<and> IsEmpty (zheap s' z))"
proof -
  obtain got s1 where G: "GetActiveIOZoneTokenIfAvailable s = (got, s1)" by fastforce
  have 1: "data_frame be media s s1" "zheap s1 = zheap s" "io_zones s1 = io_zones s"
    using G data_frame_GetActive [OF G] by (auto simp: token_ops split: if_splits)
  have new: ?thesis if "open_new_zone env be f fl got s2 = Some (st, out, s')" "data_frame be media s s2" for s2
    using open_new_zone_data_frame [OF that(1)] that(2) d
    by (auto simp: data_frame_def [of _ _ s s2] intro: data_frame_trans [OF that(2)])
  have keep: ?thesis if "out = alloc" "s' = s \<or> s' = s1 \<or> s' = PutActiveIOZoneToken s1"
    using that 1 by auto
  consider (good) "bd < 50" | (none) "\<not> bd < 50" "alloc = None"
    | (fresh) a where "\<not> bd < 50" "alloc = Some a" "\<not> (\<not> got \<and> bd = 50)"
        "GetEmptyZoneCount s1 > reserve_zone_count (params s1)"
    | (stay) a where "\<not> bd < 50" "alloc = Some a"
        "\<not> got \<and> bd = 50 \<or> \<not> GetEmptyZoneCount s1 > reserve_zone_count (params s1)"
    by blast
  then show ?thesis
  proof cases
    case good
    then show ?thesis using U by (intro keep) (auto simp: use_match_def)
  next
    case none
    then show ?thesis using U G 1 by (intro new [of s1]) (simp_all add: use_match_def)
  next
    case fresh
    obtain st2 s2 where C: "Zone_CheckRelease a s1 = (st2, s2)" by fastforce
    have 2: "data_frame be media s s2"
      using 1 al fresh data_frame_trans [OF 1(1) data_frame_CheckRelease [OF C]] by simp
    show ?thesis
    proof (cases "st2 = OK")
      case True
      then show ?thesis using U G C fresh 2 by (intro new [of s2]) (auto simp: use_match_def)
    next
      case False
      then show ?thesis using U G C fresh 2 by (auto simp: use_match_def Let_def split: if_splits)
    qed
  next
    case stay
    then show ?thesis using U G by (intro keep) (auto simp: use_match_def split: if_splits)
  qed
qed

end

text \<open>The zones of the index that are not I/O zones (the metadata zones) cannot be picked: they are
  acquired, or hold nothing.\<close>

definition index_ok :: "('d, 'm) zbd_scheme \<Rightarrow> bool" where
  "index_ok s \<longleftrightarrow> (\<forall>p \<in> ran (zone_start_to_pointer_map s). p \<notin> set (io_zones s) \<longrightarrow>
     z_busy (zheap s p) \<or> \<not> IsUsed (zheap s p))"

context zone_allocation
begin

lemma AllocateIOZoneNoLock_data_frame:
  assumes A: "AllocateIOZoneNoLock env be fl io_type f minc s = Some (st, out, s')"
    and d: "distinct (io_zones s)" and ix: "index_ok s"
  shows "data_frame be media s s' \<and>
    (\<forall>z. out = Some z \<longrightarrow> z \<in> set (io_zones s) \<and> (IsEmpty (zheap s' z) \<or> \<not> IsFull (zheap s' z)))"
proof -
  define s2 where "s2 = (if f_level (fheap s f) > uint (max_level (params s))
     then s\<lparr>params := (params s)\<lparr>max_level := of_int (f_level (fheap s f))\<rparr>\<rparr> else s)\<lparr>need_flag := False\<rparr>"
  have d2: "data_frame be media s s2" by (rule data_frame_book [OF data_frame_refl]) (simp_all add: s2_def)
  obtain st3 s3 where F: "(if io_type \<noteq> IO_kWAL then ApplyFinishThreshold be s2 else (OK, s2)) = (st3, s3)"
    by fastforce
  have "ApplyFinishThreshold be s2 = (st3, s3) \<or> s3 = s2" using F by (auto split: if_splits)
  then have "frame s2 s3 \<and> data_frame be media s2 s3" using ApplyFinish_data_frame ApplyFinish_frame by auto
  then have d3: "data_frame be media s s3" "frame s2 s3" using d2 data_frame_trans by auto
  have A1: "(if GetZoneDeferredStatus s2 \<noteq> OK then Some (GetZoneDeferredStatus s2, None, s2)
        else if st3 \<noteq> OK then Some (st3, None, s3)
          else case WaitForOpenIOZoneToken (io_type = IO_kWAL) s3 of
            None \<Rightarrow> None
          | Some s4 \<Rightarrow>
              (case GetBestOpenZoneMatch env f fl (ucast minc) 100 s4 of
                 None \<Rightarrow> None
               | Some (st, best_diff, alloc, s5) \<Rightarrow>
                   if st \<noteq> OK then Some (st, None, PutOpenIOZoneToken s5)
                   else case use_match env be f fl best_diff alloc s5 of
                     None \<Rightarrow> None
                   | Some (st, a, s6) \<Rightarrow>
                       if st \<noteq> OK then Some (st, None, s6)
                       else if a \<noteq> None then
                         (if log_zonestats_placement_delete (params s6) \<noteq> 0 \<and>
                             GetFilename (fheap s6 f) = None
                          then None else Some (OK, a, s6))
                       else Some (OK, None, PutOpenIOZoneToken s6))) = Some (st, out, s')"
    using A unfolding AllocateIOZoneNoLock_def Let_def s2_def [symmetric] F prod.case .
  show ?thesis
  proof (cases "GetZoneDeferredStatus s2 \<noteq> OK \<or> st3 \<noteq> OK")
    case True
    then have "out = None" "s' = s2 \<or> s' = s3" using A1 by (auto split: if_splits)
    then show ?thesis using d2 d3 by auto
  next
    case False
    then obtain s4 st5 bd alloc s5 st6 a s6
      where W: "WaitForOpenIOZoneToken (io_type = IO_kWAL) s3 = Some s4"
        and M: "GetBestOpenZoneMatch env f fl (ucast minc) 100 s4 = Some (st5, bd, alloc, s5)"
        and U: "use_match env be f fl bd alloc s5 = Some (st6, a, s6)"
      using A1 GetBestOpenZoneMatch_matched by (fastforce split: option.splits)
    have m: "st5 = OK" "matched 0 alloc s4 s5" using GetBestOpenZoneMatch_matched [OF M] by auto
    have d4: "data_frame be media s s4" "zheap s4 = zheap s3"
      using W d3(1) by (auto simp: token_ops data_frame_def same_files_def split: if_splits)
    have d5: "data_frame be media s s5" using d4(1) matched_data_frame [OF m(2)] data_frame_trans by blast
    have al: "p \<in> set (io_zones s) \<and> \<not> IsFull (zheap s5 p)" if "alloc = Some p" for p
    proof -
      have p: "suitable 0 (zheap s4 p)" "\<not> z_busy (zheap s4 p)"
        "p \<in> set (io_zones s) \<union> ran (zone_start_to_pointer_map s)"
        using m(2) that d4 by (auto simp: matched_def data_frame_def)
      have "\<not> z_busy (zheap s p)" "IsUsed (zheap s p)"
        using p d3(2) by (auto simp: d4 frame_def s2_def suitable_def zone_ops split: if_splits)
      then have "p \<in> set (io_zones s)" using p(3) ix by (auto simp: index_ok_def)
      moreover have "\<not> IsFull (zheap s5 p)"
        using m(2) p(1) that by (simp add: matched_def holding_def suitable_def zone_ops)
      ultimately show ?thesis by simp
    qed
    have "distinct (io_zones s5)" "\<forall>a. alloc = Some a \<longrightarrow> a \<in> set (io_zones s5)"
      using d d5 al by (simp_all add: data_frame_def)
    note R = use_match_data_frame [OF U this]
    have d6: "data_frame be media s s6" using d5 R data_frame_trans by blast
    have fin: "out = None \<and> (s' = s6 \<or> s' = PutOpenIOZoneToken s6) \<or> out = a \<and> a \<noteq> None \<and> s' = s6"
      using A1 False W M U m(1) by (auto split: if_splits)
    have "z \<in> set (io_zones s) \<and> (IsEmpty (zheap s6 z) \<or> \<not> IsFull (zheap s6 z))" if "a = Some z" for z
      using R al that d5 by (auto simp: data_frame_def)
    then show ?thesis using fin d6 by auto
  qed
qed

end

interpretation sample_alloc: zone_allocation ram_backend ram_bytes sample_env ..

end
