(* ===== verification/Zone_Write.thy ===== *)
theory Zone_Write
  imports Data_Frame
begin

text \<open>
  Writing a file: the write lock, the active zone, the three append routines (direct, buffered and
  sparse) and the recovery of extents after a crash, of class \<open>ZoneFile\<close>
  (\<open>src/fs/zbd_zonefile_zenfs.cc\<close>).

  The class reaches the file system through the interface \<open>MetadataWriter\<close>: \<open>persist f\<close> is
  \<open>metadata_writer_->Persist(this)\<close>, an argument of the operations that call it.

  A write buffer is the list of the bytes of its memory; what the routines do to it
  (\<open>memset\<close>, \<open>memmove\<close>) is part of the model, and an access outside it has no outcome (\<open>None\<close>).
\<close>

section \<open>The write lock and the active zone\<close>

type_synonym ('d, 'm) writer = "fptr \<Rightarrow> ('d, 'm) fdev_scheme \<Rightarrow> (IOStatus \<times> ('d, 'm) fdev_scheme) option"

text \<open>\<open>open_for_wr_\<close> is set and cleared together with the mutex \<open>open_for_wr_mtx_\<close>, so it tells whether the
  mutex is held. Locking a held mutex waits.\<close>

definition AcquireWRLock :: "fptr \<Rightarrow> ('d, 'm) fdev_scheme \<Rightarrow> ('d, 'm) fdev_scheme option" where
  "AcquireWRLock f s =
    (if f_open_for_wr (fheap s f) then None else Some (upd_file f (f_open_for_wr_update (\<lambda>_. True)) s))"

definition TryAcquireWRLock :: "fptr \<Rightarrow> ('d, 'm) fdev_scheme \<Rightarrow> bool \<times> ('d, 'm) fdev_scheme" where
  "TryAcquireWRLock f s =
    (if f_open_for_wr (fheap s f) then (False, s) else (True, upd_file f (f_open_for_wr_update (\<lambda>_. True)) s))"

definition ReleaseWRLock :: "fptr \<Rightarrow> ('d, 'm) fdev_scheme \<Rightarrow> ('d, 'm) fdev_scheme" where
  "ReleaseWRLock f s = upd_file f (f_open_for_wr_update (\<lambda>_. False)) s"

text \<open>Called with an active zone only.\<close>

definition ReleaseActiveZone :: "fptr \<Rightarrow> ('d, 'm) fdev_scheme \<Rightarrow> ('d, 'm) fdev_scheme" where
  "ReleaseActiveZone f s =
    (case f_active_zone (fheap s f) of
       None \<Rightarrow> s
     | Some z \<Rightarrow> upd_file f (f_active_zone_update (\<lambda>_. None)) (snd (Zone_Release z s)))"

definition SetActiveZone :: "fptr \<Rightarrow> zptr \<Rightarrow> ('d, 'm) fdev_scheme \<Rightarrow> ('d, 'm) fdev_scheme" where
  "SetActiveZone f z s = upd_file f (f_active_zone_update (\<lambda>_. Some z)) s"

definition CloseActiveZone :: "('d, 'b) backend_scheme \<Rightarrow> fptr \<Rightarrow> ('d, 'm) fdev_scheme
    \<Rightarrow> IOStatus \<times> ('d, 'm) fdev_scheme" where
  "CloseActiveZone be f s =
    (case f_active_zone (fheap s f) of
       None \<Rightarrow> (OK, s)
     | Some z \<Rightarrow>
         let full = IsFull (zheap s z)
         in case Zone_Close be z s of (st, s1) \<Rightarrow>
              let s2 = ReleaseActiveZone f s1
              in if st \<noteq> OK then (st, s2)
                 else
                   let s3 = PutOpenIOZoneToken s2
                   in (OK, if full then PutActiveIOZoneToken s3 else s3))"

definition CloseWR :: "penv \<Rightarrow> ('d, 'b) backend_scheme \<Rightarrow> ('d, 'm) writer \<Rightarrow> fptr
    \<Rightarrow> ('d, 'm) fdev_scheme \<Rightarrow> (IOStatus \<times> ('d, 'm) fdev_scheme) option" where
  "CloseWR env be persist f s =
    (let s1 = upd_file f (f_extent_start_update (\<lambda>_. NO_EXTENT)) (CreateOrUpdateRecord env f s)
     in case persist f s1 of
          None \<Rightarrow> None
        | Some (st, s2) \<Rightarrow>
            if st \<noteq> OK then Some (st, s2) else Some (CloseActiveZone be f (ReleaseWRLock f s2)))"

definition SetLevel_extent :: "int \<Rightarrow> extent \<Rightarrow> ('d, 'm) fdev_scheme \<Rightarrow> ('d, 'm) fdev_scheme option" where
  "SetLevel_extent level e s =
    (case UpdateBytesOfLevel (e_zone e) (e_level e) (neg_int (e_length e)) s of
       None \<Rightarrow> None
     | Some s1 \<Rightarrow> UpdateBytesOfLevel (e_zone e) level (u64_to_int (e_length e)) s1)"

fun SetLevel_loop :: "int \<Rightarrow> extent list \<Rightarrow> ('d, 'm) fdev_scheme \<Rightarrow> ('d, 'm) fdev_scheme option" where
  "SetLevel_loop level [] s = Some s"
| "SetLevel_loop level (e # es) s =
    (case SetLevel_extent level e s of None \<Rightarrow> None | Some s1 \<Rightarrow> SetLevel_loop level es s1)"

definition SetLevel :: "int \<Rightarrow> fptr \<Rightarrow> ('d, 'm) fdev_scheme \<Rightarrow> ('d, 'm) fdev_scheme option" where
  "SetLevel level f s =
    map_option (upd_file f (f_extents_update (map (e_level_update (\<lambda>_. level)))))
      (SetLevel_loop level (f_extents (fheap s f)) (upd_file f (f_level_update (\<lambda>_. level)) s))"

definition ReplaceExtentList :: "extent list \<Rightarrow> fptr \<Rightarrow> ('d, 'm) fdev_scheme \<Rightarrow> ('d, 'm) fdev_scheme" where
  "ReplaceExtentList es f s = upd_file f (f_extents_update (\<lambda>_. es)) s"

section \<open>Appending\<close>

definition PushExtent :: "fptr \<Rightarrow> ('d, 'm) fdev_scheme \<Rightarrow> ('d, 'm) fdev_scheme option" where
  "PushExtent f s =
    (let zf = fheap s f
     in case f_active_zone zf of
          None \<Rightarrow> Some s
        | Some z \<Rightarrow>
            let len = f_file_size zf - f_extent_filepos zf
            in if len = 0 then Some s
               else
                 let e = \<lparr>e_start = f_extent_start zf, e_length = len, e_zone = z, e_level = f_level zf\<rparr>;
                     s1 = charge z len s;
                     s2 = upd_file f (\<lambda>zf. zf\<lparr>f_extents := f_extents zf @ [e],
                            f_extent_start := z_wp (zheap s1 z), f_extent_filepos := f_file_size zf\<rparr>) s1
                 in UpdateBytesOfLevel z (f_level zf) (u64_to_int len) s2)"

definition AllocateNewZone :: "penv \<Rightarrow> ('d, 'b) backend_scheme \<Rightarrow> ('d, 'm) writer \<Rightarrow> fptr
    \<Rightarrow> ('d, 'm) fdev_scheme \<Rightarrow> (IOStatus \<times> ('d, 'm) fdev_scheme) option" where
  "AllocateNewZone env be persist f s =
    (case AllocateIOZone env be (f_lifetime (fheap s f)) (f_io_type (fheap s f)) f s of
       None \<Rightarrow> None
     | Some (st, zone, s1) \<Rightarrow>
         if st \<noteq> OK then Some (st, s1)
         else case zone of
           None \<Rightarrow> Some (NoSpace, s1)
         | Some z \<Rightarrow>
             let s2 = SetActiveZone f z s1
             in persist f (upd_file f (\<lambda>zf. zf\<lparr>f_extent_start := z_wp (zheap s2 z),
                              f_extent_filepos := f_file_size zf\<rparr>) s2))"

text \<open>The memory of a buffer.\<close>

definition memset0 :: "nat \<Rightarrow> nat \<Rightarrow> byte list \<Rightarrow> byte list option" where
  "memset0 off n buf =
    (if off + n \<le> length buf then Some (take off buf @ replicate n 0 @ drop (off + n) buf) else None)"

definition memmove :: "nat \<Rightarrow> nat \<Rightarrow> nat \<Rightarrow> byte list \<Rightarrow> byte list option" where
  "memmove dst src n buf =
    (if src + n \<le> length buf \<and> dst + n \<le> length buf
     then Some (take dst buf @ take n (drop src buf) @ drop (dst + n) buf) else None)"

text \<open>\<open>memcpy(buffer, header, length(header))\<close>.\<close>

definition put_header :: "byte list \<Rightarrow> byte list \<Rightarrow> byte list option" where
  "put_header hdr buf = (if length hdr \<le> length buf then Some (hdr @ drop (length hdr) buf) else None)"

abbreviation (input) SPARSE_HEADER_SIZE :: u32 where "SPARSE_HEADER_SIZE \<equiv> 8"

text \<open>
  The loop of \<open>BufferedAppend\<close> (\<open>sparse\<close> false) and of \<open>SparseAppend\<close> (\<open>sparse\<close> true), which differ in the
  8 bytes reserved at the start of the buffer for the length of the extent. The result has the buffer
  as the caller finds it.
\<close>

partial_function (option) append_loop :: "'e coding_scheme \<Rightarrow> penv \<Rightarrow> ('d, 'b) backend_scheme
    \<Rightarrow> ('d, 'm) writer \<Rightarrow> bool \<Rightarrow> fptr \<Rightarrow> byte list \<Rightarrow> u32 \<Rightarrow> ('d, 'm) fdev_scheme
    \<Rightarrow> (IOStatus \<times> byte list \<times> ('d, 'm) fdev_scheme) option" where
  "append_loop c env be persist sparse f buf left s =
    (if left = 0 then Some (OK, buf, s)
     else case f_active_zone (fheap s f) of
       None \<Rightarrow> None
     | Some z \<Rightarrow>
         let h = (if sparse then SPARSE_HEADER_SIZE else 0);
             block_sz = be_block_sz be (dev s);
             cap = z_capacity (zheap s z);
             wr_size = (if ucast (left + h) > cap then ucast cap else left + h);
             align = wr_size mod block_sz;
             pad_sz = (if align \<noteq> 0 then block_sz - align else 0);
             extent_length = (ucast (wr_size - h) :: u64)
         in if block_sz = 0 then None
            else
              case Option.bind (if pad_sz \<noteq> 0 then memset0 (unat wr_size) (unat pad_sz) buf else Some buf)
                     (put_header (if sparse then EncodeFixed64 c extent_length else [])) of
                None \<Rightarrow> None
              | Some buf1 \<Rightarrow>
                  if length buf1 < unat (wr_size + pad_sz) then None
                  else case Zone_Append be z (take (unat (wr_size + pad_sz)) buf1) s of
                    None \<Rightarrow> None
                  | Some (st, s1) \<Rightarrow>
                      if st \<noteq> OK then Some (st, buf1, s1)
                      else
                        let e = \<lparr>e_start = f_extent_start (fheap s1 f) + ucast h, e_length = extent_length,
                                 e_zone = z, e_level = f_level (fheap s1 f)\<rparr>;
                            s2 = charge z extent_length
                              (upd_file f (\<lambda>zf. zf\<lparr>f_extents := f_extents zf @ [e],
                                 f_extent_start := z_wp (zheap s1 z),
                                 f_file_size := f_file_size zf + extent_length\<rparr>) s1);
                            left' = left - ucast extent_length
                        in if z_capacity (zheap s2 z) = 0 then
                             (case CloseActiveZone be f s2 of (st, s3) \<Rightarrow>
                                if st \<noteq> OK then Some (st, buf1, s3)
                                else case (if left' \<noteq> 0 then memmove (unat h) (unat wr_size) (unat left') buf1
                                           else Some buf1) of
                                  None \<Rightarrow> None
                                | Some buf2 \<Rightarrow>
                                    (case AllocateNewZone env be persist f
                                            (upd_file f (f_alloc_size_update (\<lambda>_. ucast left')) s3) of
                                       None \<Rightarrow> None
                                     | Some (st, s4) \<Rightarrow>
                                         if st \<noteq> OK then Some (st, buf2, s4)
                                         else append_loop c env be persist sparse f buf2 left' s4))
                           else append_loop c env be persist sparse f buf1 left' s2)"

declare append_loop.simps [code]

definition append_start :: "'e coding_scheme \<Rightarrow> penv \<Rightarrow> ('d, 'b) backend_scheme \<Rightarrow> ('d, 'm) writer
    \<Rightarrow> bool \<Rightarrow> fptr \<Rightarrow> byte list \<Rightarrow> u32 \<Rightarrow> ('d, 'm) fdev_scheme
    \<Rightarrow> (IOStatus \<times> byte list \<times> ('d, 'm) fdev_scheme) option" where
  "append_start c env be persist sparse f buf data_size s =
    (let s1 = upd_file f (f_alloc_size_update (\<lambda>_. ucast data_size)) s
     in case (if f_active_zone (fheap s1 f) = None then AllocateNewZone env be persist f s1
              else Some (OK, s1)) of
          None \<Rightarrow> None
        | Some (st, s2) \<Rightarrow>
            if st \<noteq> OK then Some (st, buf, s2) else append_loop c env be persist sparse f buf data_size s2)"

definition BufferedAppend :: "'e coding_scheme \<Rightarrow> penv \<Rightarrow> ('d, 'b) backend_scheme \<Rightarrow> ('d, 'm) writer
    \<Rightarrow> fptr \<Rightarrow> byte list \<Rightarrow> u32 \<Rightarrow> ('d, 'm) fdev_scheme
    \<Rightarrow> (IOStatus \<times> byte list \<times> ('d, 'm) fdev_scheme) option" where
  "BufferedAppend c env be persist = append_start c env be persist False"

definition SparseAppend :: "'e coding_scheme \<Rightarrow> penv \<Rightarrow> ('d, 'b) backend_scheme \<Rightarrow> ('d, 'm) writer
    \<Rightarrow> fptr \<Rightarrow> byte list \<Rightarrow> u32 \<Rightarrow> ('d, 'm) fdev_scheme
    \<Rightarrow> (IOStatus \<times> byte list \<times> ('d, 'm) fdev_scheme) option" where
  "SparseAppend c env be persist = append_start c env be persist True"

text \<open>\<open>Append\<close>, for direct writes: the extent is pushed when the zone is full or the file synced.\<close>

partial_function (option) Append_loop :: "penv \<Rightarrow> ('d, 'b) backend_scheme \<Rightarrow> ('d, 'm) writer
    \<Rightarrow> fptr \<Rightarrow> byte list \<Rightarrow> u32 \<Rightarrow> u32 \<Rightarrow> ('d, 'm) fdev_scheme
    \<Rightarrow> (IOStatus \<times> ('d, 'm) fdev_scheme) option" where
  "Append_loop env be persist f data offset left s =
    (if left = 0 then Some (OK, s)
     else case f_active_zone (fheap s f) of
       None \<Rightarrow> None
     | Some z0 \<Rightarrow>
         case (if z_capacity (zheap s z0) = 0
               then case PushExtent f s of
                 None \<Rightarrow> None
               | Some s1 \<Rightarrow>
                   (case CloseActiveZone be f s1 of (st, s2) \<Rightarrow>
                      if st \<noteq> OK then Some (st, s2)
                      else AllocateNewZone env be persist f
                             (upd_file f (f_alloc_size_update (\<lambda>_. ucast left)) s2))
               else Some (OK, s)) of
           None \<Rightarrow> None
         | Some (st, s3) \<Rightarrow>
             if st \<noteq> OK then Some (st, s3)
             else case f_active_zone (fheap s3 f) of
               None \<Rightarrow> None
             | Some z \<Rightarrow>
                 let cap = z_capacity (zheap s3 z);
                     wr_size = (if ucast left > cap then ucast cap else left)
                 in if length data < unat offset + unat wr_size then None
                    else case Zone_Append be z (take (unat wr_size) (drop (unat offset) data)) s3 of
                      None \<Rightarrow> None
                    | Some (st, s4) \<Rightarrow>
                        if st \<noteq> OK then Some (st, s4)
                        else Append_loop env be persist f data (offset + wr_size) (left - wr_size)
                               (upd_file f (\<lambda>zf. zf\<lparr>f_file_size := f_file_size zf + ucast wr_size\<rparr>) s4))"

declare Append_loop.simps [code]

text \<open>The \<open>int\<close> argument becomes a \<open>uint64_t\<close> size hint and the \<open>uint32_t\<close> number of bytes left.\<close>

definition ZoneFile_Append :: "penv \<Rightarrow> ('d, 'b) backend_scheme \<Rightarrow> ('d, 'm) writer
    \<Rightarrow> fptr \<Rightarrow> byte list \<Rightarrow> int \<Rightarrow> ('d, 'm) fdev_scheme \<Rightarrow> (IOStatus \<times> ('d, 'm) fdev_scheme) option" where
  "ZoneFile_Append env be persist f data data_size s =
    (let s1 = upd_file f (f_alloc_size_update (\<lambda>_. of_int data_size)) s
     in case (if f_active_zone (fheap s1 f) = None then AllocateNewZone env be persist f s1
              else Some (OK, s1)) of
          None \<Rightarrow> None
        | Some (st, s2) \<Rightarrow>
            if st \<noteq> OK then Some (st, s2)
            else Append_loop env be persist f data 0 (of_int data_size) s2)"

section \<open>Recovery\<close>

partial_function (option) RecoverSparse_loop :: "'e coding_scheme \<Rightarrow> ('d, 'b) backend_scheme \<Rightarrow> fptr
    \<Rightarrow> u64 \<Rightarrow> u64 \<Rightarrow> zptr \<Rightarrow> ('d, 'm) fdev_scheme \<Rightarrow> (IOStatus \<times> ('d, 'm) fdev_scheme) option" where
  "RecoverSparse_loop c be f next_extent_start en z s =
    (if \<not> next_extent_start < en then Some (OK, s)
     else
       let block_sz = be_block_sz be (dev s)
       in case Zbd_Read be next_extent_start (sint block_sz) False s of
            None \<Rightarrow> None
          | Some (ret, buf, s1) \<Rightarrow>
              if ret \<noteq> sint block_sz then Some (IOError, s1)
              else if length buf < 8 then None
              else
                let len = DecodeFixed64 c buf
                in if len = 0 then Some (IOError, s1)
                   else
                     let e = \<lparr>e_start = next_extent_start + 8, e_length = len, e_zone = z,
                              e_level = f_level (fheap s1 f)\<rparr>;
                         s2 = upd_file f (\<lambda>zf. zf\<lparr>f_extents := f_extents zf @ [e]\<rparr>) (charge z len s1);
                         blocks = (len + 8) div ucast block_sz +
                                  (if (len + 8) mod ucast block_sz \<noteq> 0 then 1 else 0)
                     in if block_sz = 0 then None
                        else RecoverSparse_loop c be f (next_extent_start + blocks * ucast block_sz) en z s2)"

declare RecoverSparse_loop.simps [code]

text \<open>\<open>posix_memalign\<close> succeeds.\<close>

definition RecoverSparseExtents :: "'e coding_scheme \<Rightarrow> ('d, 'b) backend_scheme \<Rightarrow> fptr
    \<Rightarrow> u64 \<Rightarrow> u64 \<Rightarrow> zptr \<Rightarrow> ('d, 'm) fdev_scheme \<Rightarrow> (IOStatus \<times> ('d, 'm) fdev_scheme) option" where
  "RecoverSparseExtents c be f st en z s = RecoverSparse_loop c be f st en z s"

definition Recover :: "'e coding_scheme \<Rightarrow> ('d, 'b) backend_scheme \<Rightarrow> fptr \<Rightarrow> ('d, 'm) fdev_scheme
    \<Rightarrow> (IOStatus \<times> ('d, 'm) fdev_scheme) option" where
  "Recover c be f s =
    (let est = f_extent_start (fheap s f)
     in if est = NO_EXTENT then Some (OK, s)
        else case GetIOZone be est s of
          None \<Rightarrow> Some (IOError, s)
        | Some z \<Rightarrow>
            let wp = z_wp (zheap s z); to_recover = wp - est
            in if wp < est then Some (IOError, s)
               else if to_recover = 0 then Some (OK, upd_file f (f_extent_start_update (\<lambda>_. NO_EXTENT)) s)
               else case (if f_is_sparse (fheap s f) then RecoverSparseExtents c be f est wp z s
                          else Some (OK, upd_file f (\<lambda>zf. zf\<lparr>f_extents := f_extents zf @
                                 [\<lparr>e_start = est, e_length = to_recover, e_zone = z, e_level = f_level zf\<rparr>]\<rparr>)
                                 (charge z to_recover s))) of
                 None \<Rightarrow> None
               | Some (st, s1) \<Rightarrow>
                   if st \<noteq> OK then Some (st, s1)
                   else Some (OK, upd_file f (\<lambda>zf. zf\<lparr>f_extent_start := NO_EXTENT,
                          f_file_size := sum_list (map e_length (f_extents zf))\<rparr>) s1))"

section \<open>What the write path keeps\<close>

text \<open>A file object up to what placement computes, the count of persisted extents and the modification time.\<close>

definition file_kept :: "zonefile \<Rightarrow> zonefile" where
  "file_kept zf = (core zf)\<lparr>f_nr_synced_extents := 0, f_m_time := 0\<rparr>"

text \<open>\<open>io_stays\<close>: the data in the I/O zones and the file objects are as before; zones may have been
  finished.\<close>

definition io_stays :: "('d, 'b) backend_scheme \<Rightarrow> ('d \<Rightarrow> nat \<Rightarrow> byte) \<Rightarrow> ('d, 'm) fdev_scheme
    \<Rightarrow> ('d, 'm) fdev_scheme \<Rightarrow> bool" where
  "io_stays be media s s' \<longleftrightarrow> io_zones s' = io_zones s \<and> geometry be (dev s') = geometry be (dev s) \<and>
    (\<forall>p \<in> set (io_zones s). grown (be_zone_sz be (dev s)) (zheap s p) (zheap s' p) \<and>
       (\<forall>i \<in> zone_range (be_zone_sz be (dev s)) (zheap s p). media (dev s') i = media (dev s) i)) \<and>
    (\<forall>g. file_kept (fheap s' g) = file_kept (fheap s g)) \<and> (index_ok s \<longrightarrow> index_ok s')"

text \<open>\<open>meta_stays\<close>: the metadata zones are as before, and everything outside the device and the file
  objects.\<close>

definition meta_stays :: "('d, 'b) backend_scheme \<Rightarrow> ('d, 'm) fdev_scheme \<Rightarrow> ('d, 'm) fdev_scheme \<Rightarrow> bool" where
  "meta_stays be s s' \<longleftrightarrow> io_zones s' = io_zones s \<and> meta_zones s' = meta_zones s \<and>
    zone_start_to_pointer_map s' = zone_start_to_pointer_map s \<and>
    geometry be (dev s') = geometry be (dev s) \<and> fdev.more s' = fdev.more s \<and>
    (\<forall>p. z_start (zheap s' p) = z_start (zheap s p)) \<and>
    (\<forall>p. p \<notin> set (io_zones s) \<longrightarrow> grown (be_zone_sz be (dev s)) (zheap s p) (zheap s' p) \<and>
       (z_busy (zheap s p) \<longrightarrow> z_busy (zheap s' p)))"

lemma meta_stays_refl [simp]: "meta_stays be s s" by (simp add: meta_stays_def)

lemma meta_stays_trans: "meta_stays be s s' \<Longrightarrow> meta_stays be s' s'' \<Longrightarrow> meta_stays be s s''"
  using geometry_zone_sz [of be "dev s'" "dev s"]
  by (auto simp: meta_stays_def intro: grown_trans)

lemma io_stays_refl [simp]: "io_stays be media s s" by (simp add: io_stays_def)

lemma grown_range: "grown zsz z z' \<Longrightarrow> zone_range b z' = zone_range b z"
  by (simp add: grown_def zone_range_def)

lemma io_stays_trans:
  assumes "io_stays be media s s'" "io_stays be media s' s''"
  shows "io_stays be media s s''"
proof -
  have g: "be_zone_sz be (dev s') = be_zone_sz be (dev s)"
    using assms(1) by (auto simp: io_stays_def intro: geometry_zone_sz)
  show ?thesis
    using assms grown_trans grown_range unfolding io_stays_def g by (auto; metis)
qed

lemma index_ok_frame:
  assumes "index_ok s" "zone_start_to_pointer_map s' = zone_start_to_pointer_map s" "io_zones s' = io_zones s"
    "\<And>p. p \<notin> set (io_zones s) \<Longrightarrow> z_used (zheap s' p) = z_used (zheap s p) \<and>
       (z_busy (zheap s p) \<longrightarrow> z_busy (zheap s' p))"
  shows "index_ok s'"
  using assms by (auto simp: index_ok_def zone_ops)

lemma data_frame_stays:
  assumes "data_frame be media s s'"
  shows "io_stays be media s s'" "meta_stays be s s'"
proof -
  have "index_ok s \<longrightarrow> index_ok s'"
    using assms index_ok_frame [of s s'] by (auto simp: data_frame_def grown_def)
  then show "io_stays be media s s'"
    using assms by (auto simp: data_frame_def io_stays_def same_files_def file_kept_def)
  show "meta_stays be s s'"
    using assms by (auto simp: data_frame_def meta_stays_def same_files_def grown_def)
qed

section \<open>The state of the I/O zones\<close>

text \<open>
  Capacities are whole blocks (as on a zoned device), and no zone is dead: a zone that a failing device
  took offline is empty and without capacity, and would be allocated for ever.
\<close>

definition disk_ok :: "('d, 'b) backend_scheme \<Rightarrow> ('d, 'm) zbd_scheme \<Rightarrow> bool" where
  "disk_ok be s \<longleftrightarrow> distinct (io_zones s) \<and> index_ok s \<and>
    (\<forall>p \<in> set (io_zones s). zone_wf (be_zone_sz be (dev s)) (zheap s p) \<and>
       unat (be_block_sz be (dev s)) dvd unat (z_capacity (zheap s p)) \<and>
       (IsEmpty (zheap s p) \<longrightarrow> \<not> IsFull (zheap s p))) \<and>
    (\<forall>p \<in> set (io_zones s). \<forall>q \<in> set (io_zones s). p \<noteq> q \<longrightarrow>
       zone_range (be_zone_sz be (dev s)) (zheap s p) \<inter> zone_range (be_zone_sz be (dev s)) (zheap s q) = {})"

lemma live_zone_size:
  "zone_wf zsz z \<Longrightarrow> (IsEmpty z \<longrightarrow> \<not> IsFull z) \<Longrightarrow> 0 < unat zsz"
proof (rule ccontr)
  assume wf: "zone_wf zsz z" and live: "IsEmpty z \<longrightarrow> \<not> IsFull z" and "\<not> 0 < unat zsz"
  then have z: "unat zsz = 0" by simp
  then have "unat (z_wp z) = unat (z_start z)" "z_capacity z \<noteq> 0 \<longrightarrow> unat (z_capacity z) = 0"
    using wf by (auto simp: zone_wf_def word_le_nat_alt)
  then show False using live by (auto simp: zone_ops word_unat_eq_iff)
qed

lemma grown_live:
  assumes "grown zsz z z'" "zone_wf zsz z" "IsEmpty z \<longrightarrow> \<not> IsFull z"
  shows "IsEmpty z' \<longrightarrow> \<not> IsFull z'"
proof -
  have "z_start z + zsz \<noteq> z_start z" using live_zone_size [OF assms(2,3)] by auto
  then show ?thesis using assms by (auto simp: grown_def zone_ops)
qed

lemma grown_dvd: "grown zsz z z' \<Longrightarrow> b dvd unat (z_capacity z) \<Longrightarrow> b dvd unat (z_capacity z')"
  by (auto simp: grown_def)

lemma disk_ok_stays:
  assumes "io_stays be media s s'" "disk_ok be s"
  shows "disk_ok be s'"
proof -
  have g: "be_zone_sz be (dev s') = be_zone_sz be (dev s)" "be_block_sz be (dev s') = be_block_sz be (dev s)"
    using assms(1) by (simp_all add: io_stays_def geometry_def)
  have r: "zone_range (be_zone_sz be (dev s)) (zheap s' p) = zone_range (be_zone_sz be (dev s)) (zheap s p)"
    if "p \<in> set (io_zones s)" for p
    using assms(1) that by (simp add: io_stays_def zone_range_def grown_def)
  show ?thesis
    using assms grown_wf grown_live grown_dvd r
    unfolding disk_ok_def g by (auto simp: io_stays_def) 
qed

section \<open>Files in the zones\<close>

definition extent_in :: "('d, 'm) zbd_scheme \<Rightarrow> extent \<Rightarrow> bool" where
  "extent_in s e \<longleftrightarrow> e_zone e \<in> set (io_zones s) \<and>
    unat (z_start (zheap s (e_zone e))) \<le> unat (e_start e) \<and>
    unat (e_start e) + unat (e_length e) \<le> unat (z_wp (zheap s (e_zone e)))"

definition file_in :: "fptr \<Rightarrow> ('d, 'm) fdev_scheme \<Rightarrow> bool" where
  "file_in f s \<longleftrightarrow> list_all (extent_in s) (f_extents (fheap s f))"

lemma extent_in_range:
  assumes "extent_in s e" "disk_ok be s" "unat (e_start e) \<le> i" "i < unat (e_start e) + unat (e_length e)"
  shows "i \<in> zone_range (be_zone_sz be (dev s)) (zheap s (e_zone e))"
  using assms by (auto simp: extent_in_def disk_ok_def zone_range_def zone_wf_def)

lemma content_cong:
  assumes "\<And>e i. e \<in> set es \<Longrightarrow> unat (e_start e) \<le> i \<Longrightarrow> i < unat (e_start e) + unat (e_length e) \<Longrightarrow> m i = m' i"
  shows "content m es = content m' es"
  using assms by (induction es) (force simp: media_slice_def)+

lemma file_kept_fields:
  assumes "file_kept zf = file_kept zf'"
  shows "f_extents zf = f_extents zf'" "f_file_size zf = f_file_size zf'" "f_active_zone zf = f_active_zone zf'"
    "f_extent_start zf = f_extent_start zf'" "f_extent_filepos zf = f_extent_filepos zf'"
    "f_is_sparse zf = f_is_sparse zf'" "f_linkfiles zf = f_linkfiles zf'" "f_file_id zf = f_file_id zf'"
  using assms by (cases zf; cases zf'; simp add: file_kept_def core_def)+

lemma file_stays:
  assumes "io_stays be media s s'" "disk_ok be s" "file_in f s"
  shows "file_in f s'" "content (media (dev s')) (f_extents (fheap s' f)) = content (media (dev s)) (f_extents (fheap s f))"
proof -
  have es: "f_extents (fheap s' f) = f_extents (fheap s f)"
    using assms(1) by (auto simp: io_stays_def intro: file_kept_fields)
  have e: "extent_in s' e" if "extent_in s e" for e
    using that assms(1,2) grown_wp
    by (fastforce simp: extent_in_def io_stays_def disk_ok_def grown_def zone_wf_def)
  then show "file_in f s'" using assms(3) by (auto simp: file_in_def es list_all_iff)
  show "content (media (dev s')) (f_extents (fheap s' f)) = content (media (dev s)) (f_extents (fheap s f))"
    unfolding es
  proof (rule content_cong)
    fix e i
    assume "e \<in> set (f_extents (fheap s f))" "unat (e_start e) \<le> i" "i < unat (e_start e) + unat (e_length e)"
    moreover from this have x: "extent_in s e" using assms(3) by (simp add: file_in_def list_all_iff)
    ultimately have "i \<in> zone_range (be_zone_sz be (dev s)) (zheap s (e_zone e))"
      using assms(2) extent_in_range by blast
    then show "media (dev s') i = media (dev s) i"
      using assms(1) x by (auto simp: io_stays_def extent_in_def)
  qed
qed

section \<open>One append to a zone\<close>

context steady_storage
begin

lemma append_io:
  assumes "Zone_Append be z data s = Some (st, s1)" "disk_ok be s" "z \<in> set (io_zones s)"
  shows "\<exists>n d. s1 = append_result z n d s \<and> meta_stays be s s1 \<and> geometry be d = geometry be (dev s) \<and>
    (st = OK \<longrightarrow> n = length data \<and> media_slice (media d) (unat (z_wp (zheap s z))) (length data) = data) \<and>
    (st = NoSpace \<longleftrightarrow> unat (z_capacity (zheap s z)) < length data) \<and>
    unat (z_wp (zheap s1 z)) = unat (z_wp (zheap s z)) + n \<and>
    unat (z_capacity (zheap s1 z)) = unat (z_capacity (zheap s z)) - n \<and>
    (\<forall>i < unat (z_wp (zheap s z)). media d i = media (dev s) i) \<and>
    (file_in f s \<longrightarrow> file_in f s1 \<and>
       content (media d) (f_extents (fheap s f)) = content (media (dev s)) (f_extents (fheap s f))) \<and>
    (unat (be_block_sz be (dev s)) dvd n \<longrightarrow> disk_ok be s1)"
proof (cases "unat (z_capacity (zheap s z)) < length data")
  case True
  then have "st = NoSpace" "s1 = append_result z 0 (dev s) s"
    using assms(1) by (simp_all add: Zone_Append_def append_result_0)
  then show ?thesis
    using True assms(2) by (intro exI [of _ 0] exI [of _ "dev s"]) (auto simp: append_result_0)
next
  case False
  define w where "w = unat (z_wp (zheap s z))"
  have wf: "zone_wf (be_zone_sz be (dev s)) (zheap s z)" using assms by (simp add: disk_ok_def)
  obtain ios n d where A: "Zone_Append be z data s = Some (ios, append_result z n d s)"
    and E: "n \<le> length data" "geometry be d = geometry be (dev s)"
      "ios = OK \<longrightarrow> n = length data \<and> media_slice (media d) w (length data) = data"
      "ios = NoSpace \<longleftrightarrow> unat (z_capacity (zheap s z)) < length data"
      "n \<le> unat (z_capacity (zheap s z))"
      "unat (z_wp (zheap (append_result z n d s) z)) = w + n"
      "unat (z_capacity (zheap (append_result z n d s) z)) = unat (z_capacity (zheap s z)) - n"
      "\<forall>i. i < w \<or> w + length data \<le> i \<longrightarrow> media d i = media (dev s) i"
    using Zone_Append_effect [OF wf, of data] unfolding w_def by blast
  have s1: "ios = st" "s1 = append_result z n d s" using A assms(1) by auto
  have other: "zheap s1 p = zheap s p" if "p \<noteq> z" for p
    using that by (simp add: s1 append_result_def upd_zone_def)
  have fields: "z_start (zheap s1 p) = z_start (zheap s p)" "z_used (zheap s1 p) = z_used (zheap s p)"
    "z_busy (zheap s1 p) = z_busy (zheap s p)" "z_max_capacity (zheap s1 p) = z_max_capacity (zheap s p)" for p
    by (simp_all add: s1 append_result_def upd_zone_def)
  have same: "io_zones s1 = io_zones s" "meta_zones s1 = meta_zones s" "fheap s1 = fheap s" "dev s1 = d"
    "zone_start_to_pointer_map s1 = zone_start_to_pointer_map s" "fdev.more s1 = fdev.more s"
    by (simp_all add: s1 append_result_def upd_zone_def)
  have geo: "be_zone_sz be d = be_zone_sz be (dev s)" "be_block_sz be d = be_block_sz be (dev s)"
    using E(2) by (simp_all add: geometry_def)
  have "zheap s1 p = zheap s p" if "p \<notin> set (io_zones s)" for p using that assms(3) by (intro other) auto
  then have meta: "meta_stays be s s1"
    using fields same E(2) by (simp add: meta_stays_def)
  have keep: "media d i = media (dev s) i"
    if "e_zone e \<in> set (io_zones s)" "extent_in s e" "unat (e_start e) \<le> i" "i < unat (e_start e) + unat (e_length e)" for e i
  proof (cases "e_zone e = z")
    case True
    then have "i < w" using that by (auto simp: extent_in_def w_def)
    then show ?thesis using E(8) by blast
  next
    case False
    have "i \<in> zone_range (be_zone_sz be (dev s)) (zheap s (e_zone e))"
      using extent_in_range [OF that(2) assms(2)] that by blast
    then have "i \<notin> zone_range (be_zone_sz be (dev s)) (zheap s z)"
      using assms(2,3) that(1) False by (auto simp: disk_ok_def)
    moreover have "{w ..< w + length data} \<subseteq> zone_range (be_zone_sz be (dev s)) (zheap s z)"
      using wf \<open>\<not> unat (z_capacity (zheap s z)) < length data\<close>
      by (cases "z_capacity (zheap s z) = 0") (auto simp: zone_range_def zone_wf_def w_def word_le_nat_alt)
    ultimately show ?thesis using E(8) by (metis atLeastLessThan_iff not_le subsetD)
  qed
  have fin: "file_in f s1 \<and> content (media d) (f_extents (fheap s f)) = content (media (dev s)) (f_extents (fheap s f))"
    if F: "file_in f s"
  proof
    have "extent_in s1 e" if "extent_in s e" for e
      using that E(6) other [of "e_zone e"] fields(1) [of "e_zone e"] same(1)
      by (cases "e_zone e = z") (auto simp: extent_in_def s1(2) [symmetric] w_def)
    then show "file_in f s1" using F by (auto simp: file_in_def same list_all_iff)
    show "content (media d) (f_extents (fheap s f)) = content (media (dev s)) (f_extents (fheap s f))"
      by (rule content_cong) (use F keep in \<open>auto simp: file_in_def list_all_iff extent_in_def\<close>)
  qed
  have disk: "disk_ok be s1" if "unat (be_block_sz be (dev s)) dvd n"
  proof -
    have z: "zone_wf (be_zone_sz be (dev s)) (zheap s1 z)" 
      using wf E(5-7) fields(1,4) [of z] unfolding s1(2) [symmetric]
      by (cases "z_capacity (zheap s z) = 0") (auto simp: zone_wf_def w_def word_le_nat_alt unat_eq_0)
    have dv: "unat (be_block_sz be (dev s)) dvd unat (z_capacity (zheap s1 z))"
      using that E(5,7) assms(2,3) by (simp add: s1(2) disk_ok_def dvd_diff_nat)
    have live: "IsEmpty (zheap s1 z) \<longrightarrow> \<not> IsFull (zheap s1 z)"
    proof
      assume "IsEmpty (zheap s1 z)"
      then have "w + n = unat (z_start (zheap s z))" using E(6) fields(1) [of z] by (simp add: zone_ops s1(2))
      moreover have "unat (z_start (zheap s z)) \<le> w" using wf by (simp add: zone_wf_def w_def word_le_nat_alt)
      ultimately have "n = 0" "IsEmpty (zheap s z)" by (auto simp: zone_ops w_def word_unat_eq_iff)
      then show "\<not> IsFull (zheap s1 z)"
        using assms(2,3) E(7) by (auto simp: disk_ok_def zone_ops s1(2) word_unat_eq_iff)
    qed
    have "index_ok s1" by (rule index_ok_frame [of s]) (use assms(2) same fields in \<open>auto simp: disk_ok_def\<close>)
    then show ?thesis
      using assms(2) z dv live other same geo fields(1) unfolding disk_ok_def
      by (auto simp: zone_range_def; metis)
  qed
  show ?thesis
    using s1 meta E fin disk unfolding w_def by (intro exI [of _ n] exI [of _ d]) simp
qed

end

section \<open>The buffer\<close>

lemma pad_u32:
  fixes w b :: u32
  assumes "0 < unat b" "roundup (unat b) (unat w) < 2 ^ 32"
  defines "pad \<equiv> (if w mod b \<noteq> 0 then b - w mod b else 0)"
  shows "unat pad = roundup (unat b) (unat w) - unat w" "unat (w + pad) = roundup (unat b) (unat w)"
proof -
  have m: "unat (w mod b) = unat w mod unat b" by (simp add: unat_mod)
  have "w mod b \<le> b" using assms(1) by (simp add: word_le_nat_alt m less_imp_le)
  then have s: "unat (b - w mod b) = unat b - unat w mod unat b" by (simp add: unat_sub m)
  have z: "w mod b = 0 \<longleftrightarrow> unat w mod unat b = 0" by (simp add: m flip: unat_eq_0)
  show 1: "unat pad = roundup (unat b) (unat w) - unat w" by (simp add: pad_def z s roundup_def)
  show "unat (w + pad) = roundup (unat b) (unat w)"
    using 1 assms(2) roundup_le [OF assms(1), of "unat w"] by (subst unat_add_u32) auto
qed

text \<open>What one round puts into the buffer: the header, the data, zeros up to the block boundary.\<close>

lemma chunk_buffer:
  fixes h wr n b :: nat
  assumes "0 < b" "roundup b (n + h) \<le> length buf" "wr \<le> n + h" "h \<le> wr" "length hdr = h"
    and "buf0 = (if roundup b wr - wr \<noteq> 0 then memset0 wr (roundup b wr - wr) buf else Some buf)"
  obtains buf1 where "Option.bind buf0 (put_header hdr) = Some buf1" "length buf1 = length buf"
    "roundup b wr \<le> length buf1" "take wr buf1 = hdr @ take (wr - h) (drop h buf)"
    "b dvd wr \<Longrightarrow> drop h buf1 = drop h buf"
proof -
  have r: "roundup b wr \<le> length buf" "wr \<le> roundup b wr"
    using roundup_mono [OF assms(1,3)] assms(2) roundup_le [OF assms(1), of wr] by auto
  obtain tail where b0: "buf0 = Some (take wr buf @ tail)" and len: "wr + length tail = length buf"
    and al: "b dvd wr \<Longrightarrow> tail = drop wr buf"
  proof (cases "roundup b wr = wr")
    case True
    then show ?thesis using that [of "drop wr buf"] assms(6) r by simp
  next
    case False
    then show ?thesis
      using that [of "replicate (roundup b wr - wr) 0 @ drop (roundup b wr) buf"] assms(6) r roundup_id [of b wr]
      by (simp add: memset0_def)
  qed
  let ?b = "hdr @ drop h (take wr buf @ tail)"
  have "put_header hdr (take wr buf @ tail) = Some ?b"
    using assms(4,5) r by (simp add: put_header_def)
  moreover have "length ?b = length buf" using assms(4,5) r len by simp
  moreover have "take wr ?b = hdr @ take (wr - h) (drop h buf)"
    using assms(4,5) r by (simp add: drop_take)
  moreover have "drop h ?b = drop h buf" if "b dvd wr" using al [OF that] assms(5) by simp
  ultimately show ?thesis using that [of ?b] b0 r by simp
qed

section \<open>The contract of the metadata writer\<close>

text \<open>
  \<open>Inv\<close> is what the writer maintains of its own state (its log zone). It survives every operation that
  leaves the metadata zones alone; persisting a file leaves the I/O zones and the file objects alone.
\<close>

locale metadata_writer = steady_storage be media + zone_allocation be media env
  for be :: "('d, 'b) backend_scheme" and media and env +
  fixes persist :: "('d, 'm) writer" and Inv :: "('d, 'm) fdev_scheme \<Rightarrow> bool"
  assumes Inv_stays: "Inv s \<Longrightarrow> meta_stays be s s' \<Longrightarrow> Inv s'"
    and persist_stays: "Inv s \<Longrightarrow> disk_ok be s \<Longrightarrow> persist f s = Some (st, s') \<Longrightarrow>
      Inv s' \<and> io_stays be media s s' \<and> (\<forall>p \<in> set (io_zones s). zheap s' p = zheap s p)"

text \<open>\<open>ready f s\<close>: the zones are in order and file \<open>f\<close> can be appended to.\<close>

definition ready :: "('d, 'b) backend_scheme \<Rightarrow> fptr \<Rightarrow> ('d, 'm) fdev_scheme \<Rightarrow> bool" where
  "ready be f s \<longleftrightarrow> disk_ok be s \<and> file_in f s \<and>
    (\<forall>z. f_active_zone (fheap s f) = Some z \<longrightarrow> z \<in> set (io_zones s) \<and>
       f_extent_start (fheap s f) = z_wp (zheap s z) \<and> \<not> IsFull (zheap s z))"

text \<open>\<open>appended f bytes s s'\<close>: the content of the file has grown by \<open>bytes\<close>.\<close>

definition appended :: "('d \<Rightarrow> nat \<Rightarrow> byte) \<Rightarrow> fptr \<Rightarrow> byte list \<Rightarrow> ('d, 'm) fdev_scheme
    \<Rightarrow> ('d, 'm) fdev_scheme \<Rightarrow> bool" where
  "appended media f bytes s s' \<longleftrightarrow>
    content (media (dev s')) (f_extents (fheap s' f)) = content (media (dev s)) (f_extents (fheap s f)) @ bytes \<and>
    f_file_size (fheap s' f) = f_file_size (fheap s f) + of_nat (length bytes) \<and>
    f_is_sparse (fheap s' f) = f_is_sparse (fheap s f)"

lemma appended_trans:
  "appended media f xs s s' \<Longrightarrow> appended media f ys s' s'' \<Longrightarrow> appended media f (xs @ ys) s s''"
  by (simp add: appended_def)

lemma disk_ok_frame:
  assumes "disk_ok be s" "io_zones s' = io_zones s" "geometry be (dev s') = geometry be (dev s)"
    "zone_start_to_pointer_map s' = zone_start_to_pointer_map s"
    "\<And>p. p \<notin> set (io_zones s) \<Longrightarrow> z_used (zheap s' p) = z_used (zheap s p) \<and>
       (z_busy (zheap s p) \<longrightarrow> z_busy (zheap s' p))"
    "\<And>p. z_start (zheap s' p) = z_start (zheap s p) \<and> z_wp (zheap s' p) = z_wp (zheap s p) \<and>
       z_capacity (zheap s' p) = z_capacity (zheap s p) \<and> z_max_capacity (zheap s' p) = z_max_capacity (zheap s p)"
  shows "disk_ok be s'"
proof -
  have "index_ok s'" by (rule index_ok_frame [of s]) (use assms in \<open>auto simp: disk_ok_def\<close>)
  then show ?thesis
    using assms unfolding disk_ok_def by (auto simp: geometry_def zone_range_def zone_wf_def zone_ops)
qed

lemma disk_ok_upd_file [simp]: "disk_ok be (upd_file f g s) = disk_ok be s"
  by (auto simp: disk_ok_def index_ok_def upd_file_def)

lemma extent_in_upd_file [simp]: "extent_in (upd_file f g s) = extent_in s"
  by (rule ext) (simp add: extent_in_def)

lemma meta_stays_upd_file [simp]: "meta_stays be s (upd_file f g s') = meta_stays be s s'"
  by (simp add: meta_stays_def upd_file_def)

text \<open>The working steps of a file that do not move its data.\<close>

definition steady :: "('d, 'b) backend_scheme \<Rightarrow> ('d \<Rightarrow> nat \<Rightarrow> byte) \<Rightarrow> fptr \<Rightarrow> ('d, 'm) fdev_scheme
    \<Rightarrow> ('d, 'm) fdev_scheme \<Rightarrow> bool" where
  "steady be media f s s' \<longleftrightarrow> appended media f [] s s' \<and> geometry be (dev s') = geometry be (dev s) \<and>
    (disk_ok be s \<and> file_in f s \<longrightarrow> disk_ok be s' \<and> file_in f s')"

lemma steady_trans: "steady be media f s s' \<Longrightarrow> steady be media f s' s'' \<Longrightarrow> steady be media f s s''"
  by (auto simp: steady_def appended_def)

lemma steady_upd_file:
  "(\<And>zf. f_extents (g zf) = f_extents zf \<and> f_file_size (g zf) = f_file_size zf \<and> f_is_sparse (g zf) = f_is_sparse zf) \<Longrightarrow>
     steady be media f s (upd_file f g s)"
  by (simp add: steady_def appended_def file_in_def)

lemma steady_io_stays:
  assumes "io_stays be media s s'" "disk_ok be s" "file_in f s"
  shows "steady be media f s s'"
proof -
  have "f_file_size (fheap s' f) = f_file_size (fheap s f)" "f_is_sparse (fheap s' f) = f_is_sparse (fheap s f)"
    using assms(1) file_kept_fields [of "fheap s' f" "fheap s f"] by (simp_all add: io_stays_def)
  then show ?thesis
    using file_stays [OF assms] disk_ok_stays [OF assms(1,2)] assms(1)
    by (simp add: steady_def appended_def io_stays_def)
qed

lemma token_steady [simp]:
  "steady be media f s (PutOpenIOZoneToken s') = steady be media f s s'"
  "steady be media f s (PutActiveIOZoneToken s') = steady be media f s s'"
  "meta_stays be s (PutOpenIOZoneToken s') = meta_stays be s s'"
  "meta_stays be s (PutActiveIOZoneToken s') = meta_stays be s s'"
  "fheap (PutOpenIOZoneToken s) = fheap s" "fheap (PutActiveIOZoneToken s) = fheap s"
  by (simp_all add: token_ops steady_def appended_def meta_stays_def disk_ok_def index_ok_def file_in_def
      extent_in_def list_all_iff)

context steady_storage
begin

lemma CloseActiveZone_steady:
  assumes "CloseActiveZone be f s = (st, s')" "f_active_zone (fheap s f) = Some z" "z \<in> set (io_zones s)"
  shows "steady be media f s s' \<and> meta_stays be s s' \<and> fheap s' = (fheap s)(f := (fheap s f)\<lparr>f_active_zone := None\<rparr>)"
proof -
  obtain st1 s1 where C: "Zone_Close be z s = (st1, s1)" by fastforce
  obtain d where d: "s1 = s\<lparr>dev := d\<rparr>" "media d = media (dev s)" "geometry be d = geometry be (dev s)"
  proof (cases "IsEmpty (zheap s z) \<or> IsFull (zheap s z)")
    case True
    then show ?thesis using C that [of "dev s"] by (auto simp: Zone_Close_def)
  next
    case False
    obtain st2 d where "be_Close be (z_start (zheap s z)) (dev s) = (st2, d)" by fastforce
    then show ?thesis using C that [of d] False close_media close_geometry by (auto simp: Zone_Close_def)
  qed
  have s': "s' = ReleaseActiveZone f s1 \<or> s' = PutOpenIOZoneToken (ReleaseActiveZone f s1) \<or>
      s' = PutActiveIOZoneToken (PutOpenIOZoneToken (ReleaseActiveZone f s1))"
    using assms(1,2) C by (auto simp: CloseActiveZone_def Let_def split: if_splits)
  define s2 where "s2 = ReleaseActiveZone f s1"
  have f2: "fheap s2 = (fheap s)(f := (fheap s f)\<lparr>f_active_zone := None\<rparr>)" and
    z2: "zheap s2 p = (if p = z then (zheap s z)\<lparr>z_busy := False\<rparr> else zheap s p)" and
    r2: "dev s2 = d" "io_zones s2 = io_zones s" "meta_zones s2 = meta_zones s"
      "zone_start_to_pointer_map s2 = zone_start_to_pointer_map s" "fdev.more s2 = fdev.more s" for p
    using assms(2) d(1)
    by (auto simp: s2_def ReleaseActiveZone_def Zone_Release_def upd_zone_def upd_file_def zone_busy_restore)
  have "disk_ok be s2" if "disk_ok be s"
    by (rule disk_ok_frame [OF that]) (use r2 z2 d(3) assms(3) in \<open>auto split: if_splits\<close>)
  moreover have "extent_in s2 = extent_in s" by (rule ext) (simp add: extent_in_def z2 r2)
  ultimately have st: "steady be media f s s2"
    by (simp add: steady_def appended_def f2 r2(1) d(2,3) file_in_def)
  have mt: "meta_stays be s s2"
    using r2 z2 d(3) assms(3) by (auto simp: meta_stays_def split: if_splits)
  show ?thesis using s' st mt f2 unfolding s2_def [symmetric]
    by auto
qed

end

context metadata_writer
begin

lemma AllocateNewZone_ready:
  assumes A: "AllocateNewZone env be persist f s = Some (st, s')" and inv: "Inv s" "disk_ok be s" "file_in f s"
  shows "Inv s' \<and> steady be media f s s' \<and> (st = OK \<longrightarrow> ready be f s' \<and> f_active_zone (fheap s' f) \<noteq> None)"
proof -
  obtain st1 zone s1 where Z: "AllocateIOZone env be (f_lifetime (fheap s f)) (f_io_type (fheap s f)) f s =
      Some (st1, zone, s1)"
    using A by (auto simp: AllocateNewZone_def split: option.splits)
  have "distinct (io_zones s)" "index_ok s" using inv(2) by (simp_all add: disk_ok_def)
  note D = AllocateIOZoneNoLock_data_frame [OF Z [unfolded AllocateIOZone_def] this]
  have fr: "io_stays be media s s1" "meta_stays be s s1" using D data_frame_stays by blast+
  have 1: "Inv s1" "steady be media f s s1" "disk_ok be s1" "file_in f s1"
    using Inv_stays [OF inv(1) fr(2)] steady_io_stays [OF fr(1) inv(2,3)] inv by (auto simp: steady_def)
  show ?thesis
  proof (cases "st1 = OK \<and> zone \<noteq> None")
    case False
    then have "s' = s1" "st \<noteq> OK" using A Z by (auto simp: AllocateNewZone_def split: option.splits if_splits)
    then show ?thesis using 1 by simp
  next
    case True
    then obtain z where z: "zone = Some z" by blast
    define s2 where "s2 = upd_file f (\<lambda>zf. zf\<lparr>f_extent_start := z_wp (zheap s1 z), f_extent_filepos := f_file_size zf\<rparr>)
      (SetActiveZone f z s1)"
    have P: "persist f s2 = Some (st, s')"
      using A Z True z by (simp add: AllocateNewZone_def s2_def SetActiveZone_def Let_def)
    have s2: "steady be media f s1 s2" unfolding s2_def SetActiveZone_def upd_file_twice
      by (rule steady_upd_file) simp
    have i2: "Inv s2" "disk_ok be s2" "file_in f s2"
      using Inv_stays [OF 1(1), of s2] s2 1 by (auto simp: s2_def SetActiveZone_def steady_def)
    note P' = persist_stays [OF i2(1,2) P]
    have k: "f_active_zone (fheap s' f) = Some z" "f_extent_start (fheap s' f) = z_wp (zheap s1 z)"
      using P' file_kept_fields [of "fheap s' f" "fheap s2 f"]
      by (auto simp: io_stays_def s2_def SetActiveZone_def)
    have zio: "z \<in> set (io_zones s')" "zheap s' z = zheap s1 z" "io_zones s' = io_zones s1"
      using D z P' fr(1) by (auto simp: io_stays_def s2_def SetActiveZone_def)
    have "\<not> IsFull (zheap s' z)"
      using D z zio 1(3) by (auto simp: disk_ok_def)
    moreover have st2: "steady be media f s2 s'" using P' i2 steady_io_stays by blast
    then have "disk_ok be s'" "file_in f s'" using i2 by (auto simp: steady_def)
    moreover have "steady be media f s s'" using steady_trans [OF steady_trans [OF 1(2) s2] st2] .
    ultimately show ?thesis using P' k zio by (simp add: ready_def)
  qed
qed

text \<open>The write of one chunk, with the bookkeeping after it (\<open>s2\<close> in \<open>append_loop\<close>).\<close>

lemma chunk_written:
  assumes R: "ready be f s" "f_active_zone (fheap s f) = Some z"
    and A: "Zone_Append be z data s = Some (OK, s1)"
    and blk: "unat (be_block_sz be (dev s)) dvd length data" and n: "unat h + unat n \<le> length data"
    and s2: "s2 = charge z n (upd_file f (\<lambda>zf. zf\<lparr>f_extents := f_extents zf @
        [\<lparr>e_start = f_extent_start (fheap s1 f) + h, e_length = n, e_zone = z, e_level = l\<rparr>],
        f_extent_start := z_wp (zheap s1 z), f_file_size := f_file_size zf + n\<rparr>) s1)"
  shows "appended media f (take (unat n) (drop (unat h) data)) s s2 \<and> meta_stays be s s2 \<and>
    disk_ok be s2 \<and> file_in f s2 \<and> z \<in> set (io_zones s2) \<and> f_active_zone (fheap s2 f) = Some z \<and>
    f_extent_start (fheap s2 f) = z_wp (zheap s2 z) \<and>
    unat (z_wp (zheap s2 z)) = unat (z_wp (zheap s z)) + length data \<and>
    unat (z_capacity (zheap s2 z)) = unat (z_capacity (zheap s z)) - length data \<and>
    f_extents (fheap s2 f) = f_extents (fheap s f) @
      [\<lparr>e_start = z_wp (zheap s z) + h, e_length = n, e_zone = z, e_level = l\<rparr>] \<and>
    media_slice (media (dev s2)) (unat (z_wp (zheap s z))) (length data) = data \<and>
    (\<forall>i < unat (z_wp (zheap s z)). media (dev s2) i = media (dev s) i)"
proof -
  let ?w = "unat (z_wp (zheap s z))"
  have z: "disk_ok be s" "file_in f s" "z \<in> set (io_zones s)" "f_extent_start (fheap s f) = z_wp (zheap s z)"
    using R by (auto simp: ready_def)
  obtain d where E: "s1 = append_result z (length data) d s" "meta_stays be s s1"
      "media_slice (media d) ?w (length data) = data"
      "unat (z_wp (zheap s1 z)) = ?w + length data"
      "unat (z_capacity (zheap s1 z)) = unat (z_capacity (zheap s z)) - length data"
      "file_in f s1" "content (media d) (f_extents (fheap s f)) = content (media (dev s)) (f_extents (fheap s f))"
      "disk_ok be s1" "\<forall>i < ?w. media d i = media (dev s) i"
    using append_io [OF A z(1,3), of f] z(2) blk by auto
  have s1: "dev s1 = d" "fheap s1 = fheap s" "io_zones s1 = io_zones s"
    by (simp_all add: E(1) append_result_def upd_zone_def)
  have start: "unat (z_wp (zheap s z) + h) = ?w + unat h"
    using E(4) n unat_lt_u64 [of "z_wp (zheap s1 z)"] by (intro unat_add_u64) linarith
  have zw: "z_wp (zheap s2 p) = z_wp (zheap s1 p)" "z_capacity (zheap s2 p) = z_capacity (zheap s1 p)"
    "z_start (zheap s2 p) = z_start (zheap s1 p)" for p
    by (simp_all add: s2 zheap_charge)
  have disk: "disk_ok be s2"
    by (rule disk_ok_frame [OF E(8)]) (use z(3) in \<open>auto simp: s2 zheap_charge s1\<close>, simp_all add: charge_def upd_zone_def upd_file_def)
  have ex: "extent_in s2 = extent_in s1" by (rule ext) (simp add: extent_in_def zw, simp add: s2)
  have wf: "unat (z_start (zheap s1 z)) \<le> ?w"
    using z(1,3) by (auto simp: E(1) append_result_def upd_zone_def disk_ok_def zone_wf_def word_le_nat_alt)
  then have new: "extent_in s1 \<lparr>e_start = z_wp (zheap s z) + h, e_length = n, e_zone = z, e_level = l\<rparr>"
    using E(4) n start z(3) by (simp add: extent_in_def s1)
  have slice: "media_slice (media d) (?w + unat h) (unat n) = take (unat n) (drop (unat h) data)"
  proof -
    have "take (unat n) (drop (unat h) (media_slice (media d) ?w (length data))) = media_slice (media d) (?w + unat h) (unat n)"
      using n by (simp add: drop_media_slice take_media_slice)
    then show ?thesis using E(3) by simp
  qed
  have "file_in f s2" using E(6) new ex z(4) by (simp add: file_in_def s2 s1)
  moreover have "appended media f (take (unat n) (drop (unat h) data)) s s2"
    using E(7) slice start n z(4) by (simp add: appended_def s2 s1)
  moreover have "meta_stays be s s2"
    using E(2) z(3) by (auto simp: s2 meta_stays_def zheap_charge s1) (simp_all add: charge_def upd_zone_def upd_file_def)
  ultimately show ?thesis using disk zw E(3-5,9) z R(2) by (simp add: s1) (simp add: s2 s1)
qed

end

locale file_writer = metadata_writer be media env persist Inv + coding_laws c
  for be :: "('d, 'b) backend_scheme" and media env and persist :: "('d, 'm) writer" and Inv
    and c :: "'e coding_scheme"
begin

end

end
