(* ===== verification/Write_Content.thy ===== *)
theory Write_Content
  imports Zone_Write
begin

text \<open>
  What the append routines write: the content of the file (the bytes of its extents) grows by the data,
  and what a crash leaves of a sparse file can be recovered from the zone. The proofs follow one round
  of the loop, whatever zones, policies and metadata writer are involved.
\<close>

section \<open>The append loop\<close>

lemma memmove_shift:
  assumes "src + n \<le> length buf" "dst \<le> src"
  shows "\<exists>buf2. memmove dst src n buf = Some buf2 \<and> length buf2 = length buf \<and>
    take n (drop dst buf2) = take n (drop src buf)"
  using assms by (simp add: memmove_def)

text \<open>The bytes reserved for the header.\<close>

definition header :: "bool \<Rightarrow> nat" where
  "header sparse = (if sparse then 8 else 0)"

text \<open>The buffer has room for the data, its header and the padding.\<close>

definition buffer_ok :: "nat \<Rightarrow> bool \<Rightarrow> byte list \<Rightarrow> u32 \<Rightarrow> bool" where
  "buffer_ok bs sparse buf left \<longleftrightarrow> header sparse < bs \<and>
    roundup bs (unat left + header sparse) \<le> length buf \<and> roundup bs (unat left + header sparse) < 2 ^ 32"

text \<open>The sizes of one round.\<close>

lemma chunk_sizes:
  fixes left wr hw :: u32 and cap :: u64
  assumes "buffer_ok bs sparse buf left" "left \<noteq> 0" "bs dvd unat cap" "cap \<noteq> 0" "unat hw = header sparse"
  defines "wr \<equiv> (if ucast (left + hw) > cap then ucast cap else left + hw)"
  defines "n \<equiv> (ucast (wr - hw) :: u64)"
  shows "unat wr = min (unat left + header sparse) (unat cap)" "unat wr = header sparse + unat n"
    "0 < unat n" "unat n \<le> unat left" "unat (left - ucast n) = unat left - unat n"
    "roundup bs (unat wr) < 2 ^ 32" "unat n < unat left \<Longrightarrow> unat wr = unat cap"
proof -
  let ?h = "header sparse"
  have bs: "0 < bs" "?h < bs" "roundup bs (unat left + ?h) < 2 ^ 32" using assms(1) by (auto simp: buffer_ok_def)
  have cap: "bs \<le> unat cap" using assms(3,4) by (simp add: dvd_imp_le unat_gt_0)
  have lh32: "unat left + ?h < 2 ^ 32" using bs(3) roundup_le(1) [OF bs(1), of "unat left + ?h"] by linarith
  have lh: "unat (left + hw) = unat left + ?h" using lh32 assms(5) by (simp add: unat_add_u32)
  have lt: "cap < ucast (left + hw) \<longleftrightarrow> unat cap < unat left + ?h"
    by (simp only: word_less_nat_alt unat_ucast_u64 lh)
  show wr: "unat wr = min (unat left + ?h) (unat cap)"
  proof (cases "unat cap < unat left + ?h")
    case True
    then have "unat (ucast cap :: u32) = unat cap" using lh32 by (intro unat_ucast_u32) linarith
    then show ?thesis using True lt by (simp only: wr_def if_True min_def) auto
  qed (use lt lh in \<open>simp add: wr_def min_def\<close>)
  have left: "0 < unat left" using assms(2) by (simp add: unat_gt_0)
  have h: "?h < unat wr" using wr left cap bs by auto
  then have n: "unat n = unat wr - ?h"
    using assms(5) by (simp only: n_def unat_ucast_u64) (subst unat_sub, simp_all add: word_le_nat_alt)
  show "unat wr = ?h + unat n" "0 < unat n" and nl: "unat n \<le> unat left" using n h wr by auto
  show "unat n < unat left \<Longrightarrow> unat wr = unat cap" using n wr h by linarith
  have "unat (ucast n :: u32) = unat n" using nl lh32 by (intro unat_ucast_u32) linarith
  then show "unat (left - ucast n) = unat left - unat n" using nl by (simp add: unat_sub word_le_nat_alt)
  show "roundup bs (unat wr) < 2 ^ 32"
    using roundup_mono [OF bs(1), of "unat wr" "unat left + ?h"] wr bs(3) by linarith
qed

text \<open>
  The outcome of writing \<open>data\<close>: the content of the file has grown by a prefix of it, on success by all of
  it, and then the file is ready for the next write.
\<close>

definition write_outcome :: "('d, 'b) backend_scheme \<Rightarrow> ('d \<Rightarrow> nat \<Rightarrow> byte) \<Rightarrow> (('d, 'm) fdev_scheme \<Rightarrow> bool)
    \<Rightarrow> fptr \<Rightarrow> byte list \<Rightarrow> ('d, 'm) fdev_scheme \<Rightarrow> IOStatus \<Rightarrow> ('d, 'm) fdev_scheme \<Rightarrow> bool" where
  "write_outcome be media Inv f data s st s' \<longleftrightarrow>
    geometry be (dev s') = geometry be (dev s) \<and>
    (\<exists>k \<le> length data. appended media f (take k data) s s' \<and> file_in f s' \<and> Inv s' \<and>
       (st = OK \<longrightarrow> k = length data \<and> ready be f s'))"

lemma write_outcome_after:
  assumes "appended media f (take n data) s s1" "write_outcome be media Inv f (drop n data) s1 st s'"
    "n \<le> length data" "geometry be (dev s1) = geometry be (dev s)"
  shows "write_outcome be media Inv f data s st s'"
proof -
  have g: "geometry be (dev s') = geometry be (dev s)" using assms(2,4) by (simp add: write_outcome_def)
  obtain k where "k \<le> length data - n" "appended media f (take k (drop n data)) s1 s'" "file_in f s'" "Inv s'"
      "st = OK \<longrightarrow> k = length data - n \<and> ready be f s'"
    using assms(2) by (auto simp: write_outcome_def)
  then show ?thesis
    using appended_trans [OF assms(1)] assms(3) g unfolding write_outcome_def
    by (intro conjI exI [of _ "n + k"]) (auto simp: take_add)
qed

lemma write_outcome_failed:
  "appended media f (take n data) s s' \<Longrightarrow> n \<le> length data \<Longrightarrow> file_in f s' \<Longrightarrow> Inv s' \<Longrightarrow> st \<noteq> OK \<Longrightarrow>
    geometry be (dev s') = geometry be (dev s) \<Longrightarrow>
    write_outcome be media Inv f data s st s'"
  by (auto simp: write_outcome_def)

text \<open>The loop after a chunk has been written.\<close>

definition append_rest :: "'e coding_scheme \<Rightarrow> penv \<Rightarrow> ('d, 'b) backend_scheme \<Rightarrow> ('d, 'm) writer \<Rightarrow> bool
    \<Rightarrow> fptr \<Rightarrow> byte list \<Rightarrow> u32 \<Rightarrow> u32 \<Rightarrow> zptr \<Rightarrow> ('d, 'm) fdev_scheme
    \<Rightarrow> (IOStatus \<times> byte list \<times> ('d, 'm) fdev_scheme) option" where
  "append_rest c env be persist sparse f buf wr left z s =
    (if z_capacity (zheap s z) = 0 then
       (case CloseActiveZone be f s of (st, s3) \<Rightarrow>
          if st \<noteq> OK then Some (st, buf, s3)
          else case (if left \<noteq> 0 then memmove (header sparse) (unat wr) (unat left) buf else Some buf) of
            None \<Rightarrow> None
          | Some buf2 \<Rightarrow>
              (case AllocateNewZone env be persist f (upd_file f (f_alloc_size_update (\<lambda>_. ucast left)) s3) of
                 None \<Rightarrow> None
               | Some (st, s4) \<Rightarrow>
                   if st \<noteq> OK then Some (st, buf2, s4)
                   else append_loop c env be persist sparse f buf2 left s4))
     else append_loop c env be persist sparse f buf left s)"

context file_writer
begin

text \<open>One round of the loop.\<close>

lemma append_round:
  assumes R: "ready be f s" "f_active_zone (fheap s f) = Some z" and bs: "bs = unat (be_block_sz be (dev s))"
    and ok: "buffer_ok bs sparse buf left" and left: "left \<noteq> 0"
  obtains buf1 st1 s1 s2 n wr where
    "append_loop c env be persist sparse f buf left s =
      (if st1 \<noteq> OK then Some (st1, buf1, s1)
       else append_rest c env be persist sparse f buf1 wr (left - ucast n) z s2)"
    "length buf1 = length buf" "0 < unat (n :: u64)" "unat n \<le> unat left"
    "unat (left - ucast n) = unat left - unat n" "unat (wr :: u32) = header sparse + unat n"
    "unat n < unat left \<longrightarrow> drop (header sparse) buf1 = drop (header sparse) buf"
    "st1 = OK \<and> unat n < unat left \<longrightarrow> z_capacity (zheap s2 z) = 0"
    "st1 \<noteq> OK \<longrightarrow> meta_stays be s s1 \<and> file_in f s1 \<and> appended media f [] s s1"
    "st1 = OK \<longrightarrow> meta_stays be s s2 \<and> file_in f s2 \<and> disk_ok be s2 \<and> z \<in> set (io_zones s2) \<and>
       appended media f (take (unat n) (drop (header sparse) buf)) s s2 \<and>
       f_active_zone (fheap s2 f) = Some z \<and> f_extent_start (fheap s2 f) = z_wp (zheap s2 z)"
    "st1 = OK \<longrightarrow> unat (z_wp (zheap s2 z)) = unat (z_wp (zheap s z)) + roundup bs (unat wr) \<and>
       unat (z_capacity (zheap s2 z)) = unat (z_capacity (zheap s z)) - roundup bs (unat wr) \<and>
       f_extents (fheap s2 f) = f_extents (fheap s f) @ [\<lparr>e_start = z_wp (zheap s z) + of_nat (header sparse),
         e_length = n, e_zone = z, e_level = f_level (fheap s f)\<rparr>] \<and>
       (sparse \<longrightarrow> media_slice (media (dev s2)) (unat (z_wp (zheap s z))) 8 = EncodeFixed64 c n) \<and>
       (\<forall>i < unat (z_wp (zheap s z)). media (dev s2) i = media (dev s) i)"
proof -
  define hw :: u32 where "hw = (if sparse then 8 else 0)"
  define cap where "cap = z_capacity (zheap s z)"
  define wr where "wr = (if ucast (left + hw) > cap then ucast cap else left + hw)"
  define pad where "pad = (if wr mod be_block_sz be (dev s) \<noteq> 0
    then be_block_sz be (dev s) - wr mod be_block_sz be (dev s) else 0)"
  define n where "n = (ucast (wr - hw) :: u64)"
  define hdr where "hdr = (if sparse then EncodeFixed64 c n else [])"
  have hw: "unat hw = header sparse" "unat (ucast hw :: u64) = header sparse"
    by (simp_all add: hw_def header_def unat_ucast_u64)
  have zz: "z \<in> set (io_zones s)" "disk_ok be s" and cap: "bs dvd unat cap" "cap \<noteq> 0"
    using R by (auto simp: ready_def disk_ok_def cap_def bs zone_ops)
  note S = chunk_sizes [OF ok left cap hw(1), folded wr_def, folded n_def]
  have b0: "0 < bs" and rb: "roundup bs (unat left + header sparse) \<le> length buf"
    using ok by (auto simp: buffer_ok_def)
  have p: "unat pad = roundup bs (unat wr) - unat wr" "unat (wr + pad) = roundup bs (unat wr)"
    using pad_u32 [of "be_block_sz be (dev s)" wr] b0 S(6) bs by (auto simp: pad_def)
  have lhdr: "length hdr = header sparse" by (simp add: hdr_def header_def)
  have wle: "unat wr \<le> unat left + header sparse" "header sparse \<le> unat wr" using S by linarith+
  obtain buf1 where B: "Option.bind (if roundup bs (unat wr) - unat wr \<noteq> 0
        then memset0 (unat wr) (roundup bs (unat wr) - unat wr) buf else Some buf) (put_header hdr) = Some buf1"
      "length buf1 = length buf" "roundup bs (unat wr) \<le> length buf1"
      "take (unat wr) buf1 = hdr @ take (unat wr - header sparse) (drop (header sparse) buf)"
      "bs dvd unat wr \<Longrightarrow> drop (header sparse) buf1 = drop (header sparse) buf"
    using chunk_buffer [OF b0 rb wle lhdr refl] by metis
  have pz: "(pad \<noteq> 0) = (roundup bs (unat wr) - unat wr \<noteq> 0)" using p(1) by (metis unat_eq_0)
  define data where "data = take (roundup bs (unat wr)) buf1"
  have dlen: "length data = roundup bs (unat wr)" using B(3) by (simp add: data_def)
  obtain st1 s1 where A: "Zone_Append be z data s = Some (st1, s1)" using Zone_Append_returns by blast
  define s2 where "s2 = charge z n (upd_file f (\<lambda>zf. zf\<lparr>f_extents := f_extents zf @
      [\<lparr>e_start = f_extent_start (fheap s1 f) + ucast hw, e_length = n, e_zone = z, e_level = f_level (fheap s1 f)\<rparr>],
      f_extent_start := z_wp (zheap s1 z), f_file_size := f_file_size zf + n\<rparr>) s1)"
  have bz: "be_block_sz be (dev s) \<noteq> 0" using b0 bs by auto
  have nlt: "\<not> length buf1 < roundup bs (unat wr)" using B(3) by simp
  show thesis
  proof (rule that [of st1 buf1 s1 wr n s2, OF _ B(2) S(3,4,5,2)])
    show "append_loop c env be persist sparse f buf left s =
      (if st1 \<noteq> OK then Some (st1, buf1, s1)
       else append_rest c env be persist sparse f buf1 wr (left - ucast n) z s2)"
      by (subst append_loop.simps, unfold Let_def, fold hw_def, simp only: left if_False R(2) option.case,
          fold cap_def, fold wr_def, fold pad_def, fold n_def, fold hdr_def,
          simp only: bz nlt pz p B(1) if_False option.case, fold data_def,
          simp only: A option.case prod.case, fold s2_def, simp only: hw append_rest_def)
    show "unat n < unat left \<longrightarrow> drop (header sparse) buf1 = drop (header sparse) buf"
      using B(5) cap(1) S(7) by simp
    show "st1 \<noteq> OK \<longrightarrow> meta_stays be s s1 \<and> file_in f s1 \<and> appended media f [] s s1"
      using append_io [OF A zz(2,1), of f] R(1)
      by (auto simp: ready_def appended_def append_result_def upd_zone_def)
    have dat: "take (unat n) (drop (header sparse) data) = take (unat n) (drop (header sparse) buf)"
    proof -
      have "take (unat n) (drop (header sparse) data) = drop (header sparse) (take (unat wr) data)"
        by (simp add: drop_take S(2))
      also have "take (unat wr) data = take (unat wr) buf1"
        using roundup_le(1) [OF b0, of "unat wr"] by (simp add: data_def min_def)
      finally show ?thesis using B(4) lhdr S(2) by simp
    qed
    have lev: "f_level (fheap s1 f) = f_level (fheap s f)"
      using append_io [OF A zz(2,1), of f] by (auto simp: append_result_def upd_zone_def)
    have P: "unat (be_block_sz be (dev s)) dvd length data" "unat (ucast hw :: u64) + unat n \<le> length data"
      using roundup_dvd [OF b0] roundup_le(1) [OF b0, of "unat wr"] S(2) by (simp_all add: dlen hw(2) flip: bs)
    have hwn: "(ucast hw :: u64) = of_nat (header sparse)" by (simp add: hw_def header_def)
    have C: "meta_stays be s s2 \<and> file_in f s2 \<and> disk_ok be s2 \<and> z \<in> set (io_zones s2) \<and>
       appended media f (take (unat n) (drop (header sparse) buf)) s s2 \<and>
       f_active_zone (fheap s2 f) = Some z \<and> f_extent_start (fheap s2 f) = z_wp (zheap s2 z) \<and>
       unat (z_wp (zheap s2 z)) = unat (z_wp (zheap s z)) + roundup bs (unat wr) \<and>
       unat (z_capacity (zheap s2 z)) = unat cap - roundup bs (unat wr) \<and>
       f_extents (fheap s2 f) = f_extents (fheap s f) @ [\<lparr>e_start = z_wp (zheap s z) + of_nat (header sparse),
         e_length = n, e_zone = z, e_level = f_level (fheap s f)\<rparr>] \<and>
       media_slice (media (dev s2)) (unat (z_wp (zheap s z))) (roundup bs (unat wr)) = data \<and>
       (\<forall>i < unat (z_wp (zheap s z)). media (dev s2) i = media (dev s) i)" if "st1 = OK"
      using chunk_written [OF R A [unfolded that] P s2_def, unfolded hw(2), unfolded hwn dat dlen lev]
      by (simp add: cap_def)
    show "st1 = OK \<and> unat n < unat left \<longrightarrow> z_capacity (zheap s2 z) = 0"
      using C S(7) cap(1) roundup_id by (auto simp: unat_eq_0)
    show "st1 = OK \<longrightarrow> meta_stays be s s2 \<and> file_in f s2 \<and> disk_ok be s2 \<and> z \<in> set (io_zones s2) \<and>
       appended media f (take (unat n) (drop (header sparse) buf)) s s2 \<and>
       f_active_zone (fheap s2 f) = Some z \<and> f_extent_start (fheap s2 f) = z_wp (zheap s2 z)"
      using C by simp
    have hd8: "media_slice (media (dev s2)) (unat (z_wp (zheap s z))) 8 = EncodeFixed64 c n" if "st1 = OK" sparse
    proof -
      have "take 8 data = take 8 (take (unat wr) buf1)"
        using roundup_le(1) [OF b0, of "unat wr"] that(2) S(2) by (simp add: data_def header_def min_def)
      also have "\<dots> = EncodeFixed64 c n" using that(2) by (simp add: B(4) hdr_def)
      also have "take 8 data = media_slice (media (dev s2)) (unat (z_wp (zheap s z))) 8"
        using C [OF that(1)] dlen roundup_le(1) [OF b0, of "unat wr"] S(2) that(2) take_media_slice
        by (metis header_def le_add1 le_trans)
      finally show ?thesis by simp
    qed
    show "st1 = OK \<longrightarrow> unat (z_wp (zheap s2 z)) = unat (z_wp (zheap s z)) + roundup bs (unat wr) \<and>
       unat (z_capacity (zheap s2 z)) = unat (z_capacity (zheap s z)) - roundup bs (unat wr) \<and>
       f_extents (fheap s2 f) = f_extents (fheap s f) @ [\<lparr>e_start = z_wp (zheap s z) + of_nat (header sparse),
         e_length = n, e_zone = z, e_level = f_level (fheap s f)\<rparr>] \<and>
       (sparse \<longrightarrow> media_slice (media (dev s2)) (unat (z_wp (zheap s z))) 8 = EncodeFixed64 c n) \<and>
       (\<forall>i < unat (z_wp (zheap s z)). media (dev s2) i = media (dev s) i)"
      using C hd8 by (simp add: cap_def)
  qed
qed

text \<open>Moving on to the next zone.\<close>

lemma append_move:
  assumes ok: "buffer_ok bs sparse buf left" and len: "length buf1 = length buf"
    and wr: "unat (wr :: u32) = header sparse + n" and left': "unat left' = unat left - n" "n \<le> unat left"
    and keep: "n < unat left \<Longrightarrow> drop (header sparse) buf1 = drop (header sparse) buf"
  obtains buf2 where
    "(if left' \<noteq> 0 then memmove (header sparse) (unat wr) (unat left') buf1 else Some buf1) = Some buf2"
    "length buf2 = length buf" "buffer_ok bs sparse buf2 left'"
    "take (unat left') (drop (header sparse) buf2) = drop n (take (unat left) (drop (header sparse) buf))"
proof -
  have bs: "0 < bs" using ok by (simp add: buffer_ok_def)
  have "roundup bs (unat left' + header sparse) \<le> roundup bs (unat left + header sparse)"
    using left' by (intro roundup_mono [OF bs]) simp
  then have ok': "buffer_ok bs sparse buf2 left'" if "length buf2 = length buf" for buf2
    using ok that by (auto simp: buffer_ok_def)
  show thesis
  proof (cases "left' = 0")
    case True
    then have "n = unat left" using left' by simp
    then show thesis using True len ok' by (intro that [of buf1]) simp_all
  next
    case False
    then have "0 < unat left'" by (simp add: unat_gt_0)
    then have d: "drop (header sparse) buf1 = drop (header sparse) buf" using left' keep by simp
    have "unat wr + unat left' \<le> length buf1"
      using wr left' len ok roundup_le(1) [OF bs, of "unat left + header sparse"] by (simp add: buffer_ok_def)
    from memmove_shift [OF this, of "header sparse"] wr obtain buf2
      where M: "memmove (header sparse) (unat wr) (unat left') buf1 = Some buf2" "length buf2 = length buf1"
        "take (unat left') (drop (header sparse) buf2) = take (unat left') (drop (unat wr) buf1)" by auto
    have "drop (unat wr) buf1 = drop n (drop (header sparse) buf)"
      using d by (metis wr add.commute drop_drop)
    then show thesis using M False len ok' left' by (intro that [of buf2]) (simp_all add: drop_take)
  qed
qed

lemma append_rest_outcome:
  assumes full: "z_capacity (zheap s2 z) = 0"
    and C: "disk_ok be s2" "file_in f s2" "z \<in> set (io_zones s2)" "f_active_zone (fheap s2 f) = Some z"
      "appended media f (take n data) s s2" "n \<le> length data" "Inv s2" "geometry be (dev s2) = geometry be (dev s)"
    and M: "(if left \<noteq> 0 then memmove (header sparse) (unat wr) (unat left) buf1 else Some buf1) = Some buf2"
      "length buf2 = length buf1"
    and IH: "\<And>s4. ready be f s4 \<Longrightarrow> Inv s4 \<Longrightarrow> f_active_zone (fheap s4 f) \<noteq> None \<Longrightarrow>
      geometry be (dev s4) = geometry be (dev s2) \<Longrightarrow>
      append_loop c env be persist sparse f buf2 left s4 = None \<or>
      (\<exists>st buf' s'. append_loop c env be persist sparse f buf2 left s4 = Some (st, buf', s') \<and>
         length buf' = length buf2 \<and> write_outcome be media Inv f (drop n data) s4 st s')"
  shows "append_rest c env be persist sparse f buf1 wr left z s2 = None \<or>
    (\<exists>st buf' s'. append_rest c env be persist sparse f buf1 wr left z s2 = Some (st, buf', s') \<and>
       length buf' = length buf1 \<and> write_outcome be media Inv f data s st s')"
proof -
  obtain st3 s3 where Cl: "CloseActiveZone be f s2 = (st3, s3)" by fastforce
  let ?s3 = "upd_file f (f_alloc_size_update (\<lambda>_. ucast left)) s3"
  have c3: "steady be media f s2 s3" "meta_stays be s2 s3" using CloseActiveZone_steady [OF Cl] C by blast+
  have s3: "steady be media f s3 ?s3" by (rule steady_upd_file) simp
  have i3: "Inv s3" "file_in f s3" and i3': "Inv ?s3" "disk_ok be ?s3" "file_in f ?s3"
    using Inv_stays C(7) c3 C(1,2) s3 Inv_stays [of s3 ?s3] by (auto simp: steady_def)
  have a3: "appended media f (take n data) s s3"
    using C appended_trans [of media f _ s s2 "[]" s3] c3(1) by (simp add: steady_def)
  consider (cl) "st3 \<noteq> OK" | (none) "st3 = OK" "AllocateNewZone env be persist f ?s3 = None"
    | (al) st4 s4 where "st3 = OK" "AllocateNewZone env be persist f ?s3 = Some (st4, s4)"
    by (cases "AllocateNewZone env be persist f ?s3") auto
  then show ?thesis
  proof cases
    case cl
    then have "append_rest c env be persist sparse f buf1 wr left z s2 = Some (st3, buf1, s3)"
      using full Cl by (simp add: append_rest_def)
    moreover have "geometry be (dev s3) = geometry be (dev s)" using c3(1) C(8) by (simp add: steady_def)
    ultimately show ?thesis using write_outcome_failed [where Inv = Inv and be = be, OF a3 C(6) i3(2,1) cl] by blast
  next
    case none
    then show ?thesis using full Cl M(1) by (simp add: append_rest_def)
  next
    case al
    note R = AllocateNewZone_ready [OF al(2) i3']
    have a4: "appended media f (take n data) s s4" "file_in f s4"
      using R s3 i3' appended_trans [OF a3, of "[]" s4] by (auto simp: steady_def appended_def)
    have g4: "geometry be (dev s4) = geometry be (dev s2)" using R s3 c3(1) by (simp add: steady_def)
    then have g: "geometry be (dev s4) = geometry be (dev s)" using C(8) by simp
    have L: "append_rest c env be persist sparse f buf1 wr left z s2 =
        (if st4 \<noteq> OK then Some (st4, buf2, s4) else append_loop c env be persist sparse f buf2 left s4)"
      using full Cl al M by (simp add: append_rest_def)
    show ?thesis
    proof (cases "st4 = OK")
      case False
      then show ?thesis using L M(2) R write_outcome_failed [where Inv = Inv and st = st4 and be = be, OF a4(1) C(6) a4(2)] g by auto
    next
      case True
      with IH [of s4] R True g4 show ?thesis
        using L M(2) write_outcome_after [OF a4(1) _ C(6) g] by fastforce
    qed
  qed
qed

lemma append_loop_content:
  assumes "ready be f s" "Inv s" "f_active_zone (fheap s f) \<noteq> None" "bs = unat (be_block_sz be (dev s))"
    "buffer_ok bs sparse buf left"
  shows "append_loop c env be persist sparse f buf left s = None \<or>
    (\<exists>st buf' s'. append_loop c env be persist sparse f buf left s = Some (st, buf', s') \<and>
       length buf' = length buf \<and>
       write_outcome be media Inv f (take (unat left) (drop (header sparse) buf)) s st s')"
  using assms
proof (induction "unat left" arbitrary: left buf s rule: less_induct)
  case less
  show ?case
  proof (cases "left = 0")
    case True
    then have "append_loop c env be persist sparse f buf left s = Some (OK, buf, s)"
      by (subst append_loop.simps) simp
    then show ?thesis using less.prems True by (auto simp: ready_def appended_def write_outcome_def)
  next
    case False
    let ?D = "take (unat left) (drop (header sparse) buf)"
    obtain z where z: "f_active_zone (fheap s f) = Some z" using less.prems(3) by blast
    obtain buf1 st1 s1 s2 n wr where
      L: "append_loop c env be persist sparse f buf left s =
      (if st1 \<noteq> OK then Some (st1, buf1, s1)
       else append_rest c env be persist sparse f buf1 wr (left - ucast n) z s2)"
    and N: "length buf1 = length buf" "0 < unat (n :: u64)" "unat n \<le> unat left"
      "unat (left - ucast n) = unat left - unat n" "unat (wr :: u32) = header sparse + unat n"
      "unat n < unat left \<longrightarrow> drop (header sparse) buf1 = drop (header sparse) buf"
      "st1 = OK \<and> unat n < unat left \<longrightarrow> z_capacity (zheap s2 z) = 0"
    and F1: "st1 \<noteq> OK \<longrightarrow> meta_stays be s s1 \<and> file_in f s1 \<and> appended media f [] s s1"
    and F2: "st1 = OK \<longrightarrow> meta_stays be s s2 \<and> file_in f s2 \<and> disk_ok be s2 \<and> z \<in> set (io_zones s2) \<and>
       appended media f (take (unat n) (drop (header sparse) buf)) s s2 \<and>
       f_active_zone (fheap s2 f) = Some z \<and> f_extent_start (fheap s2 f) = z_wp (zheap s2 z)"
      by (rule append_round [OF less.prems(1) z less.prems(4,5) False]) (rule that; assumption)
    define left' where "left' = left - ucast n"
    have D: "unat left \<le> length (drop (header sparse) buf)"
      using less.prems(5) roundup_le(1) [of bs "unat left + header sparse"] by (auto simp: buffer_ok_def)
    then have nD: "unat n \<le> length ?D" "take (unat n) (drop (header sparse) buf) = take (unat n) ?D"
      using N(3) by simp_all
    show ?thesis
    proof (cases "st1 = OK")
      case False
      then show ?thesis
        using L F1 N(1) Inv_stays less.prems(2) write_outcome_failed [of media f 0 ?D s s1 Inv st1 be]
        by (auto simp: meta_stays_def)
    next
      case True
      note C = F2 [rule_format, OF True, unfolded nD(2)]
      have i2: "Inv s2" using C Inv_stays less.prems(2) by blast
      show ?thesis
      proof (cases "z_capacity (zheap s2 z) = 0")
        case cap: False
        then have "unat n = unat left" "left' = 0" using N True by (auto simp: left'_def unat_eq_0)
        moreover from this have "append_loop c env be persist sparse f buf1 left' s2 = Some (OK, buf1, s2)"
          by (subst append_loop.simps) simp
        ultimately show ?thesis
          using L True cap C i2 N(1) D unfolding left'_def write_outcome_def
          by (intro disjI2 exI [of _ OK] exI [of _ buf1] exI [of _ s2]) (auto simp: ready_def zone_ops append_rest_def meta_stays_def)
      next
        case full: True
        have LR: "append_loop c env be persist sparse f buf left s =
            append_rest c env be persist sparse f buf1 wr left' z s2"
          using L True by (simp add: left'_def)
        obtain buf2 where M: "(if left' \<noteq> 0 then memmove (header sparse) (unat wr) (unat left') buf1 else Some buf1) =
              Some buf2"
            "length buf2 = length buf" "buffer_ok bs sparse buf2 left'"
            "take (unat left') (drop (header sparse) buf2) = drop (unat n) ?D"
          by (rule append_move [OF less.prems(5) N(1,5), of left'])
            (use N(3,4,6) in \<open>simp_all add: left'_def\<close>)
        have IH: "append_loop c env be persist sparse f buf2 left' s4 = None \<or>
          (\<exists>st buf' s'. append_loop c env be persist sparse f buf2 left' s4 = Some (st, buf', s') \<and>
             length buf' = length buf2 \<and> write_outcome be media Inv f (drop (unat n) ?D) s4 st s')"
          if "ready be f s4" "Inv s4" "f_active_zone (fheap s4 f) \<noteq> None"
            "geometry be (dev s4) = geometry be (dev s2)" for s4
        proof -
          have "bs = unat (be_block_sz be (dev s4))"
            using that(4) C less.prems(4) by (simp add: meta_stays_def geometry_def)
          then show ?thesis using less.hyps [of left' s4 buf2] that M(3,4) N(2-4) by (simp add: left'_def)
        qed
        have "append_rest c env be persist sparse f buf1 wr left' z s2 = None \<or>
          (\<exists>st buf' s'. append_rest c env be persist sparse f buf1 wr left' z s2 = Some (st, buf', s') \<and>
             length buf' = length buf1 \<and> write_outcome be media Inv f ?D s st s')"
          by (rule append_rest_outcome [OF full _ _ _ _ _ nD(1) i2 _ M(1) _ IH]) (use C M(2) N(1) in \<open>auto simp: meta_stays_def\<close>)
        then show ?thesis using LR N(1) by simp
      qed
    qed
  qed
qed

end

context file_writer
begin

text \<open>A chunk that leaves room in the zone is written in one round, without an allocation.\<close>

lemma append_fits:
  assumes R: "ready be f s" "f_active_zone (fheap s f) = Some z" and bs: "bs = unat (be_block_sz be (dev s))"
    and ok: "buffer_ok bs sparse buf left" and left: "left \<noteq> 0"
    and fits: "roundup bs (unat left + header sparse) < unat (z_capacity (zheap s z))"
  obtains st buf' s' where "append_loop c env be persist sparse f buf left s = Some (st, buf', s')"
    "st = OK \<longrightarrow> meta_stays be s s' \<and> z \<in> set (io_zones s') \<and> f_active_zone (fheap s' f) = Some z \<and>
       unat (z_wp (zheap s' z)) = unat (z_wp (zheap s z)) + roundup bs (unat left + header sparse) \<and>
       f_extents (fheap s' f) = f_extents (fheap s f) @ [\<lparr>e_start = z_wp (zheap s z) + of_nat (header sparse),
         e_length = ucast left, e_zone = z, e_level = f_level (fheap s f)\<rparr>] \<and>
       (sparse \<longrightarrow> media_slice (media (dev s')) (unat (z_wp (zheap s z))) 8 = EncodeFixed64 c (ucast left)) \<and>
       (\<forall>i < unat (z_wp (zheap s z)). media (dev s') i = media (dev s) i)"
proof -
  obtain buf1 st1 s1 s2 n wr where
    L: "append_loop c env be persist sparse f buf left s =
      (if st1 \<noteq> OK then Some (st1, buf1, s1)
       else append_rest c env be persist sparse f buf1 wr (left - ucast n) z s2)"
    and N: "unat (n :: u64) \<le> unat left" "unat (left - ucast n) = unat left - unat n"
      "unat (wr :: u32) = header sparse + unat n"
      "st1 = OK \<and> unat n < unat left \<longrightarrow> z_capacity (zheap s2 z) = 0"
    and F: "st1 = OK \<longrightarrow> meta_stays be s s2 \<and> file_in f s2 \<and> disk_ok be s2 \<and> z \<in> set (io_zones s2) \<and>
       appended media f (take (unat n) (drop (header sparse) buf)) s s2 \<and>
       f_active_zone (fheap s2 f) = Some z \<and> f_extent_start (fheap s2 f) = z_wp (zheap s2 z)"
    and G: "st1 = OK \<longrightarrow> unat (z_wp (zheap s2 z)) = unat (z_wp (zheap s z)) + roundup bs (unat wr) \<and>
       unat (z_capacity (zheap s2 z)) = unat (z_capacity (zheap s z)) - roundup bs (unat wr) \<and>
       f_extents (fheap s2 f) = f_extents (fheap s f) @ [\<lparr>e_start = z_wp (zheap s z) + of_nat (header sparse),
         e_length = n, e_zone = z, e_level = f_level (fheap s f)\<rparr>] \<and>
       (sparse \<longrightarrow> media_slice (media (dev s2)) (unat (z_wp (zheap s z))) 8 = EncodeFixed64 c n) \<and>
       (\<forall>i < unat (z_wp (zheap s z)). media (dev s2) i = media (dev s) i)"
    by (rule append_round [OF R bs ok left]) (rule that; assumption)
  show thesis
  proof (cases "st1 = OK")
    case False
    then show thesis using L that by simp
  next
    case True
    have "0 < bs" using ok by (simp add: buffer_ok_def)
    then have "roundup bs (unat wr) \<le> roundup bs (unat left + header sparse)" using N by (intro roundup_mono) auto
    then have cap: "z_capacity (zheap s2 z) \<noteq> 0" using fits G True by auto
    then have "\<not> unat n < unat left" using N(4) True by blast
    then have n: "unat n = unat left" using N(1) by simp
    then have "left - ucast n = 0" using N(2) by (simp add: unat_eq_0)
    then have "append_rest c env be persist sparse f buf1 wr (left - ucast n) z s2 = Some (OK, buf1, s2)"
      using cap by (simp add: append_rest_def) (subst append_loop.simps, simp)
    moreover have "ucast left = n" by (simp only: word_unat_eq_iff unat_ucast_u64 n)
    moreover have "unat wr = unat left + header sparse" using N(3) n by simp
    ultimately show thesis using L True F G by (intro that [of OK buf1 s2]) simp_all
  qed
qed

lemma append_start_content:
  assumes "ready be f s" "Inv s" "buffer_ok (unat (be_block_sz be (dev s))) sparse buf n"
    and A: "append_start c env be persist sparse f buf n s = Some (st, buf', s')"
  shows "write_outcome be media Inv f (take (unat n) (drop (header sparse) buf)) s st s' \<and> length buf' = length buf"
proof -
  let ?D = "take (unat n) (drop (header sparse) buf)"
  define s1 where "s1 = upd_file f (f_alloc_size_update (\<lambda>_. ucast n)) s"
  have s1: "steady be media f s s1" "Inv s1" "ready be f s1"
    using assms(1,2) Inv_stays [OF assms(2), of s1]
    by (auto simp: s1_def ready_def file_in_def intro!: steady_upd_file)
  obtain st2 s2 where A1: "(if f_active_zone (fheap s1 f) = None then AllocateNewZone env be persist f s1
      else Some (OK, s1)) = Some (st2, s2)"
    using A unfolding append_start_def Let_def s1_def [symmetric] by (auto split: option.splits)
  have s2: "steady be media f s1 s2 \<and> Inv s2 \<and>
      (st2 = OK \<longrightarrow> ready be f s2 \<and> f_active_zone (fheap s2 f) \<noteq> None)"
  proof (cases "f_active_zone (fheap s1 f) = None")
    case True
    then show ?thesis using AllocateNewZone_ready [of f s1 st2 s2] A1 s1 by (auto simp: ready_def)
  next
    case False
    then show ?thesis using A1 s1 by (auto simp: steady_def appended_def)
  qed
  have a2: "appended media f (take 0 ?D) s s2" "file_in f s2" "geometry be (dev s2) = geometry be (dev s)"
    using steady_trans [OF s1(1)] s2 assms(1) by (auto simp: steady_def ready_def appended_def)
  show ?thesis
  proof (cases "st2 = OK")
    case False
    then show ?thesis
      using A A1 s2 write_outcome_failed [where Inv = Inv and be = be, OF a2(1) _ a2(2) _ _ a2(3)]
      by (auto simp: append_start_def Let_def s1_def [symmetric])
  next
    case True
    then have L: "append_loop c env be persist sparse f buf n s2 = Some (st, buf', s')"
      using A A1 by (simp add: append_start_def Let_def s1_def [symmetric])
    have "buffer_ok (unat (be_block_sz be (dev s2))) sparse buf n" using assms(3) a2(3) by (simp add: geometry_def)
    with append_loop_content [of f s2 "unat (be_block_sz be (dev s2))" sparse buf n] s2 True L
    have "write_outcome be media Inv f ?D s2 st s'" "length buf' = length buf" by auto
    then show ?thesis using write_outcome_after [OF a2(1), of be Inv st s'] a2(3) by simp
  qed
qed

end

section \<open>Recovering sparse extents\<close>

text \<open>The extents a zone holds from \<open>pos\<close> to \<open>en\<close>: each is preceded by its length, and starts on a block.\<close>

fun sparse_layout :: "'e coding_scheme \<Rightarrow> nat \<Rightarrow> (nat \<Rightarrow> byte) \<Rightarrow> nat \<Rightarrow> extent list \<Rightarrow> nat \<Rightarrow> bool" where
  "sparse_layout c bs m pos [] en = (pos = en)"
| "sparse_layout c bs m pos (e # es) en =
    (unat (e_start e) = pos + 8 \<and> e_length e \<noteq> 0 \<and> media_slice m pos 8 = EncodeFixed64 c (e_length e) \<and>
     sparse_layout c bs m (pos + roundup bs (unat (e_length e) + 8)) es en)"

lemma sparse_layout_le: "0 < bs \<Longrightarrow> sparse_layout c bs m pos es en \<Longrightarrow> pos \<le> en \<and> (es \<noteq> [] \<longrightarrow> pos + 8 \<le> en)"
proof (induction es arbitrary: pos)
  case (Cons e es)
  have "pos + 8 \<le> pos + roundup bs (unat (e_length e) + 8)"
    using roundup_le(1) [OF Cons.prems(1), of "unat (e_length e) + 8"] by linarith
  moreover have "pos + roundup bs (unat (e_length e) + 8) \<le> en" using Cons by auto
  ultimately show ?case by simp
qed simp

lemma sint_small_u32: "unat (w :: u32) < 2 ^ 31 \<Longrightarrow> sint w = int (unat w)"
proof -
  assume "unat w < 2 ^ 31"
  then have "int_of_size (ucast w) = int (unat w)"
    using int_of_size_small [of "ucast w"] by (simp only: unat_ucast_u64)
  moreover have "ucast (ucast w :: u64) = w"
  proof -
    have "unat (ucast w :: u64) < 2 ^ 32" using unsigned_less [of w] by (simp add: unat_ucast_u64)
    then show ?thesis by (simp only: word_unat_eq_iff unat_ucast_u32 unat_ucast_u64)
  qed
  ultimately show ?thesis by (simp only: int_of_size_def)
qed

lemma blocks_roundup:
  fixes w b :: u64
  assumes "0 < unat b" "roundup (unat b) (unat w) < 2 ^ 64"
  shows "unat ((w div b + (if w mod b \<noteq> 0 then 1 else 0)) * b) = roundup (unat b) (unat w)"
proof -
  let ?k = "unat w div unat b + (if unat w mod unat b \<noteq> 0 then 1 else 0)"
  have r: "?k * unat b = roundup (unat b) (unat w)"
  proof (cases "unat w mod unat b = 0")
    case True
    then show ?thesis by (simp add: roundup_def mod_eq_0_iff_dvd)
  next
    case False
    have "unat w div unat b * unat b + unat w mod unat b = unat w" by (rule div_mult_mod_eq)
    then have "unat w div unat b * unat b = unat w - unat w mod unat b" by linarith
    then show ?thesis using False mod_less_divisor [OF assms(1), of "unat w"] mod_less_eq_dividend [of "unat w" "unat b"]
      by (simp add: roundup_def add_mult_distrib)
  qed
  have kb: "?k \<le> ?k * unat b" using assms(1) by simp
  then have k: "?k < 2 ^ 64" using r assms(2) by linarith
  have z: "w mod b = 0 \<longleftrightarrow> unat w mod unat b = 0" by (simp add: unat_mod flip: unat_eq_0)
  have "unat (w div b + (if w mod b \<noteq> 0 then 1 else 0)) = ?k"
    using k by (subst unat_add_u64) (auto simp: z unat_div)
  then show ?thesis using r assms(2) by (simp only: unat_mult_lem [THEN iffD1] unat_word_ariths) simp
qed

lemma recovered_cong:
  "e\<lparr>e_zone := z, e_level := l\<rparr> = \<lparr>e_start = e_start e, e_length = e_length e, e_zone = z, e_level = l\<rparr>"
  by (cases e) simp

context steady_storage
begin

lemma RecoverSparse_loop_layout:
  assumes "coding_laws c" "reads_nonempty be lim" "lim < 2 ^ 64"
    and "8 \<le> unat (be_block_sz be (dev s))" "unat (be_block_sz be (dev s)) < 2 ^ 31"
    and "sparse_layout c (unat (be_block_sz be (dev s))) (media (dev s)) (unat pos) es (unat en)" "unat en \<le> lim"
  shows "\<exists>st s'. RecoverSparse_loop c be f pos en z s = Some (st, s') \<and> (st = IOError \<or>
    st = OK \<and> (\<exists>d. media d = media (dev s) \<and> geometry be d = geometry be (dev s) \<and>
      s' = upd_file f (\<lambda>zf. zf\<lparr>f_extents := f_extents zf @
             map (\<lambda>e. e\<lparr>e_zone := z, e_level := f_level (fheap s f)\<rparr>) es\<rparr>)
             (charge_extents (map (e_zone_update (\<lambda>_. z)) es) (s\<lparr>dev := d\<rparr>))))"
  using assms(4-)
proof (induction es arbitrary: pos s)
  case Nil
  then have "pos = en" by (simp add: word_unat_eq_iff)
  then have "RecoverSparse_loop c be f pos en z s = Some (OK, s)" by (subst RecoverSparse_loop.simps) simp
  then show ?case by (auto intro!: exI [of _ "dev s"] simp: upd_file_def)
next
  case (Cons e es)
  note [simp del] = of_nat_unat
  let ?bw = "be_block_sz be (dev s)"
  let ?bs = "unat ?bw" and ?len = "e_length e"
  have b0: "0 < ?bs" using Cons.prems(1) by simp
  have lay: "unat (e_start e) = unat pos + 8" "?len \<noteq> 0" "media_slice (media (dev s)) (unat pos) 8 = EncodeFixed64 c ?len"
    "sparse_layout c ?bs (media (dev s)) (unat pos + roundup ?bs (unat ?len + 8)) es (unat en)"
    using Cons.prems(3) by simp_all
  have le: "unat pos + roundup ?bs (unat ?len + 8) \<le> unat en" using sparse_layout_le [OF b0 lay(4)] by simp
  have r8: "unat ?len + 8 \<le> roundup ?bs (unat ?len + 8)" by (rule roundup_le(1) [OF b0])
  have en: "unat en < 2 ^ 64" by (rule unat_lt_u64)
  have rb: "?bs \<le> roundup ?bs (unat ?len + 8)"
    using roundup_dvd [OF b0, of "unat ?len + 8"] r8 by (intro dvd_imp_le) auto
  have lt: "pos < en" using le r8 by (simp add: word_less_nat_alt)
  have si: "sint ?bw = int ?bs" by (rule sint_small_u32 [OF Cons.prems(2)])
  have ib: "0 < int ?bs" using b0 by (simp only: of_nat_0_less_iff)
  moreover have "unat pos + nat (int ?bs) \<le> lim" using rb le Cons.prems(4) by (simp only: nat_int)
  ultimately obtain r buf d
    where R: "Zbd_Read be pos (int ?bs) False s = Some (r, buf, s\<lparr>dev := d\<rparr>)"
      "media d = media (dev s)" "geometry be d = geometry be (dev s)"
      "0 < r \<longrightarrow> buf = media_slice (media (dev s)) (unat pos) (nat r)"
    using Zbd_Read_ok [OF assms(2,3), of "int ?bs" pos False s] by blast
  show ?case
  proof (cases "r = int ?bs")
    case False
    then have "RecoverSparse_loop c be f pos en z s = Some (IOError, s\<lparr>dev := d\<rparr>)"
      by (subst RecoverSparse_loop.simps) (simp add: lt si R(1) Let_def)
    then show ?thesis by blast
  next
    case True
    have buf: "buf = EncodeFixed64 c ?len @ media_slice (media (dev s)) (unat pos + 8) (?bs - 8)"
      using R(4) True ib lay(3) media_slice_add [of "media (dev s)" "unat pos" 8 "?bs - 8"] Cons.prems(1)
      by (simp del: of_nat_unat)
    have dec: "DecodeFixed64 c buf = ?len" unfolding buf by (rule coding_laws.decode64 [OF assms(1)])
    have lb: "\<not> length buf < 8" using R(4) True Cons.prems(1) ib by (simp del: of_nat_unat)
    let ?s1 = "s\<lparr>dev := d\<rparr>"
    define nx where "nx = pos + ((?len + 8) div ucast ?bw + (if (?len + 8) mod ucast ?bw \<noteq> 0 then 1 else 0)) * ucast ?bw"
    define s2 where "s2 = upd_file f (\<lambda>zf. zf\<lparr>f_extents := f_extents zf @
      [\<lparr>e_start = pos + 8, e_length = ?len, e_zone = z, e_level = f_level (fheap ?s1 f)\<rparr>]\<rparr>) (charge z ?len ?s1)"
    have l8: "unat (?len + 8) = unat ?len + 8" using r8 le en by (subst unat_add_u64) auto
    have "roundup ?bs (unat ?len + 8) < 2 ^ 64" using le en by linarith
    then have "unat (((?len + 8) div ucast ?bw + (if (?len + 8) mod ucast ?bw \<noteq> 0 then 1 else 0)) * ucast ?bw) =
        roundup ?bs (unat ?len + 8)"
      using blocks_roundup [of "ucast ?bw" "?len + 8"] b0 by (simp only: unat_ucast_u64 l8)
    then have nx: "unat nx = unat pos + roundup ?bs (unat ?len + 8)"
      using le en unfolding nx_def by (subst unat_add_u64) auto
    have bwd: "be_block_sz be d = ?bw" using R(3) by (simp add: geometry_def)
    have bw0: "?bw \<noteq> 0" using b0 by auto
    have L: "RecoverSparse_loop c be f pos en z s = RecoverSparse_loop c be f nx en z s2"
      using bw0 by (subst RecoverSparse_loop.simps)
        (simp add: lt si R(1) True dec lb lay(2) Let_def nx_def s2_def)
    have fields: "dev s2 = d" "f_level (fheap s2 f) = f_level (fheap s f)" by (simp_all add: s2_def)
    have "\<exists>st s'. RecoverSparse_loop c be f nx en z s2 = Some (st, s') \<and> (st = IOError \<or>
      st = OK \<and> (\<exists>d'. media d' = media (dev s2) \<and> geometry be d' = geometry be (dev s2) \<and>
        s' = upd_file f (\<lambda>zf. zf\<lparr>f_extents := f_extents zf @
             map (\<lambda>e. e\<lparr>e_zone := z, e_level := f_level (fheap s2 f)\<rparr>) es\<rparr>)
             (charge_extents (map (e_zone_update (\<lambda>_. z)) es) (s2\<lparr>dev := d'\<rparr>))))"
      by (rule Cons.IH) (use Cons.prems lay(4) R in \<open>simp_all add: fields bwd nx\<close>)
    then obtain st s' where IH: "RecoverSparse_loop c be f nx en z s2 = Some (st, s')" "st = IOError \<or>
      st = OK \<and> (\<exists>d'. media d' = media (dev s2) \<and> geometry be d' = geometry be (dev s2) \<and>
        s' = upd_file f (\<lambda>zf. zf\<lparr>f_extents := f_extents zf @
             map (\<lambda>e. e\<lparr>e_zone := z, e_level := f_level (fheap s2 f)\<rparr>) es\<rparr>)
             (charge_extents (map (e_zone_update (\<lambda>_. z)) es) (s2\<lparr>dev := d'\<rparr>)))" by blast
    have s2d: "s2\<lparr>dev := d'\<rparr> = upd_file f (\<lambda>zf. zf\<lparr>f_extents := f_extents zf @
      [\<lparr>e_start = pos + 8, e_length = ?len, e_zone = z, e_level = f_level (fheap s f)\<rparr>]\<rparr>)
      (charge z ?len (s\<lparr>dev := d'\<rparr>))" for d'
      by (simp add: s2_def upd_file_def charge_def upd_zone_def)
    have "e_start e = pos + 8" using lay(1) le r8 en by (simp add: word_unat_eq_iff unat_add_u64)
    then have "upd_file f (\<lambda>zf. zf\<lparr>f_extents := f_extents zf @
             map (\<lambda>e. e\<lparr>e_zone := z, e_level := f_level (fheap s2 f)\<rparr>) es\<rparr>)
             (charge_extents (map (e_zone_update (\<lambda>_. z)) es) (s2\<lparr>dev := d'\<rparr>)) =
       upd_file f (\<lambda>zf. zf\<lparr>f_extents := f_extents zf @
             map (\<lambda>e. e\<lparr>e_zone := z, e_level := f_level (fheap s f)\<rparr>) (e # es)\<rparr>)
             (charge_extents (map (e_zone_update (\<lambda>_. z)) (e # es)) (s\<lparr>dev := d'\<rparr>))" for d'
      using s2d [of d'] by (simp add: fields recovered_cong charge_extents_upd_file)
    then show ?thesis using L IH R(2,3) by (auto simp: fields)
  qed
qed

end

lemma sparse_layout_snoc:
  "sparse_layout c bs m pos es mid \<Longrightarrow> unat (e_start e) = mid + 8 \<Longrightarrow> e_length e \<noteq> 0 \<Longrightarrow>
   media_slice m mid 8 = EncodeFixed64 c (e_length e) \<Longrightarrow>
   sparse_layout c bs m pos (es @ [e]) (mid + roundup bs (unat (e_length e) + 8))"
  by (induction es arbitrary: pos) auto

lemma sparse_layout_cong:
  assumes "0 < bs" "sparse_layout c bs m pos es en" "\<And>i. i < en \<Longrightarrow> m' i = m i"
  shows "sparse_layout c bs m' pos es en"
  using assms(2)
proof (induction es arbitrary: pos)
  case (Cons e es)
  have "pos + 8 \<le> en" using sparse_layout_le [OF assms(1) Cons.prems] by simp
  then have "media_slice m' pos 8 = media_slice m pos 8"
    unfolding media_slice_def using assms(3) by (intro map_cong) auto
  then show ?case using Cons by simp
qed simp

context steady_storage
begin

lemma Recover_sparse:
  assumes "coding_laws c" "reads_nonempty be lim" "lim < 2 ^ 64"
    and "8 \<le> unat (be_block_sz be (dev s))" "unat (be_block_sz be (dev s)) < 2 ^ 31"
    and z: "GetIOZone be (f_extent_start (fheap s f)) s = Some z" "f_is_sparse (fheap s f)"
    and lay: "sparse_layout c (unat (be_block_sz be (dev s))) (media (dev s)) (unat (f_extent_start (fheap s f))) es
      (unat (z_wp (zheap s z)))" "es \<noteq> []" and lim: "unat (z_wp (zheap s z)) \<le> lim"
  shows "\<exists>st s'. Recover c be f s = Some (st, s') \<and> (st = IOError \<or> st = OK \<and>
    f_extents (fheap s' f) = f_extents (fheap s f) @ map (\<lambda>e. e\<lparr>e_zone := z, e_level := f_level (fheap s f)\<rparr>) es \<and>
    f_extent_start (fheap s' f) = NO_EXTENT \<and>
    f_file_size (fheap s' f) = sum_list (map e_length (f_extents (fheap s' f))) \<and>
    z_used (zheap s' z) = z_used (zheap s z) + sum_list (map e_length es))"
proof -
  let ?est = "f_extent_start (fheap s f)" and ?wp = "z_wp (zheap s z)"
  have "unat ?est + 8 \<le> unat ?wp" using sparse_layout_le [OF _ lay(1)] lay(2) assms(4) by auto
  then have lt: "?est \<noteq> NO_EXTENT" "\<not> ?wp < ?est" "?wp - ?est \<noteq> 0"
    using unat_lt_u64 [of ?wp] by (auto simp: word_less_nat_alt)
  obtain st s1 where L: "RecoverSparse_loop c be f ?est ?wp z s = Some (st, s1)" and O: "st = IOError \<or>
    st = OK \<and> (\<exists>d. media d = media (dev s) \<and> geometry be d = geometry be (dev s) \<and>
      s1 = upd_file f (\<lambda>zf. zf\<lparr>f_extents := f_extents zf @
             map (\<lambda>e. e\<lparr>e_zone := z, e_level := f_level (fheap s f)\<rparr>) es\<rparr>)
             (charge_extents (map (e_zone_update (\<lambda>_. z)) es) (s\<lparr>dev := d\<rparr>)))"
    using RecoverSparse_loop_layout [OF assms(1-5) lay(1) lim, of f z] by blast
  have R: "Recover c be f s = (if st \<noteq> OK then Some (st, s1) else Some (OK, upd_file f (\<lambda>zf. zf\<lparr>f_extent_start := NO_EXTENT,
      f_file_size := sum_list (map e_length (f_extents zf))\<rparr>) s1))"
    using lt z L by (simp add: Recover_def RecoverSparseExtents_def Let_def)
  have "filter (\<lambda>e. e_zone e = z) (map (e_zone_update (\<lambda>_. z)) es) = map (e_zone_update (\<lambda>_. z)) es"
    by (simp add: filter_id_conv)
  then show ?thesis using R O by (auto simp: charge_extents_used comp_def)
qed

end

lemma GetIOZone_cong:
  assumes "io_zones s' = io_zones s" "be_zone_sz be (dev s') = be_zone_sz be (dev s)"
    "\<And>p. z_start (zheap s' p) = z_start (zheap s p)"
  shows "GetIOZone be off s' = GetIOZone be off s"
  using assms by (simp add: GetIOZone_def)

context file_writer
begin

lemma append_start_fits:
  assumes R: "ready be f s" "f_active_zone (fheap s f) = Some z" and bs: "bs = unat (be_block_sz be (dev s))"
    and ok: "buffer_ok bs sparse buf left" and left: "left \<noteq> 0"
    and fits: "roundup bs (unat left + header sparse) < unat (z_capacity (zheap s z))"
  obtains st buf' s' where "append_start c env be persist sparse f buf left s = Some (st, buf', s')"
    "st = OK \<longrightarrow> meta_stays be s s' \<and> z \<in> set (io_zones s') \<and> f_active_zone (fheap s' f) = Some z \<and>
       unat (z_wp (zheap s' z)) = unat (z_wp (zheap s z)) + roundup bs (unat left + header sparse) \<and>
       f_extents (fheap s' f) = f_extents (fheap s f) @ [\<lparr>e_start = z_wp (zheap s z) + of_nat (header sparse),
         e_length = ucast left, e_zone = z, e_level = f_level (fheap s f)\<rparr>] \<and>
       (sparse \<longrightarrow> media_slice (media (dev s')) (unat (z_wp (zheap s z))) 8 = EncodeFixed64 c (ucast left)) \<and>
       (\<forall>i < unat (z_wp (zheap s z)). media (dev s') i = media (dev s) i)"
proof -
  let ?s = "upd_file f (f_alloc_size_update (\<lambda>_. ucast left)) s"
  have R': "ready be f ?s" "f_active_zone (fheap ?s f) = Some z" "bs = unat (be_block_sz be (dev ?s))"
    "roundup bs (unat left + header sparse) < unat (z_capacity (zheap ?s z))"
    using R bs fits by (auto simp: ready_def file_in_def)
  have L: "append_start c env be persist sparse f buf left s = append_loop c env be persist sparse f buf left ?s"
    using R(2) by (simp add: append_start_def Let_def)
  have m: "meta_stays be ?s s' = meta_stays be s s'" for s'
    by (simp add: meta_stays_def) (simp add: upd_file_def)
  show thesis
    by (rule append_fits [OF R'(1-3) ok left R'(4)]) (rule that, auto simp: L m)
qed

end

section \<open>Properties\<close>

lemma index_ok_upd_file: "index_ok (upd_file f g s) = index_ok s"
  by (simp add: index_ok_def upd_file_def)

text \<open>A metadata writer that only marks the file as synced, for the examples.\<close>

definition sync_writer :: "fptr \<Rightarrow> ('d, 'm) fdev_scheme \<Rightarrow> (IOStatus \<times> ('d, 'm) fdev_scheme) option" where
  "sync_writer f s = Some (OK, upd_file f MetadataSynced s)"

interpretation sync: file_writer ram_backend ram_bytes sample_env sync_writer "\<lambda>_. True" le_coding
proof unfold_locales
  fix s s' :: "(ram zbdlib, 'b) fdev_scheme" and f st
  assume "sync_writer f s = Some (st, s')"
  then have "s' = upd_file f MetadataSynced s" by (simp add: sync_writer_def)
  then show "True \<and> io_stays ram_backend ram_bytes s s' \<and> (\<forall>p \<in> set (io_zones s). zheap s' p = zheap s p)"
    using index_ok_upd_file [of f MetadataSynced s]
    by (auto simp: io_stays_def file_kept_def core_def MetadataSynced_def)
qed auto

text \<open>An open file whose active zone 0 is empty; blocks have 64 bytes.\<close>

definition sample_write :: "ram zbdlib fdev" where
  "sample_write = sample_fdev\<lparr>zheap := (\<lambda>p. if p = 0 then (sample_zone 0 0 0)\<lparr>z_busy := True\<rparr>
       else if p = 1 then sample_zone 4096 1024 704 else if p = 2 then sample_zone 8192 2944 64
       else sample_zone 12288 0 0),
     fheap := (\<lambda>f. (ZoneFile_new (of_nat f))\<lparr>f_active_zone := Some 0, f_extent_start := 0, f_is_sparse := True\<rparr>)\<rparr>"

lemmas sample_write_eval = sample_write_def sample_fdev_def zbd.extend_def ZoneFile_new_def sample_defs

lemma sample_write_ready: "ready ram_backend f sample_write"
  by (simp add: ready_def disk_ok_def index_ok_def file_in_def zone_wf_def zone_range_def zone_ops sample_write_eval)

text \<open>
  C3: Buffered writes. With well-formed zones and a buffer with room for the padding, whatever zones the
  allocator chooses and however many the data needs: when \<open>BufferedAppend\<close> returns, the content of the file
  has grown by a prefix of the data and its size by as many bytes; after success by all of the data, and
  the file is ready for the next append. A write that leaves room in the active zone always returns.
\<close>

theorem BufferedAppend_content:
  assumes "file_writer be media env persist Inv c" "ready be f s" "Inv s"
    and "buffer_ok (unat (be_block_sz be (dev s))) False buf n"
  shows "(\<forall>st buf' s'. BufferedAppend c env be persist f buf n s = Some (st, buf', s') \<longrightarrow>
      write_outcome be media Inv f (take (unat n) buf) s st s') \<and>
    (\<forall>z. f_active_zone (fheap s f) = Some z \<and>
       roundup (unat (be_block_sz be (dev s))) (unat n) < unat (z_capacity (zheap s z)) \<longrightarrow>
       BufferedAppend c env be persist f buf n s \<noteq> None)"
proof (intro conjI allI impI)
  fix st buf' s'
  assume "BufferedAppend c env be persist f buf n s = Some (st, buf', s')"
  then show "write_outcome be media Inv f (take (unat n) buf) s st s'"
    using file_writer.append_start_content [OF assms] by (simp add: BufferedAppend_def header_def)
next
  fix z
  assume z: "f_active_zone (fheap s f) = Some z \<and>
    roundup (unat (be_block_sz be (dev s))) (unat n) < unat (z_capacity (zheap s z))"
  show "BufferedAppend c env be persist f buf n s \<noteq> None"
  proof (cases "n = 0")
    case True
    then show ?thesis using z by (simp add: BufferedAppend_def append_start_def append_loop.simps)
  next
    case False
    then show ?thesis
      using file_writer.append_start_fits [OF assms(1,2) _ refl assms(4) False] z
      by (metis BufferedAppend_def add.right_neutral header_def option.distinct(1))
  qed
qed

theorem BufferedAppend_content_witness:
  "\<exists>st buf' s'. BufferedAppend le_coding sample_env ram_backend sync_writer 0 ([1, 2, 3] @ replicate 61 9) 3 sample_write =
      Some (st, buf', s') \<and>
    write_outcome ram_backend ram_bytes (\<lambda>_. True) 0 [1, 2, 3] sample_write st s'"
proof -
  let ?buf = "[1, 2, 3] @ replicate 61 9"
  have "buffer_ok (unat (be_block_sz ram_backend (dev sample_write))) False ?buf 3"
    by (simp add: buffer_ok_def header_def roundup_def sample_write_eval)
  note T = BufferedAppend_content [OF sync.file_writer_axioms sample_write_ready TrueI this]
  have "f_active_zone (fheap sample_write 0) = Some 0"
    "roundup (unat (be_block_sz ram_backend (dev sample_write))) (unat (3 :: u32)) < unat (z_capacity (zheap sample_write 0))"
    by (simp_all add: roundup_def sample_write_eval)
  then have "BufferedAppend le_coding sample_env ram_backend sync_writer 0 ?buf 3 sample_write \<noteq> None"
    using T by blast
  then obtain st buf' s'
    where "BufferedAppend le_coding sample_env ram_backend sync_writer 0 ?buf 3 sample_write = Some (st, buf', s')"
    by auto
  moreover from this have "write_outcome ram_backend ram_bytes (\<lambda>_. True) 0 (take (unat (3 :: u32)) ?buf) sample_write st s'"
    using T by blast
  moreover have "take (unat (3 :: u32)) ?buf = [1, 2, 3]" by (simp add: take_Cons')
  ultimately show ?thesis by (metis (no_types))
qed

text \<open>
  C17: Recovery of sparse files. Let the extents \<open>es\<close>, written since the file's metadata was last persisted
  with \<open>start\<close> as the start of its active extent, fill the zone from there to the write pointer. A
  \<open>SparseAppend\<close> that leaves room in the zone returns, and when it succeeds it adds one extent; if the
  machine then crashes, \<open>Recover\<close> on the file object decoded from the log (any object \<open>zf\<close> with that start)
  finds exactly \<open>es\<close> and the new extent from the lengths stored in the zone, recomputes the size of the file
  from all its extents, or reports a read error of the device.
\<close>

theorem SparseAppend_recovered:
  assumes fw: "file_writer be media env persist Inv c" and rd: "reads_nonempty be lim" "lim < 2 ^ 64"
    and R: "ready be f s" "f_active_zone (fheap s f) = Some z" and bs: "bs = unat (be_block_sz be (dev s))" "bs < 2 ^ 31"
    and ok: "buffer_ok bs True buf n" "n \<noteq> 0" and fits: "roundup bs (unat n + 8) < unat (z_capacity (zheap s z))"
    and lay: "sparse_layout c bs (media (dev s)) (unat start) es (unat (z_wp (zheap s z)))"
      "GetIOZone be start s = Some z"
      "unat (z_start (zheap s z)) + unat (be_zone_sz be (dev s)) \<le> lim"
  shows "\<exists>st buf' s'. SparseAppend c env be persist f buf n s = Some (st, buf', s') \<and>
    (st = OK \<longrightarrow> (\<exists>e. f_extents (fheap s' f) = f_extents (fheap s f) @ [e] \<and> e_length e = ucast n \<and>
      (\<forall>zf. f_is_sparse zf \<and> f_extent_start zf = start \<longrightarrow>
        (\<exists>st2 s2. Recover c be f (upd_file f (\<lambda>_. zf) s') = Some (st2, s2) \<and> (st2 = IOError \<or> st2 = OK \<and>
          f_extents (fheap s2 f) =
            f_extents zf @ map (\<lambda>e. e\<lparr>e_zone := z, e_level := f_level zf\<rparr>) (es @ [e]) \<and>
          f_extent_start (fheap s2 f) = NO_EXTENT \<and>
          f_file_size (fheap s2 f) = sum_list (map e_length (f_extents (fheap s2 f))))))))"
proof -
  have ss: "steady_storage be media" and cl: "coding_laws c"
    using fw by (simp_all add: file_writer_def metadata_writer_def)
  let ?w = "unat (z_wp (zheap s z))"
  let ?e = "\<lparr>e_start = z_wp (zheap s z) + 8, e_length = ucast n, e_zone = z, e_level = f_level (fheap s f)\<rparr>"
  have fits': "roundup bs (unat n + header True) < unat (z_capacity (zheap s z))" using fits by (simp add: header_def)
  obtain st buf' s' where A: "append_start c env be persist True f buf n s = Some (st, buf', s')" and
    O: "st = OK \<longrightarrow> meta_stays be s s' \<and> z \<in> set (io_zones s') \<and> f_active_zone (fheap s' f) = Some z \<and>
       unat (z_wp (zheap s' z)) = ?w + roundup bs (unat n + header True) \<and>
       f_extents (fheap s' f) = f_extents (fheap s f) @ [\<lparr>e_start = z_wp (zheap s z) + of_nat (header True),
         e_length = ucast n, e_zone = z, e_level = f_level (fheap s f)\<rparr>] \<and>
       (True \<longrightarrow> media_slice (media (dev s')) ?w 8 = EncodeFixed64 c (ucast n)) \<and>
       (\<forall>i < ?w. media (dev s') i = media (dev s) i)"
    by (rule file_writer.append_start_fits [OF fw R bs(1) ok fits'])
  have "\<exists>st2 s2. Recover c be f (upd_file f (\<lambda>_. zf) s') = Some (st2, s2) \<and> (st2 = IOError \<or> st2 = OK \<and>
      f_extents (fheap s2 f) = f_extents zf @ map (\<lambda>e. e\<lparr>e_zone := z, e_level := f_level zf\<rparr>) (es @ [?e]) \<and>
      f_extent_start (fheap s2 f) = NO_EXTENT \<and>
      f_file_size (fheap s2 f) = sum_list (map e_length (f_extents (fheap s2 f))))"
    if st: "st = OK" and zf: "f_is_sparse zf" "f_extent_start zf = start" for zf
  proof -
    let ?t = "upd_file f (\<lambda>_. zf) s'"
    have b8: "8 < bs" "0 < bs" using ok(1) by (auto simp: buffer_ok_def header_def)
    have m: "meta_stays be s s'" using O st by blast
    have bt: "unat (be_block_sz be (dev ?t)) = bs" "be_zone_sz be (dev s') = be_zone_sz be (dev s)"
      using m bs(1) by (simp_all add: meta_stays_def geometry_def)
    have "GetIOZone be start ?t = Some z"
      using lay(2) GetIOZone_cong [of s' s be start] m bt by (simp add: meta_stays_def)
    moreover have "zone_wf (be_zone_sz be (dev s)) (zheap s z)" using R by (auto simp: ready_def disk_ok_def)
    then have cap: "?w + unat (z_capacity (zheap s z)) \<le> unat (z_start (zheap s z)) + unat (be_zone_sz be (dev s))"
      using fits by (auto simp: zone_wf_def)
    have r8: "8 \<le> roundup bs (unat n + 8)" using roundup_le(1) [OF b8(2), of "unat n + 8"] by linarith
    have wl: "unat (z_wp (zheap s' z)) \<le> lim" "unat (z_wp (zheap s z) + 8) = ?w + 8"
    proof -
      show "unat (z_wp (zheap s' z)) \<le> lim" using O st cap fits lay(3) by (simp add: header_def)
      have "?w + 8 < 2 ^ 64" using cap r8 fits lay(3) rd(2) by linarith
      then show "unat (z_wp (zheap s z) + 8) = ?w + 8" by (subst unat_add_u64) simp_all
    qed
    moreover have "sparse_layout c bs (media (dev s')) (unat start) (es @ [?e]) (unat (z_wp (zheap s' z)))"
    proof -
      have "sparse_layout c bs (media (dev s')) (unat start) (es @ [?e]) (?w + roundup bs (unat (e_length ?e) + 8))"
        using sparse_layout_cong [OF b8(2) lay(1)] O st ok(2) wl(2)
        by (intro sparse_layout_snoc) (auto simp: word_zero_iff_unat unat_ucast_u64)
      then show ?thesis using O st by (simp add: header_def unat_ucast_u64)
    qed
    ultimately show ?thesis
      using steady_storage.Recover_sparse [OF ss cl rd, of ?t f z "es @ [?e]"] b8 bt bs zf by (simp add: less_imp_le) blast
  qed
  then show ?thesis using A O by (auto simp: SparseAppend_def header_def)
qed

theorem SparseAppend_recovered_witness:
  "\<exists>st buf' s'. SparseAppend le_coding sample_env ram_backend sync_writer 0 (replicate 8 0 @ [1, 2, 3] @ replicate 61 9) 3
      sample_write = Some (st, buf', s') \<and>
    (st = OK \<longrightarrow> (\<exists>e. f_extents (fheap s' 0) = [e] \<and> e_length e = 3 \<and>
      (\<exists>st2 s2. Recover le_coding ram_backend 0 (upd_file 0 (\<lambda>_. (ZoneFile_new 7)\<lparr>f_is_sparse := True, f_extent_start := 0\<rparr>) s') =
          Some (st2, s2) \<and> (st2 = IOError \<or> f_file_size (fheap s2 0) = 3))))"
proof -
  let ?buf = "replicate 8 0 @ [1, 2, 3] @ replicate 61 9" and ?zf = "(ZoneFile_new 7)\<lparr>f_is_sparse := True, f_extent_start := 0\<rparr>"
  have bs: "64 = unat (be_block_sz ram_backend (dev sample_write))" by (simp add: sample_write_eval)
  have 1: "buffer_ok 64 True ?buf 3" "(3 :: u32) \<noteq> 0" "(64 :: nat) < 2 ^ 31" "f_active_zone (fheap sample_write 0) = Some 0"
    "roundup 64 (unat (3 :: u32) + 8) < unat (z_capacity (zheap sample_write 0))"
    by (simp_all add: buffer_ok_def header_def roundup_def sample_write_eval)
  have 2: "sparse_layout le_coding 64 (ram_bytes (dev sample_write)) (unat (0 :: u64)) [] (unat (z_wp (zheap sample_write 0)))"
    "GetIOZone ram_backend 0 sample_write = Some 0"
    "unat (z_start (zheap sample_write 0)) + unat (be_zone_sz ram_backend (dev sample_write)) \<le> 4096"
    by (simp_all add: GetIOZone_def sample_write_eval)
  have "(4096 :: nat) < 2 ^ 64" by simp
  note T = SparseAppend_recovered [OF sync.file_writer_axioms ram_reads_nonempty this sample_write_ready 1(4) bs 1(3,1,2,5) 2]
  have zf: "f_is_sparse ?zf \<and> f_extent_start ?zf = 0" by simp
  obtain st buf' s' where A: "SparseAppend le_coding sample_env ram_backend sync_writer 0 ?buf 3 sample_write = Some (st, buf', s')"
    and O: "st = OK \<Longrightarrow> \<exists>e. f_extents (fheap s' 0) = f_extents (fheap sample_write 0) @ [e] \<and> e_length e = ucast (3 :: u32) \<and>
      (\<exists>st2 s2. Recover le_coding ram_backend 0 (upd_file 0 (\<lambda>_. ?zf) s') = Some (st2, s2) \<and> (st2 = IOError \<or> st2 = OK \<and>
          f_extents (fheap s2 0) =
            f_extents ?zf @ map (\<lambda>e. e\<lparr>e_zone := 0, e_level := f_level ?zf\<rparr>) ([] @ [e]) \<and>
          f_extent_start (fheap s2 0) = NO_EXTENT \<and>
          f_file_size (fheap s2 0) = sum_list (map e_length (f_extents (fheap s2 0)))))"
    using T zf by blast
  have "f_extents (fheap sample_write 0) = []" "f_extents ?zf = []" by (simp_all add: sample_write_eval)
  then show ?thesis using A O by (fastforce)
qed

text \<open>
  Direct writes of files without a level. \<open>PushExtent\<close> of a file whose level has not been set (the level
  of a new file is \<open>-1\<close>) and that has unsynced data calls \<open>UpdateBytesOfLevel\<close> with a negative level, which
  indexes before the start of \<open>bytes_of_level\<close>: the outcome is undefined.
\<close>

theorem PushExtent_negative_level_undefined:
  assumes "f_level (fheap s f) < 0" "f_active_zone (fheap s f) = Some z"
    and "f_file_size (fheap s f) \<noteq> f_extent_filepos (fheap s f)"
  shows "PushExtent f s = None"
  using assms by (simp add: PushExtent_def Let_def UpdateBytesOfLevel_def)

theorem PushExtent_negative_level_undefined_witness:
  "PushExtent 0 (upd_file 0 (f_file_size_update (\<lambda>_. 64)) sample_write) = None"
  by (rule PushExtent_negative_level_undefined [of _ _ 0]) (simp_all add: sample_write_eval)

end
