(* ===== verification/Io_Files.thy ===== *)
theory Io_Files
  imports Write_Content Zone_Read
begin

text \<open>
  The file handles that RocksDB holds (\<open>src/fs/io_zenfs.cc\<close>, \<open>src/fs/io_zenfs.h\<close>): writable files with
  their write buffer, sequential and random access files, and the copying of data into another zone.

  A buffered handle promises a byte stream: \<open>stream\<close> is what has reached the zones followed by what waits
  in the buffer, and appending to the handle appends to the stream.
\<close>

section \<open>Writable files\<close>

text \<open>
  \<open>w_mem\<close> is the memory of the buffer; of a sparse file it is \<open>sparse_buffer\<close>, and \<open>buffer\<close> points 8 bytes
  into it (\<open>w_sparse\<close> tells whether \<open>sparse_buffer\<close> is set).
\<close>

record wfile =
  w_buffered :: bool
  w_sparse :: bool
  w_mem :: "byte list"
  w_buffer_sz :: u64
  w_block_sz :: u32
  w_buffer_pos :: u32
  w_wp :: u64
  w_open :: bool
  w_file :: fptr

text \<open>The static members \<open>max_buffer_count\<close> and \<open>curr_buffer_count\<close>.\<close>

record bufcount =
  max_buffer_count :: u32
  curr_buffer_count :: u32

abbreviation (input) INT32_MAX :: u32 where "INT32_MAX \<equiv> 0x7fffffff"

text \<open>
  \<open>malloc n\<close> is the memory \<open>posix_memalign\<close> returns. A buffered file waits until a buffer is free. The size
  is computed in \<open>uint32_t\<close>.
\<close>

definition ZonedWritableFile_new :: "('d, 'b) backend_scheme \<Rightarrow> (nat \<Rightarrow> byte list) \<Rightarrow> bool \<Rightarrow> fptr
    \<Rightarrow> bufcount \<Rightarrow> ('d, 'm) fdev_scheme \<Rightarrow> (wfile \<times> bufcount) option" where
  "ZonedWritableFile_new be malloc buffered f cnt s =
    (let zf = fheap s f; block_sz = be_block_sz be (dev s);
         cnt1 = (if max_buffer_count cnt = INT32_MAX
                 then cnt\<lparr>max_buffer_count := buffer_count_max (params s)\<rparr> else cnt);
         bytes = buffer_size_megabytes (params s) * 1024 * 1024;
         w = \<lparr>w_buffered = buffered, w_sparse = False, w_mem = [], w_buffer_sz = 0, w_block_sz = block_sz,
              w_buffer_pos = 0, w_wp = f_file_size zf, w_open = True, w_file = f\<rparr>
     in if \<not> buffered then Some (w, cnt1)
        else if curr_buffer_count cnt1 \<ge> max_buffer_count cnt1 then None
        else
          let cnt2 = cnt1\<lparr>curr_buffer_count := curr_buffer_count cnt1 + 1\<rparr>
          in if f_is_sparse zf then
               let sz = (ucast (bytes + block_sz) :: u64)
               in Some (w\<lparr>w_sparse := True, w_mem := malloc (unat sz),
                          w_buffer_sz := sz - ucast SPARSE_HEADER_SIZE - ucast block_sz\<rparr>, cnt2)
             else Some (w\<lparr>w_mem := malloc (unat bytes), w_buffer_sz := ucast bytes\<rparr>, cnt2))"

text \<open>The two append routines change the buffer's memory; \<open>buffer\<close> of a sparse file starts behind the header.\<close>

definition FlushBuffer :: "'e coding_scheme \<Rightarrow> penv \<Rightarrow> ('d, 'b) backend_scheme \<Rightarrow> ('d, 'm) writer \<Rightarrow> wfile
    \<Rightarrow> ('d, 'm) fdev_scheme \<Rightarrow> (IOStatus \<times> wfile \<times> ('d, 'm) fdev_scheme) option" where
  "FlushBuffer c env be persist w s =
    (let off = header (w_sparse w); pos = w_buffer_pos w; f = w_file w
     in if pos = 0 then Some (OK, w, s)
        else
          case (if f_is_sparse (fheap s f) then
                  (if w_sparse w then SparseAppend c env be persist f (w_mem w) pos s else None)
                else map_option (\<lambda>(st, buf, s'). (st, take off (w_mem w) @ buf, s'))
                       (BufferedAppend c env be persist f (drop off (w_mem w)) pos s)) of
            None \<Rightarrow> None
          | Some (st, mem, s1) \<Rightarrow>
              if st \<noteq> OK then Some (st, w\<lparr>w_mem := mem\<rparr>, s1)
              else Some (OK, w\<lparr>w_mem := mem, w_wp := w_wp w + ucast pos, w_buffer_pos := 0\<rparr>, s1))"

text \<open>\<open>memcpy\<close> to position \<open>i\<close> of the memory.\<close>

definition mem_write :: "nat \<Rightarrow> byte list \<Rightarrow> byte list \<Rightarrow> byte list option" where
  "mem_write i bytes mem =
    (if i + length bytes \<le> length mem then Some (take i mem @ bytes @ drop (i + length bytes) mem) else None)"

text \<open>Does not end with a buffer of no bytes.\<close>

partial_function (option) BufferedWrite_loop :: "'e coding_scheme \<Rightarrow> penv \<Rightarrow> ('d, 'b) backend_scheme
    \<Rightarrow> ('d, 'm) writer \<Rightarrow> byte list \<Rightarrow> u32 \<Rightarrow> wfile \<Rightarrow> ('d, 'm) fdev_scheme
    \<Rightarrow> (IOStatus \<times> wfile \<times> ('d, 'm) fdev_scheme) option" where
  "BufferedWrite_loop c env be persist data data_left w s =
    (if data_left = 0 then Some (OK, w, s)
     else
       let buffer_left = (ucast (w_buffer_sz w - ucast (w_buffer_pos w)) :: u32)
       in case (if buffer_left = 0 then FlushBuffer c env be persist w s else Some (OK, w, s)) of
            None \<Rightarrow> None
          | Some (st, w1, s1) \<Rightarrow>
              if st \<noteq> OK then Some (st, w1, s1)
              else
                let buffer_left = (if buffer_left = 0 then ucast (w_buffer_sz w1) else buffer_left);
                    to_buffer = (if data_left > buffer_left then buffer_left else data_left)
                in case mem_write (header (w_sparse w1) + unat (w_buffer_pos w1)) (take (unat to_buffer) data)
                          (w_mem w1) of
                     None \<Rightarrow> None
                   | Some mem \<Rightarrow>
                       BufferedWrite_loop c env be persist (drop (unat to_buffer) data) (data_left - to_buffer)
                         (w1\<lparr>w_mem := mem, w_buffer_pos := w_buffer_pos w1 + to_buffer\<rparr>) s1)"

declare BufferedWrite_loop.simps [code]

definition BufferedWrite :: "'e coding_scheme \<Rightarrow> penv \<Rightarrow> ('d, 'b) backend_scheme \<Rightarrow> ('d, 'm) writer
    \<Rightarrow> byte list \<Rightarrow> wfile \<Rightarrow> ('d, 'm) fdev_scheme \<Rightarrow> (IOStatus \<times> wfile \<times> ('d, 'm) fdev_scheme) option" where
  "BufferedWrite c env be persist data w s =
    BufferedWrite_loop c env be persist data (of_nat (length data)) w s"

text \<open>\<open>data.size()\<close> becomes the \<open>int\<close> parameter of \<open>ZoneFile::Append\<close>.\<close>

definition ZonedWritableFile_Append :: "'e coding_scheme \<Rightarrow> penv \<Rightarrow> ('d, 'b) backend_scheme \<Rightarrow> ('d, 'm) writer
    \<Rightarrow> byte list \<Rightarrow> wfile \<Rightarrow> ('d, 'm) fdev_scheme \<Rightarrow> (IOStatus \<times> wfile \<times> ('d, 'm) fdev_scheme) option" where
  "ZonedWritableFile_Append c env be persist data w s =
    (if w_buffered w then BufferedWrite c env be persist data w s
     else case ZoneFile_Append env be persist (w_file w) data (u64_to_int (of_nat (length data))) s of
       None \<Rightarrow> None
     | Some (st, s1) \<Rightarrow>
         Some (st, if st = OK then w\<lparr>w_wp := w_wp w + of_nat (length data)\<rparr> else w, s1))"

definition PositionedAppend :: "'e coding_scheme \<Rightarrow> penv \<Rightarrow> ('d, 'b) backend_scheme \<Rightarrow> ('d, 'm) writer
    \<Rightarrow> byte list \<Rightarrow> u64 \<Rightarrow> wfile \<Rightarrow> ('d, 'm) fdev_scheme \<Rightarrow> (IOStatus \<times> wfile \<times> ('d, 'm) fdev_scheme) option" where
  "PositionedAppend c env be persist data offset w s =
    (if offset \<noteq> w_wp w then Some (IOError, w, s) else ZonedWritableFile_Append c env be persist data w s)"

definition Truncate :: "u64 \<Rightarrow> wfile \<Rightarrow> ('d, 'm) fdev_scheme \<Rightarrow> IOStatus \<times> ('d, 'm) fdev_scheme" where
  "Truncate sz w s = (OK, upd_file (w_file w) (f_file_size_update (\<lambda>_. sz)) s)"

section \<open>Synchronising and closing\<close>

definition DataSync :: "'e coding_scheme \<Rightarrow> penv \<Rightarrow> ('d, 'b) backend_scheme \<Rightarrow> ('d, 'm) writer
    \<Rightarrow> wfile \<Rightarrow> ('d, 'm) fdev_scheme \<Rightarrow> (IOStatus \<times> wfile \<times> ('d, 'm) fdev_scheme) option" where
  "DataSync c env be persist w s =
    (if w_buffered w then
       (case FlushBuffer c env be persist w s of
          None \<Rightarrow> None
        | Some (st, w1, s1) \<Rightarrow>
            if st \<noteq> OK then Some (st, w1, s1)
            else if \<not> f_is_sparse (fheap s1 (w_file w)) then
              map_option (\<lambda>(st, s2). (st, w1, s2)) (persist (w_file w) s1)
            else Some (OK, w1, s1))
     else map_option (\<lambda>s1. (OK, w, s1)) (PushExtent (w_file w) s))"

definition Fsync :: "'e coding_scheme \<Rightarrow> penv \<Rightarrow> ('d, 'b) backend_scheme \<Rightarrow> ('d, 'm) writer
    \<Rightarrow> wfile \<Rightarrow> ('d, 'm) fdev_scheme \<Rightarrow> (IOStatus \<times> wfile \<times> ('d, 'm) fdev_scheme) option" where
  "Fsync c env be persist w s =
    (case DataSync c env be persist w s of
       None \<Rightarrow> None
     | Some (st, w1, s1) \<Rightarrow>
         if st \<noteq> OK then Some (st, w1, s1)
         else if w_buffered w1 \<and> \<not> f_is_sparse (fheap s1 (w_file w1)) then Some (OK, w1, s1)
         else map_option (\<lambda>(st, s2). (st, w1, s2)) (persist (w_file w1) s1))"

definition RangeSync :: "'e coding_scheme \<Rightarrow> penv \<Rightarrow> ('d, 'b) backend_scheme \<Rightarrow> ('d, 'm) writer
    \<Rightarrow> u64 \<Rightarrow> u64 \<Rightarrow> wfile \<Rightarrow> ('d, 'm) fdev_scheme \<Rightarrow> (IOStatus \<times> wfile \<times> ('d, 'm) fdev_scheme) option" where
  "RangeSync c env be persist offset nbytes w s =
    (if w_wp w < offset + nbytes then DataSync c env be persist w s else Some (OK, w, s))"

definition CloseInternal :: "'e coding_scheme \<Rightarrow> penv \<Rightarrow> ('d, 'b) backend_scheme \<Rightarrow> ('d, 'm) writer
    \<Rightarrow> wfile \<Rightarrow> ('d, 'm) fdev_scheme \<Rightarrow> (IOStatus \<times> wfile \<times> ('d, 'm) fdev_scheme) option" where
  "CloseInternal c env be persist w s =
    (if \<not> w_open w then Some (OK, w, s)
     else case DataSync c env be persist w s of
       None \<Rightarrow> None
     | Some (st, w1, s1) \<Rightarrow>
         if st \<noteq> OK then Some (st, w1, s1)
         else case CloseWR env be persist (w_file w1) s1 of
           None \<Rightarrow> None
         | Some (st, s2) \<Rightarrow> Some (st, if st = OK then w1\<lparr>w_open := False\<rparr> else w1, s2))"

text \<open>The destructor records an error of closing in the device.\<close>

definition ZonedWritableFile_destroy :: "'e coding_scheme \<Rightarrow> penv \<Rightarrow> ('d, 'b) backend_scheme \<Rightarrow> ('d, 'm) writer
    \<Rightarrow> wfile \<Rightarrow> bufcount \<Rightarrow> ('d, 'm) fdev_scheme \<Rightarrow> (bufcount \<times> ('d, 'm) fdev_scheme) option" where
  "ZonedWritableFile_destroy c env be persist w cnt s =
    (case CloseInternal c env be persist w s of
       None \<Rightarrow> None
     | Some (st, w1, s1) \<Rightarrow>
         Some (if w_buffered w1 \<and> curr_buffer_count cnt > 0
               then cnt\<lparr>curr_buffer_count := curr_buffer_count cnt - 1\<rparr> else cnt,
               if st \<noteq> OK then SetZoneDeferredStatus st s1 else s1))"

section \<open>Files for reading\<close>

record rfile =
  r_file :: fptr
  r_direct :: bool
  r_pos :: u64

definition RFile_new :: "fptr \<Rightarrow> bool \<Rightarrow> ('d, 'm) fdev_scheme \<Rightarrow> rfile" where
  "RFile_new f use_direct_reads s =
    \<lparr>r_file = f, r_direct = (use_direct_reads \<and> \<not> f_is_sparse (fheap s f)), r_pos = 0\<rparr>"

definition SequentialFile_Read :: "('d, 'b) backend_scheme \<Rightarrow> u64 \<Rightarrow> rfile \<Rightarrow> ('d, 'm) fdev_scheme
    \<Rightarrow> (IOStatus \<times> byte list \<times> rfile \<times> ('d, 'm) fdev_scheme) option" where
  "SequentialFile_Read be n r s =
    (case PositionedRead be (r_file r) (r_pos r) n (r_direct r) s of
       None \<Rightarrow> None
     | Some (st, bytes, s1) \<Rightarrow>
         Some (st, bytes, if st = OK then r\<lparr>r_pos := r_pos r + of_nat (length bytes)\<rparr> else r, s1))"

definition SequentialFile_Skip :: "u64 \<Rightarrow> rfile \<Rightarrow> ('d, 'm) fdev_scheme \<Rightarrow> IOStatus \<times> rfile" where
  "SequentialFile_Skip n r s =
    (if r_pos r + n \<ge> f_file_size (fheap s (r_file r)) then (InvalidArgument, r)
     else (OK, r\<lparr>r_pos := r_pos r + n\<rparr>))"

definition RandomAccessFile_Read :: "('d, 'b) backend_scheme \<Rightarrow> u64 \<Rightarrow> u64 \<Rightarrow> rfile \<Rightarrow> ('d, 'm) fdev_scheme
    \<Rightarrow> (IOStatus \<times> byte list \<times> ('d, 'm) fdev_scheme) option" where
  "RandomAccessFile_Read be offset n r s = PositionedRead be (r_file r) offset n (r_direct r) s"

section \<open>Copying data to another zone\<close>

text \<open>
  \<open>MigrateData\<close> copies through a buffer of 128 KiB, which a larger read overruns. Reads that return fewer bytes than asked for are written as they are, and the result of
  the append is not looked at. \<open>read_sz\<close> never grows again.
\<close>

partial_function (option) MigrateData_loop :: "('d, 'b) backend_scheme \<Rightarrow> zptr \<Rightarrow> u32 \<Rightarrow> u64 \<Rightarrow> u32
    \<Rightarrow> ('d, 'm) zbd_scheme \<Rightarrow> (IOStatus \<times> ('d, 'm) zbd_scheme) option" where
  "MigrateData_loop be target read_sz offset len s =
    (if len = 0 then Some (OK, s)
     else
       let block_sz = be_block_sz be (dev s);
           read_sz' = (if len > read_sz then read_sz else len);
           pad_sz = (if read_sz' mod block_sz = 0 then 0 else block_sz - read_sz' mod block_sz)
       in case Zbd_Read be offset (sint (read_sz' + pad_sz)) True s of
            None \<Rightarrow> None
          | Some (r, bytes, s1) \<Rightarrow>
              if r < 0 then Some (IOError, s1)
              else if r > 128 * 1024 then None
              else case Zone_Append be target bytes s1 of
                None \<Rightarrow> None
              | Some (_, s2) \<Rightarrow> MigrateData_loop be target read_sz' (offset + of_int r) (len - read_sz') s2)"

declare MigrateData_loop.simps [code]

definition MigrateData :: "('d, 'b) backend_scheme \<Rightarrow> u64 \<Rightarrow> u32 \<Rightarrow> zptr \<Rightarrow> ('d, 'm) zbd_scheme
    \<Rightarrow> (IOStatus \<times> ('d, 'm) zbd_scheme) option" where
  "MigrateData be offset len target s =
    (let block_sz = be_block_sz be (dev s)
     in if block_sz = 0 then None
        else if offset mod of_int (sint block_sz) \<noteq> 0 then Some (IOError, s)
        else MigrateData_loop be target (128 * 1024) offset len s)"

section \<open>Handles as byte streams\<close>

text \<open>What has been appended through a handle: the content of the file and the bytes in the buffer.\<close>

definition pending :: "wfile \<Rightarrow> byte list" where
  "pending w = take (unat (w_buffer_pos w)) (drop (header (w_sparse w)) (w_mem w))"

lemma pending_0 [simp]: "w_buffer_pos w = 0 \<Longrightarrow> pending w = []"
  by (simp add: pending_def)

definition stream :: "('d \<Rightarrow> nat \<Rightarrow> byte) \<Rightarrow> wfile \<Rightarrow> ('d, 'm) fdev_scheme \<Rightarrow> byte list" where
  "stream media w s = content (media (dev s)) (f_extents (fheap s (w_file w))) @ pending w"

text \<open>The buffer has room for its header and for padding the last block.\<close>

definition buffer_wf :: "nat \<Rightarrow> wfile \<Rightarrow> bool" where
  "buffer_wf bs w \<longleftrightarrow> header (w_sparse w) < bs \<and> 0 < unat (w_buffer_sz w) \<and>
    unat (w_buffer_pos w) \<le> unat (w_buffer_sz w) \<and>
    roundup bs (unat (w_buffer_sz w) + header (w_sparse w)) \<le> length (w_mem w) \<and>
    roundup bs (unat (w_buffer_sz w) + header (w_sparse w)) < 2 ^ 32"

definition handle_ok :: "('d, 'b) backend_scheme \<Rightarrow> wfile \<Rightarrow> ('d, 'm) fdev_scheme \<Rightarrow> bool" where
  "handle_ok be w s \<longleftrightarrow> w_buffered w \<and> w_sparse w = f_is_sparse (fheap s (w_file w)) \<and>
    ready be (w_file w) s \<and> w_wp w = f_file_size (fheap s (w_file w)) \<and>
    buffer_wf (unat (be_block_sz be (dev s))) w"

lemma buffer_wf_ok:
  assumes "buffer_wf bs w" shows "buffer_ok bs (w_sparse w) (w_mem w) (w_buffer_pos w)"
    and "length (pending w) = unat (w_buffer_pos w)"
proof -
  have b: "0 < bs" using assms by (auto simp: buffer_wf_def)
  have "roundup bs (unat (w_buffer_pos w) + header (w_sparse w)) \<le> roundup bs (unat (w_buffer_sz w) + header (w_sparse w))"
    using assms b by (intro roundup_mono) (auto simp: buffer_wf_def)
  then show "buffer_ok bs (w_sparse w) (w_mem w) (w_buffer_pos w)"
    using assms by (auto simp: buffer_ok_def buffer_wf_def)
  have "unat (w_buffer_sz w) + header (w_sparse w) \<le> length (w_mem w)"
    using roundup_le(1) [OF b, of "unat (w_buffer_sz w) + header (w_sparse w)"] assms by (simp add: buffer_wf_def)
  then show "length (pending w) = unat (w_buffer_pos w)" using assms by (auto simp: pending_def buffer_wf_def)
qed

lemma take_overwrite:
  "h + p \<le> length mem \<Longrightarrow>
    take (p + length xs) (drop h (take (h + p) mem @ xs @ ys)) = take p (drop h mem) @ xs"
  by (simp add: take_drop add.commute)

text \<open>Copying data into the free part of the buffer.\<close>

lemma mem_write_pending:
  assumes B: "buffer_wf bs w" and n: "length bytes = unat n" "unat (w_buffer_pos w) + unat n \<le> unat (w_buffer_sz w)"
  obtains mem where "mem_write (header (w_sparse w) + unat (w_buffer_pos w)) bytes (w_mem w) = Some mem"
    "buffer_wf bs (w\<lparr>w_mem := mem, w_buffer_pos := w_buffer_pos w + n\<rparr>)"
    "pending (w\<lparr>w_mem := mem, w_buffer_pos := w_buffer_pos w + n\<rparr>) = pending w @ bytes"
proof -
  let ?h = "header (w_sparse w)" and ?p = "unat (w_buffer_pos w)"
  have b: "0 < bs" using B by (auto simp: buffer_wf_def)
  have le: "unat (w_buffer_sz w) + ?h \<le> length (w_mem w)" "unat (w_buffer_sz w) + ?h < 2 ^ 32"
    using roundup_le(1) [OF b, of "unat (w_buffer_sz w) + ?h"] B by (simp_all add: buffer_wf_def)
  define mem where "mem = take (?h + ?p) (w_mem w) @ bytes @ drop (?h + ?p + unat n) (w_mem w)"
  have M: "mem_write (?h + ?p) bytes (w_mem w) = Some mem" "length mem = length (w_mem w)"
    using n le by (simp_all add: mem_write_def mem_def)
  have pos: "unat (w_buffer_pos w + n) = ?p + unat n" using n le by (simp add: unat_add_u32)
  have "pending (w\<lparr>w_mem := mem, w_buffer_pos := w_buffer_pos w + n\<rparr>) = pending w @ bytes"
    using n le take_overwrite [of ?h ?p "w_mem w" bytes] by (simp add: pending_def pos mem_def)
  then show thesis using that [OF M(1)] M(2) B n pos by (simp add: buffer_wf_def)
qed

lemma BufferedWrite_fits:
  assumes B: "buffer_wf bs w" and fits: "unat (w_buffer_pos w) + length data \<le> unat (w_buffer_sz w)"
  obtains w' where "BufferedWrite c env be persist data w s = Some (OK, w', s)"
proof (cases "data = []")
  case True
  then show ?thesis using that [of w] by (simp add: BufferedWrite_def BufferedWrite_loop.simps)
next
  case False
  define n :: u32 where "n = of_nat (length data)"
  have b: "0 < bs" using B by (auto simp: buffer_wf_def)
  have "unat (w_buffer_sz w) < 2 ^ 32"
    using roundup_le(1) [OF b, of "unat (w_buffer_sz w) + header (w_sparse w)"] B by (simp add: buffer_wf_def)
  then have n: "unat n = length data" and bl: "unat (ucast (w_buffer_sz w - ucast (w_buffer_pos w)) :: u32) =
      unat (w_buffer_sz w) - unat (w_buffer_pos w)"
    using fits by (simp_all add: n_def unat_of_nat_u32 unat_ucast_u32 unat_sub_u64 word_le_nat_alt unat_ucast_u64)
  then have bl0: "(ucast (w_buffer_sz w - ucast (w_buffer_pos w)) :: u32) \<noteq> 0" "n \<noteq> 0"
    "\<not> n > ucast (w_buffer_sz w - ucast (w_buffer_pos w))"
    using fits False unat_eq_0 [of n] by (cases data; auto simp: word_less_nat_alt)+
  obtain mem where M: "mem_write (header (w_sparse w) + unat (w_buffer_pos w)) data (w_mem w) = Some mem"
    using mem_write_pending [OF B n [symmetric]] fits n by metis
  let ?w = "w\<lparr>w_mem := mem, w_buffer_pos := w_buffer_pos w + n\<rparr>"
  have "BufferedWrite c env be persist data w s = BufferedWrite_loop c env be persist [] 0 ?w s"
    using bl0 M n unfolding BufferedWrite_def n_def [symmetric]
    by (subst BufferedWrite_loop.simps) (simp add: Let_def)
  then show ?thesis using that by (simp add: BufferedWrite_loop.simps)
qed

lemma CreateOrUpdateRecord_form:
  "\<exists>l b. CreateOrUpdateRecord env f s =
    s\<lparr>levelwise_file_list := l, fheap := (fheap s)(f := (fheap s f)\<lparr>f_is_recorded := b\<rparr>)\<rparr>"
proof -
  have "\<exists>l. AddZoneFileRecord env f t = t\<lparr>levelwise_file_list := l\<rparr>" for t :: "('a, 'b) fdev_scheme"
    by (auto simp: AddZoneFileRecord_def Let_def intro: exI [of _ "levelwise_file_list t"])
  then obtain l where "AddZoneFileRecord env f (if f_is_recorded (fheap s f) then RemoveZoneFileRecord f s else s) =
      (if f_is_recorded (fheap s f) then RemoveZoneFileRecord f s else s)\<lparr>levelwise_file_list := l\<rparr>" by blast
  note A = this
  show ?thesis
  proof (cases "f_level (fheap s f) < 0")
    case True
    then have "CreateOrUpdateRecord env f s = s\<lparr>levelwise_file_list := levelwise_file_list s,
        fheap := (fheap s)(f := (fheap s f)\<lparr>f_is_recorded := f_is_recorded (fheap s f)\<rparr>)\<rparr>"
      by (simp add: CreateOrUpdateRecord_def)
    then show ?thesis by blast
  next
    case False
    then have "CreateOrUpdateRecord env f s =
        s\<lparr>levelwise_file_list := l, fheap := (fheap s)(f := (fheap s f)\<lparr>f_is_recorded := True\<rparr>)\<rparr>"
      using A by (simp add: CreateOrUpdateRecord_def RemoveZoneFileRecord_def Let_def upd_file_def split: if_splits)
    then show ?thesis by blast
  qed
qed

context file_writer
begin

lemma FlushBuffer_stream:
  assumes H: "handle_ok be w s" "Inv s" and F: "FlushBuffer c env be persist w s = Some (st, w', s')"
  shows "Inv s' \<and> w_file w' = w_file w \<and>
    (if st = OK then handle_ok be w' s' \<and> w_buffer_pos w' = 0 \<and> w_buffer_sz w' = w_buffer_sz w \<and>
       stream media w' s' = stream media w s
     else \<exists>k. content (media (dev s')) (f_extents (fheap s' (w_file w))) =
       content (media (dev s)) (f_extents (fheap s (w_file w))) @ take k (pending w))"
proof (cases "w_buffer_pos w = 0")
  case True
  then show ?thesis using F H by (auto simp: FlushBuffer_def Let_def)
next
  case False
  let ?f = "w_file w" and ?n = "w_buffer_pos w" and ?bs = "unat (be_block_sz be (dev s))"
  have h: "ready be ?f s" "w_sparse w = f_is_sparse (fheap s ?f)" "buffer_wf ?bs w" "w_buffered w"
      "w_wp w = f_file_size (fheap s ?f)"
    using H by (auto simp: handle_ok_def)
  note ok = buffer_wf_ok [OF h(3)]
  have d0: "\<not> w_sparse w \<Longrightarrow> header (w_sparse w) = 0" by (simp add: header_def)
  obtain mem where A: "append_start c env be persist (w_sparse w) ?f (w_mem w) ?n s = Some (st, mem, s')"
    "w' = (if st \<noteq> OK then w\<lparr>w_mem := mem\<rparr> else w\<lparr>w_mem := mem, w_wp := w_wp w + ucast ?n, w_buffer_pos := 0\<rparr>)"
    using F False h(2) d0
    by (auto simp: FlushBuffer_def Let_def SparseAppend_def BufferedAppend_def split: option.splits if_splits)
  have W: "write_outcome be media Inv ?f (pending w) s st s'" "length mem = length (w_mem w)"
    using append_start_content [OF h(1) H(2) ok(1) A(1)] by (simp_all add: pending_def)
  then obtain k where k: "k \<le> length (pending w)" "appended media ?f (take k (pending w)) s s'" "Inv s'"
      "st = OK \<longrightarrow> k = length (pending w) \<and> ready be ?f s'" and g: "geometry be (dev s') = geometry be (dev s)"
    by (auto simp: write_outcome_def)
  show ?thesis
  proof (cases "st = OK")
    case True
    have bs: "be_block_sz be (dev s') = be_block_sz be (dev s)" using g by (simp add: geometry_def)
    have "w_wp w' = f_file_size (fheap s' ?f)"
      using True k(2,4) ok(2) h(5) by (simp add: A(2) appended_def)
    then have "handle_ok be w' s'"
      using True k h bs W(2) by (auto simp: handle_ok_def A(2) appended_def buffer_wf_def)
    then show ?thesis using True k ok(2) by (auto simp: A(2) stream_def appended_def)
  next
    case False
    then show ?thesis using k A(2) by (auto simp: appended_def)
  qed
qed

lemma BufferedWrite_loop_stream:
  assumes "handle_ok be w s" "Inv s" "length data = unat left"
    and "BufferedWrite_loop c env be persist data left w s = Some (st, w', s')"
  shows "Inv s' \<and> w_file w' = w_file w \<and>
    (if st = OK then handle_ok be w' s' \<and> stream media w' s' = stream media w s @ data
     else \<exists>k. content (media (dev s')) (f_extents (fheap s' (w_file w))) =
       content (media (dev s)) (f_extents (fheap s (w_file w))) @ take k (pending w @ data))"
  using assms
proof (induction "unat left" arbitrary: left data w s rule: less_induct)
  case less
  show ?case
  proof (cases "left = 0")
    case True
    then show ?thesis using less.prems by (subst (asm) BufferedWrite_loop.simps) (auto simp: stream_def)
  next
    case False
    let ?bs = "unat (be_block_sz be (dev s))"
    define bl :: u32 where "bl = ucast (w_buffer_sz w - ucast (w_buffer_pos w))"
    have wf: "buffer_wf ?bs w" using less.prems(1) by (simp add: handle_ok_def)
    then have b: "0 < ?bs" by (auto simp: buffer_wf_def)
    have sz: "unat (w_buffer_sz w) < 2 ^ 32" "unat (w_buffer_pos w) \<le> unat (w_buffer_sz w)" "0 < unat (w_buffer_sz w)"
      using roundup_le(1) [OF b, of "unat (w_buffer_sz w) + header (w_sparse w)"] wf by (simp_all add: buffer_wf_def)
    have "unat (w_buffer_sz w - ucast (w_buffer_pos w)) = unat (w_buffer_sz w) - unat (w_buffer_pos w)"
      using sz(2) by (simp add: unat_sub_u64 word_le_nat_alt unat_ucast_u64)
    then have bl: "unat bl = unat (w_buffer_sz w) - unat (w_buffer_pos w)"
      using sz(1) by (simp add: bl_def unat_ucast_u32)
    obtain st1 w1 s1 where F: "(if bl = 0 then FlushBuffer c env be persist w s else Some (OK, w, s)) = Some (st1, w1, s1)"
      using less.prems(4) False by (subst (asm) BufferedWrite_loop.simps) (auto simp: Let_def bl_def split: option.splits)
    have F1: "Inv s1" "w_file w1 = w_file w"
      "st1 = OK \<Longrightarrow> handle_ok be w1 s1 \<and> w_buffer_sz w1 = w_buffer_sz w \<and> stream media w1 s1 = stream media w s \<and>
        w_buffer_pos w1 = (if bl = 0 then 0 else w_buffer_pos w)"
      "st1 \<noteq> OK \<Longrightarrow> \<exists>k. content (media (dev s1)) (f_extents (fheap s1 (w_file w))) =
        content (media (dev s)) (f_extents (fheap s (w_file w))) @ take k (pending w)"
      using FlushBuffer_stream [OF less.prems(1,2), of st1 w1 s1] F less.prems(1,2) by (auto split: if_splits)
    show ?thesis
    proof (cases "st1 = OK")
      case st: False
      then have "st = st1" "w' = w1" "s' = s1"
        using less.prems(4) False F by (subst (asm) BufferedWrite_loop.simps, simp add: Let_def flip: bl_def)+
      moreover obtain k where "content (media (dev s1)) (f_extents (fheap s1 (w_file w))) =
        content (media (dev s)) (f_extents (fheap s (w_file w))) @ take k (pending w)" using F1(4) st by blast
      moreover have "take k (pending w) = take (min k (length (pending w))) (pending w @ data)" by (simp add: min_def)
      ultimately show ?thesis using F1(1,2) st by metis
    next
      case True
      note H = F1(3) [OF True]
      define bl' :: u32 where "bl' = (if bl = 0 then ucast (w_buffer_sz w1) else bl)"
      define n where "n = (if left > bl' then bl' else left)"
      have bl': "unat bl' = unat (w_buffer_sz w1) - unat (w_buffer_pos w1)" "0 < unat bl'"
        using H bl sz unat_ucast_u32 [OF sz(1)] unat_eq_0 [of bl] by (auto simp: bl'_def)
      have n: "unat n \<le> unat left" "unat n \<le> unat bl'" "0 < unat n" "unat (left - n) = unat left - unat n"
        using bl' False by (auto simp: n_def word_less_nat_alt unat_gt_0 unat_sub word_le_nat_alt)
      have wf1: "buffer_wf (unat (be_block_sz be (dev s1))) w1" using H by (simp add: handle_ok_def)
      have len: "length (take (unat n) data) = unat n" using n less.prems(3) by simp
      have "unat (w_buffer_pos w1) + unat n \<le> unat (w_buffer_sz w1)" using n bl' by linarith
      then obtain mem where M: "mem_write (header (w_sparse w1) + unat (w_buffer_pos w1)) (take (unat n) data) (w_mem w1) = Some mem"
        "buffer_wf (unat (be_block_sz be (dev s1))) (w1\<lparr>w_mem := mem, w_buffer_pos := w_buffer_pos w1 + n\<rparr>)"
        "pending (w1\<lparr>w_mem := mem, w_buffer_pos := w_buffer_pos w1 + n\<rparr>) = pending w1 @ take (unat n) data"
        using mem_write_pending [OF wf1 len] by metis
      define w2 where "w2 = w1\<lparr>w_mem := mem, w_buffer_pos := w_buffer_pos w1 + n\<rparr>"
      have L: "BufferedWrite_loop c env be persist (drop (unat n) data) (left - n) w2 s1 = Some (st, w', s')"
        using less.prems(4) False F True M(1) unfolding w2_def n_def bl'_def
        by (subst (asm) BufferedWrite_loop.simps) (simp add: Let_def flip: bl_def)
      have h2: "handle_ok be w2 s1" "w_file w2 = w_file w"
        using H M(2) F1(2) by (auto simp: handle_ok_def w2_def)
      have st2: "stream media w2 s1 = stream media w s @ take (unat n) data"
        using H M(3) by (simp add: stream_def w2_def)
      have IH: "Inv s' \<and> w_file w' = w_file w2 \<and>
        (if st = OK then handle_ok be w' s' \<and> stream media w' s' = stream media w2 s1 @ drop (unat n) data
         else \<exists>k. content (media (dev s')) (f_extents (fheap s' (w_file w2))) =
           content (media (dev s1)) (f_extents (fheap s1 (w_file w2))) @ take k (pending w2 @ drop (unat n) data))"
        by (rule less.hyps [OF _ h2(1) F1(1) _ L]) (use n less.prems(3) in simp_all)
      show ?thesis
      proof (cases "st = OK")
        case True
        then show ?thesis using IH st2 h2(2) by simp
      next
        case bad: False
        then obtain k where k: "content (media (dev s')) (f_extents (fheap s' (w_file w))) =
           content (media (dev s1)) (f_extents (fheap s1 (w_file w))) @ take k (pending w2 @ drop (unat n) data)"
          using IH h2(2) by auto
        let ?c = "content (media (dev s)) (f_extents (fheap s (w_file w)))"
          and ?c1 = "content (media (dev s1)) (f_extents (fheap s1 (w_file w)))"
        have p2: "pending w2 @ drop (unat n) data = pending w1 @ data" using M(3) by (simp add: w2_def)
        have "\<exists>k'. ?c1 @ take k (pending w1 @ data) = ?c @ take k' (pending w @ data)"
        proof (cases "bl = 0")
          case True
          then have "pending w1 = []" "?c1 = ?c @ pending w" using H F1(2) by (auto simp: pending_def stream_def)
          then show ?thesis by (intro exI [of _ "length (pending w) + k"]) simp
        next
          case False
          then show ?thesis using F by auto
        qed
        with p2 k have "\<exists>k'. content (media (dev s')) (f_extents (fheap s' (w_file w))) = ?c @ take k' (pending w @ data)"
          by simp
        then show ?thesis using IH bad h2(2) by simp
      qed
    qed
  qed
qed

text \<open>Persisting the file's metadata keeps the handle.\<close>

lemma persist_handle:
  assumes "handle_ok be w s" "Inv s" "persist (w_file w) s = Some (st, s')"
  shows "handle_ok be w s' \<and> Inv s' \<and> stream media w s' = stream media w s"
proof -
  let ?f = "w_file w"
  have r: "ready be ?f s" "disk_ok be s" "file_in ?f s" using assms(1) by (auto simp: handle_ok_def ready_def)
  note P = persist_stays [OF assms(2) r(2) assms(3)]
  have k: "file_kept (fheap s' ?f) = file_kept (fheap s ?f)" "io_zones s' = io_zones s"
    "geometry be (dev s') = geometry be (dev s)"
    using P by (auto simp: io_stays_def)
  note K = file_kept_fields [OF k(1)]
  have io: "io_stays be media s s'" and zs: "\<forall>p \<in> set (io_zones s). zheap s' p = zheap s p" using P by blast+
  note F = disk_ok_stays [OF io r(2)] file_stays [OF io r(2,3)]
  have "z \<in> set (io_zones s') \<and> f_extent_start (fheap s' ?f) = z_wp (zheap s' z) \<and> \<not> IsFull (zheap s' z)"
    if "f_active_zone (fheap s' ?f) = Some z" for z
    using that r(1) zs K k(2) by (simp add: ready_def)
  then have "ready be ?f s'" using F(1,2) by (simp add: ready_def)
  then show ?thesis
    using assms(1) P K F(3) k(3) by (simp add: handle_ok_def stream_def geometry_def)
qed

lemma DataSync_stream:
  assumes H: "handle_ok be w s" "Inv s" and D: "DataSync c env be persist w s = Some (OK, w', s')"
  shows "handle_ok be w' s' \<and> Inv s' \<and> w_file w' = w_file w \<and> w_buffer_pos w' = 0 \<and> w_open w' = w_open w \<and>
    stream media w' s' = stream media w s"
proof -
  have b: "w_buffered w" using H by (simp add: handle_ok_def)
  obtain w1 s1 where F: "FlushBuffer c env be persist w s = Some (OK, w1, s1)"
    and R: "if f_is_sparse (fheap s1 (w_file w)) then w' = w1 \<and> s' = s1
      else w' = w1 \<and> persist (w_file w) s1 = Some (OK, s')"
    using D b by (auto simp: DataSync_def split: option.splits if_splits)
  note S = FlushBuffer_stream [OF H F, simplified]
  have "w_open w1 = w_open w" using F by (auto simp: FlushBuffer_def Let_def split: option.splits if_splits)
  then show ?thesis
    using S R persist_handle [of w1 s1 OK s'] by (auto split: if_splits)
qed

lemma CloseInternal_stream:
  assumes H: "handle_ok be w s" "Inv s" "w_open w" and C: "CloseInternal c env be persist w s = Some (OK, w', s')"
  shows "\<not> w_open w' \<and> content (media (dev s')) (f_extents (fheap s' (w_file w))) = stream media w s \<and>
    f_active_zone (fheap s' (w_file w)) = None \<and> \<not> f_open_for_wr (fheap s' (w_file w))"
proof -
  let ?f = "w_file w"
  obtain w1 s1 where D: "DataSync c env be persist w s = Some (OK, w1, s1)"
    and R: "CloseWR env be persist (w_file w1) s1 = Some (OK, s')" and w': "w' = w1\<lparr>w_open := False\<rparr>"
    using C H(3) by (auto simp: CloseInternal_def split: option.splits if_splits)
  note S = DataSync_stream [OF H(1,2) D]
  define s2 where "s2 = upd_file ?f (f_extent_start_update (\<lambda>_. NO_EXTENT)) (CreateOrUpdateRecord env ?f s1)"
  obtain s3 where P: "persist ?f s2 = Some (OK, s3)" "CloseActiveZone be ?f (ReleaseWRLock ?f s3) = (OK, s')"
    using R S by (auto simp: CloseWR_def Let_def s2_def split: option.splits if_splits)
  have r1: "ready be ?f s1" using S by (auto simp: handle_ok_def)
  have fr: "meta_stays be s1 s2" "disk_ok be s2 = disk_ok be s1" "file_in ?f s2 = file_in ?f s1"
    "f_extents (fheap s2 ?f) = f_extents (fheap s1 ?f)" "f_active_zone (fheap s2 ?f) = f_active_zone (fheap s1 ?f)"
    "dev s2 = dev s1" "io_zones s2 = io_zones s1"
    using CreateOrUpdateRecord_form [of env ?f s1]
    by (elim exE, simp add: s2_def meta_stays_def file_in_def list_all_iff extent_in_def disk_ok_def index_ok_def upd_file_def)+
  have i2: "Inv s2" "disk_ok be s2" "file_in ?f s2" using Inv_stays [OF _ fr(1)] S fr(2,3) r1 by (auto simp: ready_def)
  note P' = persist_stays [OF i2(1,2) P(1)]
  then have io: "io_stays be media s2 s3" by blast
  note K = file_stays [OF io i2(2,3)]
  have k: "f_active_zone (fheap s3 ?f) = f_active_zone (fheap s1 ?f)" "io_zones s3 = io_zones s1"
    using io file_kept_fields [of "fheap s3 ?f" "fheap s2 ?f"] fr by (simp_all add: io_stays_def)
  have c3: "content (media (dev s3)) (f_extents (fheap s3 ?f)) = stream media w s"
    using K(2) fr S by (auto simp: stream_def)
  show ?thesis
  proof (cases "f_active_zone (fheap s3 ?f)")
    case None
    then have "s' = ReleaseWRLock ?f s3" using P(2) by (simp add: CloseActiveZone_def ReleaseWRLock_def)
    then show ?thesis using None c3 w' by (simp add: ReleaseWRLock_def)
  next
    case (Some z)
    then have "z \<in> set (io_zones s3)" using r1 k by (simp add: ready_def)
    with CloseActiveZone_steady [OF P(2), of z] Some
    have "steady be media ?f (ReleaseWRLock ?f s3) s'"
      "fheap s' = (fheap (ReleaseWRLock ?f s3))(?f := (fheap (ReleaseWRLock ?f s3) ?f)\<lparr>f_active_zone := None\<rparr>)"
      by (auto simp: ReleaseWRLock_def)
    then show ?thesis using c3 w' by (auto simp: ReleaseWRLock_def steady_def appended_def)
  qed
qed

end

section \<open>Properties\<close>

text \<open>
  C18: A writable file is a byte stream. For an open buffered handle (plain or sparse) whose buffer has room
  for padding, appending up to 4 GiB appends exactly the given bytes to the stream, the stream being what
  the zones hold followed by what is still in the buffer; the handle stays in order. When writing out the
  buffer fails, the file has grown by a prefix of what was pending. An append that fits in the buffer
  succeeds without touching the device.
\<close>

theorem Append_stream:
  assumes "file_writer be media env persist Inv c" "handle_ok be w s" "Inv s" "length data < 2 ^ 32"
  shows "(\<forall>st w' s'. ZonedWritableFile_Append c env be persist data w s = Some (st, w', s') \<longrightarrow>
      (if st = OK then handle_ok be w' s' \<and> stream media w' s' = stream media w s @ data
       else \<exists>k. content (media (dev s')) (f_extents (fheap s' (w_file w))) =
         content (media (dev s)) (f_extents (fheap s (w_file w))) @ take k (pending w @ data))) \<and>
    (unat (w_buffer_pos w) + length data \<le> unat (w_buffer_sz w) \<longrightarrow>
       (\<exists>w'. ZonedWritableFile_Append c env be persist data w s = Some (OK, w', s)))"
proof (intro conjI allI impI)
  have b: "ZonedWritableFile_Append c env be persist data w s = BufferedWrite c env be persist data w s"
    using assms(2) by (simp add: handle_ok_def ZonedWritableFile_Append_def)
  fix st w' s'
  assume "ZonedWritableFile_Append c env be persist data w s = Some (st, w', s')"
  then have L: "BufferedWrite_loop c env be persist data (of_nat (length data)) w s = Some (st, w', s')"
    using b by (simp add: BufferedWrite_def)
  show "if st = OK then handle_ok be w' s' \<and> stream media w' s' = stream media w s @ data
       else \<exists>k. content (media (dev s')) (f_extents (fheap s' (w_file w))) =
         content (media (dev s)) (f_extents (fheap s (w_file w))) @ take k (pending w @ data)"
    using file_writer.BufferedWrite_loop_stream [OF assms(1-3) unat_of_nat_u32 [OF assms(4), symmetric] L] by (elim conjE)
next
  assume "unat (w_buffer_pos w) + length data \<le> unat (w_buffer_sz w)"
  moreover have "buffer_wf (unat (be_block_sz be (dev s))) w" "w_buffered w" using assms(2) by (simp_all add: handle_ok_def)
  ultimately obtain w' where "BufferedWrite c env be persist data w s = Some (OK, w', s)"
    using BufferedWrite_fits by blast
  then show "\<exists>w'. ZonedWritableFile_Append c env be persist data w s = Some (OK, w', s)"
    using \<open>w_buffered w\<close> by (simp add: ZonedWritableFile_Append_def)
qed

text \<open>A handle of the sparse file 0 of the small device.\<close>

definition sample_handle :: wfile where
  "sample_handle = \<lparr>w_buffered = True, w_sparse = True, w_mem = replicate 192 0, w_buffer_sz = 120,
    w_block_sz = 64, w_buffer_pos = 0, w_wp = 0, w_open = True, w_file = 0\<rparr>"

lemma sample_handle_ok: "handle_ok ram_backend sample_handle sample_write"
  using sample_write_ready [of 0]
  by (simp add: handle_ok_def buffer_wf_def header_def roundup_def sample_handle_def sample_write_eval)

theorem Append_stream_witness:
  "\<exists>w'. ZonedWritableFile_Append le_coding sample_env ram_backend sync_writer [1, 2, 3] sample_handle sample_write =
      Some (OK, w', sample_write) \<and>
    stream ram_bytes w' sample_write = stream ram_bytes sample_handle sample_write @ [1, 2, 3]"
proof -
  have "length [1, 2, 3 :: byte] < 2 ^ 32"
    "unat (w_buffer_pos sample_handle) + length [1, 2, 3 :: byte] \<le> unat (w_buffer_sz sample_handle)"
    by (simp_all add: sample_handle_def)
  with Append_stream [OF sync.file_writer_axioms sample_handle_ok TrueI, of "[1, 2, 3]"] show ?thesis by fastforce
qed

text \<open>
  C19: Synchronising and closing. After \<open>Fsync\<close> has succeeded, everything appended through the handle is in
  the zones and nothing is left in the buffer. After \<open>Close\<close> has succeeded, the file holds everything
  appended through the handle, its active zone is given back, its write lock is released and the handle is
  closed.
\<close>

theorem Sync_stream:
  assumes fw: "file_writer be media env persist Inv c" and H: "handle_ok be w s" "Inv s"
  shows "(\<forall>w' s'. Fsync c env be persist w s = Some (OK, w', s') \<longrightarrow>
      handle_ok be w' s' \<and> pending w' = [] \<and>
      content (media (dev s')) (f_extents (fheap s' (w_file w))) = stream media w s) \<and>
    (\<forall>w' s'. w_open w \<and> CloseInternal c env be persist w s = Some (OK, w', s') \<longrightarrow>
      \<not> w_open w' \<and> content (media (dev s')) (f_extents (fheap s' (w_file w))) = stream media w s \<and>
      f_active_zone (fheap s' (w_file w)) = None \<and> \<not> f_open_for_wr (fheap s' (w_file w)))"
proof (intro conjI allI impI)
  fix w' s'
  assume "Fsync c env be persist w s = Some (OK, w', s')"
  then obtain s1 where D: "DataSync c env be persist w s = Some (OK, w', s1)"
    and R: "s' = s1 \<or> persist (w_file w') s1 = Some (OK, s')"
    by (auto simp: Fsync_def split: option.splits if_splits)
  note S = file_writer.DataSync_stream [OF fw H D]
  then have p: "handle_ok be w' s'" "stream media w' s' = stream media w s"
    using R file_writer.persist_handle [OF fw, of w' s1 OK s'] by auto
  then show "handle_ok be w' s'" "pending w' = []"
    "content (media (dev s')) (f_extents (fheap s' (w_file w))) = stream media w s"
    using S by (auto simp: stream_def)
next
  fix w' s'
  assume "w_open w \<and> CloseInternal c env be persist w s = Some (OK, w', s')"
  then show "\<not> w_open w'" "content (media (dev s')) (f_extents (fheap s' (w_file w))) = stream media w s"
    "f_active_zone (fheap s' (w_file w)) = None" "\<not> f_open_for_wr (fheap s' (w_file w))"
    using file_writer.CloseInternal_stream [OF fw H, of w' s'] by blast+
qed

theorem Sync_stream_witness:
  "\<exists>w' s'. Fsync le_coding sample_env ram_backend sync_writer sample_handle sample_write = Some (OK, w', s') \<and>
    pending w' = [] \<and>
    content (ram_bytes (dev s')) (f_extents (fheap s' 0)) = stream ram_bytes sample_handle sample_write"
proof -
  have "Fsync le_coding sample_env ram_backend sync_writer sample_handle sample_write =
      Some (OK, sample_handle, upd_file 0 MetadataSynced sample_write)"
    by (simp add: Fsync_def DataSync_def FlushBuffer_def sync_writer_def sample_handle_def sample_write_eval)
  with Sync_stream [OF sync.file_writer_axioms sample_handle_ok TrueI] show ?thesis
    by (fastforce simp: sample_handle_def)
qed

end
