(* ===== verification/Meta_Log.thy ===== *)
theory Meta_Log
  imports Zone_Read
begin

text \<open>
  The superblock and the metadata log (classes \<open>Superblock\<close> and \<open>ZenMetaLog\<close> of \<open>src/fs/fs_zenfs.h\<close> and
  \<open>src/fs/fs_zenfs.cc\<close>). The log is specified as a list of records: \<open>log_holds\<close> says that a zone
  contains the frames of a list of records up to its write pointer. Adding a record appends to that
  list, reading walks along it and finds every record again, and stops at its end.

  Memory allocation succeeds. \<open>ZonedBlockDevice::Read\<close> retries interrupted reads itself, so the same
  test in \<open>ZenMetaLog::Read\<close> finds nothing to do.
\<close>

section \<open>Superblock\<close>

record superblock =
  sb_magic :: u32
  sb_uuid :: "byte list"
  sb_sequence :: u32
  sb_superblock_version :: u32
  sb_flags :: u32
  sb_block_size :: u32
  sb_zone_size :: u32
  sb_nr_zones :: u32
  sb_aux_fs_path :: "byte list"
  sb_finish_treshold :: u32
  sb_zenfs_version :: "byte list"
  sb_reserved :: "byte list"

abbreviation (input) SB_MAGIC :: u32 where "SB_MAGIC \<equiv> 0x5a454e46"
abbreviation (input) SB_ENCODED_SIZE :: nat where "SB_ENCODED_SIZE \<equiv> 512"
abbreviation (input) CURRENT_SUPERBLOCK_VERSION :: u32 where "CURRENT_SUPERBLOCK_VERSION \<equiv> 2"
abbreviation (input) FLAGS_ENABLE_GC :: u32 where "FLAGS_ENABLE_GC \<equiv> 1"

text \<open>\<open>memcpy\<close> and \<open>strncpy\<close> of at most \<open>n - 1\<close> characters into a zeroed array of \<open>n\<close>.\<close>

definition fixed_copy :: "nat \<Rightarrow> byte list \<Rightarrow> byte list" where
  "fixed_copy n bs = (let b = take (n - 1) bs in b @ replicate (n - length b) 0)"

definition fixed_strncpy :: "nat \<Rightarrow> byte list \<Rightarrow> byte list" where
  "fixed_strncpy n bs = fixed_copy n (takeWhile (\<lambda>b. b \<noteq> 0) bs)"

definition Superblock_default :: superblock where
  "Superblock_default =
    \<lparr> sb_magic = 0, sb_uuid = replicate 37 0, sb_sequence = 0, sb_superblock_version = 0, sb_flags = 0,
      sb_block_size = 0, sb_zone_size = 0, sb_nr_zones = 0, sb_aux_fs_path = replicate 256 0,
      sb_finish_treshold = 0, sb_zenfs_version = replicate 64 0, sb_reserved = replicate 123 0 \<rparr>"

text \<open>The generated identifier and the version string come from outside (\<open>Env\<close>, \<open>version.h\<close>).\<close>

definition Superblock_new :: "('d, 'b) backend_scheme \<Rightarrow> byte list \<Rightarrow> byte list \<Rightarrow> byte list \<Rightarrow> u32 \<Rightarrow> bool
    \<Rightarrow> ('d, 'm) zbd_scheme \<Rightarrow> superblock" where
  "Superblock_new be uuid version aux threshold enable_gc s =
    (let bs = be_block_sz be (dev s)
     in Superblock_default
      \<lparr> sb_uuid := fixed_copy 37 uuid, sb_magic := SB_MAGIC,
        sb_superblock_version := CURRENT_SUPERBLOCK_VERSION,
        sb_flags := (if enable_gc then FLAGS_ENABLE_GC else 0),
        sb_finish_treshold := threshold, sb_block_size := bs,
        sb_zone_size := ucast (be_zone_sz be (dev s) div ucast bs), sb_nr_zones := be_nr_zones be (dev s),
        sb_aux_fs_path := fixed_strncpy 256 aux, sb_zenfs_version := fixed_strncpy 64 version \<rparr>)"

text \<open>A getter that fails leaves variable and input as they are.\<close>

definition get32_keep :: "'e coding_scheme \<Rightarrow> u32 \<Rightarrow> byte list \<Rightarrow> u32 \<times> byte list" where
  "get32_keep c old input = (case GetFixed32 c input of None \<Rightarrow> (old, input) | Some r \<Rightarrow> r)"

definition Superblock_DecodeFrom :: "'e coding_scheme \<Rightarrow> byte list \<Rightarrow> superblock \<Rightarrow> IOStatus \<times> superblock" where
  "Superblock_DecodeFrom c input sb =
    (if length input \<noteq> SB_ENCODED_SIZE then (Corruption, sb)
     else
       let (magic, i1) = get32_keep c (sb_magic sb) input;
           uuid = take 37 i1; i2 = drop 37 i1;
           (seq, i3) = get32_keep c (sb_sequence sb) i2;
           (ver, i4) = get32_keep c (sb_superblock_version sb) i3;
           (flags, i5) = get32_keep c (sb_flags sb) i4;
           (bs, i6) = get32_keep c (sb_block_size sb) i5;
           (zs, i7) = get32_keep c (sb_zone_size sb) i6;
           (nz, i8) = get32_keep c (sb_nr_zones sb) i7;
           (ft, i9) = get32_keep c (sb_finish_treshold sb) i8;
           aux = take 256 i9; i10 = drop 256 i9;
           vers = take 64 i10; i11 = drop 64 i10;
           sb' = \<lparr> sb_magic = magic, sb_uuid = uuid, sb_sequence = seq, sb_superblock_version = ver,
              sb_flags = flags, sb_block_size = bs, sb_zone_size = zs, sb_nr_zones = nz,
              sb_aux_fs_path = aux, sb_finish_treshold = ft, sb_zenfs_version = vers,
              sb_reserved = take 123 i11 \<rparr>
       in if magic \<noteq> SB_MAGIC then (Corruption, sb')
          else if ver \<noteq> CURRENT_SUPERBLOCK_VERSION then (Corruption, sb')
          else (OK, sb'))"

text \<open>Encoding first increases the sequence number of the object itself.\<close>

definition Superblock_EncodeTo :: "'e coding_scheme \<Rightarrow> superblock \<Rightarrow> byte list \<times> superblock" where
  "Superblock_EncodeTo c sb0 =
    (let sb = sb0\<lparr>sb_sequence := sb_sequence sb0 + 1\<rparr>
     in (PutFixed32 c (sb_magic sb) @ sb_uuid sb @ PutFixed32 c (sb_sequence sb) @
         PutFixed32 c (sb_superblock_version sb) @ PutFixed32 c (sb_flags sb) @
         PutFixed32 c (sb_block_size sb) @ PutFixed32 c (sb_zone_size sb) @ PutFixed32 c (sb_nr_zones sb) @
         PutFixed32 c (sb_finish_treshold sb) @ sb_aux_fs_path sb @ sb_zenfs_version sb @ sb_reserved sb, sb))"

definition CompatibleWith :: "('d, 'b) backend_scheme \<Rightarrow> superblock \<Rightarrow> ('d, 'm) zbd_scheme \<Rightarrow> IOStatus" where
  "CompatibleWith be sb s =
    (if sb_block_size sb \<noteq> be_block_sz be (dev s) then Corruption
     else if ucast (sb_zone_size sb) \<noteq> be_zone_sz be (dev s) div ucast (sb_block_size sb) then Corruption
     else if sb_nr_zones sb > be_nr_zones be (dev s) then Corruption
     else OK)"

definition IsGCEnabled :: "superblock \<Rightarrow> bool" where
  "IsGCEnabled sb \<longleftrightarrow> and (sb_flags sb) FLAGS_ENABLE_GC \<noteq> 0"

section \<open>The metadata log\<close>

record metalog =
  ml_read_pos :: u64
  ml_zone :: zptr
  ml_bs :: u64

abbreviation (input) zMetaHeaderSize :: u64 where "zMetaHeaderSize \<equiv> 8"

definition ZenMetaLog_new :: "('d, 'b) backend_scheme \<Rightarrow> zptr \<Rightarrow> ('d, 'm) zbd_scheme \<Rightarrow> metalog" where
  "ZenMetaLog_new be z s =
    \<lparr>ml_read_pos = z_start (zheap s z), ml_zone = z, ml_bs = ucast (be_block_sz be (dev s))\<rparr>"

definition ZenMetaLog_destroy :: "metalog \<Rightarrow> ('d, 'm) zbd_scheme \<Rightarrow> ('d, 'm) zbd_scheme" where
  "ZenMetaLog_destroy ml s = snd (Zone_Release (ml_zone ml) s)"

definition AddRecord :: "'e coding_scheme \<Rightarrow> ('d, 'b) backend_scheme \<Rightarrow> metalog \<Rightarrow> byte list
    \<Rightarrow> ('d, 'm) zbd_scheme \<Rightarrow> (IOStatus \<times> ('d, 'm) zbd_scheme) option" where
  "AddRecord c be ml data s =
    (let record_sz = of_nat (length data) :: u32;
         sz = ucast record_sz + zMetaHeaderSize :: u64;
         phys_sz = (if sz mod ml_bs ml \<noteq> 0 then sz + (ml_bs ml - sz mod ml_bs ml) else sz);
         payload = take (unat record_sz) data;
         crc = crc32c_Mask c (crc32c_Extend c (crc32c_Extend c 0 (native_u32 c record_sz)) payload);
         used = EncodeFixed32 c crc @ EncodeFixed32 c record_sz @ payload;
         buffer = used @ replicate (unat phys_sz - length used) 0
     in if ml_bs ml = 0 then None
        else Zone_Append be (ml_zone ml) (take (unat (ucast phys_sz :: u32)) buffer) s)"

partial_function (option) MetaLog_Read_loop :: "('d, 'b) backend_scheme \<Rightarrow> byte list \<Rightarrow> u64 \<Rightarrow> u64
    \<Rightarrow> ('d, 'm) zbd_scheme \<Rightarrow> (IOStatus \<times> byte list \<times> u64 \<times> ('d, 'm) zbd_scheme) option" where
  "MetaLog_Read_loop be buf left read_pos s =
    (if left = 0 then Some (OK, buf, read_pos, s)
     else case Zbd_Read be read_pos (int_of_size left) False s of
       None \<Rightarrow> None
     | Some (ret, bytes, s1) \<Rightarrow>
         if ret < 0 then Some (IOError, buf, read_pos, s1)
         else MetaLog_Read_loop be (buf @ bytes) (left - of_int ret) (read_pos + of_int ret) s1)"

declare MetaLog_Read_loop.simps [code]

definition MetaLog_Read :: "('d, 'b) backend_scheme \<Rightarrow> u64 \<Rightarrow> metalog \<Rightarrow> ('d, 'm) zbd_scheme
    \<Rightarrow> (IOStatus \<times> byte list \<times> metalog \<times> ('d, 'm) zbd_scheme) option" where
  "MetaLog_Read be to_read ml s =
    (let z = zheap s (ml_zone ml)
     in if ml_read_pos ml \<ge> z_wp z then Some (OK, [], ml, s)
        else if ml_read_pos ml + to_read > z_start z + z_max_capacity z then Some (IOError, [], ml, s)
        else case MetaLog_Read_loop be [] to_read (ml_read_pos ml) s of
          None \<Rightarrow> None
        | Some (st, buf, pos, s1) \<Rightarrow> Some (st, buf, ml\<lparr>ml_read_pos := pos\<rparr>, s1))"

text \<open>The record, or the empty list at the end of the log.\<close>

definition ReadRecord :: "'e coding_scheme \<Rightarrow> ('d, 'b) backend_scheme \<Rightarrow> metalog \<Rightarrow> ('d, 'm) zbd_scheme
    \<Rightarrow> (IOStatus \<times> byte list \<times> metalog \<times> ('d, 'm) zbd_scheme) option" where
  "ReadRecord c be ml s =
    (case MetaLog_Read be zMetaHeaderSize ml s of
       None \<Rightarrow> None
     | Some (st, header, ml1, s1) \<Rightarrow>
         if st \<noteq> OK then Some (st, [], ml1, s1)
         else if header = [] then Some (OK, [], ml1, s1)
         else
           let (record_crc, h1) = get32_keep c 0 header;
               (record_sz, h2) = get32_keep c 0 h1
           in case MetaLog_Read be (ucast record_sz) ml1 s1 of
                None \<Rightarrow> None
              | Some (st, rec, ml2, s2) \<Rightarrow>
                  if st \<noteq> OK then Some (st, rec, ml2, s2)
                  else
                    let actual_crc = crc32c_Extend c (crc32c_Value c (native_u32 c record_sz)) rec
                    in if actual_crc \<noteq> crc32c_Unmask c record_crc then Some (IOError, rec, ml2, s2)
                       else if ml_bs ml2 = 0 then None
                       else Some (OK, rec,
                              if ml_read_pos ml2 mod ml_bs ml2 \<noteq> 0
                              then ml2\<lparr>ml_read_pos := ml_read_pos ml2 + (ml_bs ml2 - ml_read_pos ml2 mod ml_bs ml2)\<rparr>
                              else ml2, s2))"

section \<open>Superblock round trip\<close>

definition superblock_wf :: "superblock \<Rightarrow> bool" where
  "superblock_wf sb \<longleftrightarrow> sb_magic sb = SB_MAGIC \<and> sb_superblock_version sb = CURRENT_SUPERBLOCK_VERSION \<and>
    length (sb_uuid sb) = 37 \<and> length (sb_aux_fs_path sb) = 256 \<and> length (sb_zenfs_version sb) = 64 \<and>
    length (sb_reserved sb) = 123"

lemma length_fixed [simp]: "0 < n \<Longrightarrow> length (fixed_copy n bs) = n" "0 < n \<Longrightarrow> length (fixed_strncpy n bs) = n"
  by (auto simp: fixed_copy_def fixed_strncpy_def Let_def)

lemma Superblock_new_wf: "superblock_wf (Superblock_new be uuid v aux t gc s)"
  by (simp add: superblock_wf_def Superblock_new_def Superblock_default_def Let_def)

lemma Superblock_encoded:
  assumes "coding_laws c" "superblock_wf sb" "Superblock_EncodeTo c sb = (bytes, sb')"
  shows "length bytes = 512 \<and> sb' = sb\<lparr>sb_sequence := sb_sequence sb + 1\<rparr> \<and> superblock_wf sb' \<and>
    Superblock_DecodeFrom c bytes old = (OK, sb') \<and>
    (sb = Superblock_new be uuid v aux t gc s \<and>
       unat (be_zone_sz be (dev s) div ucast (be_block_sz be (dev s))) < 2 ^ 32 \<longrightarrow> CompatibleWith be sb' s = OK)"
proof -
  have g: "get32_keep c o' (EncodeFixed32 c w @ r) = (w, r)" "get32_keep c o' (EncodeFixed32 c w) = (w, [])" for o' w r
    by (simp_all add: get32_keep_def coding_laws.get32 [OF assms(1)] coding_laws.get32_end [OF assms(1)])
  have l: "length (EncodeFixed32 c w) = 4" for w by (rule coding_laws.length32 [OF assms(1)])
  have e: "sb' = sb\<lparr>sb_sequence := sb_sequence sb + 1\<rparr>" "bytes = fst (Superblock_EncodeTo c sb)"
    using assms(3) by (auto simp: Superblock_EncodeTo_def Let_def)
  have len: "length bytes = 512"
    using assms(2) by (simp add: e(2) Superblock_EncodeTo_def Let_def superblock_wf_def l)
  have "Superblock_DecodeFrom c bytes old = (OK, sb')"
    using assms(2) len unfolding Superblock_DecodeFrom_def
    by (simp add: e Superblock_EncodeTo_def Let_def superblock_wf_def g)
  moreover have "CompatibleWith be sb' s = OK"
    if "sb = Superblock_new be uuid v aux t gc s" "unat (be_zone_sz be (dev s) div ucast (be_block_sz be (dev s))) < 2 ^ 32"
    using that by (simp add: e CompatibleWith_def Superblock_new_def Superblock_default_def Let_def ucast_u32_u64)
  ultimately show ?thesis using len e assms(2) by (simp add: superblock_wf_def)
qed

text \<open>
  C33: Superblock round trip. Encoding a superblock that the constructor made, or any other with the
  current magic number and version, gives 512 bytes, advances its sequence number by one and keeps
  everything else; decoding those bytes into any object succeeds and gives back exactly the encoded
  superblock. A superblock made for a device is compatible with it (when the zone size in blocks fits
  32 bits).
\<close>

theorem Superblock_roundtrip:
  assumes "coding_laws c" "superblock_wf sb" "Superblock_EncodeTo c sb = (bytes, sb')"
  shows "length bytes = 512 \<and> sb' = sb\<lparr>sb_sequence := sb_sequence sb + 1\<rparr> \<and> superblock_wf sb' \<and>
    Superblock_DecodeFrom c bytes old = (OK, sb') \<and>
    (sb = Superblock_new be uuid v aux t gc s \<and>
       unat (be_zone_sz be (dev s) div ucast (be_block_sz be (dev s))) < 2 ^ 32 \<longrightarrow> CompatibleWith be sb' s = OK)"
  using assms by (rule Superblock_encoded)

theorem Superblock_roundtrip_witness:
  "\<exists>bytes sb'. Superblock_EncodeTo le_coding (Superblock_new ram_backend [55, 56] [50] [47, 97] 10 True sample_zbd) = (bytes, sb') \<and>
    length bytes = 512 \<and> Superblock_DecodeFrom le_coding bytes Superblock_default = (OK, sb') \<and>
    CompatibleWith ram_backend sb' sample_zbd = OK"
proof -
  let ?sb = "Superblock_new ram_backend [55, 56] [50] [47, 97] 10 True sample_zbd"
  obtain bytes sb' where E: "Superblock_EncodeTo le_coding ?sb = (bytes, sb')" by fastforce
  have "unat (be_zone_sz ram_backend (dev sample_zbd) div ucast (be_block_sz ram_backend (dev sample_zbd))) < 2 ^ 32"
    by (simp add: sample_defs)
  with Superblock_roundtrip [OF le.coding_laws_axioms Superblock_new_wf E, of Superblock_default ram_backend
      "[55, 56]" "[50]" "[47, 97]" 10 True sample_zbd] E
  show ?thesis by blast
qed

section \<open>The log as a list of records\<close>

definition log_frame :: "'e coding_scheme \<Rightarrow> nat \<Rightarrow> byte list \<Rightarrow> byte list" where
  "log_frame c bs data =
    (let sz = of_nat (length data) :: u32
     in EncodeFixed32 c (crc32c_Mask c (crc32c_Extend c (crc32c_Extend c 0 (native_u32 c sz)) data)) @
        EncodeFixed32 c sz @ data @ replicate (roundup bs (length data + 8) - (length data + 8)) 0)"

abbreviation (input) log_bytes :: "'e coding_scheme \<Rightarrow> nat \<Rightarrow> byte list list \<Rightarrow> byte list" where
  "log_bytes c bs recs \<equiv> concat (map (log_frame c bs) recs)"

context coding_laws
begin

lemma length_log_frame: "0 < bs \<Longrightarrow> length (log_frame c bs data) = roundup bs (length data + 8)"
  using roundup_le(1) [of bs "length data + 8"] by (simp add: log_frame_def Let_def)

lemma length_log_bytes_dvd: "0 < bs \<Longrightarrow> bs dvd length (log_bytes c bs recs)"
  by (induction recs) (simp_all add: length_log_frame roundup_dvd)

lemma AddRecord_eq:
  assumes "ml_bs ml = ucast bsz" "0 < unat bsz" "length data + 8 + unat bsz < 2 ^ 32"
  shows "AddRecord c be ml data s = Zone_Append be (ml_zone ml) (log_frame c (unat (bsz :: u32)) data) s"
proof -
  let ?n = "of_nat (length data) :: u32"
  let ?sz = "ucast ?n + 8 :: u64" and ?b = "ucast bsz :: u64"
  have n: "unat ?n = length data" using assms(3) by (simp add: unat_of_nat_u32)
  have b: "unat ?b = unat bsz" by (rule unat_ucast_u64)
  have sz: "unat ?sz = length data + 8" using n assms(3) by (subst unat_add_u64) (simp_all add: unat_ucast_u64)
  define ph where "ph = (if ?sz mod ?b \<noteq> 0 then ?sz + (?b - ?sz mod ?b) else ?sz)"
  have ph: "unat ph = roundup (unat bsz) (length data + 8)"
    unfolding ph_def using unat_roundup [of ?b ?sz] assms(2,3) b sz by simp
  have "unat ph < 2 ^ 32" using ph roundup_le(2) [OF assms(2), of "length data + 8"] assms(3) by simp
  then have u: "unat (ucast ph :: u32) = unat ph" by (rule unat_ucast_u32)
  have "ml_bs ml \<noteq> 0" using assms(1,2) b by (metis less_irrefl unat_0)
  moreover have "length data + 8 \<le> roundup (unat bsz) (length data + 8)" by (rule roundup_le) (rule assms(2))
  ultimately show ?thesis
    unfolding AddRecord_def Let_def assms(1) ph_def [symmetric]
    by (simp add: u n ph log_frame_def Let_def add.commute)
qed

end

definition log_holds :: "'e coding_scheme \<Rightarrow> nat \<Rightarrow> (nat \<Rightarrow> byte) \<Rightarrow> zone \<Rightarrow> byte list list \<Rightarrow> bool" where
  "log_holds c bs m z recs \<longleftrightarrow> unat (z_wp z) = unat (z_start z) + length (log_bytes c bs recs) \<and>
    media_slice m (unat (z_start z)) (length (log_bytes c bs recs)) = log_bytes c bs recs"

text \<open>
  C13: Adding a log record. When a metadata zone holds the records \<open>recs\<close>, \<open>AddRecord\<close> returns; on
  success the zone holds \<open>recs\<close> followed by the new record, and whatever the outcome, the bytes of the
  old records are unchanged. It reports \<open>NoSpace\<close> exactly when the framed record does not fit.
\<close>

theorem AddRecord_appends:
  assumes "coding_laws c" "steady_storage be media" "zone_wf (be_zone_sz be (dev s)) (zheap s (ml_zone ml))"
    and "ml_bs ml = ucast bsz" "0 < unat (bsz :: u32)" "length data + 8 + unat bsz < 2 ^ 32"
    and "log_holds c (unat bsz) (media (dev s)) (zheap s (ml_zone ml)) recs"
  shows "\<exists>st s'. AddRecord c be ml data s = Some (st, s') \<and>
    (st = OK \<longrightarrow> log_holds c (unat bsz) (media (dev s')) (zheap s' (ml_zone ml)) (recs @ [data])) \<and>
    (st = NoSpace \<longleftrightarrow> unat (z_capacity (zheap s (ml_zone ml))) < roundup (unat bsz) (length data + 8)) \<and>
    media_slice (media (dev s')) (unat (z_start (zheap s (ml_zone ml)))) (length (log_bytes c (unat bsz) recs)) =
      log_bytes c (unat bsz) recs"
proof -
  let ?z = "ml_zone ml" and ?f = "log_frame c (unat bsz) data" and ?L = "log_bytes c (unat bsz) recs"
  let ?st = "unat (z_start (zheap s ?z))" and ?w = "unat (z_wp (zheap s ?z))"
  have lf: "length ?f = roundup (unat bsz) (length data + 8)"
    by (rule coding_laws.length_log_frame [OF assms(1,5)])
  from steady_storage.Zone_Append_effect [OF assms(2,3), of ?f]
  obtain ios n d where A: "Zone_Append be ?z ?f s = Some (ios, append_result ?z n d s)"
    and E: "ios = OK \<longrightarrow> n = length ?f \<and> media_slice (media d) ?w (length ?f) = ?f"
      "ios = NoSpace \<longleftrightarrow> unat (z_capacity (zheap s ?z)) < length ?f"
      "unat (z_wp (zheap (append_result ?z n d s) ?z)) = ?w + n"
      "\<forall>i. i < ?w \<or> ?w + length ?f \<le> i \<longrightarrow> media d i = media (dev s) i" by blast
  have w: "?w = ?st + length ?L" and old: "media_slice (media (dev s)) ?st (length ?L) = ?L"
    using assms(7) by (simp_all add: log_holds_def)
  have keep: "media_slice (media d) ?st (length ?L) = ?L"
    using old media_slice_cong [of ?st "length ?L" "media d" "media (dev s)"] E(4) w by simp
  have s': "dev (append_result ?z n d s) = d" "z_start (zheap (append_result ?z n d s) ?z) = z_start (zheap s ?z)"
    by (simp_all add: append_result_def upd_zone_def)
  have "log_holds c (unat bsz) (media d) (zheap (append_result ?z n d s) ?z) (recs @ [data])" if "ios = OK"
    using that E(1,3) w keep s' by (simp add: log_holds_def media_slice_add)
  then show ?thesis
    using A E(2) keep s' lf coding_laws.AddRecord_eq [OF assms(1,4-6), of be s] by auto
qed

theorem AddRecord_appends_witness:
  "\<exists>st s'. AddRecord le_coding ram_backend \<lparr>ml_read_pos = 12288, ml_zone = 3, ml_bs = 64\<rparr> [1, 2, 3] sample_zbd = Some (st, s') \<and>
    (st = OK \<longrightarrow> log_holds le_coding 64 (ram_bytes (dev s')) (zheap s' 3) [[1, 2, 3]]) \<and> st \<noteq> NoSpace"
proof -
  have *: "zone_wf (be_zone_sz ram_backend (dev sample_zbd)) (zheap sample_zbd 3)"
    "log_holds le_coding (unat (64 :: u32)) (ram_bytes (dev sample_zbd)) (zheap sample_zbd 3) []"
    "unat (z_capacity (zheap sample_zbd 3)) = 3072"
    by (simp_all add: sample_defs zone_wf_def log_holds_def)
  have "roundup 64 11 = 64" by (simp add: roundup_def)
  then show ?thesis
    using AddRecord_appends [OF le.coding_laws_axioms ram.steady_storage_axioms, of sample_zbd
        "\<lparr>ml_read_pos = 12288, ml_zone = 3, ml_bs = 64\<rparr>" 64 "[1, 2, 3]" "[]"] * by auto
qed

section \<open>Reading the log\<close>

context steady_storage
begin

lemma MetaLog_Read_loop_ok:
  assumes "reads_nonempty be lim" "lim < 2 ^ 64" "unat pos + unat left \<le> lim" "unat left < 2 ^ 31"
  shows "\<exists>st buf' pos' d. MetaLog_Read_loop be buf left pos s = Some (st, buf', pos', s\<lparr>dev := d\<rparr>) \<and>
    media d = media (dev s) \<and>
    (st = OK \<and> buf' = buf @ media_slice (media (dev s)) (unat pos) (unat left) \<and> pos' = pos + left \<or> st = IOError \<and> \<not> reads_succeed be)"
  using assms(3,4)
proof (induction "unat left" arbitrary: buf left pos s rule: less_induct)
  case less
  show ?case
  proof (cases "left = 0")
    case True
    then show ?thesis by (subst MetaLog_Read_loop.simps) (auto intro!: exI [of _ "dev s"])
  next
    case False
    then have l: "0 < unat left" "int_of_size left = int (unat left)"
      using less.prems(2) by (auto simp: int_of_size_small simp del: of_nat_unat) (simp add: unat_gt_0)
    from Zbd_Read_ok [OF assms(1,2), of "int (unat left)" pos False s] l(1) less.prems(1)
    obtain r b d where R: "Zbd_Read be pos (int_of_size left) False s = Some (r, b, s\<lparr>dev := d\<rparr>)"
      "media d = media (dev s)" "r \<noteq> 0"
      "0 < r \<longrightarrow> r \<le> int (unat left) \<and> b = media_slice (media (dev s)) (unat pos) (nat r)"
      "reads_succeed be \<longrightarrow> 0 < r"
      unfolding l(2) by (auto simp del: of_nat_unat)
    show ?thesis
    proof (cases "r < 0")
      case True
      then show ?thesis using R False by (subst MetaLog_Read_loop.simps) auto
    next
      case pos_r: False
      then have r: "0 < r" "nat r \<le> unat left" using R(3,4) by (simp_all add: nat_le_iff del: of_nat_unat)
      have w: "(of_int r :: u64) = of_nat (nat r)" using r by simp
      have ur: "unat (of_int r :: u64) = nat r"
        unfolding w using r(2) unat_lt_u64 [of left] by (intro unat_of_nat_u64) simp
      have ul: "unat (left - of_int r) = unat left - nat r"
        using r(2) ur by (simp add: unat_sub_u64 word_le_nat_alt)
      have up: "unat (pos + of_int r) = unat pos + nat r"
        using r(2) ur less.prems(1) assms(2) by (simp add: unat_add_u64)
      have "unat left - nat r < 2 ^ 31" using less.prems(2) by linarith
      with less.hyps [of "left - of_int r" "pos + of_int r" "buf @ b" "s\<lparr>dev := d\<rparr>"] less.prems(1) r ul up
      obtain st buf' pos' d' where I: "MetaLog_Read_loop be (buf @ b) (left - of_int r) (pos + of_int r) (s\<lparr>dev := d\<rparr>) =
          Some (st, buf', pos', s\<lparr>dev := d'\<rparr>)" "media d' = media d"
        "st = OK \<and> buf' = (buf @ b) @ media_slice (media d) (unat pos + nat r) (unat left - nat r) \<and>
          pos' = pos + of_int r + (left - of_int r) \<or> st = IOError \<and> \<not> reads_succeed be" by auto
      have "media_slice (media (dev s)) (unat pos) (unat left) =
          b @ media_slice (media (dev s)) (unat pos + nat r) (unat left - nat r)"
        using R(4) r media_slice_add [of "media (dev s)" "unat pos" "nat r" "unat left - nat r"] by simp
      then show ?thesis
        using I R(1,2) False pos_r by (subst MetaLog_Read_loop.simps) auto
    qed
  qed
qed

lemma MetaLog_Read_ok:
  assumes "reads_nonempty be lim" "lim < 2 ^ 64" "unat (z_start z) + unat (z_max_capacity z) \<le> lim"
    and "z = zheap s (ml_zone ml)" "unat (ml_read_pos ml) < unat (z_wp z)" "unat n < 2 ^ 31"
    and "unat (ml_read_pos ml) + unat n \<le> unat (z_start z) + unat (z_max_capacity z)"
  shows "\<exists>st buf ml' d. MetaLog_Read be n ml s = Some (st, buf, ml', s\<lparr>dev := d\<rparr>) \<and> media d = media (dev s) \<and>
    (st = OK \<and> buf = media_slice (media (dev s)) (unat (ml_read_pos ml)) (unat n) \<and>
       ml' = ml\<lparr>ml_read_pos := ml_read_pos ml + n\<rparr> \<or> st = IOError \<and> \<not> reads_succeed be)"
proof -
  have "\<not> ml_read_pos ml \<ge> z_wp z" using assms(5) by (simp add: word_le_nat_alt)
  moreover have "\<not> ml_read_pos ml + n > z_start z + z_max_capacity z"
    using assms(2,3,7) by (simp add: word_less_nat_alt unat_add_u64)
  moreover have "unat (ml_read_pos ml) + unat n \<le> lim" using assms(3,7) by simp
  note MetaLog_Read_loop_ok [OF assms(1,2) this assms(6), of "[]" s]
  ultimately show ?thesis by (auto simp: MetaLog_Read_def Let_def simp flip: assms(4))
qed

end

lemma log_split:
  assumes "log_holds c bs m z recs" "i < length recs"
  shows "media_slice m (unat (z_start z) + length (log_bytes c bs (take i recs))) (length (log_frame c bs (recs ! i))) =
      log_frame c bs (recs ! i)"
    and "unat (z_start z) + length (log_bytes c bs (take (Suc i) recs)) \<le> unat (z_wp z)"
    and "length (log_bytes c bs (take (Suc i) recs)) =
      length (log_bytes c bs (take i recs)) + length (log_frame c bs (recs ! i))"
proof -
  have L: "log_bytes c bs recs = log_bytes c bs (take i recs) @ log_frame c bs (recs ! i) @ log_bytes c bs (drop (Suc i) recs)"
    by (subst id_take_nth_drop [OF assms(2)]) simp
  let ?a = "length (log_bytes c bs (take i recs))" and ?f = "log_frame c bs (recs ! i)"
  have "media_slice m (unat (z_start z)) (?a + (length ?f + length (log_bytes c bs (drop (Suc i) recs)))) = log_bytes c bs recs"
    using assms(1) L by (simp add: log_holds_def)
  then show "media_slice m (unat (z_start z) + ?a) (length ?f) = ?f"
    unfolding media_slice_add L by simp
  show len: "length (log_bytes c bs (take (Suc i) recs)) = ?a + length ?f"
    using assms(2) by (simp add: take_Suc_conv_app_nth)
  show "unat (z_start z) + length (log_bytes c bs (take (Suc i) recs)) \<le> unat (z_wp z)"
    using assms(1) L len by (simp add: log_holds_def)
qed

lemma log_record:
  assumes "coding_laws c" "log_holds c bs m z recs" "i < length recs" "0 < bs"
    and "p = unat (z_start z) + length (log_bytes c bs (take i recs))"
  defines "data \<equiv> recs ! i"
  defines "n \<equiv> of_nat (length data) :: u32"
  shows "media_slice m p 8 =
      EncodeFixed32 c (crc32c_Mask c (crc32c_Extend c (crc32c_Extend c 0 (native_u32 c n)) data)) @ EncodeFixed32 c n"
    and "media_slice m (p + 8) (length data) = data"
    and "p + roundup bs (length data + 8) = unat (z_start z) + length (log_bytes c bs (take (Suc i) recs))"
    and "p + roundup bs (length data + 8) \<le> unat (z_wp z)"
proof -
  let ?f = "log_frame c bs data"
  let ?h = "EncodeFixed32 c (crc32c_Mask c (crc32c_Extend c (crc32c_Extend c 0 (native_u32 c n)) data)) @ EncodeFixed32 c n"
  have lf: "length ?f = roundup bs (length data + 8)" by (rule coding_laws.length_log_frame [OF assms(1,4)])
  have le: "length data + 8 \<le> roundup bs (length data + 8)" by (rule roundup_le) (rule assms(4))
  have f: "media_slice m p (length ?f) = ?f" using log_split(1) [OF assms(2,3)] by (simp add: assms(5) data_def)
  have fd: "?f = ?h @ data @ replicate (roundup bs (length data + 8) - (length data + 8)) 0" "length ?h = 8"
    using coding_laws.length32 [OF assms(1)] by (simp_all add: log_frame_def Let_def n_def)
  have "media_slice m p 8 = take 8 ?f" using f le lf by (metis add_leD2 take_media_slice)
  then show "media_slice m p 8 = ?h" using fd by simp
  have "media_slice m (p + 8) (length ?f - 8) = drop 8 ?f"
    using f le lf by (metis add_leD2 drop_media_slice)
  then have "media_slice m (p + 8) (length data) = take (length data) (drop 8 ?f)"
    using le lf take_media_slice [of "length data" "length ?f - 8" m "p + 8"] by (metis add_le_imp_le_diff)
  then show "media_slice m (p + 8) (length data) = data" using fd by simp
  show e: "p + roundup bs (length data + 8) = unat (z_start z) + length (log_bytes c bs (take (Suc i) recs))"
    using log_split(3) [OF assms(2,3)] lf by (simp add: assms(5) data_def)
  show "p + roundup bs (length data + 8) \<le> unat (z_wp z)"
    using log_split(2) [OF assms(2,3)] e by simp
qed

lemma ReadRecord_at:
  assumes "coding_laws c" "steady_storage be media" "reads_nonempty be lim" "lim < 2 ^ 64"
    and "z = zheap s (ml_zone ml)" "unat (z_start z) + unat (z_max_capacity z) \<le> lim"
    and "unat (z_wp z) \<le> unat (z_start z) + unat (z_max_capacity z)"
    and "ml_bs ml = ucast bsz" "0 < unat (bsz :: u32)" "unat bsz dvd unat (z_start z)" "lim + unat bsz < 2 ^ 64"
    and "log_holds c (unat bsz) (media (dev s)) z recs" "\<forall>r \<in> set recs. r \<noteq> [] \<and> length r < 2 ^ 31"
    and "i \<le> length recs"
    and "unat (ml_read_pos ml) = unat (z_start z) + length (log_bytes c (unat bsz) (take i recs))"
  shows "\<exists>st rec ml' d. ReadRecord c be ml s = Some (st, rec, ml', s\<lparr>dev := d\<rparr>) \<and> media d = media (dev s) \<and>
    (if i = length recs then st = OK \<and> rec = [] \<and> ml' = ml
     else st = IOError \<and> \<not> reads_succeed be \<or> st = OK \<and> rec = recs ! i \<and> ml_zone ml' = ml_zone ml \<and> ml_bs ml' = ml_bs ml \<and>
       unat (ml_read_pos ml') = unat (z_start z) + length (log_bytes c (unat bsz) (take (Suc i) recs)))"
proof (cases "i = length recs")
  case True
  then have "ml_read_pos ml \<ge> z_wp z" using assms(12,15) by (simp add: log_holds_def word_le_nat_alt)
  then have "ReadRecord c be ml s = Some (OK, [], ml, s\<lparr>dev := dev s\<rparr>)"
    by (simp add: ReadRecord_def MetaLog_Read_def Let_def flip: assms(5))
  then show ?thesis using True by (intro exI conjI) auto
next
  case False
  then have i: "i < length recs" using assms(14) by simp
  define data where "data = recs ! i"
  define n :: u32 where "n = of_nat (length data)"
  define p where "p = unat (ml_read_pos ml)"
  note R = log_record [OF assms(1,12) i assms(9,15), folded p_def data_def, folded n_def]
  have data: "data \<noteq> []" "length data < 2 ^ 31" using assms(13) i by (auto simp: data_def)
  have un: "unat (ucast n :: u64) = length data"
    using data(2) by (simp add: n_def unat_ucast_u64 unat_of_nat_u32)
  have le: "length data + 8 \<le> roundup (unat bsz) (length data + 8)" by (rule roundup_le) (rule assms(9))
  have "p < unat (z_wp z)" using R(4) le data(1) by simp
  moreover have "p + 8 \<le> unat (z_start z) + unat (z_max_capacity z)" using R(4) le assms(7) by simp
  ultimately obtain st1 h ml1 d1 where H: "MetaLog_Read be 8 ml s = Some (st1, h, ml1, s\<lparr>dev := d1\<rparr>)"
    "media d1 = media (dev s)"
    "st1 = OK \<and> h = media_slice (media (dev s)) p 8 \<and> ml1 = ml\<lparr>ml_read_pos := ml_read_pos ml + 8\<rparr> \<or> st1 = IOError \<and> \<not> reads_succeed be"
    using steady_storage.MetaLog_Read_ok [OF assms(2-4,6,5), of 8] by (auto simp: p_def)
  show ?thesis
  proof (cases "st1 = OK")
    case False
    then show ?thesis using H \<open>i \<noteq> length recs\<close> by (auto simp: ReadRecord_def)
  next
    case True
    then have h: "h = media_slice (media (dev s)) p 8" and ml1: "ml1 = ml\<lparr>ml_read_pos := ml_read_pos ml + 8\<rparr>"
      using H(3) by auto
    have p8: "unat (ml_read_pos ml1) = p + 8"
      using R(4) le assms(4,6,7) by (simp add: ml1 p_def unat_add_u64)
    have "unat (ml_read_pos ml1) < unat (z_wp z)" using R(4) le data(1) p8 by (cases data) auto
    moreover have "unat (ml_read_pos ml1) + unat (ucast n :: u64) \<le> unat (z_start z) + unat (z_max_capacity z)"
      using R(4) le assms(7) p8 un by simp
    moreover have "z = zheap (s\<lparr>dev := d1\<rparr>) (ml_zone ml1)" using assms(5) by (simp add: ml1)
    ultimately obtain st2 r ml2 d2 where D: "MetaLog_Read be (ucast n) ml1 (s\<lparr>dev := d1\<rparr>) = Some (st2, r, ml2, s\<lparr>dev := d2\<rparr>)"
      "media d2 = media (dev s)"
      "st2 = OK \<and> r = media_slice (media (dev s)) (p + 8) (length data) \<and> ml2 = ml1\<lparr>ml_read_pos := ml_read_pos ml1 + ucast n\<rparr> \<or>
        st2 = IOError \<and> \<not> reads_succeed be"
      using steady_storage.MetaLog_Read_ok [OF assms(2-4,6), of "s\<lparr>dev := d1\<rparr>" ml1 "ucast n"] un data(2) p8 H(2) by auto
    have ne: "h \<noteq> []" using h by (metis length_media_slice list.size(3) zero_neq_numeral)
    have hd: "get32_keep c 0 h = (crc32c_Mask c (crc32c_Extend c (crc32c_Extend c 0 (native_u32 c n)) data), EncodeFixed32 c n)"
      "get32_keep c 0 (EncodeFixed32 c n) = (n, [])"
      using coding_laws.get32 [OF assms(1)] coding_laws.get32_end [OF assms(1)] by (simp_all add: h R(1) get32_keep_def)
    show ?thesis
    proof (cases "st2 = OK")
      case False
      then show ?thesis using H(1) True ne hd D \<open>i \<noteq> length recs\<close> by (auto simp: ReadRecord_def)
    next
      case ok2: True
      then have r: "r = data" and ml2: "ml2 = ml1\<lparr>ml_read_pos := ml_read_pos ml1 + ucast n\<rparr>" using D(3) R(2) by auto
      define q where "q = ml_read_pos ml2"
      define q' where "q' = (if q mod ucast bsz \<noteq> 0 then q + (ucast bsz - q mod ucast bsz) else q)"
      have uq: "unat q = p + (length data + 8)"
        using R(4) le assms(4,6,7) p8 un by (simp add: q_def ml2 unat_add_u64)
      have "unat bsz dvd p"
        using assms(10) coding_laws.length_log_bytes_dvd [OF assms(1,9)] by (simp add: p_def assms(15))
      then have q': "unat q' = p + roundup (unat bsz) (length data + 8)"
        using unat_roundup [of "ucast bsz" q] assms(9,11,6,7) uq R(4) le roundup_shift
        by (simp add: q'_def unat_ucast_u64)
      have b: "(ucast bsz :: u64) \<noteq> 0" using assms(9) unat_ucast_u64 [of bsz] by auto
      have "ReadRecord c be ml s = Some (OK, data, ml2\<lparr>ml_read_pos := q'\<rparr>, s\<lparr>dev := d2\<rparr>)"
        using H(1) True ne hd D(1) ok2 r b coding_laws.value_extend [OF assms(1)] coding_laws.unmask_mask [OF assms(1)]
        by (auto simp: ReadRecord_def Let_def q'_def q_def ml2 ml1 assms(8))
      then show ?thesis
        using \<open>i \<noteq> length recs\<close> D(2) q' R(3) by (auto simp: data_def ml2 ml1)
    qed
  qed
qed

text \<open>
  C14: Reading the log back. When a metadata zone holds the records \<open>recs\<close> and the log is positioned at
  record \<open>i\<close>, \<open>ReadRecord\<close> returns record \<open>i\<close> with its checksum verified and leaves the log positioned at
  record \<open>i + 1\<close>, or reports an I/O error of the device (only if its reads can fail); after the last record it returns the empty
  record that ends the log. So what \<open>AddRecord\<close> wrote is read back completely and in order.
\<close>

theorem ReadRecord_finds:
  assumes "coding_laws c" "steady_storage be media" "reads_nonempty be lim" "lim < 2 ^ 64"
    and "z = zheap s (ml_zone ml)" "unat (z_start z) + unat (z_max_capacity z) \<le> lim"
    and "unat (z_wp z) \<le> unat (z_start z) + unat (z_max_capacity z)"
    and "ml_bs ml = ucast bsz" "0 < unat (bsz :: u32)" "unat bsz dvd unat (z_start z)" "lim + unat bsz < 2 ^ 64"
    and "log_holds c (unat bsz) (media (dev s)) z recs" "\<forall>r \<in> set recs. r \<noteq> [] \<and> length r < 2 ^ 31"
    and "i \<le> length recs"
    and "unat (ml_read_pos ml) = unat (z_start z) + length (log_bytes c (unat bsz) (take i recs))"
  shows "\<exists>st rec ml' d. ReadRecord c be ml s = Some (st, rec, ml', s\<lparr>dev := d\<rparr>) \<and> media d = media (dev s) \<and>
    (if i = length recs then st = OK \<and> rec = [] \<and> ml' = ml
     else st = IOError \<and> \<not> reads_succeed be \<or> st = OK \<and> rec = recs ! i \<and> ml_zone ml' = ml_zone ml \<and> ml_bs ml' = ml_bs ml \<and>
       unat (ml_read_pos ml') = unat (z_start z) + length (log_bytes c (unat bsz) (take (Suc i) recs)))"
  using assms by (rule ReadRecord_at)

text \<open>The small device with one record in its metadata zone.\<close>

definition sample_log :: "ram zbdlib zbd" where
  "sample_log = sample_zbd
    \<lparr>dev := sample_dev\<lparr>zb_kernel := (zb_kernel sample_dev)\<lparr>ram_media := (\<lambda>i. log_frame le_coding 64 [1, 2, 3] ! (i - 12288))\<rparr>\<rparr>,
     zheap := (zheap sample_zbd)(3 := sample_zone 12288 64 0)\<rparr>"

theorem ReadRecord_finds_witness:
  "\<exists>ml' d. ReadRecord le_coding ram_backend \<lparr>ml_read_pos = 12288, ml_zone = 3, ml_bs = 64\<rparr> sample_log =
      Some (OK, [1, 2, 3], ml', sample_log\<lparr>dev := d\<rparr>)"
proof -
  let ?f = "log_frame le_coding 64 [1, 2, 3]" and ?z = "zheap sample_log 3"
  have "length ?f = 64" using le.length_log_frame [of 64 "[1, 2, 3]"] by (simp add: roundup_def)
  moreover from this have "?f = media_slice (ram_bytes (dev sample_log)) 12288 64"
    by (intro media_slice_eqI) (simp_all add: sample_log_def)
  moreover have z: "unat (z_start ?z) = 12288" "unat (z_wp ?z) = 12352" "unat (z_max_capacity ?z) = 3072"
    by (simp_all add: sample_log_def sample_defs)
  ultimately have "log_holds le_coding (unat (64 :: u32)) (ram_bytes (dev sample_log)) ?z [[1, 2, 3]]"
    by (simp add: log_holds_def)
  then show ?thesis
    using ReadRecord_finds [OF le.coding_laws_axioms ram.steady_storage_axioms ram_reads_nonempty, of 16384 ?z sample_log
        "\<lparr>ml_read_pos = 12288, ml_zone = 3, ml_bs = 64\<rparr>" 64 "[[1, 2, 3]]" 0] z ram_reads_succeed
    by auto
qed

end
