(* ===== verification/Fs_Path.thy ===== *)
theory Fs_Path
  imports Zenfs_Prelude
begin

text \<open>
  File names. ZenFS normalises every name lexically through \<open>fs::path\<close>, which is \<open>std::filesystem::path\<close>
  or, for older compilers, the class of \<open>src/fs/filesystem_utility.h\<close>. The file system uses the record
  \<open>paths\<close>; this theory models the class and shows that it satisfies the law the file system relies on:
  a formatted name stays as it is when it is formatted again.
\<close>

section \<open>What ZenFS uses of a path\<close>

text \<open>
  The string of a path, of the path normalised, of two paths joined by \<open>/\<close>, and of a path's parent. \<open>None\<close> stands for
  undefined behaviour.
\<close>

record paths =
  path_string :: "string \<Rightarrow> string option"
  lexically_normal :: "string \<Rightarrow> string option"
  path_join :: "string \<Rightarrow> string \<Rightarrow> string option"
  parent_path :: "string \<Rightarrow> string option"

definition FormatPathLexically :: "paths \<Rightarrow> string \<Rightarrow> string option" where
  "FormatPathLexically P filepath = Option.bind (lexically_normal P filepath) (path_join P ''/'')"

locale path_laws =
  fixes P :: paths
  assumes format_idem: "FormatPathLexically P p = Some q \<Longrightarrow> FormatPathLexically P q = Some q"

section \<open>The class filesystem_utility::path\<close>

record upath =
  p_src_path :: string
  p_normalized_path :: string
  p_parent_path :: string
  p_filename :: string
  p_has_terminator :: bool

abbreviation (input) slash :: char where "slash \<equiv> CHR ''/''"

text \<open>The lines that \<open>std::getline(iss, item, '/')\<close> reads one after the other.\<close>

function getlines :: "string \<Rightarrow> string list" where
  "getlines [] = []"
| "getlines (x # xs) =
    takeWhile (\<lambda>ch. ch \<noteq> slash) (x # xs) # getlines (drop 1 (dropWhile (\<lambda>ch. ch \<noteq> slash) (x # xs)))"
  by pat_completeness auto

termination
proof (relation "measure length")
  fix x :: char and xs :: string
  have "length (dropWhile (\<lambda>ch. ch \<noteq> slash) xs) \<le> length xs" by (rule length_dropWhile_le)
  then have "length (dropWhile (\<lambda>ch. ch \<noteq> slash) xs) - 1 < Suc (length xs)" by linarith
  then show "(drop 1 (dropWhile (\<lambda>ch. ch \<noteq> slash) (x # xs)), x # xs) \<in> measure length" by simp
qed simp

definition push_segment :: "string list \<Rightarrow> string \<Rightarrow> string list" where
  "push_segment segs item =
    (if item = ''..'' \<and> segs \<noteq> [] then butlast segs
     else if item = ''.'' then segs
     else if item \<noteq> [] then segs @ [item] else segs)"

definition segments :: "string \<Rightarrow> string list" where
  "segments src = foldl push_segment [] (getlines src)"

text \<open>The segments with a separator between them, and one behind the last if \<open>terminator\<close>.\<close>

fun write_segments :: "bool \<Rightarrow> string list \<Rightarrow> string" where
  "write_segments terminator [] = []"
| "write_segments terminator [s] = s @ (if terminator then [slash] else [])"
| "write_segments terminator (s # t # ss) = s @ [slash] @ write_segments terminator (t # ss)"

text \<open>The constructor normalises. A path without a segment has no last one to take as the file name.\<close>

definition upath_new :: "string \<Rightarrow> upath option" where
  "upath_new src =
    (if src = [] then Some \<lparr>p_src_path = src, p_normalized_path = [], p_parent_path = [], p_filename = [],
       p_has_terminator = False\<rparr>
     else if src = ''/'' then Some \<lparr>p_src_path = src, p_normalized_path = src, p_parent_path = [], p_filename = [],
       p_has_terminator = True\<rparr>
     else
       let segs = segments src;
           terminator = (last src = slash);
           root = (if hd src = slash then [slash] else []);
           normalized = root @ write_segments terminator segs;
           parent = (if terminator then normalized
                     else if length segs \<ge> 2 then root @ write_segments True (butlast segs) else [])
       in if \<not> terminator \<and> segs = [] then None
          else Some \<lparr>p_src_path = src, p_normalized_path = normalized, p_parent_path = parent,
                 p_filename = (if terminator then [] else last segs), p_has_terminator = terminator\<rparr>)"

definition upath_join :: "upath \<Rightarrow> upath \<Rightarrow> upath option" where
  "upath_join p other =
    upath_new (p_normalized_path p @ (if p_has_terminator p then [] else [slash]) @ p_normalized_path other)"

definition util_paths :: paths where
  "util_paths = \<lparr>path_string = (\<lambda>p. map_option p_normalized_path (upath_new p)),
     lexically_normal = (\<lambda>p. map_option p_normalized_path (upath_new p)),
     path_join = (\<lambda>a b. Option.bind (upath_new a) (\<lambda>pa. Option.bind (upath_new b) (\<lambda>pb.
       map_option p_normalized_path (upath_join pa pb)))),
     parent_path = (\<lambda>p. map_option p_parent_path (upath_new p))\<rparr>"

section \<open>Normal forms\<close>

text \<open>What normalising leaves: no empty segment and no dot, and two dots only in front.\<close>

definition normal_segments :: "string list \<Rightarrow> bool" where
  "normal_segments ss \<longleftrightarrow> (\<forall>s \<in> set ss. s \<noteq> [] \<and> s \<noteq> ''.'' \<and> slash \<notin> set s) \<and> ''..'' \<notin> set (tl ss)"

lemma getlines_slash: "slash \<notin> set s \<Longrightarrow> getlines (s @ slash # r) = s # getlines r"
proof (cases s)
  case (Cons a t)
  assume "slash \<notin> set s"
  then have "takeWhile (\<lambda>ch. ch \<noteq> slash) (s @ slash # r) = s" "dropWhile (\<lambda>ch. ch \<noteq> slash) (s @ slash # r) = slash # r"
    by (induction s) auto
  then show ?thesis using Cons by simp
qed simp

lemma getlines_single: "slash \<notin> set s \<Longrightarrow> s \<noteq> [] \<Longrightarrow> getlines s = [s]"
proof (cases s)
  case (Cons a t)
  assume "slash \<notin> set s"
  then have "takeWhile (\<lambda>ch. ch \<noteq> slash) s = s" "dropWhile (\<lambda>ch. ch \<noteq> slash) s = []" by (induction s) auto
  then show ?thesis using Cons by simp
qed simp

lemma getlines_no_slash: "s \<in> set (getlines xs) \<Longrightarrow> slash \<notin> set s"
  by (induction xs rule: getlines.induct) (auto dest: set_takeWhileD split: if_splits)

lemma segments_slash [simp]: "segments (slash # xs) = segments xs"
  by (simp add: segments_def push_segment_def)

lemma push_segment_normal:
  "normal_segments ss \<Longrightarrow> slash \<notin> set item \<Longrightarrow> normal_segments (push_segment ss item)"
  by (cases ss rule: rev_cases; cases "butlast ss")
    (auto simp: normal_segments_def push_segment_def tl_append split: list.splits)

lemma segments_normal: "normal_segments (segments xs)"
proof -
  have "\<forall>s \<in> set items. slash \<notin> set s \<Longrightarrow> normal_segments ss \<Longrightarrow> normal_segments (foldl push_segment ss items)" for items ss
    by (induction items arbitrary: ss) (auto intro: push_segment_normal)
  moreover have "normal_segments []" by (simp add: normal_segments_def)
  ultimately show ?thesis using getlines_no_slash unfolding segments_def by blast
qed

lemma push_normal_segments:
  "normal_segments (ss @ items) \<Longrightarrow> foldl push_segment ss items = ss @ items"
proof (induction items arbitrary: ss)
  case (Cons i items)
  have "push_segment ss i = ss @ [i]"
    using Cons.prems by (cases ss) (auto simp: push_segment_def normal_segments_def)
  then show ?case using Cons by simp
qed simp

lemma getlines_write: "\<forall>s \<in> set ss. s \<noteq> [] \<and> slash \<notin> set s \<Longrightarrow> getlines (write_segments t ss) = ss"
  by (induction t ss rule: write_segments.induct) (auto simp: getlines_slash getlines_single)

lemma segments_write: "normal_segments ss \<Longrightarrow> segments (write_segments t ss) = ss"
  using push_normal_segments [of "[]" ss] getlines_write [of ss t]
  by (simp add: segments_def normal_segments_def)

lemma last_write:
  assumes "normal_segments ss" "ss \<noteq> []"
  shows "write_segments t ss \<noteq> []" "last (write_segments t ss) = slash \<longleftrightarrow> t"
proof -
  have "\<forall>s \<in> set ss. s \<noteq> [] \<and> slash \<notin> set s" using assms(1) by (auto simp: normal_segments_def)
  then show "write_segments t ss \<noteq> []" "last (write_segments t ss) = slash \<longleftrightarrow> t"
    using assms(2) by (induction t ss rule: write_segments.induct) (auto; metis last_in_set)+
qed

text \<open>A formatted name in one equation.\<close>

lemma normal_eq:
  "lexically_normal util_paths src =
    (if src = [] then Some [] else if last src \<noteq> slash \<and> segments src = [] then None
     else Some ((if hd src = slash then [slash] else []) @ write_segments (last src = slash) (segments src)))"
  by (simp add: util_paths_def upath_new_def Let_def segments_def push_segment_def)

definition absolute :: "bool \<Rightarrow> string list \<Rightarrow> string" where
  "absolute t ss = slash # write_segments t ss"

lemma normal_absolute:
  assumes "normal_segments ss" "t \<or> ss \<noteq> []"
  shows "lexically_normal util_paths (absolute t ss) = Some (absolute t ss)"
    "lexically_normal util_paths (slash # absolute t ss) = Some (absolute t ss)"
    "last (absolute t ss) = slash \<longleftrightarrow> t"
proof -
  have l: "last (absolute t ss) = slash \<longleftrightarrow> t"
    using last_write [OF assms(1)] assms(2) by (cases "ss = []") (auto simp: absolute_def)
  have "last (slash # absolute t ss) = last (absolute t ss)" by (simp add: absolute_def)
  then show "lexically_normal util_paths (absolute t ss) = Some (absolute t ss)"
    "lexically_normal util_paths (slash # absolute t ss) = Some (absolute t ss)" "last (absolute t ss) = slash \<longleftrightarrow> t"
    using l assms by (auto simp: normal_eq absolute_def segments_write)
qed

lemma normal_idem:
  assumes "lexically_normal util_paths p = Some n"
  shows "lexically_normal util_paths n = Some n"
proof -
  consider "n = []" | t ss where "n = absolute t ss" "normal_segments ss" "t \<or> ss \<noteq> []"
    | t ss where "n = write_segments t ss" "normal_segments ss" "ss \<noteq> []"
    using assms segments_normal [of p] by (fastforce simp: normal_eq absolute_def split: if_splits)
  then show ?thesis
  proof cases
    case 1
    then show ?thesis by (simp add: normal_eq)
  next
    case 2
    then show ?thesis using normal_absolute(1) by blast
  next
    case 3
    then have "hd n \<noteq> slash" by (cases "(t, ss)" rule: write_segments.cases) (auto simp: normal_segments_def hd_append dest: hd_in_set)
    then show ?thesis using 3 last_write [OF 3(2,3)] by (simp add: normal_eq segments_write)
  qed
qed

lemma format_util:
  "FormatPathLexically util_paths p = Option.bind (lexically_normal util_paths p) (\<lambda>n. lexically_normal util_paths (slash # n))"
proof (cases "lexically_normal util_paths p")
  case (Some n)
  then show ?thesis using normal_idem [OF Some]
    by (auto simp: FormatPathLexically_def util_paths_def upath_join_def upath_new_def [of "''/''"])
qed (simp add: FormatPathLexically_def)

lemma format_util_eq:
  "FormatPathLexically util_paths p =
    (if p \<noteq> [] \<and> last p \<noteq> slash \<and> segments p = [] then None
     else Some (absolute (p = [] \<or> last p = slash \<or> segments p = []) (segments p)))"
proof (cases "lexically_normal util_paths p")
  case None
  then show ?thesis by (auto simp: format_util normal_eq split: if_splits)
next
  case (Some n)
  have N: "normal_segments (segments p)" by (rule segments_normal)
  show ?thesis
  proof (cases "segments p = []")
    case True
    then have "n = [] \<or> n = ''/''" "p = [] \<or> last p = slash" using Some by (auto simp: normal_eq split: if_splits)
    then show ?thesis using Some True by (auto simp: format_util normal_eq absolute_def segments_def push_segment_def)
  next
    case False
    then have p: "p \<noteq> []" by (auto simp: segments_def)
    then have n: "n = (if hd p = slash then [slash] else []) @ write_segments (last p = slash) (segments p)"
      using Some False by (simp add: normal_eq)
    then have "lexically_normal util_paths (slash # n) = Some (absolute (last p = slash) (segments p))"
      using last_write [OF N False] segments_write [OF N] False by (simp add: normal_eq absolute_def)
    then show ?thesis using Some False p by (simp add: format_util)
  qed
qed

interpretation util: path_laws util_paths
proof
  fix p q
  assume "FormatPathLexically util_paths p = Some q"
  then obtain t ss where q: "q = absolute t ss" "normal_segments ss" "t \<or> ss \<noteq> []"
    using segments_normal [of p] by (auto simp: format_util_eq split: if_splits)
  show "FormatPathLexically util_paths q = Some q"
    using normal_absolute [OF q(2,3)] by (simp add: format_util q(1))
qed

section \<open>Properties\<close>



end
