(* ===== verification/Zen_FS.thy ===== *)
theory Zen_FS
  imports Io_Files Meta_Log Fs_Path
    "HOL-Library.List_Lexorder" "HOL-Library.Char_ord" "HOL-Library.Monad_Syntax"
begin

text \<open>
  The file system object (class \<open>ZenFS\<close> of \<open>src/fs/fs_zenfs.h\<close> and \<open>src/fs/fs_zenfs.cc\<close>): its state, the
  metadata it writes (records, snapshots, rolling to a new metadata zone) and how it is mounted again.

  Around it are parameters: the auxiliary file system that holds everything that is not a file of ZenFS,
  the clock, the generated identifier, memory. The functions run under \<open>files_mtx_\<close>; the model is of one
  call at a time. A result \<open>None\<close> means undefined behaviour or waiting for ever.
\<close>

section \<open>The surroundings\<close>

record 'a hostops =
  host_time :: "'a \<Rightarrow> u64 \<times> 'a"
  host_uuid :: "'a \<Rightarrow> byte list \<times> 'a"
  aux_DeleteFile :: "string \<Rightarrow> 'a \<Rightarrow> IOStatus \<times> 'a"
  aux_FileExists :: "string \<Rightarrow> 'a \<Rightarrow> IOStatus \<times> 'a"
  aux_GetChildren :: "string \<Rightarrow> 'a \<Rightarrow> IOStatus \<times> string list \<times> 'a"
  aux_IsDirectory :: "string \<Rightarrow> 'a \<Rightarrow> IOStatus \<times> bool \<times> 'a"
  aux_DeleteDir :: "string \<Rightarrow> 'a \<Rightarrow> IOStatus \<times> 'a"
  aux_CreateDirIfMissing :: "string \<Rightarrow> 'a \<Rightarrow> IOStatus \<times> 'a"
  aux_RenameFile :: "string \<Rightarrow> string \<Rightarrow> 'a \<Rightarrow> IOStatus \<times> 'a"
  aux_LinkFile :: "string \<Rightarrow> string \<Rightarrow> 'a \<Rightarrow> IOStatus \<times> 'a"
  aux_NumFileLinks :: "string \<Rightarrow> 'a \<Rightarrow> IOStatus \<times> u64 \<times> 'a"
  aux_AreFilesSame :: "string \<Rightarrow> string \<Rightarrow> 'a \<Rightarrow> IOStatus \<times> bool \<times> 'a"
  aux_GetFileSize :: "string \<Rightarrow> 'a \<Rightarrow> IOStatus \<times> u64 \<times> 'a"
  aux_GetFileModificationTime :: "string \<Rightarrow> 'a \<Rightarrow> IOStatus \<times> u64 \<times> 'a"
  aux_NewSequentialFile :: "string \<Rightarrow> 'a \<Rightarrow> IOStatus \<times> 'a"
  aux_NewRandomAccessFile :: "string \<Rightarrow> 'a \<Rightarrow> IOStatus \<times> 'a"

text \<open>Everything the file system is built on.\<close>

record ('d, 'a) sysenv =
  sys_coding :: coding
  sys_be :: "'d backend"
  sys_penv :: penv
  sys_paths :: paths
  sys_host :: "'a hostops"
  sys_malloc :: "nat \<Rightarrow> byte list"
  sys_version :: "byte list"

section \<open>State\<close>

text \<open>
  \<open>fs_files\<close> is the \<open>std::map\<close> from names to files, in its order. \<open>fs_refs f\<close> counts the shared pointers to
  file \<open>f\<close> outside the map (handles and locals of callers): a file without name and pointer is destroyed.
\<close>

record ('d, 'a) zenfs = "'d fdev" +
  fs_files :: "(string \<times> fptr) list"
  fs_next_file_id :: u64
  fs_meta_log :: "metalog option"
  fs_superblock :: "superblock option"
  fs_refs :: "fptr \<Rightarrow> nat"
  fs_bufcount :: bufcount
  fs_run_gc_worker :: bool
  fs_host :: 'a

text \<open>\<open>std::map::insert\<close>, which keeps an existing entry, and \<open>erase\<close>.\<close>

fun map_insert :: "string \<Rightarrow> 'v \<Rightarrow> (string \<times> 'v) list \<Rightarrow> (string \<times> 'v) list" where
  "map_insert k v [] = [(k, v)]"
| "map_insert k v ((k', v') # xs) =
    (if k = k' then (k', v') # xs
     else if k < k' then (k, v) # (k', v') # xs else (k', v') # map_insert k v xs)"

definition map_erase :: "string \<Rightarrow> (string \<times> 'v) list \<Rightarrow> (string \<times> 'v) list" where
  "map_erase k xs = filter (\<lambda>(k', _). k' \<noteq> k) xs"

text \<open>Some names pass through \<open>c_str()\<close>.\<close>

definition c_str :: "string \<Rightarrow> string" where
  "c_str s = takeWhile (\<lambda>ch. ch \<noteq> CHR 0x00) s"

text \<open>\<open>make_shared<ZoneFile>\<close>, and the end of a shared pointer: the destructor clears the extents.\<close>

definition new_file :: "u64 \<Rightarrow> ('d, 'a, 'z) zenfs_scheme \<Rightarrow> fptr \<times> ('d, 'a, 'z) zenfs_scheme" where
  "new_file fid s =
    (let f = next_fptr s
     in (f, s\<lparr>fheap := (fheap s)(f := ZoneFile_new fid), next_fptr := f + 1, fs_refs := (fs_refs s)(f := 0)\<rparr>))"

definition drop_shared :: "fptr \<Rightarrow> ('d, 'a, 'z) zenfs_scheme \<Rightarrow> ('d, 'a, 'z) zenfs_scheme option" where
  "drop_shared f s =
    (if f \<in> snd ` set (fs_files s) \<or> fs_refs s f > 0 then Some s else ClearExtents f s)"

definition hold_ref :: "fptr \<Rightarrow> ('d, 'a, 'z) zenfs_scheme \<Rightarrow> ('d, 'a, 'z) zenfs_scheme" where
  "hold_ref f s = s\<lparr>fs_refs := (fs_refs s)(f := fs_refs s f + 1)\<rparr>"

definition release_ref :: "fptr \<Rightarrow> ('d, 'a, 'z) zenfs_scheme \<Rightarrow> ('d, 'a, 'z) zenfs_scheme option" where
  "release_ref f s = drop_shared f (s\<lparr>fs_refs := (fs_refs s)(f := fs_refs s f - 1)\<rparr>)"

definition ToAuxPath :: "string \<Rightarrow> ('d, 'a, 'z) zenfs_scheme \<Rightarrow> string option" where
  "ToAuxPath path s =
    map_option (\<lambda>sb. bytes_string (takeWhile (\<lambda>b. b \<noteq> 0) (sb_aux_fs_path sb)) @ path) (fs_superblock s)"

section \<open>Metadata records\<close>

abbreviation (input) kCompleteFilesSnapshot :: u32 where "kCompleteFilesSnapshot \<equiv> 1"
abbreviation (input) kFileUpdate :: u32 where "kFileUpdate \<equiv> 2"
abbreviation (input) kFileDeletion :: u32 where "kFileDeletion \<equiv> 3"
abbreviation (input) kEndRecord :: u32 where "kEndRecord \<equiv> 4"
abbreviation (input) kFileReplace :: u32 where "kFileReplace \<equiv> 5"

definition ZenFS_EncodeSnapshotTo :: "'e coding_scheme \<Rightarrow> ('d, 'a, 'z) zenfs_scheme \<Rightarrow> byte list" where
  "ZenFS_EncodeSnapshotTo c s =
    PutFixed32 c kCompleteFilesSnapshot @
    PutLengthPrefixedSlice c (concat (map (\<lambda>(_, f).
      PutLengthPrefixedSlice c (EncodeSnapshotTo_file c (fheap s f))) (fs_files s)))"

definition EncodeFileDeletionTo :: "'e coding_scheme \<Rightarrow> zonefile \<Rightarrow> string \<Rightarrow> byte list" where
  "EncodeFileDeletionTo c zf linkf =
    PutFixed32 c kFileDeletion @
    PutLengthPrefixedSlice c (PutFixed64 c (f_file_id zf) @ PutLengthPrefixedSlice c (string_bytes linkf))"

definition EncodeFileUpdate :: "'e coding_scheme \<Rightarrow> bool \<Rightarrow> zonefile \<Rightarrow> byte list" where
  "EncodeFileUpdate c replace zf =
    PutFixed32 c (if replace then kFileReplace else kFileUpdate) @ PutLengthPrefixedSlice c (EncodeUpdateTo c zf)"

section \<open>Writing metadata\<close>

definition WriteSnapshotLocked :: "('d, 'a) sysenv \<Rightarrow> metalog \<Rightarrow> ('d, 'a, 'z) zenfs_scheme
    \<Rightarrow> (IOStatus \<times> ('d, 'a, 'z) zenfs_scheme) option" where
  "WriteSnapshotLocked E ml s = do {
     (st, s1) \<leftarrow> AddRecord (sys_coding E) (sys_be E) ml (ZenFS_EncodeSnapshotTo (sys_coding E) s) s;
     Some (st, if st = OK then fold (\<lambda>(_, f). upd_file f MetadataSynced) (fs_files s1) s1 else s1)
   }"

definition WriteEndRecord :: "('d, 'a) sysenv \<Rightarrow> metalog \<Rightarrow> ('d, 'a, 'z) zenfs_scheme
    \<Rightarrow> (IOStatus \<times> ('d, 'a, 'z) zenfs_scheme) option" where
  "WriteEndRecord E ml s = AddRecord (sys_coding E) (sys_be E) ml (PutFixed32 (sys_coding E) kEndRecord) s"

text \<open>The status of the end record, of finishing and of resetting the old zone are not looked at.\<close>

definition close_old_log :: "('d, 'a) sysenv \<Rightarrow> metalog \<Rightarrow> ('d, 'a, 'z) zenfs_scheme
    \<Rightarrow> ('d, 'a, 'z) zenfs_scheme option" where
  "close_old_log E old s = do {
     s1 \<leftarrow> (if GetCapacityLeft (zheap s (ml_zone old)) \<noteq> 0
            then map_option snd (WriteEndRecord E old s) else Some s);
     Some (if GetCapacityLeft (zheap s1 (ml_zone old)) \<noteq> 0
           then snd (Zone_Finish (sys_be E) (ml_zone old) s1) else s1)
   }"

definition RollMetaZoneLocked :: "('d, 'a) sysenv \<Rightarrow> ('d, 'a, 'z) zenfs_scheme
    \<Rightarrow> (IOStatus \<times> ('d, 'a, 'z) zenfs_scheme) option" where
  "RollMetaZoneLocked E s =
    (case AllocateMetaZone (sys_be E) s of (status, zone, s1) \<Rightarrow>
       if status \<noteq> OK then Some (status, s1)
       else case zone of
         None \<Rightarrow> Some (NoSpace, s1)
       | Some z \<Rightarrow> do {
           old \<leftarrow> fs_meta_log s1;
           let new = ZenMetaLog_new (sys_be E) z s1;
           s2 \<leftarrow> close_old_log E old (s1\<lparr>fs_meta_log := Some new\<rparr>);
           sb \<leftarrow> fs_superblock s2;
           let (super_string, sb') = Superblock_EncodeTo (sys_coding E) sb;
           (st, s3) \<leftarrow> AddRecord (sys_coding E) (sys_be E) new super_string (s2\<lparr>fs_superblock := Some sb'\<rparr>);
           if st \<noteq> OK then Some (IOError, ZenMetaLog_destroy old s3)
           else do {
             (st, s4) \<leftarrow> WriteSnapshotLocked E new s3;
             let s5 = (if st = OK then snd (Zone_Reset (sys_be E) (ml_zone old) s4) else s4);
             Some (st, ZenMetaLog_destroy old s5)
           }
         })"

definition PersistSnapshot :: "('d, 'a) sysenv \<Rightarrow> metalog \<Rightarrow> ('d, 'a, 'z) zenfs_scheme
    \<Rightarrow> (IOStatus \<times> ('d, 'a, 'z) zenfs_scheme) option" where
  "PersistSnapshot E ml s = do {
     (st, s1) \<leftarrow> WriteSnapshotLocked E ml s;
     if st = NoSpace then RollMetaZoneLocked E s1 else Some (st, s1)
   }"

definition PersistRecord :: "('d, 'a) sysenv \<Rightarrow> byte list \<Rightarrow> ('d, 'a, 'z) zenfs_scheme
    \<Rightarrow> (IOStatus \<times> ('d, 'a, 'z) zenfs_scheme) option" where
  "PersistRecord E record s = do {
     ml \<leftarrow> fs_meta_log s;
     (st, s1) \<leftarrow> AddRecord (sys_coding E) (sys_be E) ml record s;
     if st = NoSpace then RollMetaZoneLocked E s1 else Some (st, s1)
   }"

text \<open>The name of a deleted file is asked for (for the log): it has none left.\<close>

definition SyncFileMetadataNoLock :: "('d, 'a) sysenv \<Rightarrow> bool \<Rightarrow> fptr \<Rightarrow> ('d, 'a, 'z) zenfs_scheme
    \<Rightarrow> (IOStatus \<times> ('d, 'a, 'z) zenfs_scheme) option" where
  "SyncFileMetadataNoLock E replace f s =
    (if f_is_deleted (fheap s f) then map_option (\<lambda>_. (OK, s)) (GetFilename (fheap s f))
     else do {
       let s1 = (if replace then s
                 else case host_time (sys_host E) (fs_host s) of (now, h) \<Rightarrow>
                   upd_file f (f_m_time_update (\<lambda>_. now)) (s\<lparr>fs_host := h\<rparr>));
       (st, s2) \<leftarrow> PersistRecord E (EncodeFileUpdate (sys_coding E) replace (fheap s1 f)) s1;
       Some (st, if st = OK then upd_file f MetadataSynced s2 else s2)
     })"

text \<open>\<open>ZenFSMetadataWriter::Persist\<close> also asks for the name.\<close>

definition ZenFS_Persist :: "('d, 'a) sysenv \<Rightarrow> fptr \<Rightarrow> ('d, 'a, 'z) zenfs_scheme
    \<Rightarrow> (IOStatus \<times> ('d, 'a, 'z) zenfs_scheme) option" where
  "ZenFS_Persist E f s = do {
     _ \<leftarrow> GetFilename (fheap s f);
     SyncFileMetadataNoLock E False f s
   }"

text \<open>
  \<open>SyncFileExtents\<close>: the old list must have an entry for every new one; the start of the old and the new
  extent decide whether the old zone is uncharged.
\<close>

fun uncharge_moved :: "extent list \<Rightarrow> extent list \<Rightarrow> ('d, 'a, 'z) zenfs_scheme \<Rightarrow> ('d, 'a, 'z) zenfs_scheme option" where
  "uncharge_moved olds [] s = Some s"
| "uncharge_moved [] (n # ns) s = None"
| "uncharge_moved (e # es) (n # ns) s =
    uncharge_moved es ns
      (if e_start e \<noteq> e_start n
       then upd_zone (e_zone e) (\<lambda>z. z\<lparr>z_used := z_used z - e_length e\<rparr>) s else s)"

definition SyncFileExtents :: "('d, 'a) sysenv \<Rightarrow> fptr \<Rightarrow> extent list \<Rightarrow> ('d, 'a, 'z) zenfs_scheme
    \<Rightarrow> (IOStatus \<times> ('d, 'a, 'z) zenfs_scheme) option" where
  "SyncFileExtents E f new_extents s = do {
     let old_extents = f_extents (fheap s f);
     (st, s1) \<leftarrow> SyncFileMetadataNoLock E True f (upd_file f MetadataUnsynced (ReplaceExtentList new_extents f s));
     if st \<noteq> OK then Some (st, s1)
     else map_option (\<lambda>s2. (OK, s2)) (uncharge_moved old_extents new_extents s1)
   }"

section \<open>Recovery\<close>

text \<open>Every file is dropped from the map; handles are unaffected.\<close>

fun ClearFiles_loop :: "fptr list \<Rightarrow> ('d, 'a, 'z) zenfs_scheme \<Rightarrow> ('d, 'a, 'z) zenfs_scheme option" where
  "ClearFiles_loop [] s = Some s"
| "ClearFiles_loop (f # fs) s = do {
     s1 \<leftarrow> (if f \<in> set fs then Some s else drop_shared f s);
     ClearFiles_loop fs s1
   }"

definition ClearFiles :: "('d, 'a, 'z) zenfs_scheme \<Rightarrow> ('d, 'a, 'z) zenfs_scheme option" where
  "ClearFiles s = ClearFiles_loop (map snd (fs_files s)) (s\<lparr>fs_files := []\<rparr>)"

definition insert_names :: "string list \<Rightarrow> fptr \<Rightarrow> ('d, 'a, 'z) zenfs_scheme \<Rightarrow> ('d, 'a, 'z) zenfs_scheme" where
  "insert_names names f s = s\<lparr>fs_files := fold (\<lambda>n. map_insert n f) names (fs_files s)\<rparr>"

definition bump_next_file_id :: "fptr \<Rightarrow> ('d, 'a, 'z) zenfs_scheme \<Rightarrow> ('d, 'a, 'z) zenfs_scheme" where
  "bump_next_file_id f s =
    (if f_file_id (fheap s f) \<ge> fs_next_file_id s then s\<lparr>fs_next_file_id := f_file_id (fheap s f) + 1\<rparr> else s)"

partial_function (option) DecodeSnapshotFrom :: "'e coding_scheme \<Rightarrow> ('d, 'b) backend_scheme \<Rightarrow> byte list
    \<Rightarrow> ('d, 'a, 'z) zenfs_scheme \<Rightarrow> (IOStatus \<times> ('d, 'a, 'z) zenfs_scheme) option" where
  "DecodeSnapshotFrom c be input s =
    (case GetLengthPrefixedSlice c input of
       None \<Rightarrow> Some (OK, s)
     | Some (sl, rest) \<Rightarrow>
         (case new_file 0 s of (f, s1) \<Rightarrow>
            Option.bind (ZoneFile_DecodeFrom c be f sl s1) (\<lambda>(st, s2).
              if st \<noteq> OK then map_option (\<lambda>s3. (st, s3)) (drop_shared f s2)
              else Option.bind (drop_shared f
                     (insert_names (f_linkfiles (fheap s2 f)) f (bump_next_file_id f s2)))
                (DecodeSnapshotFrom c be rest))))"

declare DecodeSnapshotFrom.simps [code]

text \<open>The names of the file are taken out of the map; a name that is not there is an error.\<close>

fun erase_names :: "string list \<Rightarrow> (string \<times> fptr) list \<Rightarrow> bool \<times> (string \<times> fptr) list" where
  "erase_names [] fs = (True, fs)"
| "erase_names (n # ns) fs =
    (if map_of fs n \<noteq> None then erase_names ns (map_erase n fs) else (False, fs))"

definition DecodeFileUpdateFrom :: "'e coding_scheme \<Rightarrow> ('d, 'b) backend_scheme \<Rightarrow> bool \<Rightarrow> byte list
    \<Rightarrow> ('d, 'a, 'z) zenfs_scheme \<Rightarrow> (IOStatus \<times> ('d, 'a, 'z) zenfs_scheme) option" where
  "DecodeFileUpdateFrom c be replace input s =
    (case new_file 0 s of (u, s1) \<Rightarrow> do {
       (st, s2) \<leftarrow> ZoneFile_DecodeFrom c be u input s1;
       if st \<noteq> OK then map_option (\<lambda>s3. (st, s3)) (drop_shared u s2)
       else do {
         let s3 = bump_next_file_id u s2;
         case List.find (\<lambda>(_, f). f_file_id (fheap s3 f) = f_file_id (fheap s3 u)) (fs_files s3) of
           Some (_, f) \<Rightarrow>
             (case erase_names (f_linkfiles (fheap s3 f)) (fs_files s3) of (found, fs) \<Rightarrow>
                let s4 = s3\<lparr>fs_files := fs\<rparr>
                in if \<not> found then do {
                     s5 \<leftarrow> drop_shared f s4;
                     s6 \<leftarrow> drop_shared u s5;
                     Some (Corruption, s6)
                   }
                   else do {
                     (st, s5) \<leftarrow> MergeUpdate f u replace s4;
                     s6 \<leftarrow> drop_shared u s5;
                     if st \<noteq> OK then map_option (\<lambda>s7. (st, s7)) (drop_shared f s6)
                     else map_option (\<lambda>s7. (OK, s7)) (drop_shared f (insert_names (f_linkfiles (fheap s6 f)) f s6))
                   })
         | None \<Rightarrow> do {
             name \<leftarrow> GetFilename (fheap s3 u);
             s4 \<leftarrow> drop_shared u (insert_names [name] u s3);
             Some (OK, s4)
           }
       }
     })"

definition DecodeFileDeletionFrom :: "'e coding_scheme \<Rightarrow> byte list \<Rightarrow> ('d, 'a, 'z) zenfs_scheme
    \<Rightarrow> (IOStatus \<times> ('d, 'a, 'z) zenfs_scheme) option" where
  "DecodeFileDeletionFrom c input s =
    (case GetFixed64 c input of
       None \<Rightarrow> Some (Corruption, s)
     | Some (fileID, rest) \<Rightarrow>
         (case GetLengthPrefixedSlice c rest of
            None \<Rightarrow> Some (Corruption, s)
          | Some (sl, _) \<Rightarrow>
              (case map_of (fs_files s) (bytes_string sl) of
                 None \<Rightarrow> Some (Corruption, s)
               | Some f \<Rightarrow>
                   if f_file_id (fheap s f) \<noteq> fileID then Some (Corruption, s)
                   else case RemoveLinkName (bytes_string sl) (fheap s f) of (st, zf) \<Rightarrow>
                     map_option (\<lambda>s1. (if st \<noteq> OK then Corruption else OK, s1))
                       (drop_shared f (upd_file f (\<lambda>_. zf)
                          (s\<lparr>fs_files := map_erase (bytes_string sl) (fs_files s)\<rparr>))))))"

text \<open>One record, without the tag.\<close>

definition apply_record :: "'e coding_scheme \<Rightarrow> ('d, 'b) backend_scheme \<Rightarrow> u32 \<Rightarrow> byte list
    \<Rightarrow> ('d, 'a, 'z) zenfs_scheme \<Rightarrow> (IOStatus \<times> ('d, 'a, 'z) zenfs_scheme) option" where
  "apply_record c be tag data s =
    (if tag = kCompleteFilesSnapshot then Option.bind (ClearFiles s) (DecodeSnapshotFrom c be data)
     else if tag = kFileUpdate then DecodeFileUpdateFrom c be False data s
     else if tag = kFileReplace then DecodeFileUpdateFrom c be True data s
     else if tag = kFileDeletion then DecodeFileDeletionFrom c data s
     else Some (Corruption, s))"

partial_function (option) RecoverFrom_loop :: "'e coding_scheme \<Rightarrow> ('d, 'b) backend_scheme \<Rightarrow> bool \<Rightarrow> metalog
    \<Rightarrow> ('d, 'a, 'z) zenfs_scheme \<Rightarrow> (IOStatus \<times> metalog \<times> ('d, 'a, 'z) zenfs_scheme) option" where
  "RecoverFrom_loop c be at_least_one_snapshot log s =
    Option.bind (ReadRecord c be log s) (\<lambda>(rs, rec, log1, s1).
      if rs \<noteq> OK then Some (Corruption, log1, s1)
      else case GetFixed32 c rec of
        None \<Rightarrow> Some (if at_least_one_snapshot then OK else NotFound, log1, s1)
      | Some (tag, rec1) \<Rightarrow>
          if tag = kEndRecord then Some (if at_least_one_snapshot then OK else NotFound, log1, s1)
          else case GetLengthPrefixedSlice c rec1 of
            None \<Rightarrow> Some (Corruption, log1, s1)
          | Some (data, _) \<Rightarrow>
              Option.bind (apply_record c be tag data s1) (\<lambda>(st, s2).
                if st \<noteq> OK then Some (st, log1, s2)
                else RecoverFrom_loop c be (at_least_one_snapshot \<or> tag = kCompleteFilesSnapshot) log1 s2))"

declare RecoverFrom_loop.simps [code]

definition RecoverFrom :: "'e coding_scheme \<Rightarrow> ('d, 'b) backend_scheme \<Rightarrow> metalog
    \<Rightarrow> ('d, 'a, 'z) zenfs_scheme \<Rightarrow> (IOStatus \<times> metalog \<times> ('d, 'a, 'z) zenfs_scheme) option" where
  "RecoverFrom c be log s = RecoverFrom_loop c be False log s"

text \<open>\<open>Repair\<close> walks the map; recovering a file does not change the map.\<close>

fun Repair_loop :: "('d, 'a) sysenv \<Rightarrow> (string \<times> fptr) list \<Rightarrow> ('d, 'a, 'z) zenfs_scheme
    \<Rightarrow> (IOStatus \<times> ('d, 'a, 'z) zenfs_scheme) option" where
  "Repair_loop E [] s = Some (OK, s)"
| "Repair_loop E ((_, f) # fs) s =
    (if f_extent_start (fheap s f) \<noteq> NO_EXTENT then do {
       (st, s1) \<leftarrow> Recover (sys_coding E) (sys_be E) f s;
       if st \<noteq> OK then Some (st, s1) else Repair_loop E fs s1
     } else Repair_loop E fs s)"

definition Repair :: "('d, 'a) sysenv \<Rightarrow> ('d, 'a, 'z) zenfs_scheme
    \<Rightarrow> (IOStatus \<times> ('d, 'a, 'z) zenfs_scheme) option" where
  "Repair E s = Repair_loop E (fs_files s) s"

section \<open>Mounting\<close>

definition destroy_logs :: "metalog option list \<Rightarrow> ('d, 'm) zbd_scheme \<Rightarrow> ('d, 'm) zbd_scheme" where
  "destroy_logs logs s = fold (\<lambda>l s. case l of None \<Rightarrow> s | Some ml \<Rightarrow> ZenMetaLog_destroy ml s) logs s"

text \<open>The valid superblocks with their logs, in the order of the metadata zones.\<close>

fun Mount_scan :: "('d, 'a) sysenv \<Rightarrow> zptr list \<Rightarrow> (superblock \<times> metalog) list \<Rightarrow> ('d, 'a, 'z) zenfs_scheme
    \<Rightarrow> (IOStatus \<times> (superblock \<times> metalog) list \<times> ('d, 'a, 'z) zenfs_scheme) option" where
  "Mount_scan E [] valid s = Some (OK, valid, s)"
| "Mount_scan E (z # zs) valid s =
    (case Zone_Acquire z s of (got, s1) \<Rightarrow>
       if \<not> got then Some (Aborted, valid, s1)
       else do {
         (st, super_record, log, s2) \<leftarrow> ReadRecord (sys_coding E) (sys_be E) (ZenMetaLog_new (sys_be E) z s1) s1;
         if st \<noteq> OK \<or> super_record = [] then Mount_scan E zs valid (ZenMetaLog_destroy log s2)
         else case Superblock_DecodeFrom (sys_coding E) super_record Superblock_default of (st, sb) \<Rightarrow>
           let st = (if st = OK then CompatibleWith (sys_be E) sb s2 else st)
           in if st \<noteq> OK then Some (st, valid, ZenMetaLog_destroy log s2)
              else Mount_scan E zs (valid @ [(sb, log)]) s2
       })"

text \<open>\<open>std::sort\<close> of the pairs of sequence number and index in descending order.\<close>

definition seq_order :: "superblock list \<Rightarrow> nat list" where
  "seq_order sbs =
    map snd (rev (sort_key (\<lambda>(sq, i). unat sq * 2 ^ 32 + i) (zip (map sb_sequence sbs) [0..<length sbs])))"

text \<open>
  Recover from the first log in the given order that has a snapshot; the result has its index. A log
  without a snapshot is closed and the next one is tried.
\<close>

fun Mount_recover :: "('d, 'a) sysenv \<Rightarrow> nat list \<Rightarrow> metalog option list \<Rightarrow> ('d, 'a, 'z) zenfs_scheme
    \<Rightarrow> (IOStatus \<times> nat option \<times> metalog option list \<times> ('d, 'a, 'z) zenfs_scheme) option" where
  "Mount_recover E [] logs s = Some (OK, None, logs, s)"
| "Mount_recover E (i # is) logs s = do {
     log \<leftarrow> logs ! i;
     (st, log1, s1) \<leftarrow> RecoverFrom (sys_coding E) (sys_be E) log s;
     if st = NotFound then Mount_recover E is (logs[i := None]) (ZenMetaLog_destroy log1 s1)
     else if st \<noteq> OK then Some (st, None, logs[i := None], ZenMetaLog_destroy log1 s1)
     else Some (OK, Some i, logs[i := None], (destroy_logs [fs_meta_log s1] s1)\<lparr>fs_meta_log := Some log1\<rparr>)
   }"

definition Mount_open :: "('d, 'a) sysenv \<Rightarrow> bool \<Rightarrow> ('d, 'a, 'z) zenfs_scheme
    \<Rightarrow> (IOStatus \<times> ('d, 'a, 'z) zenfs_scheme) option" where
  "Mount_open E readonly s =
    (if readonly then Some (OK, s)
     else do {
       (st, s1) \<leftarrow> Repair E s;
       if st \<noteq> OK then Some (st, s1)
       else do {
         (st, s2) \<leftarrow> RollMetaZoneLocked E s1;
         if st \<noteq> OK then Some (st, s2)
         else case ResetUnusedIOZones (sys_be E) False s2 of (st, s3) \<Rightarrow>
           if st \<noteq> OK then Some (st, s3)
           else do {
             sb \<leftarrow> fs_superblock s3;
             Some (OK, if IsGCEnabled sb then s3\<lparr>fs_run_gc_worker := True\<rparr> else s3)
           }
       }
     })"

definition Mount :: "('d, 'a) sysenv \<Rightarrow> bool \<Rightarrow> ('d, 'a, 'z) zenfs_scheme
    \<Rightarrow> (IOStatus \<times> ('d, 'a, 'z) zenfs_scheme) option" where
  "Mount E readonly s =
    (if length (meta_zones s) < 2 then Some (NotSupported, s)
     else do {
       (st, valid, s1) \<leftarrow> Mount_scan E (meta_zones s) [] s;
       let logs = map (\<lambda>(_, log). Some log) valid;
       if st \<noteq> OK then Some (st, destroy_logs logs s1)
       else if valid = [] then Some (NotFound, s1)
       else do {
         (st, r, logs1, s2) \<leftarrow> Mount_recover E (seq_order (map fst valid)) logs s1;
         if st \<noteq> OK then Some (st, destroy_logs logs1 s2)
         else case r of
           None \<Rightarrow> Some (IOError, destroy_logs logs1 s2)
         | Some i \<Rightarrow> do {
             let sb = fst (valid ! i);
             let s3 = s2\<lparr>fs_superblock := Some sb, finish_threshold := sb_finish_treshold sb\<rparr>;
             aux \<leftarrow> ToAuxPath [] s3;
             (case aux_CreateDirIfMissing (sys_host E) aux (fs_host s3) of (st, h) \<Rightarrow>
                let s4 = destroy_logs logs1 (s3\<lparr>fs_host := h\<rparr>)
                in if st \<noteq> OK then Some (st, s4) else Mount_open E readonly s4)
           }
       }
     })"

section \<open>Making a file system\<close>

text \<open>The first metadata zone that can be reset is kept, the others are released.\<close>

fun MkFS_reset :: "('d, 'b) backend_scheme \<Rightarrow> zptr list \<Rightarrow> zptr option \<Rightarrow> ('d, 'm) zbd_scheme
    \<Rightarrow> IOStatus \<times> zptr option \<times> ('d, 'm) zbd_scheme" where
  "MkFS_reset be [] meta_zone s = (OK, meta_zone, s)"
| "MkFS_reset be (mz # mzs) meta_zone s =
    (case Zone_Acquire mz s of (got, s1) \<Rightarrow>
       if \<not> got then (Aborted, meta_zone, s1)
       else case Zone_Reset be mz s1 of (st, s2) \<Rightarrow>
         let meta_zone' = (if st = OK \<and> meta_zone = None then Some mz else meta_zone)
         in if meta_zone' = Some mz then MkFS_reset be mzs meta_zone' s2
            else case Zone_Release mz s2 of (ok, s3) \<Rightarrow>
              if \<not> ok then (Aborted, meta_zone', s3) else MkFS_reset be mzs meta_zone' s3)"

definition MkFS :: "('d, 'a) sysenv \<Rightarrow> string \<Rightarrow> u32 \<Rightarrow> bool \<Rightarrow> ('d, 'a, 'z) zenfs_scheme
    \<Rightarrow> (IOStatus \<times> ('d, 'a, 'z) zenfs_scheme) option" where
  "MkFS E aux_fs_p threshold enable_gc s = do {
     aux_fs_path \<leftarrow> FormatPathLexically (sys_paths E) aux_fs_p;
     if length aux_fs_path > 255 then Some (InvalidArgument, s)
     else do {
       s1 \<leftarrow> ClearFiles s;
       (case ResetUnusedIOZones (sys_be E) False s1 of (st, s2) \<Rightarrow>
          if st \<noteq> OK then Some (st, s2)
          else case MkFS_reset (sys_be E) (meta_zones s2) None s2 of (st, meta_zone, s3) \<Rightarrow>
            if st \<noteq> OK then Some (st, s3)
            else case meta_zone of
              None \<Rightarrow> Some (IOError, s3)
            | Some mz \<Rightarrow> do {
                let log = ZenMetaLog_new (sys_be E) mz s3;
                let (uuid, h) = host_uuid (sys_host E) (fs_host s3);
                let s4 = s3\<lparr>fs_host := h\<rparr>;
                let (super_string, _) = Superblock_EncodeTo (sys_coding E)
                  (Superblock_new (sys_be E) uuid (sys_version E) (string_bytes aux_fs_path) threshold enable_gc s4);
                (st, s5) \<leftarrow> AddRecord (sys_coding E) (sys_be E) log super_string s4;
                if st \<noteq> OK then Some (st, ZenMetaLog_destroy log s5)
                else do {
                  (st, s6) \<leftarrow> PersistSnapshot E log s5;
                  Some (if st \<noteq> OK then IOError else OK, ZenMetaLog_destroy log s6)
                }
              })
     }
   }"

end
