(* ===== verification/Zen_Names.thy ===== *)
theory Zen_Names
  imports Zen_FS
begin

text \<open>
  The name space of the file system: the operations of \<open>ZenFS\<close> (\<open>src/fs/fs_zenfs.cc\<close>) that open, delete,
  rename and link files, list directories and answer questions about files. Directories are in the
  auxiliary file system only.
\<close>

section \<open>Looking up and deleting\<close>

definition GetFileNoLock :: "('d, 'a) sysenv \<Rightarrow> string \<Rightarrow> ('d, 'a, 'z) zenfs_scheme \<Rightarrow> fptr option option" where
  "GetFileNoLock E fname s = map_option (map_of (fs_files s)) (FormatPathLexically (sys_paths E) fname)"

text \<open>A call of the auxiliary file system.\<close>

definition on_host :: "('a \<Rightarrow> 'b \<times> 'a) \<Rightarrow> ('d, 'a, 'z) zenfs_scheme \<Rightarrow> 'b \<times> ('d, 'a, 'z) zenfs_scheme" where
  "on_host op s = (case op (fs_host s) of (r, h) \<Rightarrow> (r, s\<lparr>fs_host := h\<rparr>))"

definition delete_link :: "('d, 'a) sysenv \<Rightarrow> string \<Rightarrow> fptr \<Rightarrow> ('d, 'a, 'z) zenfs_scheme
    \<Rightarrow> (IOStatus \<times> ('d, 'a, 'z) zenfs_scheme) option" where
  "delete_link E fname f s =
    (let s1 = s\<lparr>fs_files := map_erase fname (fs_files s)\<rparr>
     in case RemoveLinkName fname (fheap s1 f) of (st, zf) \<Rightarrow>
       let s2 = upd_file f (\<lambda>_. zf) s1
       in if st \<noteq> OK then Some (st, s2)
          else do {
            (st, s3) \<leftarrow> PersistRecord E (EncodeFileDeletionTo (sys_coding E) (fheap s2 f) fname) s2;
            Some (st,
              if st \<noteq> OK
              then upd_file f (AddLinkName fname) (s3\<lparr>fs_files := map_insert (c_str fname) f (fs_files s3)\<rparr>)
              else if f_linkfiles (fheap s3 f) \<noteq> [] then s3
              else SetDeleted fname f s3)
          })"

text \<open>At every return the local pointer to the file ends.\<close>

definition DeleteFileNoLock :: "('d, 'a) sysenv \<Rightarrow> string \<Rightarrow> ('d, 'a, 'z) zenfs_scheme
    \<Rightarrow> (IOStatus \<times> ('d, 'a, 'z) zenfs_scheme) option" where
  "DeleteFileNoLock E fname0 s = do {
     fname \<leftarrow> FormatPathLexically (sys_paths E) fname0;
     zoneFile \<leftarrow> GetFileNoLock E fname s;
     (case zoneFile of
        Some f \<Rightarrow> do {
          (st, s1) \<leftarrow> delete_link E fname f s;
          s2 \<leftarrow> drop_shared f s1;
          Some (st, s2)
        }
      | None \<Rightarrow> do {
          aux \<leftarrow> ToAuxPath fname s;
          Some (on_host (aux_DeleteFile (sys_host E) aux) s)
        })
   }"

definition with_reset :: "('d, 'a) sysenv \<Rightarrow> IOStatus \<times> ('d, 'a, 'z) zenfs_scheme
    \<Rightarrow> IOStatus \<times> ('d, 'a, 'z) zenfs_scheme" where
  "with_reset E r = (if fst r = OK then ResetUnusedIOZones (sys_be E) False (snd r) else r)"

definition DeleteFile :: "('d, 'a) sysenv \<Rightarrow> string \<Rightarrow> ('d, 'a, 'z) zenfs_scheme
    \<Rightarrow> (IOStatus \<times> ('d, 'a, 'z) zenfs_scheme) option" where
  "DeleteFile E fname s = map_option (with_reset E) (DeleteFileNoLock E fname s)"

section \<open>Opening\<close>

definition NewSequentialFile :: "('d, 'a) sysenv \<Rightarrow> string \<Rightarrow> bool \<Rightarrow> ('d, 'a, 'z) zenfs_scheme
    \<Rightarrow> (IOStatus \<times> rfile option \<times> ('d, 'a, 'z) zenfs_scheme) option" where
  "NewSequentialFile E filename use_direct_reads s = do {
     fname \<leftarrow> FormatPathLexically (sys_paths E) filename;
     zoneFile \<leftarrow> GetFileNoLock E fname s;
     (case zoneFile of
        None \<Rightarrow> do {
          aux \<leftarrow> ToAuxPath fname s;
          let (st, s1) = on_host (aux_NewSequentialFile (sys_host E) aux) s;
          Some (st, None, s1)
        }
      | Some f \<Rightarrow> Some (OK, Some (RFile_new f use_direct_reads s), hold_ref f s))
   }"

definition NewRandomAccessFile :: "('d, 'a) sysenv \<Rightarrow> string \<Rightarrow> bool \<Rightarrow> ('d, 'a, 'z) zenfs_scheme
    \<Rightarrow> (IOStatus \<times> rfile option \<times> ('d, 'a, 'z) zenfs_scheme) option" where
  "NewRandomAccessFile E filename use_direct_reads s = do {
     fname \<leftarrow> FormatPathLexically (sys_paths E) filename;
     zoneFile \<leftarrow> GetFileNoLock E fname s;
     (case zoneFile of
        None \<Rightarrow> do {
          aux \<leftarrow> ToAuxPath fname s;
          let (st, s1) = on_host (aux_NewRandomAccessFile (sys_host E) aux) s;
          Some (st, None, s1)
        }
      | Some f \<Rightarrow> Some (OK, Some (RFile_new f use_direct_reads s), hold_ref f s))
   }"

definition ends_with :: "string \<Rightarrow> string \<Rightarrow> bool" where
  "ends_with v ending \<longleftrightarrow> length ending \<le> length v \<and> take (length ending) (rev v) = rev ending"

text \<open>The new handle holds a pointer to the file.\<close>

definition new_handle :: "('d, 'a) sysenv \<Rightarrow> string \<Rightarrow> bool \<Rightarrow> fptr \<Rightarrow> ('d, 'a, 'z) zenfs_scheme
    \<Rightarrow> (wfile \<times> ('d, 'a, 'z) zenfs_scheme) option" where
  "new_handle E fname use_direct_writes f s = do {
     (w, cnt) \<leftarrow> ZonedWritableFile_new (sys_be E) (sys_malloc E)
       (ends_with fname ''.sst'' \<or> \<not> use_direct_writes) f (fs_bufcount s) s;
     Some (w, hold_ref f (s\<lparr>fs_bufcount := cnt\<rparr>))
   }"

text \<open>\<open>RocksDB does not set the right io type\<close>: it follows from the name.\<close>

definition set_file_type :: "string \<Rightarrow> bool \<Rightarrow> zonefile \<Rightarrow> zonefile" where
  "set_file_type fname use_direct_writes zf =
    (if ends_with fname ''.log'' then zf\<lparr>f_io_type := IO_kWAL, f_is_sparse := \<not> use_direct_writes\<rparr>
     else if ends_with fname ''.sst'' then zf\<lparr>f_io_type := IO_kData\<rparr>
     else zf\<lparr>f_io_type := IO_kUnknown\<rparr>)"

definition create_file :: "('d, 'a) sysenv \<Rightarrow> string \<Rightarrow> bool \<Rightarrow> fptr option \<Rightarrow> ('d, 'a, 'z) zenfs_scheme
    \<Rightarrow> (IOStatus \<times> wfile option \<times> ('d, 'a, 'z) zenfs_scheme) option" where
  "create_file E fname use_direct_writes old s = do {
     let (f, s1) = new_file (fs_next_file_id s) (s\<lparr>fs_next_file_id := fs_next_file_id s + 1\<rparr>);
     s2 \<leftarrow> (case old of None \<Rightarrow> Some s1 | Some g \<Rightarrow> release_ref g s1);
     let (now, s3) = on_host (host_time (sys_host E)) s2;
     let s4 = upd_file f (\<lambda>zf. set_file_type fname use_direct_writes (AddLinkName fname (zf\<lparr>f_m_time := now\<rparr>))) s3;
     (st, s5) \<leftarrow> SyncFileMetadataNoLock E False f s4;
     if st \<noteq> OK then map_option (\<lambda>s6. (st, None, s6)) (drop_shared f s5)
     else do {
       s6 \<leftarrow> AcquireWRLock f s5;
       (w, s7) \<leftarrow> new_handle E fname use_direct_writes f
         (s6\<lparr>fs_files := map_insert (c_str fname) f (fs_files s6)\<rparr>);
       Some (OK, Some w, s7)
     }
   }"

definition OpenWritableFile :: "('d, 'a) sysenv \<Rightarrow> string \<Rightarrow> bool \<Rightarrow> bool \<Rightarrow> ('d, 'a, 'z) zenfs_scheme
    \<Rightarrow> (IOStatus \<times> wfile option \<times> ('d, 'a, 'z) zenfs_scheme) option" where
  "OpenWritableFile E filename use_direct_writes reopen s = do {
     fname \<leftarrow> FormatPathLexically (sys_paths E) filename;
     zoneFile \<leftarrow> GetFileNoLock E fname s;
     (case zoneFile of
        Some f \<Rightarrow>
          if reopen then do {
            s1 \<leftarrow> AcquireWRLock f s;
            (w, s2) \<leftarrow> new_handle E fname use_direct_writes f s1;
            Some (OK, Some w, s2)
          }
          else do {
            (st, s1) \<leftarrow> DeleteFileNoLock E fname (hold_ref f s);
            if st \<noteq> OK then map_option (\<lambda>s2. (st, None, s2)) (release_ref f s1)
            else do {
              (st, w, s2) \<leftarrow> create_file E fname use_direct_writes (Some f) s1;
              if w = None then Some (st, w, s2)
              else case ResetUnusedIOZones (sys_be E) False s2 of (st, s3) \<Rightarrow> Some (st, w, s3)
            }
          }
      | None \<Rightarrow> create_file E fname use_direct_writes None s)
   }"

definition NewWritableFile :: "('d, 'a) sysenv \<Rightarrow> string \<Rightarrow> bool \<Rightarrow> ('d, 'a, 'z) zenfs_scheme
    \<Rightarrow> (IOStatus \<times> wfile option \<times> ('d, 'a, 'z) zenfs_scheme) option" where
  "NewWritableFile E filename use_direct_writes s = do {
     fname \<leftarrow> FormatPathLexically (sys_paths E) filename;
     OpenWritableFile E fname use_direct_writes False s
   }"

definition ReopenWritableFile :: "('d, 'a) sysenv \<Rightarrow> string \<Rightarrow> bool \<Rightarrow> ('d, 'a, 'z) zenfs_scheme
    \<Rightarrow> (IOStatus \<times> wfile option \<times> ('d, 'a, 'z) zenfs_scheme) option" where
  "ReopenWritableFile E filename use_direct_writes s = do {
     fname \<leftarrow> FormatPathLexically (sys_paths E) filename;
     OpenWritableFile E fname use_direct_writes True s
   }"

definition ReuseWritableFile :: "('d, 'a) sysenv \<Rightarrow> string \<Rightarrow> string \<Rightarrow> bool \<Rightarrow> ('d, 'a, 'z) zenfs_scheme
    \<Rightarrow> (IOStatus \<times> wfile option \<times> ('d, 'a, 'z) zenfs_scheme) option" where
  "ReuseWritableFile E filename old_filename use_direct_writes s = do {
     fname \<leftarrow> FormatPathLexically (sys_paths E) filename;
     old_fname \<leftarrow> FormatPathLexically (sys_paths E) old_filename;
     old \<leftarrow> GetFileNoLock E old_fname s;
     if old = None then Some (NotFound, None, s)
     else do {
       (st, s1) \<leftarrow> DeleteFile E old_fname s;
       if st \<noteq> OK then Some (st, None, s1) else OpenWritableFile E fname use_direct_writes False s1
     }
   }"

section \<open>Questions about files\<close>

text \<open>A question is answered from the file object, or passed on to the auxiliary file system.\<close>

definition ask :: "('d, 'a) sysenv \<Rightarrow> (zonefile \<Rightarrow> 'b) \<Rightarrow> (string \<Rightarrow> 'a \<Rightarrow> IOStatus \<times> 'b \<times> 'a) \<Rightarrow> string
    \<Rightarrow> ('d, 'a, 'z) zenfs_scheme \<Rightarrow> (IOStatus \<times> 'b \<times> ('d, 'a, 'z) zenfs_scheme) option" where
  "ask E get aux_op filename s = do {
     f \<leftarrow> FormatPathLexically (sys_paths E) filename;
     (case map_of (fs_files s) f of
        Some p \<Rightarrow> Some (OK, get (fheap s p), s)
      | None \<Rightarrow> do {
          aux \<leftarrow> ToAuxPath f s;
          (case aux_op aux (fs_host s) of (st, r, h) \<Rightarrow> Some (st, r, s\<lparr>fs_host := h\<rparr>))
        })
   }"

definition ZenFS_GetFileSize :: "('d, 'a) sysenv \<Rightarrow> string \<Rightarrow> ('d, 'a, 'z) zenfs_scheme
    \<Rightarrow> (IOStatus \<times> u64 \<times> ('d, 'a, 'z) zenfs_scheme) option" where
  "ZenFS_GetFileSize E = ask E f_file_size (aux_GetFileSize (sys_host E))"

definition GetFileModificationTime :: "('d, 'a) sysenv \<Rightarrow> string \<Rightarrow> ('d, 'a, 'z) zenfs_scheme
    \<Rightarrow> (IOStatus \<times> u64 \<times> ('d, 'a, 'z) zenfs_scheme) option" where
  "GetFileModificationTime E = ask E f_m_time (aux_GetFileModificationTime (sys_host E))"

definition NumFileLinks :: "('d, 'a) sysenv \<Rightarrow> string \<Rightarrow> ('d, 'a, 'z) zenfs_scheme
    \<Rightarrow> (IOStatus \<times> u64 \<times> ('d, 'a, 'z) zenfs_scheme) option" where
  "NumFileLinks E = ask E (\<lambda>zf. ucast (of_nat (length (f_linkfiles zf)) :: u32)) (aux_NumFileLinks (sys_host E))"

definition FileExists :: "('d, 'a) sysenv \<Rightarrow> string \<Rightarrow> ('d, 'a, 'z) zenfs_scheme
    \<Rightarrow> (IOStatus \<times> ('d, 'a, 'z) zenfs_scheme) option" where
  "FileExists E filename s = map_option (\<lambda>(st, _, s1). (st, s1))
    (ask E (\<lambda>_. ()) (\<lambda>aux h. case aux_FileExists (sys_host E) aux h of (st, h1) \<Rightarrow> (st, (), h1)) filename s)"

definition IsDirectoryNoLock :: "('d, 'a) sysenv \<Rightarrow> string \<Rightarrow> ('d, 'a, 'z) zenfs_scheme
    \<Rightarrow> (IOStatus \<times> bool \<times> ('d, 'a, 'z) zenfs_scheme) option" where
  "IsDirectoryNoLock E path s = do {
     zoneFile \<leftarrow> GetFileNoLock E path s;
     if zoneFile \<noteq> None then Some (OK, False, s)
     else do {
       aux \<leftarrow> ToAuxPath path s;
       (case aux_IsDirectory (sys_host E) aux (fs_host s) of (st, r, h) \<Rightarrow> Some (st, r, s\<lparr>fs_host := h\<rparr>))
     }
   }"

text \<open>The names passed on are not those of the auxiliary file system.\<close>

definition AreFilesSame :: "('d, 'a) sysenv \<Rightarrow> string \<Rightarrow> string \<Rightarrow> ('d, 'a, 'z) zenfs_scheme
    \<Rightarrow> (IOStatus \<times> bool \<times> ('d, 'a, 'z) zenfs_scheme) option" where
  "AreFilesSame E f linkf s = do {
     fname \<leftarrow> FormatPathLexically (sys_paths E) f;
     link \<leftarrow> FormatPathLexically (sys_paths E) linkf;
     src_file \<leftarrow> GetFileNoLock E fname s;
     dst_file \<leftarrow> GetFileNoLock E link s;
     (case (src_file, dst_file) of
        (Some a, Some b) \<Rightarrow> Some (OK, f_file_id (fheap s a) = f_file_id (fheap s b), s)
      | _ \<Rightarrow> (case aux_AreFilesSame (sys_host E) fname link (fs_host s) of (st, r, h) \<Rightarrow> Some (st, r, s\<lparr>fs_host := h\<rparr>)))
   }"

section \<open>Linking and renaming\<close>

text \<open>When persisting fails the status is that of taking the name back.\<close>

definition link_file :: "('d, 'a) sysenv \<Rightarrow> string \<Rightarrow> fptr \<Rightarrow> ('d, 'a, 'z) zenfs_scheme
    \<Rightarrow> (IOStatus \<times> ('d, 'a, 'z) zenfs_scheme) option" where
  "link_file E lname f s = do {
     (st, s1) \<leftarrow> SyncFileMetadataNoLock E False f
       (upd_file f (AddLinkName lname) (s\<lparr>fs_files := map_insert lname f (fs_files s)\<rparr>));
     if st = OK then Some (OK, s1)
     else case RemoveLinkName lname (fheap s1 f) of (st, zf) \<Rightarrow>
       let s2 = upd_file f (\<lambda>_. zf) s1
       in Some (st, if st \<noteq> OK then s2 else s2\<lparr>fs_files := map_erase lname (fs_files s2)\<rparr>)
   }"

definition LinkFile :: "('d, 'a) sysenv \<Rightarrow> string \<Rightarrow> string \<Rightarrow> ('d, 'a, 'z) zenfs_scheme
    \<Rightarrow> (IOStatus \<times> ('d, 'a, 'z) zenfs_scheme) option" where
  "LinkFile E f link s = do {
     fname \<leftarrow> FormatPathLexically (sys_paths E) f;
     lname \<leftarrow> FormatPathLexically (sys_paths E) link;
     existing \<leftarrow> GetFileNoLock E lname s;
     if existing \<noteq> None then Some (InvalidArgument, s)
     else do {
       src_file \<leftarrow> GetFileNoLock E fname s;
       (case src_file of
          Some p \<Rightarrow> link_file E lname p s
        | None \<Rightarrow> do {
            aux_f \<leftarrow> ToAuxPath fname s;
            aux_l \<leftarrow> ToAuxPath lname s;
            Some (on_host (aux_LinkFile (sys_host E) aux_f aux_l) s)
          })
     }
   }"

definition rename_link :: "('d, 'a) sysenv \<Rightarrow> string \<Rightarrow> string \<Rightarrow> fptr \<Rightarrow> ('d, 'a, 'z) zenfs_scheme
    \<Rightarrow> (IOStatus \<times> ('d, 'a, 'z) zenfs_scheme) option" where
  "rename_link E source_path dest_path f s =
    (case RenameLink source_path dest_path (fheap s f) of (st, zf) \<Rightarrow>
       if st \<noteq> OK then Some (st, s)
       else do {
         (st, s1) \<leftarrow> SyncFileMetadataNoLock E False f
           (upd_file f (\<lambda>_. zf)
             (s\<lparr>fs_files := map_insert dest_path f (map_erase source_path (fs_files s))\<rparr>));
         if st = OK then Some (OK, s1)
         else
           let s2 = s1\<lparr>fs_files := map_erase dest_path (fs_files s1)\<rparr>
           in case RenameLink dest_path source_path (fheap s2 f) of (st, zf) \<Rightarrow>
             let s3 = upd_file f (\<lambda>_. zf) s2
             in Some (st, if st \<noteq> OK then s3 else s3\<lparr>fs_files := map_insert source_path f (fs_files s3)\<rparr>)
       })"

text \<open>
  Renaming a file of ZenFS. The local pointers to both files end when the function returns, so an
  overwritten file is destroyed last.
\<close>

definition rename_file :: "('d, 'a) sysenv \<Rightarrow> string \<Rightarrow> string \<Rightarrow> fptr \<Rightarrow> ('d, 'a, 'z) zenfs_scheme
    \<Rightarrow> (IOStatus \<times> ('d, 'a, 'z) zenfs_scheme) option" where
  "rename_file E source_path dest_path f s = do {
     existing \<leftarrow> GetFileNoLock E dest_path s;
     (case existing of
        None \<Rightarrow> do {
          (st, s1) \<leftarrow> rename_link E source_path dest_path f (hold_ref f s);
          s2 \<leftarrow> release_ref f s1;
          Some (st, s2)
        }
      | Some g \<Rightarrow> do {
          (st, s1) \<leftarrow> DeleteFileNoLock E dest_path (hold_ref g (hold_ref f s));
          (st, s2) \<leftarrow> (if st \<noteq> OK then Some (st, s1) else rename_link E source_path dest_path f s1);
          s3 \<leftarrow> release_ref g s2;
          s4 \<leftarrow> release_ref f s3;
          Some (st, s4)
        })
   }"

text \<open>The prefix of a directory, with a separator at the end.\<close>

definition path_as_string_with_separator_at_end :: "paths \<Rightarrow> string \<Rightarrow> string option" where
  "path_as_string_with_separator_at_end P p = Option.bind (path_join P p []) (lexically_normal P)"

text \<open>\<open>substr\<close> throws when the name is shorter than the directory.\<close>

fun GetZenFSChildren_loop :: "paths \<Rightarrow> string \<Rightarrow> bool \<Rightarrow> string list \<Rightarrow> string list \<Rightarrow> string list option" where
  "GetZenFSChildren_loop P dir include_grandchildren [] result = Some result"
| "GetZenFSChildren_loop P dir include_grandchildren (name # names) result = do {
     parent \<leftarrow> parent_path P name;
     file_dir \<leftarrow> path_as_string_with_separator_at_end P parent;
     full \<leftarrow> path_string P name;
     if take (length dir) file_dir = dir \<and> (include_grandchildren \<or> length file_dir = length dir)
     then if length dir > length full then None
          else GetZenFSChildren_loop P dir include_grandchildren names (result @ [drop (length dir) full])
     else GetZenFSChildren_loop P dir include_grandchildren names result
   }"

definition GetZenFSChildrenNoLock :: "('d, 'a) sysenv \<Rightarrow> string \<Rightarrow> bool \<Rightarrow> string list
    \<Rightarrow> ('d, 'a, 'z) zenfs_scheme \<Rightarrow> string list option" where
  "GetZenFSChildrenNoLock E dir include_grandchildren result s = do {
     d \<leftarrow> path_as_string_with_separator_at_end (sys_paths E) dir;
     GetZenFSChildren_loop (sys_paths E) d include_grandchildren (map fst (fs_files s)) result
   }"

text \<open>
  \<open>RenameFileNoLock\<close> and the functions it is mutually recursive with. The number bounds the depth of the
  recursion; the children of a directory are files, so two levels are enough for a directory.
\<close>

type_synonym ('d, 'a, 'z) renamer = "string \<Rightarrow> string \<Rightarrow> ('d, 'a, 'z) zenfs_scheme
    \<Rightarrow> (IOStatus \<times> ('d, 'a, 'z) zenfs_scheme) option"

definition RenameChildNoLock :: "('d, 'a) sysenv \<Rightarrow> ('d, 'a, 'z) renamer \<Rightarrow> string \<Rightarrow> string \<Rightarrow> string
    \<Rightarrow> ('d, 'a, 'z) zenfs_scheme \<Rightarrow> (IOStatus \<times> ('d, 'a, 'z) zenfs_scheme) option" where
  "RenameChildNoLock E ren source_dir dest_dir child s = do {
     source_child \<leftarrow> path_join (sys_paths E) source_dir child;
     dest_child \<leftarrow> path_join (sys_paths E) dest_dir child;
     ren source_child dest_child s
   }"

fun Rollback_children :: "('d, 'a) sysenv \<Rightarrow> ('d, 'a, 'z) renamer \<Rightarrow> string \<Rightarrow> string \<Rightarrow> string list
    \<Rightarrow> ('d, 'a, 'z) zenfs_scheme \<Rightarrow> (IOStatus \<times> ('d, 'a, 'z) zenfs_scheme) option" where
  "Rollback_children E ren source_path dest_path [] s = Some (OK, s)"
| "Rollback_children E ren source_path dest_path (c # cs) s = do {
     (st, s1) \<leftarrow> RenameChildNoLock E ren dest_path source_path c s;
     if st \<noteq> OK then Some (Corruption, s1) else Rollback_children E ren source_path dest_path cs s1
   }"

definition RollbackAuxDirRenameNoLock :: "('d, 'a) sysenv \<Rightarrow> ('d, 'a, 'z) renamer \<Rightarrow> string \<Rightarrow> string \<Rightarrow> string list
    \<Rightarrow> ('d, 'a, 'z) zenfs_scheme \<Rightarrow> (IOStatus \<times> ('d, 'a, 'z) zenfs_scheme) option" where
  "RollbackAuxDirRenameNoLock E ren source_path dest_path renamed_children s = do {
     (st, s1) \<leftarrow> Rollback_children E ren source_path dest_path renamed_children s;
     if st \<noteq> OK then Some (st, s1)
     else do {
       aux_d \<leftarrow> ToAuxPath dest_path s1;
       aux_s \<leftarrow> ToAuxPath source_path s1;
       let (st, s2) = on_host (aux_RenameFile (sys_host E) aux_d aux_s) s1;
       Some (if st \<noteq> OK then Corruption else OK, s2)
     }
   }"

fun rename_children :: "('d, 'a) sysenv \<Rightarrow> ('d, 'a, 'z) renamer \<Rightarrow> string \<Rightarrow> string \<Rightarrow> string list \<Rightarrow> string list
    \<Rightarrow> ('d, 'a, 'z) zenfs_scheme \<Rightarrow> (IOStatus \<times> ('d, 'a, 'z) zenfs_scheme) option" where
  "rename_children E ren source_path dest_path [] renamed s = Some (OK, s)"
| "rename_children E ren source_path dest_path (c # cs) renamed s = do {
     (failed_rename, s1) \<leftarrow> RenameChildNoLock E ren source_path dest_path c s;
     if failed_rename \<noteq> OK then do {
       (st, s2) \<leftarrow> RollbackAuxDirRenameNoLock E ren source_path dest_path renamed s1;
       Some (if st \<noteq> OK then st else failed_rename, s2)
     }
     else rename_children E ren source_path dest_path cs (renamed @ [c]) s1
   }"

definition RenameAuxPathNoLock :: "('d, 'a) sysenv \<Rightarrow> ('d, 'a, 'z) renamer \<Rightarrow> ('d, 'a, 'z) renamer" where
  "RenameAuxPathNoLock E ren source_path dest_path s = do {
     aux_s \<leftarrow> ToAuxPath source_path s;
     aux_d \<leftarrow> ToAuxPath dest_path s;
     let (st, s1) = on_host (aux_RenameFile (sys_host E) aux_s aux_d) s;
     if st \<noteq> OK then Some (st, s1)
     else do {
       children \<leftarrow> GetZenFSChildrenNoLock E source_path True [] s1;
       rename_children E ren source_path dest_path children [] s1
     }
   }"

primrec RenameFileNoLock :: "('d, 'a) sysenv \<Rightarrow> nat \<Rightarrow> ('d, 'a, 'z) renamer" where
  "RenameFileNoLock E 0 src_path dst_path s = None"
| "RenameFileNoLock E (Suc n) src_path dst_path s = do {
     source_path \<leftarrow> FormatPathLexically (sys_paths E) src_path;
     dest_path \<leftarrow> FormatPathLexically (sys_paths E) dst_path;
     source_file \<leftarrow> GetFileNoLock E source_path s;
     (case source_file of
        Some f \<Rightarrow> rename_file E source_path dest_path f s
      | None \<Rightarrow> RenameAuxPathNoLock E (RenameFileNoLock E n) source_path dest_path s)
   }"

definition RenameFile :: "('d, 'a) sysenv \<Rightarrow> nat \<Rightarrow> ('d, 'a, 'z) renamer" where
  "RenameFile E n source_path dest_path s = map_option (with_reset E) (RenameFileNoLock E n source_path dest_path s)"

section \<open>Directories\<close>

text \<open>A directory that the auxiliary file system does not have is empty.\<close>

definition GetChildrenNoLock :: "('d, 'a) sysenv \<Rightarrow> string \<Rightarrow> ('d, 'a, 'z) zenfs_scheme
    \<Rightarrow> (IOStatus \<times> string list \<times> ('d, 'a, 'z) zenfs_scheme) option" where
  "GetChildrenNoLock E dir_path s = do {
     dir \<leftarrow> FormatPathLexically (sys_paths E) dir_path;
     aux \<leftarrow> ToAuxPath dir s;
     (case aux_GetChildren (sys_host E) aux (fs_host s) of (st, auxfiles, h) \<Rightarrow>
        let s1 = s\<lparr>fs_host := h\<rparr>
        in if st \<noteq> OK then Some (if st = NotFound then OK else st, [], s1)
           else map_option (\<lambda>r. (OK, r, s1))
             (GetZenFSChildrenNoLock E dir False (filter (\<lambda>f. f \<noteq> ''.'' \<and> f \<noteq> ''..'') auxfiles) s1))
   }"

text \<open>The status of \<open>GetChildren\<close> is overwritten.\<close>

definition DeleteDir :: "('d, 'a) sysenv \<Rightarrow> string \<Rightarrow> ('d, 'a, 'z) zenfs_scheme
    \<Rightarrow> (IOStatus \<times> ('d, 'a, 'z) zenfs_scheme) option" where
  "DeleteDir E d s = do {
     (_, children, s1) \<leftarrow> GetChildrenNoLock E d s;
     if children \<noteq> [] then Some (IOError, s1)
     else do {
       aux \<leftarrow> ToAuxPath d s1;
       Some (on_host (aux_DeleteDir (sys_host E) aux) s1)
     }
   }"

fun delete_children :: "('d, 'a) sysenv \<Rightarrow> (string \<Rightarrow> ('d, 'a, 'z) zenfs_scheme
    \<Rightarrow> (IOStatus \<times> ('d, 'a, 'z) zenfs_scheme) option) \<Rightarrow> string \<Rightarrow> string list
    \<Rightarrow> ('d, 'a, 'z) zenfs_scheme \<Rightarrow> (IOStatus \<times> ('d, 'a, 'z) zenfs_scheme) option" where
  "delete_children E del_dir d [] s = Some (OK, s)"
| "delete_children E del_dir d (child # children) s = do {
     file_to_delete \<leftarrow> path_join (sys_paths E) d child;
     (st, is_dir, s1) \<leftarrow> IsDirectoryNoLock E file_to_delete s;
     if st \<noteq> OK then Some (st, s1)
     else do {
       (st, s2) \<leftarrow> (if is_dir then del_dir file_to_delete s1 else DeleteFileNoLock E file_to_delete s1);
       if st \<noteq> OK then Some (st, s2) else delete_children E del_dir d children s2
     }
   }"

text \<open>The number bounds the depth of the directory tree.\<close>

primrec DeleteDirRecursiveNoLock :: "('d, 'a) sysenv \<Rightarrow> nat \<Rightarrow> string \<Rightarrow> ('d, 'a, 'z) zenfs_scheme
    \<Rightarrow> (IOStatus \<times> ('d, 'a, 'z) zenfs_scheme) option" where
  "DeleteDirRecursiveNoLock E 0 dir s = None"
| "DeleteDirRecursiveNoLock E (Suc n) dir s = do {
     d \<leftarrow> FormatPathLexically (sys_paths E) dir;
     (st, children, s1) \<leftarrow> GetChildrenNoLock E d s;
     if st \<noteq> OK then Some (st, s1)
     else do {
       (st, s2) \<leftarrow> delete_children E (DeleteDirRecursiveNoLock E n) d children s1;
       if st \<noteq> OK then Some (st, s2)
       else do {
         aux \<leftarrow> ToAuxPath d s2;
         Some (on_host (aux_DeleteDir (sys_host E) aux) s2)
       }
     }
   }"

definition DeleteDirRecursive :: "('d, 'a) sysenv \<Rightarrow> nat \<Rightarrow> string \<Rightarrow> ('d, 'a, 'z) zenfs_scheme
    \<Rightarrow> (IOStatus \<times> ('d, 'a, 'z) zenfs_scheme) option" where
  "DeleteDirRecursive E n d s = map_option (with_reset E) (DeleteDirRecursiveNoLock E n d s)"

section \<open>Levels\<close>

text \<open>The file is not checked to exist.\<close>

definition MoveFileToNewLevel :: "('d, 'a) sysenv \<Rightarrow> string \<Rightarrow> int \<Rightarrow> ('d, 'a, 'z) zenfs_scheme
    \<Rightarrow> ('d, 'a, 'z) zenfs_scheme option" where
  "MoveFileToNewLevel E filename new_level s = do {
     zonefile \<leftarrow> GetFileNoLock E filename s;
     f \<leftarrow> zonefile;
     s1 \<leftarrow> SetLevel new_level f (RemoveZoneFileRecord f s);
     Some (AddZoneFileRecord (sys_penv E) f s1)
   }"

end
