(* ===== verification/Zen_GC.thy ===== *)
theory Zen_GC
  imports Zen_Names
begin

text \<open>
  Garbage collection (\<open>src/fs/fs_gc_zenfs.cc\<close>): the snapshot it works from (\<open>src/fs/snapshot.h\<close>), the choice
  of the zones to clean, the migration of file extents and the worker's loop. The worker holds
  \<open>alloc_mutex_\<close> during a round; the model is of a round in which no other thread interferes, and other
  threads run during its pauses.
\<close>

section \<open>Snapshots\<close>

record zbd_snapshot =
  bs_free_space :: u64
  bs_used_space :: u64
  bs_reclaimable_space :: u64

record zone_snapshot =
  zs_start :: u64
  zs_wp :: u64
  zs_capacity :: u64
  zs_used_capacity :: u64
  zs_max_capacity :: u64
  zs_reset_count :: u32
  zs_finish_count :: u32
  zs_garbage_percent :: u32

record extent_snapshot =
  es_start :: u64
  es_length :: u64
  es_zone_start :: u64
  es_level :: int
  es_filename :: string

record file_snapshot =
  ls_file_id :: u64
  ls_filename :: string
  ls_level :: int
  ls_extents :: "extent_snapshot list"

record zenfs_snapshot =
  ss_zbd :: "zbd_snapshot option"
  ss_zones :: "zone_snapshot list"
  ss_zone_files :: "file_snapshot list"
  ss_extents :: "extent_snapshot list"

record snapshot_options =
  so_zbd :: bool
  so_zone :: bool
  so_zone_file :: bool

definition ZBDSnapshot :: "('d, 'm) zbd_scheme \<Rightarrow> zbd_snapshot" where
  "ZBDSnapshot s = \<lparr>bs_free_space = GetFreeSpace s, bs_used_space = GetUsedSpace s,
    bs_reclaimable_space = GetReclaimableSpace s\<rparr>"

text \<open>The division traps for a zone without capacity.\<close>

definition ZoneSnapshot :: "zone \<Rightarrow> zone_snapshot option" where
  "ZoneSnapshot z =
    (if z_max_capacity z = 0 then None
     else Some \<lparr>zs_start = z_start z, zs_wp = z_wp z, zs_capacity = z_capacity z, zs_used_capacity = z_used z,
       zs_max_capacity = z_max_capacity z, zs_reset_count = z_reset_count z, zs_finish_count = z_finish_count z,
       zs_garbage_percent = ucast (100 - 100 * z_used z div z_max_capacity z)\<rparr>)"

definition ZoneExtentSnapshot :: "extent \<Rightarrow> string \<Rightarrow> ('d, 'm) zbd_scheme \<Rightarrow> extent_snapshot" where
  "ZoneExtentSnapshot e fname s = \<lparr>es_start = e_start e, es_length = e_length e,
    es_zone_start = z_start (zheap s (e_zone e)), es_level = e_level e, es_filename = fname\<rparr>"

definition ZoneFileSnapshot :: "fptr \<Rightarrow> ('d, 'm) fdev_scheme \<Rightarrow> file_snapshot option" where
  "ZoneFileSnapshot f s = do {
     name \<leftarrow> GetFilename (fheap s f);
     Some \<lparr>ls_file_id = f_file_id (fheap s f), ls_filename = name, ls_level = f_level (fheap s f),
       ls_extents = map (\<lambda>e. ZoneExtentSnapshot e name s) (f_extents (fheap s f))\<rparr>
   }"

fun GetZoneSnapshot :: "zptr list \<Rightarrow> ('d, 'm) zbd_scheme \<Rightarrow> zone_snapshot list option" where
  "GetZoneSnapshot [] s = Some []"
| "GetZoneSnapshot (z # zs) s = do {
     x \<leftarrow> ZoneSnapshot (zheap s z);
     xs \<leftarrow> GetZoneSnapshot zs s;
     Some (x # xs)
   }"

text \<open>Files that are open for writing are skipped.\<close>

fun snapshot_files :: "fptr list \<Rightarrow> ('d, 'm) fdev_scheme
    \<Rightarrow> (file_snapshot list \<times> extent_snapshot list \<times> ('d, 'm) fdev_scheme) option" where
  "snapshot_files [] s = Some ([], [], s)"
| "snapshot_files (f # fs) s =
    (case TryAcquireWRLock f s of (got, s1) \<Rightarrow>
       if \<not> got then snapshot_files fs s1
       else do {
         x \<leftarrow> ZoneFileSnapshot f s1;
         name \<leftarrow> GetFilename (fheap s1 f);
         let es = map (\<lambda>e. ZoneExtentSnapshot e name s1) (f_extents (fheap s1 f));
         (xs, ess, s2) \<leftarrow> snapshot_files fs (ReleaseWRLock f s1);
         Some (x # xs, es @ ess, s2)
       })"

definition GetZenFSSnapshot :: "snapshot_options \<Rightarrow> ('d, 'a, 'z) zenfs_scheme
    \<Rightarrow> (zenfs_snapshot \<times> ('d, 'a, 'z) zenfs_scheme) option" where
  "GetZenFSSnapshot opts s = do {
     zones \<leftarrow> (if so_zone opts then GetZoneSnapshot (io_zones s) s else Some []);
     (files, extents, s1) \<leftarrow> (if so_zone_file opts then snapshot_files (map snd (fs_files s)) s else Some ([], [], s));
     Some (\<lparr>ss_zbd = (if so_zbd opts then Some (ZBDSnapshot s) else None), ss_zones = zones,
       ss_zone_files = files, ss_extents = extents\<rparr>, s1)
   }"

section \<open>Migration\<close>

text \<open>
  One extent is copied if the snapshot has it. Neither the status of the copy nor that of giving the zone
  back is looked at. The file is looked up again, without the lock, after the copy; if it is gone the
  extents that follow stay where they are.
\<close>

definition copy_extent :: "('d, 'a) sysenv \<Rightarrow> fptr \<Rightarrow> extent \<Rightarrow> zptr \<Rightarrow> ('d, 'a, 'z) zenfs_scheme
    \<Rightarrow> ('d, 'a, 'z) zenfs_scheme option" where
  "copy_extent E f e z s =
    (let h = (if f_is_sparse (fheap s f) then ucast SPARSE_HEADER_SIZE else 0) in do {
       (_, s1) \<leftarrow> MigrateData (sys_be E) (e_start e - h) (ucast (e_length e + h)) z s;
       Some (s1\<lparr>gc_bytes_written := gc_bytes_written s1 + (e_length e + h)\<rparr>)
     })"

definition migrate_extent :: "('d, 'a) sysenv \<Rightarrow> string \<Rightarrow> fptr \<Rightarrow> extent \<Rightarrow> ('d, 'a, 'z) zenfs_scheme
    \<Rightarrow> (bool \<times> extent \<times> ('d, 'a, 'z) zenfs_scheme) option" where
  "migrate_extent E fname f e s = do {
     (st, target, s1) \<leftarrow> TakeMigrateZone (sys_penv E) (sys_be E) f (f_lifetime (fheap s f)) (ucast (e_length e)) s;
     if st \<noteq> OK then Some (True, e, s1)
     else case target of
       None \<Rightarrow> Some (True, e, snd (ReleaseMigrateZone (sys_be E) None s1))
     | Some z \<Rightarrow> do {
         let target_start = z_wp (zheap s1 z) + (if f_is_sparse (fheap s1 f) then ucast SPARSE_HEADER_SIZE else 0);
         s2 \<leftarrow> copy_extent E f e z s1;
         zfile \<leftarrow> GetFileNoLock E fname s2;
         if zfile = None then Some (False, e, snd (ReleaseMigrateZone (sys_be E) target s2))
         else Some (True, e\<lparr>e_start := target_start, e_zone := z\<rparr>,
           snd (ReleaseMigrateZone (sys_be E) target (charge z (e_length e) s2)))
       }
   }"

fun migrate_loop :: "('d, 'a) sysenv \<Rightarrow> string \<Rightarrow> fptr \<Rightarrow> extent_snapshot list \<Rightarrow> extent list
    \<Rightarrow> ('d, 'a, 'z) zenfs_scheme \<Rightarrow> (extent list \<times> ('d, 'a, 'z) zenfs_scheme) option" where
  "migrate_loop E fname f exts [] s = Some ([], s)"
| "migrate_loop E fname f exts (e # es) s =
    (if \<not> list_ex (\<lambda>x. es_start x = e_start e \<and> es_length x = e_length e) exts
     then map_option (\<lambda>(es', s1). (e # es', s1)) (migrate_loop E fname f exts es s)
     else do {
       (go_on, e', s1) \<leftarrow> migrate_extent E fname f e s;
       if \<not> go_on then Some (e' # es, s1)
       else map_option (\<lambda>(es', s2). (e' # es', s2)) (migrate_loop E fname f exts es s1)
     })"

definition MigrateFileExtents :: "('d, 'a) sysenv \<Rightarrow> string \<Rightarrow> extent_snapshot list \<Rightarrow> ('d, 'a, 'z) zenfs_scheme
    \<Rightarrow> (IOStatus \<times> ('d, 'a, 'z) zenfs_scheme) option" where
  "MigrateFileExtents E fname migrate_exts s = do {
     zfile \<leftarrow> GetFileNoLock E fname s;
     (case zfile of
        None \<Rightarrow> Some (OK, s)
      | Some f \<Rightarrow>
          (case TryAcquireWRLock f (hold_ref f s) of (got, s1) \<Rightarrow>
             if \<not> got then map_option (\<lambda>s2. (OK, s2)) (release_ref f s1)
             else do {
               let new_extents = map (e_level_update (\<lambda>_. f_level (fheap s1 f))) (f_extents (fheap s1 f));
               (new_extents', s2) \<leftarrow> migrate_loop E fname f migrate_exts new_extents s1;
               (_, s3) \<leftarrow> SyncFileExtents E f new_extents' s2;
               s4 \<leftarrow> release_ref f (ReleaseWRLock f s3);
               Some (OK, s4)
             }))
   }"

text \<open>\<open>file_extents[fname].emplace_back(ext)\<close>\<close>

definition group_extent :: "extent_snapshot \<Rightarrow> (string \<times> extent_snapshot list) list
    \<Rightarrow> (string \<times> extent_snapshot list) list" where
  "group_extent e m =
    (let old = (case map_of m (es_filename e) of None \<Rightarrow> [] | Some xs \<Rightarrow> xs)
     in map_insert (es_filename e) (old @ [e]) (map_erase (es_filename e) m))"

fun MigrateExtents_loop :: "('d, 'a) sysenv \<Rightarrow> (string \<times> extent_snapshot list) list \<Rightarrow> ('d, 'a, 'z) zenfs_scheme
    \<Rightarrow> (IOStatus \<times> ('d, 'a, 'z) zenfs_scheme) option" where
  "MigrateExtents_loop E [] s = Some (OK, s)"
| "MigrateExtents_loop E ((fname, exts) # rest) s = do {
     (st, s1) \<leftarrow> MigrateFileExtents E fname exts s;
     if st \<noteq> OK then Some (st, s1)
     else case ResetUnusedIOZones (sys_be E) True s1 of (st, s2) \<Rightarrow>
       if st \<noteq> OK then Some (st, s2) else MigrateExtents_loop E rest s2
   }"

definition MigrateExtents :: "('d, 'a) sysenv \<Rightarrow> extent_snapshot list \<Rightarrow> ('d, 'a, 'z) zenfs_scheme
    \<Rightarrow> (IOStatus \<times> ('d, 'a, 'z) zenfs_scheme) option" where
  "MigrateExtents E extents s =
    MigrateExtents_loop E (fold group_extent (filter (\<lambda>e. ends_with (es_filename e) ''.sst'') extents) []) s"

section \<open>Choosing zones\<close>

text \<open>The chosen zone starts, in the order of \<open>std::set\<close>, and the zone objects with their flag cleared.\<close>

definition choose_zone :: "zone_snapshot \<Rightarrow> u64 list \<times> u32 \<times> ('d, 'm) zbd_scheme
    \<Rightarrow> u64 list \<times> u32 \<times> ('d, 'm) zbd_scheme" where
  "choose_zone x r =
    (case r of (starts, n, s) \<Rightarrow>
      (insort_insert (zs_start x) starts, n + 1,
       case zone_start_to_pointer_map s (zs_start x) of
         None \<Rightarrow> s | Some z \<Rightarrow> upd_zone z (z_flag_gc_reset_update (\<lambda>_. False)) s))"

definition is_garbage :: "u64 \<Rightarrow> zone_snapshot \<Rightarrow> bool" where
  "is_garbage threshold x \<longleftrightarrow> zs_capacity x = 0 \<and>
    (let g = 100 - 100 * zs_used_capacity x div zs_max_capacity x in g > threshold \<and> g < 100)"

definition gc_threshold :: "u64 \<Rightarrow> u64 \<Rightarrow> u64 \<Rightarrow> u64" where
  "gc_threshold start_level slope free_percent = 100 - slope * (start_level - free_percent)"

definition SelectGarbageZonesDefault :: "u64 \<Rightarrow> u64 \<Rightarrow> zone_snapshot list \<Rightarrow> u64 \<Rightarrow> ('d, 'm) zbd_scheme
    \<Rightarrow> u64 list \<times> u32 \<times> ('d, 'm) zbd_scheme" where
  "SelectGarbageZonesDefault start_level slope zones free_percent s =
    fold (\<lambda>x r. if is_garbage (gc_threshold start_level slope free_percent) x then choose_zone x r else r)
      zones ([], 0, s)"

abbreviation (input) fp_100 :: double where "fp_100 \<equiv> 0x4059000000000000"

definition fill_ratio :: "fpu \<Rightarrow> zone_snapshot \<Rightarrow> double" where
  "fill_ratio fpu x =
    fp_div fpu (fp_mul fpu fp_1 (fp_of_u64 fpu (zs_used_capacity x)))
      (fp_of_u64 fpu (zs_max_capacity x - zs_capacity x))"

fun improved_loop :: "fpu \<Rightarrow> u64 \<Rightarrow> zone_snapshot list \<Rightarrow> u64 list \<times> u32 \<times> ('d, 'm) zbd_scheme
    \<Rightarrow> u64 list \<times> u32 \<times> ('d, 'm) zbd_scheme" where
  "improved_loop fpu target [] r = r"
| "improved_loop fpu target (x # xs) r =
    (if ucast (fst (snd r)) \<ge> target then r
     else if fp_lt fpu fp_0_5 (fp_div fpu (fp_mul fpu fp_1 (fp_of_u64 fpu (zs_capacity x)))
               (fp_of_u64 fpu (zs_max_capacity x)))
     then improved_loop fpu target xs r
     else improved_loop fpu target xs (choose_zone x r))"

text \<open>The zones are sorted through their indices.\<close>

definition sort_zones :: "penv \<Rightarrow> (zone_snapshot \<Rightarrow> zone_snapshot \<Rightarrow> bool) \<Rightarrow> zone_snapshot list \<Rightarrow> zone_snapshot list" where
  "sort_zones env lt zones = map ((!) zones) (std_sort env (\<lambda>i j. lt (zones ! i) (zones ! j)) [0..<length zones])"

definition SelectGarbageZonesImproved :: "penv \<Rightarrow> ('d, 'b) backend_scheme \<Rightarrow> zone_snapshot list \<Rightarrow> u64 \<Rightarrow> ('d, 'm) zbd_scheme
    \<Rightarrow> u64 list \<times> u32 \<times> ('d, 'm) zbd_scheme" where
  "SelectGarbageZonesImproved env be zones free_percent s =
    (let fpu = fpops env;
         sorted_snapshots = sort_zones env (\<lambda>a b. fp_lt fpu (fill_ratio fpu a) (fill_ratio fpu b)) zones;
         free_target_percent = u64_to_int (gc_stop_level (params s) - free_percent)
     in if free_target_percent \<le> 0 then ([], 0, s)
        else
          let free_target_zones = fp_to_u64 fpu (fp_ceil fpu (fp_div fpu
                (fp_mul fpu (fp_mul fpu fp_1 (fp_of_u64 fpu (ucast (be_nr_zones be (dev s)))))
                   (fp_of_u64 fpu (of_int free_target_percent))) fp_100))
          in improved_loop fpu free_target_zones sorted_snapshots ([], 0, s))"

section \<open>Cold files\<close>

text \<open>
  The average level of the data in each zone, against the bin that the zone's wear asks for. The start of
  the chosen zone is kept in an \<open>int\<close>, and it is the start that is compared with 3.
\<close>

definition zone_extents :: "extent_snapshot list \<Rightarrow> u64 \<Rightarrow> extent_snapshot list" where
  "zone_extents extents start =
    filter (\<lambda>e. es_zone_start e = start \<and> \<not> (es_level e < 0 \<or> es_length e = 0)) extents"

definition average_level :: "fpu \<Rightarrow> extent_snapshot list \<Rightarrow> double" where
  "average_level fpu es =
    fp_div fpu (foldl (\<lambda>d e. fp_add fpu d (fp_of_u64 fpu (of_int (es_level e) * es_length e))) fp_0 es)
      (fp_of_u64 fpu (foldl (\<lambda>n e. n + es_length e) 0 es))"

fun coldest_loop :: "fpu \<Rightarrow> extent_snapshot list \<Rightarrow> double \<Rightarrow> (nat \<times> zone_snapshot) list \<Rightarrow> int \<Rightarrow> int \<Rightarrow> int" where
  "coldest_loop fpu extents interval [] max_diff best = best"
| "coldest_loop fpu extents interval ((i, x) # xs) max_diff best =
    (let es = zone_extents extents (zs_start x)
     in if es = [] then coldest_loop fpu extents interval xs max_diff best
        else
          let ideal_bin = fp_to_int fpu (fp_div fpu (fp_mul fpu fp_1 (fp_of_u64 fpu (of_nat i))) interval);
              real_bin = fp_to_int fpu (average_level fpu es);
              diff = real_bin - ideal_bin
          in if diff \<le> max_diff then coldest_loop fpu extents interval xs max_diff best
             else coldest_loop fpu extents interval xs diff (u64_to_int (zs_start x)))"

definition coldest_zone :: "penv \<Rightarrow> zenfs_snapshot \<Rightarrow> u8 \<Rightarrow> int" where
  "coldest_zone env snap levels =
    (let fpu = fpops env;
         sorted_snapshots = sort_zones env (\<lambda>a b. zs_reset_count a < zs_reset_count b) (ss_zones snap);
         interval = fp_div fpu (fp_mul fpu fp_1 (fp_of_u64 fpu (of_nat (length sorted_snapshots))))
           (fp_of_u64 fpu (ucast levels))
     in coldest_loop fpu (ss_extents snap) interval (enumerate 0 sorted_snapshots) 0 (-1))"

definition MigrateColdFiles :: "('d, 'a) sysenv \<Rightarrow> ('d, 'a, 'z) zenfs_scheme \<Rightarrow> ('d, 'a, 'z) zenfs_scheme option" where
  "MigrateColdFiles E s = do {
     (snap, s1) \<leftarrow> GetZenFSSnapshot \<lparr>so_zbd = False, so_zone = True, so_zone_file = True\<rparr> s;
     let zone_start_max_diff = coldest_zone (sys_penv E) snap (max_level (params s1));
     if zone_start_max_diff < 3 then Some s1
     else
       let migrate_exts = filter (\<lambda>e. es_zone_start e = ucast (of_int zone_start_max_diff :: u32)) (ss_extents snap)
       in if migrate_exts = [] then Some s1 else map_option snd (MigrateExtents E migrate_exts s1)
   }"

section \<open>The worker\<close>

text \<open>The extents of one chosen zone after the other, in the order of the zone starts.\<close>

fun migrate_zones :: "('d, 'a) sysenv \<Rightarrow> extent_snapshot list \<Rightarrow> u64 list \<Rightarrow> ('d, 'a, 'z) zenfs_scheme
    \<Rightarrow> ('d, 'a, 'z) zenfs_scheme option" where
  "migrate_zones E extents [] s = Some s"
| "migrate_zones E extents (start # starts) s =
    (let exts = filter (\<lambda>e. es_zone_start e = start) extents
     in if exts = [] then migrate_zones E extents starts s
        else do {
          (_, s1) \<leftarrow> MigrateExtents E exts s;
          migrate_zones E extents starts s1
        })"

text \<open>
  One round, with the parameters read when the worker started. The result tells whether data was moved;
  nothing is collected, and nothing counted, when enough space is free.
\<close>

definition GC_collect :: "('d, 'a) sysenv \<Rightarrow> zenfs_params \<Rightarrow> u64 \<Rightarrow> ('d, 'a, 'z) zenfs_scheme
    \<Rightarrow> ('d, 'a, 'z) zenfs_scheme option" where
  "GC_collect E container free_percent s = do {
     (snap, s1) \<leftarrow> GetZenFSSnapshot \<lparr>so_zbd = False, so_zone = True, so_zone_file = True\<rparr> s;
     let (starts, _, s2) =
       (if gc_type container = kImprovedGC
        then SelectGarbageZonesImproved (sys_penv E) (sys_be E) (ss_zones snap) free_percent s1
        else SelectGarbageZonesDefault (gc_start_level container) (gc_slope container) (ss_zones snap) free_percent s1);
     migrate_zones E (ss_extents snap) starts s2
   }"

definition GC_round :: "('d, 'a) sysenv \<Rightarrow> zenfs_params \<Rightarrow> ('d, 'a, 'z) zenfs_scheme
    \<Rightarrow> (bool option \<times> ('d, 'a, 'z) zenfs_scheme) option" where
  "GC_round E container s = do {
     free_percent \<leftarrow> GetFreePercent s;
     if free_percent > gc_start_level container then Some (None, s)
     else do {
       s1 \<leftarrow> GC_collect E container free_percent s;
       _ \<leftarrow> GetFreePercent s1;
       s2 \<leftarrow> (if cold_migration container \<noteq> 0 then MigrateColdFiles E s1 else Some s1);
       Some (Some (gc_bytes_written s1 - gc_bytes_written s \<noteq> 0), s2)
     }
   }"

text \<open>
  The loop. \<open>pause n\<close> is what other threads do during pause \<open>n\<close>. After ten rounds in a row without moving
  data the process exits.
\<close>

datatype gc_end = GC_stopped | GC_exit

partial_function (option) GCWorker_loop :: "('d, 'a) sysenv \<Rightarrow> zenfs_params
    \<Rightarrow> (nat \<Rightarrow> ('d, 'a, 'z) zenfs_scheme \<Rightarrow> ('d, 'a, 'z) zenfs_scheme) \<Rightarrow> nat \<Rightarrow> u64 \<Rightarrow> ('d, 'a, 'z) zenfs_scheme
    \<Rightarrow> (gc_end \<times> ('d, 'a, 'z) zenfs_scheme) option" where
  "GCWorker_loop E container pause n fail_counter s =
    (if \<not> fs_run_gc_worker s then Some (GC_stopped, s)
     else
       let s1 = pause n s
       in if \<not> fs_run_gc_worker s1 then Some (GC_stopped, s1)
          else Option.bind (GC_round E container s1) (\<lambda>(moved, s2).
            case moved of
              None \<Rightarrow> GCWorker_loop E container pause (n + 1) fail_counter s2
            | Some m \<Rightarrow>
                let fail_counter' = (if m then 0 else fail_counter + 1)
                in if fail_counter' \<ge> 10 then Some (GC_exit, s2)
                   else GCWorker_loop E container pause (n + 1) fail_counter' s2))"

declare GCWorker_loop.simps [code]

definition GCWorker :: "('d, 'a) sysenv \<Rightarrow> zenfs_params \<Rightarrow> (nat \<Rightarrow> ('d, 'a, 'z) zenfs_scheme \<Rightarrow> ('d, 'a, 'z) zenfs_scheme)
    \<Rightarrow> ('d, 'a, 'z) zenfs_scheme \<Rightarrow> (gc_end \<times> ('d, 'a, 'z) zenfs_scheme) option" where
  "GCWorker E container pause s = GCWorker_loop E container pause 0 0 s"

end
