(* ===== verification/Zen_Persist.thy ===== *)
theory Zen_Persist
  imports Zen_FS
begin

text \<open>
  What writing metadata touches. Every function that persists something changes metadata zones, the log
  the file system appends to and the bookkeeping of what is synced, and nothing else: the I/O zones, the
  names and the content of files stay. So the file system is a metadata writer in the sense the write
  path asks for, and the theorems on files hold with it.
\<close>

section \<open>Operations on metadata zones\<close>

definition meta_wf :: "('d, 'b) backend_scheme \<Rightarrow> ('d, 'm) zbd_scheme \<Rightarrow> bool" where
  "meta_wf be s \<longleftrightarrow> (\<forall>p \<in> set (meta_zones s). zone_wf (be_zone_sz be (dev s)) (zheap s p))"

definition meta_only :: "('d, 'b) backend_scheme \<Rightarrow> ('d \<Rightarrow> nat \<Rightarrow> byte) \<Rightarrow> ('d, 'm) zbd_scheme
    \<Rightarrow> ('d, 'm) zbd_scheme \<Rightarrow> bool" where
  "meta_only be media s s' \<longleftrightarrow> io_zones s' = io_zones s \<and> meta_zones s' = meta_zones s \<and>
    zone_start_to_pointer_map s' = zone_start_to_pointer_map s \<and> params s' = params s \<and>
    zbd.more s' = zbd.more s \<and> geometry be (dev s') = geometry be (dev s) \<and> meta_wf be s' \<and>
    (\<forall>p. p \<notin> set (meta_zones s) \<longrightarrow> zheap s' p = zheap s p) \<and>
    (\<forall>p. z_start (zheap s' p) = z_start (zheap s p) \<and> z_used (zheap s' p) = z_used (zheap s p)) \<and>
    (\<forall>i. (\<forall>p \<in> set (meta_zones s). i \<notin> zone_range (be_zone_sz be (dev s)) (zheap s p)) \<longrightarrow>
       media (dev s') i = media (dev s) i)"

lemma meta_only_refl: "meta_wf be s \<Longrightarrow> meta_only be media s s"
  by (simp add: meta_only_def)

lemma zone_range_start: "z_start z' = z_start z \<Longrightarrow> zone_range b z' = zone_range b z"
  by (simp add: zone_range_def)

lemma meta_only_trans [trans]:
  assumes "meta_only be media s s'" "meta_only be media s' s''"
  shows "meta_only be media s s''"
proof -
  have g: "be_zone_sz be (dev s') = be_zone_sz be (dev s)"
    using assms(1) by (auto simp: meta_only_def intro: geometry_zone_sz)
  have "zone_range (be_zone_sz be (dev s)) (zheap s' p) = zone_range (be_zone_sz be (dev s)) (zheap s p)" for p
    using assms(1) by (intro zone_range_start) (simp add: meta_only_def)
  then show ?thesis using assms unfolding meta_only_def g by auto
qed

text \<open>The general step: one metadata zone is changed, and data inside it.\<close>

lemma meta_only_step:
  assumes "meta_wf be s" "p \<in> set (meta_zones s)" "frame s s'" "geometry be (dev s') = geometry be (dev s)"
    and "\<And>q. q \<noteq> p \<Longrightarrow> zheap s' q = zheap s q" "zone_wf (be_zone_sz be (dev s)) (zheap s' p)"
    and "\<And>i. i \<notin> zone_range (be_zone_sz be (dev s)) (zheap s p) \<Longrightarrow> media (dev s') i = media (dev s) i"
  shows "meta_only be media s s'"
proof -
  have wf: "zone_wf (be_zone_sz be (dev s)) (zheap s' q)" if "q \<in> set (meta_zones s)" for q
    using assms(1,5,6) that by (cases "q = p") (simp_all add: meta_wf_def)
  have same: "zheap s' q = zheap s q" if "q \<notin> set (meta_zones s)" for q using that assms(2,5) by metis
  show ?thesis using assms(2-4,7) wf same geometry_zone_sz [OF assms(4)] by (simp add: meta_only_def frame_def meta_wf_def)
qed

context zoned_storage
begin

lemma meta_finish:
  assumes "meta_wf be s" "p \<in> set (meta_zones s)" "Zone_Finish be p s = (st, s')"
  shows "meta_only be media s s'"
proof -
  obtain i d where F: "be_Finish be (z_start (zheap s p)) (dev s) = (i, d)" by fastforce
  have g: "geometry be d = geometry be (dev s)" "media d = media (dev s)"
    using finish_geometry [OF F] finish_media [OF F] by auto
  have wf: "zone_wf (be_zone_sz be (dev s)) (zheap s p)" using assms(1,2) by (simp add: meta_wf_def)
  then have wf': "zone_wf (be_zone_sz be (dev s)) ((zheap s p)\<lparr>z_capacity := 0, z_wp := z_start (zheap s p) + be_zone_sz be (dev s),
      z_finish_count := n\<rparr>)" for n
    by (auto simp: zone_wf_def unat_add_u64 word_le_nat_alt)
  have s': "s' = (if i \<noteq> OK then s\<lparr>dev := d\<rparr> else upd_zone p (\<lambda>z. z\<lparr>z_capacity := 0, z_wp := z_start z + be_zone_sz be (dev s),
      z_finish_count := z_finish_count z + 1\<rparr>) (s\<lparr>dev := d\<rparr>))"
    using assms(3) F geometry_zone_sz [OF g(1)] by (simp add: Zone_Finish_def Let_def split: if_splits)
  show ?thesis
    by (rule meta_only_step [OF assms(1,2)]) (simp_all add: s' frame_def upd_zone_def g wf wf')
qed

lemma meta_reset:
  assumes "meta_wf be s" "p \<in> set (meta_zones s)" "Zone_Reset be p s = (st, s')"
  shows "meta_only be media s s'"
proof -
  obtain i off mc d where R: "be_Reset be (z_start (zheap s p)) (dev s) = (i, off, mc, d)" by (metis prod_cases4)
  have g: "geometry be d = geometry be (dev s)" using reset_geometry [OF R] .
  have m: "media d j = media (dev s) j" if "j \<notin> zone_range (be_zone_sz be (dev s)) (zheap s p)" for j
    using that reset_out [OF R, of j] by (auto simp: zone_range_def)
  have wf: "zone_wf (be_zone_sz be (dev s)) (zheap s p)" using assms(1,2) by (simp add: meta_wf_def)
  have mc: "i = OK \<Longrightarrow> \<not> off \<Longrightarrow> unat mc \<le> unat (be_zone_sz be (dev s))" using R by (auto intro: reset_capacity)
  have wf': "zone_wf (be_zone_sz be (dev s)) (zheap s' p)"
    using assms(3) R wf mc by (auto simp: Zone_Reset_def Let_def upd_zone_def zone_wf_def split: if_splits)
  show ?thesis
    by (rule meta_only_step [OF assms(1,2) Zone_Reset_effect(1) [OF assms(3)] _ Zone_Reset_effect(3) [OF assms(3)] wf'])
      (use assms(3) R g m in \<open>auto simp: Zone_Reset_def Let_def upd_zone_def split: if_splits\<close>)
qed

lemma meta_append:
  assumes "meta_wf be s" "p \<in> set (meta_zones s)" "Zone_Append be p data s = Some (st, s')"
  shows "meta_only be media s s'"
proof (cases "unat (z_capacity (zheap s p)) < length data")
  case True
  then show ?thesis using assms meta_only_refl by (auto simp: Zone_Append_def)
next
  case False
  then have L: "Zone_Append_loop be p data s = Some (st, s')" using assms(3) by (simp add: Zone_Append_def)
  have wf: "zone_wf (be_zone_sz be (dev s)) (zheap s p)" using assms(1,2) by (simp add: meta_wf_def)
  obtain n d where n: "n \<le> length data" "s' = append_result p n d s" using Zone_Append_loop_frame [OF L] by auto
  have wf': "zone_wf (be_zone_sz be (dev s)) (zheap s' p)"
    using append_zone_wf [OF wf, of n] n False by (simp add: append_result_def upd_zone_def)
  have "data = [] \<or> unat (z_wp (zheap s p)) + length data \<le> unat (z_start (zheap s p)) + unat (be_zone_sz be (dev s))"
    using wf False unat_eq_0 [of "z_capacity (zheap s p)"] by (auto simp: zone_wf_def)
  moreover have "unat (z_start (zheap s p)) \<le> unat (z_wp (zheap s p))" "unat (z_wp (zheap s p)) < 2 ^ 64"
    using wf by (auto simp: zone_wf_def word_le_nat_alt)
  ultimately have m: "media (dev s') i = media (dev s) i" if "i \<notin> zone_range (be_zone_sz be (dev s)) (zheap s p)" for i
    using that Zone_Append_loop_media [OF L, of i] wf L
    by (auto simp: zone_range_def zone_wf_def Zone_Append_loop_Nil)
  show ?thesis
    by (rule meta_only_step [OF assms(1,2) _ _ _ wf' m])
      (use n Zone_Append_loop_geometry [OF L] in \<open>auto simp: append_result_def upd_zone_def frame_def\<close>)
qed

lemma meta_busy:
  assumes "meta_wf be s" "p \<in> set (meta_zones s)"
  shows "meta_only be media s (upd_zone p (z_busy_update b) s)"
  using assms by (auto simp: meta_only_def meta_wf_def upd_zone_def zone_wf_def)

lemma meta_Acquire:
  assumes "meta_wf be s" "p \<in> set (meta_zones s)" "Zone_Acquire p s = (got, s')"
  shows "meta_only be media s s'"
  using assms meta_busy [OF assms(1,2)] meta_only_refl by (auto simp: Zone_Acquire_def split: if_splits)

lemma meta_Release:
  assumes "meta_wf be s" "p \<in> set (meta_zones s)"
  shows "meta_only be media s (snd (Zone_Release p s))"
  using assms meta_busy [OF assms(1,2)] meta_only_refl by (auto simp: Zone_Release_def)

lemma meta_CheckRelease:
  assumes "meta_wf be s" "p \<in> set (meta_zones s)" "Zone_CheckRelease p s = (st, s')"
  shows "meta_only be media s s'"
  using meta_Release [OF assms(1,2)] assms(3) by (auto simp: Zone_CheckRelease_def split: prod.splits if_splits)

lemma meta_AllocateMetaZone:
  assumes "meta_wf be s" "AllocateMetaZone be s = (st, z, s')"
  shows "meta_only be media s s' \<and> (\<forall>p. z = Some p \<longrightarrow> p \<in> set (meta_zones s))"
proof -
  have "meta_only be media s s' \<and> (\<forall>p. z = Some p \<longrightarrow> p \<in> set (meta_zones s))"
    if "meta_wf be s" "set zs \<subseteq> set (meta_zones s)" "AllocateMetaZone_loop be zs s = (st, z, s')" for zs s
    using that
  proof (induction zs arbitrary: s)
    case Nil
    then show ?case by (simp add: meta_only_refl)
  next
    case (Cons p zs)
    have p: "p \<in> set (meta_zones s)" using Cons.prems(2) by simp
    obtain got s1 where A: "Zone_Acquire p s = (got, s1)" by fastforce
    note m1 = meta_Acquire [OF Cons.prems(1) p A]
    have w1: "meta_wf be s1" "meta_zones s1 = meta_zones s" using m1 by (simp_all add: meta_only_def)
    obtain r s2 where R: "Zone_Reset be p s1 = (r, s2)" by fastforce
    have m2: "meta_only be media s1 s2" using meta_reset [OF w1(1) _ R] p w1(2) by simp
    have w2: "meta_wf be s2" "meta_zones s2 = meta_zones s" using m2 w1 by (simp_all add: meta_only_def)
    obtain r' s3 where C: "Zone_CheckRelease p s2 = (r', s3)" by fastforce
    have m3: "meta_only be media s2 s3" using meta_CheckRelease [OF w2(1) _ C] p w2(2) by simp
    have w3: "meta_wf be s3" "meta_zones s3 = meta_zones s" using m3 w2 by (simp_all add: meta_only_def)
    note IH1 = Cons.IH [OF w1(1)] and IH3 = Cons.IH [OF w3(1)]
    note m12 = meta_only_trans [OF m1 m2] note m13 = meta_only_trans [OF m12 m3]
    show ?case
      using Cons.prems(2,3) A R C m1 m12 m13 p w1(2) w3(2) IH1 IH3 meta_only_trans [OF m1] meta_only_trans [OF m13]
      by (simp add: AllocateMetaZone_loop.simps split: if_splits) blast+
  qed
  from this [OF assms(1) _ assms(2) [unfolded AllocateMetaZone_def]] show ?thesis by simp
qed

lemma meta_AddRecord:
  assumes "meta_wf be s" "ml_zone ml \<in> set (meta_zones s)" "AddRecord c be ml data s = Some (st, s')"
  shows "meta_only be media s s'"
  using meta_append [OF assms(1,2)] assms(3) by (auto simp: AddRecord_def Let_def split: if_splits)

end

section \<open>The file system around them\<close>

text \<open>A file object up to the bookkeeping of what has been persisted.\<close>

definition unsynced :: "zonefile \<Rightarrow> zonefile" where
  "unsynced zf = zf\<lparr>f_nr_synced_extents := 0, f_m_time := 0\<rparr>"

text \<open>The metadata zones belong to the log alone.\<close>

definition log_ok :: "('d, 'b) backend_scheme \<Rightarrow> ('d, 'a, 'z) zenfs_scheme \<Rightarrow> bool" where
  "log_ok be s \<longleftrightarrow> meta_wf be s \<and> set (meta_zones s) \<inter> set (io_zones s) = {} \<and>
    (\<forall>p \<in> set (meta_zones s). z_used (zheap s p) = 0) \<and>
    (\<forall>p \<in> set (meta_zones s). \<forall>q \<in> set (io_zones s).
       zone_range (be_zone_sz be (dev s)) (zheap s p) \<inter> zone_range (be_zone_sz be (dev s)) (zheap s q) = {}) \<and>
    (\<forall>p \<in> set (meta_zones s). \<forall>q \<in> set (meta_zones s). p \<noteq> q \<longrightarrow>
       zone_range (be_zone_sz be (dev s)) (zheap s p) \<inter> zone_range (be_zone_sz be (dev s)) (zheap s q) = {}) \<and>
    (\<forall>ml. fs_meta_log s = Some ml \<longrightarrow> ml_zone ml \<in> set (meta_zones s))"

definition persisted :: "('d, 'b) backend_scheme \<Rightarrow> ('d \<Rightarrow> nat \<Rightarrow> byte) \<Rightarrow> ('d, 'a, 'z) zenfs_scheme
    \<Rightarrow> ('d, 'a, 'z) zenfs_scheme \<Rightarrow> bool" where
  "persisted be media s s' \<longleftrightarrow> io_zones s' = io_zones s \<and> meta_zones s' = meta_zones s \<and>
    zone_start_to_pointer_map s' = zone_start_to_pointer_map s \<and> params s' = params s \<and>
    geometry be (dev s') = geometry be (dev s) \<and>
    (\<forall>p. p \<notin> set (meta_zones s) \<longrightarrow> zheap s' p = zheap s p) \<and>
    (\<forall>p. z_start (zheap s' p) = z_start (zheap s p) \<and> z_used (zheap s' p) = z_used (zheap s p)) \<and>
    (\<forall>i. (\<forall>p \<in> set (meta_zones s). i \<notin> zone_range (be_zone_sz be (dev s)) (zheap s p)) \<longrightarrow>
       media (dev s') i = media (dev s) i) \<and>
    (\<forall>g. unsynced (fheap s' g) = unsynced (fheap s g)) \<and> next_fptr s' = next_fptr s \<and>
    levelwise_file_list s' = levelwise_file_list s \<and> fs_files s' = fs_files s \<and>
    fs_next_file_id s' = fs_next_file_id s \<and> fs_refs s' = fs_refs s \<and> fs_bufcount s' = fs_bufcount s \<and>
    fs_run_gc_worker s' = fs_run_gc_worker s \<and> (log_ok be s \<longrightarrow> log_ok be s')"

lemma persisted_refl [simp]: "persisted be media s s"
  by (simp add: persisted_def)

lemma persisted_trans [trans]:
  assumes "persisted be media s s'" "persisted be media s' s''"
  shows "persisted be media s s''"
proof -
  have g: "be_zone_sz be (dev s') = be_zone_sz be (dev s)"
    using assms(1) by (auto simp: persisted_def intro: geometry_zone_sz)
  have "zone_range (be_zone_sz be (dev s)) (zheap s' p) = zone_range (be_zone_sz be (dev s)) (zheap s p)" for p
    using assms(1) by (intro zone_range_start) (simp add: persisted_def)
  then show ?thesis using assms unfolding persisted_def g by auto
qed

lemma zenfs_more_eq:
  fixes s s' :: "('d, 'a, 'z) zenfs_scheme"
  assumes "zbd.more s' = zbd.more s"
  shows "fheap s' = fheap s" "next_fptr s' = next_fptr s" "levelwise_file_list s' = levelwise_file_list s"
    "fs_files s' = fs_files s" "fs_next_file_id s' = fs_next_file_id s" "fs_meta_log s' = fs_meta_log s"
    "fs_superblock s' = fs_superblock s" "fs_refs s' = fs_refs s" "fs_bufcount s' = fs_bufcount s"
    "fs_run_gc_worker s' = fs_run_gc_worker s" "fs_host s' = fs_host s"
  using assms by (cases s; cases s'; simp)+

lemma meta_only_persisted: "meta_only be media s s' \<Longrightarrow> persisted be media s s'"
  for s s' :: "('d, 'a, 'z) zenfs_scheme"
proof -
  assume m: "meta_only be media s s'"
  then have e: "zbd.more s' = zbd.more s" by (simp add: meta_only_def)
  have g: "be_zone_sz be (dev s') = be_zone_sz be (dev s)"
    using m by (auto simp: meta_only_def intro: geometry_zone_sz)
  have "zone_range (be_zone_sz be (dev s)) (zheap s' p) = zone_range (be_zone_sz be (dev s)) (zheap s p)" for p
    using m by (intro zone_range_start) (simp add: meta_only_def)
  then have "log_ok be s \<longrightarrow> log_ok be s'"
    using m zenfs_more_eq(6) [OF e] unfolding log_ok_def g by (simp add: meta_only_def)
  then show "persisted be media s s'"
    using m zenfs_more_eq [OF e] by (simp add: meta_only_def persisted_def)
qed

lemma persisted_upd_file:
  "(\<And>zf. unsynced (g zf) = unsynced zf) \<Longrightarrow> persisted be media s (upd_file f g s)"
  by (auto simp: persisted_def upd_file_def log_ok_def meta_wf_def)

lemma persisted_synced: "persisted be media s (upd_file f MetadataSynced s)"
  by (rule persisted_upd_file) (simp add: MetadataSynced_def unsynced_def)

lemma persisted_fold_synced: "persisted be media s (fold (\<lambda>(_, f). upd_file f MetadataSynced) fs s)"
proof (induction fs arbitrary: s)
  case (Cons x fs)
  show ?case
    using persisted_trans [OF persisted_synced [of be media s "snd x"] Cons.IH] by (simp add: case_prod_beta)
qed simp

lemma persisted_fields [simp]:
  "persisted be media s (s'\<lparr>fs_superblock := sb\<rparr>) = persisted be media s s'"
  "persisted be media s (s'\<lparr>fs_host := h\<rparr>) = persisted be media s s'"
  by (simp_all add: persisted_def log_ok_def meta_wf_def)

lemma persisted_meta_log:
  "\<lbrakk>persisted be media s s'; ml_zone ml \<in> set (meta_zones s)\<rbrakk> \<Longrightarrow> persisted be media s (s'\<lparr>fs_meta_log := Some ml\<rparr>)"
  by (auto simp: persisted_def log_ok_def meta_wf_def)

context zoned_storage
begin

lemma persisted_AddRecord:
  assumes "log_ok be s" "ml_zone ml \<in> set (meta_zones s)" "AddRecord c be ml data s = Some (st, s')"
  shows "persisted be media s s'"
  using meta_only_persisted [OF meta_AddRecord [OF _ assms(2,3)]] assms(1) by (simp add: log_ok_def)

lemma persisted_destroy:
  assumes "log_ok be s" "ml_zone ml \<in> set (meta_zones s)"
  shows "persisted be media s (ZenMetaLog_destroy ml s)"
  using meta_only_persisted [OF meta_Release [OF _ assms(2)]] assms(1) by (simp add: log_ok_def ZenMetaLog_destroy_def)

end

locale persistent_zenfs = zoned_storage "sys_be E" media
  for E :: "('d, 'a) sysenv" and media :: "'d \<Rightarrow> nat \<Rightarrow> byte"
begin

lemma persisted_WriteSnapshot:
  assumes "log_ok (sys_be E) s" "ml_zone ml \<in> set (meta_zones s)" "WriteSnapshotLocked E ml s = Some (st, s')"
  shows "persisted (sys_be E) media s s'"
proof -
  obtain s1 where A: "AddRecord (sys_coding E) (sys_be E) ml (ZenFS_EncodeSnapshotTo (sys_coding E) s) s = Some (st, s1)"
    and s': "s' = (if st = OK then fold (\<lambda>(_, f). upd_file f MetadataSynced) (fs_files s1) s1 else s1)"
    using assms(3) by (auto simp: WriteSnapshotLocked_def split: bind_splits)
  note p1 = persisted_AddRecord [OF assms(1,2) A]
  then show ?thesis using persisted_trans [OF p1 persisted_fold_synced [where fs = "fs_files s1"]] s' by simp
qed

lemma persisted_close_old_log:
  assumes "log_ok (sys_be E) s" "ml_zone old \<in> set (meta_zones s)" "close_old_log E old s = Some s'"
  shows "persisted (sys_be E) media s s'"
proof -
  obtain s1 where A: "(if GetCapacityLeft (zheap s (ml_zone old)) \<noteq> 0
        then map_option snd (WriteEndRecord E old s) else Some s) = Some s1"
    and s': "s' = (if GetCapacityLeft (zheap s1 (ml_zone old)) \<noteq> 0 then snd (Zone_Finish (sys_be E) (ml_zone old) s1) else s1)"
    using assms(3) by (auto simp: close_old_log_def split: bind_splits)
  have p1: "persisted (sys_be E) media s s1"
    using A persisted_AddRecord [OF assms(1,2)] by (auto simp: WriteEndRecord_def split: if_splits)
  have "meta_wf (sys_be E) s1" "ml_zone old \<in> set (meta_zones s1)"
    using p1 assms(1,2) by (auto simp: persisted_def log_ok_def)
  then have "persisted (sys_be E) media s1 s'"
    using s' meta_only_persisted [OF meta_finish [OF _ _ prod.collapse [symmetric], of s1 "ml_zone old"]] by simp
  then show ?thesis using persisted_trans [OF p1] by blast
qed

lemma persisted_Roll:
  assumes "log_ok (sys_be E) s" "RollMetaZoneLocked E s = Some (st, s')"
  shows "persisted (sys_be E) media s s'"
proof -
  obtain st0 zone s1 where A: "AllocateMetaZone (sys_be E) s = (st0, zone, s1)" by (metis prod_cases3)
  have a: "meta_only (sys_be E) media s s1" "\<forall>p. zone = Some p \<longrightarrow> p \<in> set (meta_zones s)"
    using meta_AllocateMetaZone [OF _ A] assms(1) by (auto simp: log_ok_def)
  have p1: "persisted (sys_be E) media s s1" using a(1) meta_only_persisted by blast
  show ?thesis
  proof (cases "st0 = OK \<and> zone \<noteq> None")
    case False
    then show ?thesis using assms(2) A p1 by (auto simp: RollMetaZoneLocked_def split: if_splits option.splits)
  next
    case True
    then obtain z where z: "zone = Some z" by blast
    define new where "new = ZenMetaLog_new (sys_be E) z s1"
    define s1' where "s1' = s1\<lparr>fs_meta_log := Some new\<rparr>"
    have znew: "ml_zone new \<in> set (meta_zones s)" using a(2) z by (simp add: new_def ZenMetaLog_new_def)
    obtain old s2 sb st3 s3 where R: "fs_meta_log s1 = Some old" "close_old_log E old s1' = Some s2" "fs_superblock s2 = Some sb"
        "AddRecord (sys_coding E) (sys_be E) new (fst (Superblock_EncodeTo (sys_coding E) sb))
          (s2\<lparr>fs_superblock := Some (snd (Superblock_EncodeTo (sys_coding E) sb))\<rparr>) = Some (st3, s3)"
      and F: "if st3 \<noteq> OK then s' = ZenMetaLog_destroy old s3
        else \<exists>s4. WriteSnapshotLocked E new s3 = Some (st, s4) \<and>
          s' = ZenMetaLog_destroy old (if st = OK then snd (Zone_Reset (sys_be E) (ml_zone old) s4) else s4)"
      using assms(2) A True z
      by (auto simp: RollMetaZoneLocked_def Let_def new_def s1'_def case_prod_beta split: bind_splits if_splits)
    have zold: "ml_zone old \<in> set (meta_zones s)"
      using R(1) assms(1) zenfs_more_eq(6) [of s1 s] a(1) by (simp add: meta_only_def log_ok_def)
    have keeps: "log_ok (sys_be E) t \<and> meta_zones t = meta_zones s" if "persisted (sys_be E) media s t" for t
      using that assms(1) by (simp add: persisted_def)
    have p1': "persisted (sys_be E) media s s1'" unfolding s1'_def using p1 znew by (rule persisted_meta_log)
    have p2: "persisted (sys_be E) media s s2"
      using persisted_trans [OF p1' persisted_close_old_log [OF _ _ R(2)]] keeps [OF p1'] zold by simp
    let ?s2 = "s2\<lparr>fs_superblock := Some (snd (Superblock_EncodeTo (sys_coding E) sb))\<rparr>"
    have p2': "persisted (sys_be E) media s ?s2" using p2 by simp
    have p3: "persisted (sys_be E) media s s3"
      using persisted_trans [OF p2' persisted_AddRecord [OF _ _ R(4)]] keeps [OF p2'] znew by simp
    show ?thesis
    proof (cases "st3 = OK")
      case False
      then show ?thesis
        using F persisted_trans [OF p3 persisted_destroy] keeps [OF p3] zold by simp
    next
      case True
      then obtain s4 where S: "WriteSnapshotLocked E new s3 = Some (st, s4)"
        "s' = ZenMetaLog_destroy old (if st = OK then snd (Zone_Reset (sys_be E) (ml_zone old) s4) else s4)"
        using F by auto
      have p4: "persisted (sys_be E) media s s4"
        using persisted_trans [OF p3 persisted_WriteSnapshot [OF _ _ S(1)]] keeps [OF p3] znew by simp
      let ?s5 = "if st = OK then snd (Zone_Reset (sys_be E) (ml_zone old) s4) else s4"
      have "persisted (sys_be E) media s4 ?s5"
        using meta_only_persisted [OF meta_reset [OF _ _ prod.collapse [symmetric], of s4 "ml_zone old"]]
          keeps [OF p4] zold by (simp add: log_ok_def)
      then have p5: "persisted (sys_be E) media s ?s5" using persisted_trans [OF p4] by blast
      show ?thesis
        using S(2) persisted_trans [OF p5 persisted_destroy] keeps [OF p5] zold by simp
    qed
  qed
qed

lemma persisted_PersistRecord:
  assumes "log_ok (sys_be E) s" "PersistRecord E rec s = Some (st, s')"
  shows "persisted (sys_be E) media s s'"
proof -
  obtain ml st1 s1 where A: "fs_meta_log s = Some ml" "AddRecord (sys_coding E) (sys_be E) ml rec s = Some (st1, s1)"
    and R: "if st1 = NoSpace then RollMetaZoneLocked E s1 = Some (st, s') else (st, s') = (st1, s1)"
    using assms(2) by (auto simp: PersistRecord_def split: bind_splits if_splits)
  have p1: "persisted (sys_be E) media s s1"
    using persisted_AddRecord [OF assms(1) _ A(2)] assms(1) A(1) by (simp add: log_ok_def)
  then show ?thesis
    using R persisted_trans [OF p1 persisted_Roll] assms(1) by (auto simp: persisted_def split: if_splits)
qed

lemma persisted_Sync:
  assumes "log_ok (sys_be E) s" "SyncFileMetadataNoLock E replace f s = Some (st, s')"
  shows "persisted (sys_be E) media s s'"
proof (cases "f_is_deleted (fheap s f)")
  case True
  then show ?thesis using assms(2) by (auto simp: SyncFileMetadataNoLock_def)
next
  case False
  define s1 where "s1 = (if replace then s else case host_time (sys_host E) (fs_host s) of (now, h) \<Rightarrow>
                   upd_file f (f_m_time_update (\<lambda>_. now)) (s\<lparr>fs_host := h\<rparr>))"
  obtain s2 where P: "PersistRecord E (EncodeFileUpdate (sys_coding E) replace (fheap s1 f)) s1 = Some (st, s2)"
    and s': "s' = (if st = OK then upd_file f MetadataSynced s2 else s2)"
    using assms(2) False by (auto simp: SyncFileMetadataNoLock_def Let_def s1_def [symmetric] split: bind_splits)
  have "persisted (sys_be E) media (s\<lparr>fs_host := h\<rparr>) (upd_file f (f_m_time_update (\<lambda>_. now)) (s\<lparr>fs_host := h\<rparr>))" for now h
    by (rule persisted_upd_file) (simp add: unsynced_def)
  then have "persisted (sys_be E) media s (upd_file f (f_m_time_update (\<lambda>_. now)) (s\<lparr>fs_host := h\<rparr>))" for now h
    by (rule persisted_trans [rotated]) simp
  then have p1: "persisted (sys_be E) media s s1" by (simp add: s1_def case_prod_beta)
  have p2: "persisted (sys_be E) media s s2"
    using persisted_trans [OF p1 persisted_PersistRecord [OF _ P]] p1 assms(1) by (simp add: persisted_def)
  then show ?thesis using s' persisted_trans [OF p2 persisted_synced] by simp
qed

lemma persisted_io_stays:
  assumes "persisted (sys_be E) media s s'" "log_ok (sys_be E) s"
  shows "io_stays (sys_be E) media s s' \<and> (\<forall>p \<in> set (io_zones s). zheap s' p = zheap s p)"
proof -
  let ?b = "be_zone_sz (sys_be E) (dev s)"
  have z: "zheap s' p = zheap s p" if "p \<in> set (io_zones s)" for p
    using that assms by (auto simp: persisted_def log_ok_def)
  have m: "media (dev s') i = media (dev s) i" if "p \<in> set (io_zones s)" "i \<in> zone_range ?b (zheap s p)" for p i
  proof -
    have "i \<notin> zone_range ?b (zheap s q)" if "q \<in> set (meta_zones s)" for q
      using that \<open>p \<in> set (io_zones s)\<close> \<open>i \<in> zone_range ?b (zheap s p)\<close> assms(2) unfolding log_ok_def by blast
    then show ?thesis using assms(1) unfolding persisted_def by blast
  qed
  have f: "file_kept (fheap s' g) = file_kept (fheap s g)" for g
  proof -
    have "file_kept zf = file_kept (unsynced zf)" for zf by (cases zf) (simp add: file_kept_def core_def unsynced_def)
    then show ?thesis using assms(1) by (metis persisted_def)
  qed
  have "index_ok s \<longrightarrow> index_ok s'"
  proof
    assume ix: "index_ok s"
    have "z_busy (zheap s' p) \<or> \<not> IsUsed (zheap s' p)"
      if "p \<in> ran (zone_start_to_pointer_map s)" "p \<notin> set (io_zones s)" for p
      using that ix assms by (cases "p \<in> set (meta_zones s)") (auto simp: index_ok_def persisted_def log_ok_def zone_ops)
    then show "index_ok s'" using assms(1) by (simp add: index_ok_def persisted_def)
  qed
  then show ?thesis using z m f assms(1) by (simp add: io_stays_def persisted_def)
qed

end

lemma log_ok_stays:
  assumes "log_ok be s" "meta_stays be s s'"
  shows "log_ok be s'"
proof -
  let ?b = "be_zone_sz be (dev s)"
  have g: "be_zone_sz be (dev s') = ?b" using assms(2) by (auto simp: meta_stays_def intro: geometry_zone_sz)
  have r: "zone_range ?b (zheap s' p) = zone_range ?b (zheap s p)" for p
    using assms(2) by (intro zone_range_start) (simp add: meta_stays_def)
  have gr: "grown ?b (zheap s p) (zheap s' p)" if "p \<in> set (meta_zones s)" for p
    using that assms by (auto simp: meta_stays_def log_ok_def)
  have "zone_wf ?b (zheap s' p)" "z_used (zheap s' p) = 0" if "p \<in> set (meta_zones s)" for p
    using grown_wf [OF gr [OF that]] gr [OF that] that assms(1) by (auto simp: log_ok_def meta_wf_def grown_def)
  moreover have "fs_meta_log s' = fs_meta_log s"
  proof -
    have "fdev.more s' = fdev.more s" using assms(2) by (simp add: meta_stays_def)
    then show ?thesis by (cases s; cases s'; simp)
  qed
  ultimately show ?thesis
    using assms unfolding log_ok_def meta_wf_def g r by (simp add: meta_stays_def)
qed

text \<open>The file system persists as the write path asks for.\<close>

lemma zenfs_metadata_writer:
  assumes "steady_storage (sys_be E) media" "zone_allocation (sys_be E) media (sys_penv E)"
  shows "metadata_writer (sys_be E) media (sys_penv E)
    (ZenFS_Persist E :: ('d, ('a, 'z) zenfs_ext) writer) (log_ok (sys_be E))"
proof -
  have Z: "persistent_zenfs E media" using assms(1) by (simp add: persistent_zenfs_def steady_storage_def)
  have "metadata_writer_axioms (sys_be E) media (ZenFS_Persist E :: ('d, ('a, 'z) zenfs_ext) writer) (log_ok (sys_be E))"
  proof
    fix s s' :: "('d, 'a, 'z) zenfs_scheme"
    assume "log_ok (sys_be E) s" "meta_stays (sys_be E) s s'"
    then show "log_ok (sys_be E) s'" by (rule log_ok_stays)
  next
    fix s s' :: "('d, 'a, 'z) zenfs_scheme" and f st
    assume a: "log_ok (sys_be E) s" and p: "ZenFS_Persist E f s = Some (st, s')"
    have "SyncFileMetadataNoLock E False f s = Some (st, s')" using p by (auto simp: ZenFS_Persist_def split: bind_splits)
    then have P: "persisted (sys_be E) media s s'" by (rule persistent_zenfs.persisted_Sync [OF Z a])
    then have "log_ok (sys_be E) s'" using a unfolding persisted_def by blast
    then show "log_ok (sys_be E) s' \<and> io_stays (sys_be E) media s s' \<and> (\<forall>p \<in> set (io_zones s). zheap s' p = zheap s p)"
      using persistent_zenfs.persisted_io_stays [OF Z P a] by blast
  qed
  then show ?thesis using assms by (simp add: metadata_writer_def)
qed

section \<open>A concrete file system\<close>

text \<open>An empty auxiliary file system and a clock that counts; the device is kept in memory.\<close>

definition sample_host :: "nat hostops" where
  "sample_host = \<lparr>host_time = (\<lambda>n. (of_nat n, n + 1)), host_uuid = (\<lambda>n. (replicate 36 65, n)),
    aux_DeleteFile = (\<lambda>_ n. (NotFound, n)), aux_FileExists = (\<lambda>_ n. (NotFound, n)),
    aux_GetChildren = (\<lambda>_ n. (OK, [], n)), aux_IsDirectory = (\<lambda>_ n. (NotFound, False, n)),
    aux_DeleteDir = (\<lambda>_ n. (OK, n)), aux_CreateDirIfMissing = (\<lambda>_ n. (OK, n)),
    aux_RenameFile = (\<lambda>_ _ n. (NotFound, n)), aux_LinkFile = (\<lambda>_ _ n. (NotFound, n)),
    aux_NumFileLinks = (\<lambda>_ n. (NotFound, 0, n)), aux_AreFilesSame = (\<lambda>_ _ n. (NotFound, False, n)),
    aux_GetFileSize = (\<lambda>_ n. (NotFound, 0, n)), aux_GetFileModificationTime = (\<lambda>_ n. (NotFound, 0, n)),
    aux_NewSequentialFile = (\<lambda>_ n. (NotFound, n)), aux_NewRandomAccessFile = (\<lambda>_ n. (NotFound, n))\<rparr>"

definition sample_sys :: "(ram zbdlib, nat) sysenv" where
  "sample_sys = \<lparr>sys_coding = le_coding, sys_be = ram_backend, sys_penv = sample_env, sys_paths = util_paths,
    sys_host = sample_host, sys_malloc = (\<lambda>n. replicate n 0), sys_version = [50, 46, 49]\<rparr>"

interpretation sample_zen: persistent_zenfs sample_sys ram_bytes
  using ram.zoned_storage_axioms by (simp add: persistent_zenfs_def sample_sys_def)

interpretation zen: file_writer ram_backend ram_bytes sample_env "ZenFS_Persist sample_sys" "log_ok ram_backend" le_coding
  using zenfs_metadata_writer [of sample_sys ram_bytes] ram.steady_storage_axioms sample_alloc.zone_allocation_axioms
    le.coding_laws_axioms by (simp add: file_writer_def sample_sys_def)

end
