(* ===== verification/Zen_Sample.thy ===== *)
theory Zen_Sample
  imports Zen_Persist Zen_Names
begin

text \<open>
  A small file system on the device in memory, on which the theorems about whole file system operations are
  applied: one file with ten bytes in zone 0, zones 1 and 2 partly written, zone 3 for metadata.
\<close>

section \<open>The device in memory\<close>

lemma ram_Zbd_Read:
  assumes "0 < n"
  shows "Zbd_Read ram_backend off (int n) direct s = Some (int n, media_slice (ram_bytes (dev s)) (unat off) n, s)"
proof -
  have "be_Read ram_backend (int n) off direct (dev s) = (int n, False, media_slice (ram_bytes (dev s)) (unat off) n, dev s)"
    by (simp add: Zbdlib_Read_def ram_kernel_def media_slice_def)
  then show ?thesis using assms by (simp add: Zbd_Read_def Zbd_Read_loop.simps)
qed

lemma ram_Zone_Append:
  assumes "data \<noteq> []" "length data \<le> unat (z_capacity (zheap s p))"
    "list_ex (ram_accepts (z_wp (zheap s p)) (length data)) (ram_zones (zb_kernel (dev s)))"
  shows "Zone_Append ram_backend p data s = Some (OK, append_result p (length data)
    (snd (be_Write ram_backend data (z_wp (zheap s p)) (dev s))) s)"
proof -
  have "be_Write ram_backend data (z_wp (zheap s p)) (dev s) =
      (int (length data), snd (be_Write ram_backend data (z_wp (zheap s p)) (dev s)))"
    using assms(3) by (simp add: Zbdlib_Write_def ram_kernel_def ram_pwrite_def split: prod.split)
  from Zone_Append_loop_step [OF assms(1) this] show ?thesis
    using assms(1,2) by (simp add: Zone_Append_def Zone_Append_loop_Nil)
qed

text \<open>A device without zones refuses every write.\<close>

lemma ram_Zone_Append_refused:
  assumes "data \<noteq> []" "length data \<le> unat (z_capacity (zheap s p))" "ram_zones (zb_kernel (dev s)) = []"
  shows "Zone_Append ram_backend p data s = Some (IOError, s)"
proof -
  have "be_Write ram_backend data (z_wp (zheap s p)) (dev s) = (-1, dev s)"
    using assms(3) by (simp add: Zbdlib_Write_def ram_kernel_def ram_pwrite_def)
  then show ?thesis using assms(1,2) by (simp add: Zone_Append_def Zone_Append_loop.simps)
qed

section \<open>The file system\<close>

abbreviation (input) sample_ml :: metalog where
  "sample_ml \<equiv> \<lparr>ml_read_pos = 12288, ml_zone = 3, ml_bs = 64\<rparr>"

definition sample_fs :: "(ram zbdlib, nat) zenfs" where
  "sample_fs = fdev.extend (sample_fdev\<lparr>
      dev := sample_dev\<lparr>zb_kernel := (zb_kernel sample_dev)\<lparr>ram_media := (\<lambda>i. of_nat i),
        ram_zones := [ram_zone_at 0, ram_zone_at 1, (ram_zone_at 2)\<lparr>zz_wp := 11136\<rparr>, ram_zone_at 3]\<rparr>\<rparr>,
      zheap := (\<lambda>p. if p = 0 then sample_zone 0 64 10 else if p = 1 then sample_zone 4096 1024 704
        else if p = 2 then sample_zone 8192 2944 64 else sample_zone 12288 0 0),
      fheap := (\<lambda>f. (ZoneFile_new (of_nat f))\<lparr>f_io_type := IO_kWAL, f_linkfiles := [''/a.sst''], f_file_size := 10,
        f_extents := [\<lparr>e_start = 0, e_length = 10, e_zone = 0, e_level = 0\<rparr>]\<rparr>), next_fptr := 1,
      params := default_params\<lparr>dynamic_level_adjustment := 0\<rparr>\<rparr>)
    \<lparr>fs_files = [(''/a.sst'', 0)], fs_next_file_id = 1, fs_meta_log = Some sample_ml,
     fs_superblock = None, fs_refs = (\<lambda>_. 0), fs_bufcount = \<lparr>max_buffer_count = 2, curr_buffer_count = 0\<rparr>,
     fs_run_gc_worker = True, fs_host = 0\<rparr>"

lemmas sample_fs_eval = sample_fs_def fdev.extend_def sample_fdev_def zbd.extend_def ZoneFile_new_def sample_defs

lemma sample_sys_sel: "sys_coding sample_sys = le_coding" "sys_be sample_sys = ram_backend"
  by (simp_all add: sample_sys_def)

lemma sample_name: "fs_files s = fs_files sample_fs \<Longrightarrow> GetFileNoLock sample_sys ''/a.sst'' s = Some (Some 0)"
  by (simp add: GetFileNoLock_def sample_sys_def sample_fs_eval format_util_eq segments_def push_segment_def absolute_def)

section \<open>Records\<close>

lemma length_varint: "length (varint n v) \<le> n"
  by (induction n v rule: varint.induct) auto

lemma length_prefixed: "length (PutLengthPrefixedSlice le_coding bs) \<le> length bs + 5"
  using length_varint [of 5 "length bs"] by (simp add: le_coding_def)

lemma length_encode_extents: "length (encode_extents le_coding es) \<le> 25 * length es"
proof (induction es)
  case (Cons e es)
  then show ?case
    using length_prefixed [of "ZoneExtent_EncodeTo le_coding e"] by (simp add: encode_extents_def ZoneExtent_EncodeTo_def)
qed (simp add: encode_extents_def)

lemma length_encode_links: "length (encode_links le_coding ls) \<le> (\<Sum>l\<leftarrow>ls. length l + 9)"
proof (induction ls)
  case (Cons l ls)
  then show ?case using length_prefixed [of "string_bytes l"] by (simp add: encode_links_def)
qed (simp add: encode_links_def)

lemma length_EncodeFileUpdate:
  "length (EncodeFileUpdate le_coding replace zf) \<le> 100 + 25 * length (f_extents zf) + (\<Sum>l\<leftarrow>f_linkfiles zf. length l + 9)"
proof -
  let ?es = "drop (unat (f_nr_synced_extents zf)) (f_extents zf)"
  have "length (encode_extents le_coding ?es) \<le> 25 * length (f_extents zf)"
    using length_encode_extents [of ?es] by (rule order_trans) simp
  then have "length (EncodeUpdateTo le_coding zf) \<le> 90 + 25 * length (f_extents zf) + (\<Sum>l\<leftarrow>f_linkfiles zf. length l + 9)"
    using length_encode_links [of "f_linkfiles zf"] by (simp add: EncodeUpdateTo_def ZoneFile_EncodeTo_def)
  then show ?thesis using length_prefixed [of "EncodeUpdateTo le_coding zf"] by (simp add: EncodeFileUpdate_def)
qed

lemma length_EncodeFileDeletion: "length (EncodeFileDeletionTo le_coding zf l) \<le> length l + 22"
  using length_prefixed [of "string_bytes l"]
    length_prefixed [of "PutFixed64 le_coding (f_file_id zf) @ PutLengthPrefixedSlice le_coding (string_bytes l)"]
  by (simp add: EncodeFileDeletionTo_def)

text \<open>Persisting a short record: it succeeds when the device accepts the write, and fails when it refuses it.\<close>

lemma sample_persist:
  assumes E: "sys_coding E = le_coding" "sys_be E = ram_backend"
    and s: "fs_meta_log s = Some sample_ml" "zheap s 3 = sample_zone 12288 0 0" "zb_zone_sz (dev s) = 4096" and rec: "length rec < 1000"
  obtains ios n d where "PersistRecord E rec s = Some (ios, append_result 3 n d s)" "ios \<noteq> NoSpace"
    "ram_zones (zb_kernel (dev s)) = ram_zones (zb_kernel (dev sample_fs)) \<Longrightarrow> ios = OK"
    "ram_zones (zb_kernel (dev s)) = [] \<Longrightarrow> ios = IOError"
proof -
  let ?fr = "log_frame le_coding 64 rec"
  have wf: "zone_wf (be_zone_sz ram_backend (dev s)) (zheap s 3)" "unat (z_capacity (zheap s 3)) = 3072" "z_wp (zheap s 3) = 12288"
    by (simp_all add: s sample_defs zone_wf_def)
  have fr: "length ?fr = roundup 64 (length rec + 8)" using le.length_log_frame [of 64 rec] by simp
  have len: "roundup 64 (length rec + 8) \<le> 3072" "0 < roundup 64 (length rec + 8)"
    using roundup_mono [of 64 "length rec + 8" 1024] roundup_le(1) [of 64 "length rec + 8"] rec by (simp_all add: roundup_def)
  have ne: "?fr \<noteq> []" using fr len(2) by auto
  obtain ios n d where A: "Zone_Append ram_backend 3 ?fr s = Some (ios, append_result 3 n d s)" "ios \<noteq> NoSpace"
    using steady_storage.Zone_Append_effect [OF ram.steady_storage_axioms wf(1), of ?fr] fr wf(2) len(1) by auto
  have "AddRecord le_coding ram_backend sample_ml rec s = Some (ios, append_result 3 n d s)"
    using coding_laws.AddRecord_eq [OF le.coding_laws_axioms, of sample_ml 64 rec ram_backend s] A(1) rec by simp
  then have P: "PersistRecord E rec s = Some (ios, append_result 3 n d s)"
    using A(2) s(1) by (simp add: PersistRecord_def E)
  have "ios = OK" if "ram_zones (zb_kernel (dev s)) = ram_zones (zb_kernel (dev sample_fs))"
    using ram_Zone_Append [OF ne, of s 3] A(1) that wf fr len(1) by (simp add: sample_fs_eval ram_accepts_def)
  moreover have "ios = IOError" if "ram_zones (zb_kernel (dev s)) = []"
    using ram_Zone_Append_refused [OF ne, of s 3] A(1) that wf fr len(1) by simp
  ultimately show thesis using that [OF P A(2)] by blast
qed

end
