(* ===== verification/Gc_Safety.thy ===== *)
theory Gc_Safety
  imports Zen_GC Zen_Sample Allocator_Safety
begin

text \<open>
  Garbage collection keeps the data. A migrated extent holds the same bytes as before if the copy is
  complete, that is if the target's write pointer has moved by the whole padded length; the code itself does
  not look at the result of the copy. Nothing else is touched: every extent of every file stays readable.
\<close>

section \<open>What stays while extents are copied\<close>

definition bytes_of :: "('d \<Rightarrow> nat \<Rightarrow> byte) \<Rightarrow> ('d, 'm) zbd_scheme \<Rightarrow> extent \<Rightarrow> byte list" where
  "bytes_of media s e = media_slice (media (dev s)) (unat (e_start e)) (unat (e_length e))"

definition extents_stay :: "('d, 'b) backend_scheme \<Rightarrow> ('d \<Rightarrow> nat \<Rightarrow> byte) \<Rightarrow> ('d, 'm) zbd_scheme
    \<Rightarrow> ('d, 'm) zbd_scheme \<Rightarrow> bool" where
  "extents_stay be media s s' \<longleftrightarrow> (disk_ok be s \<longrightarrow> disk_ok be s' \<and>
      (\<forall>e. extent_in s e \<longrightarrow> extent_in s' e \<and> bytes_of media s' e = bytes_of media s e))"

lemma extents_stay_trans: "extents_stay be media s s' \<Longrightarrow> extents_stay be media s' s'' \<Longrightarrow> extents_stay be media s s''"
  by (simp add: extents_stay_def)

definition data_stays :: "('d, 'b) backend_scheme \<Rightarrow> ('d \<Rightarrow> nat \<Rightarrow> byte) \<Rightarrow> ('d, 'm) fdev_scheme
    \<Rightarrow> ('d, 'm) fdev_scheme \<Rightarrow> bool" where
  "data_stays be media s s' \<longleftrightarrow> meta_stays be s s' \<and> (\<forall>g. file_kept (fheap s' g) = file_kept (fheap s g)) \<and>
    extents_stay be media s s'"

lemma data_stays_refl [simp]: "data_stays be media s s"
  by (simp add: data_stays_def extents_stay_def)

lemma data_stays_trans: "data_stays be media s s' \<Longrightarrow> data_stays be media s' s'' \<Longrightarrow> data_stays be media s s''"
  by (auto simp: data_stays_def extents_stay_def intro: meta_stays_trans)

lemma data_stays_zones: "data_stays be media s s' \<Longrightarrow> io_zones s' = io_zones s \<and> geometry be (dev s') = geometry be (dev s)"
  by (simp add: data_stays_def extents_stay_def meta_stays_def)

lemma io_stays_bytes:
  assumes "io_stays be media s s'" "disk_ok be s" "extent_in s e"
  shows "extent_in s' e \<and> bytes_of media s' e = bytes_of media s e"
proof -
  have z: "e_zone e \<in> set (io_zones s)" using assms(3) by (simp add: extent_in_def)
  have gr: "grown (be_zone_sz be (dev s)) (zheap s (e_zone e)) (zheap s' (e_zone e))" and
    m: "\<forall>i \<in> zone_range (be_zone_sz be (dev s)) (zheap s (e_zone e)). media (dev s') i = media (dev s) i"
    using assms(1) z by (auto simp: io_stays_def)
  have "zone_wf (be_zone_sz be (dev s)) (zheap s (e_zone e))" using assms(2) z by (simp add: disk_ok_def)
  then have "unat (z_wp (zheap s (e_zone e))) \<le> unat (z_wp (zheap s' (e_zone e)))" by (rule grown_wp [OF gr])
  then have x: "extent_in s' e" using assms(1,3) gr by (auto simp: extent_in_def io_stays_def grown_def)
  have "bytes_of media s' e = bytes_of media s e"
    unfolding bytes_of_def by (rule media_slice_cong) (use m extent_in_range [OF assms(3,2)] in blast)
  then show ?thesis using x by blast
qed

lemma data_stays_io:
  assumes "io_stays be media s s'" "meta_stays be s s'"
  shows "data_stays be media s s'"
  using assms io_stays_bytes [OF assms(1)] disk_ok_stays [OF assms(1)] by (simp add: data_stays_def extents_stay_def io_stays_def)

text \<open>Bookkeeping: the zones' positions and the media stay.\<close>

lemma data_stays_book:
  assumes "media (dev s') = media (dev s)" "geometry be (dev s') = geometry be (dev s)"
    "io_zones s' = io_zones s" "meta_zones s' = meta_zones s" "zone_start_to_pointer_map s' = zone_start_to_pointer_map s"
    "fdev.more s' = fdev.more s" "\<And>g. file_kept (fheap s' g) = file_kept (fheap s g)"
    "\<And>p. p \<notin> set (io_zones s) \<Longrightarrow> zheap s' p = zheap s p"
    "\<And>p. z_start (zheap s' p) = z_start (zheap s p) \<and> z_wp (zheap s' p) = z_wp (zheap s p) \<and>
       z_capacity (zheap s' p) = z_capacity (zheap s p) \<and> z_max_capacity (zheap s' p) = z_max_capacity (zheap s p)"
  shows "data_stays be media s s'"
proof -
  have "disk_ok be s'" if "disk_ok be s" by (rule disk_ok_frame [OF that]) (use assms in auto)
  moreover have "extent_in s' = extent_in s" by (rule ext) (simp add: extent_in_def assms)
  moreover have "bytes_of media s' = bytes_of media s" by (rule ext) (simp add: bytes_of_def assms)
  ultimately show ?thesis using assms by (simp add: data_stays_def extents_stay_def meta_stays_def)
qed

lemma data_stays_dev:
  "media d = media (dev s) \<Longrightarrow> geometry be d = geometry be (dev s) \<Longrightarrow> data_stays be media s (s\<lparr>dev := d\<rparr>)"
  by (rule data_stays_book) simp_all

lemma data_stays_charge: "z \<in> set (io_zones s) \<Longrightarrow> data_stays be media s (charge z n s)"
  by (rule data_stays_book) (auto simp: charge_def upd_zone_def)

lemma data_stays_fields [simp]:
  "data_stays be media s (s'\<lparr>gc_bytes_written := n\<rparr>) = data_stays be media s s'"
  "data_stays be media s (s'\<lparr>migrating := b\<rparr>) = data_stays be media s s'"
  "data_stays be media s (PutOpenIOZoneToken s') = data_stays be media s s'"
  "data_stays be media s (PutActiveIOZoneToken s') = data_stays be media s s'"
  by (simp_all add: data_stays_def extents_stay_def meta_stays_def disk_ok_def index_ok_def extent_in_def bytes_of_def token_ops)

section \<open>Copying\<close>

lemma Zbd_Read_dev:
  assumes "Zbd_Read be offset n direct s = Some (v, buf, s')"
  shows "\<exists>d. s' = s\<lparr>dev := d\<rparr>"
proof -
  let ?P = "\<lambda>b buf offset left direct r ret s (v, buf', s'). \<exists>d. s' = s\<lparr>dev := d\<rparr>"
  have "?P be [] offset n direct (-1) 0 s (v, buf, s')"
  proof (rule Zbd_Read_loop.raw_induct [where P = ?P, OF _ assms [unfolded Zbd_Read_def]], goal_cases)
    case (1 f b buf offset left direct r ret s res)
    obtain r1 e bytes d where R: "be_Read b left offset direct (dev s) = (r1, e, bytes, d)" by (metis prod_cases4)
    have "\<exists>d'. s' = s\<lparr>dev := d\<rparr>\<lparr>dev := d'\<rparr> \<Longrightarrow> \<exists>d'. s' = s\<lparr>dev := d'\<rparr>" for s' by auto
    then show ?case
      using 1(2) 1(1) [of b _ _ _ direct r1 _ "s\<lparr>dev := d\<rparr>"] R
      by (cases res) (fastforce simp: Let_def split: if_splits intro: exI [of _ "dev s"])
  qed
  then show ?thesis by simp
qed

context steady_storage
begin

lemma append_incomplete:
  fixes s :: "('d, 'x) zbd_scheme"
  assumes "Zone_Append be p data s = Some (st, s')" "st \<noteq> OK" "zone_wf (be_zone_sz be (dev s)) (zheap s p)"
  shows "unat (z_wp (zheap s' p)) < unat (z_wp (zheap s p)) + length data"
proof (cases "unat (z_capacity (zheap s p)) < length data")
  case True
  then show ?thesis using assms(1) by (auto simp: Zone_Append_def)
next
  case False
  then have L: "Zone_Append_loop be p data s = Some (st, s')" using assms(1) by (simp add: Zone_Append_def)
  have room: "unat (z_wp (zheap s p)) + length data < 2 ^ 64"
    using Zone_Append_effect [OF assms(3), of data] False by auto
  let ?I = "\<lambda>(data' :: byte list) (t :: ('d, 'x) zbd_scheme). unat (z_wp (zheap t p)) + length data' = unat (z_wp (zheap s p)) + length data"
  have "fst (st, s') = OK \<and> ?I [] (snd (st, s')) \<or>
    (\<exists>data s ret d. ?I data s \<and> data \<noteq> [] \<and> ret < 0 \<and>
       be_Write be data (z_wp (zheap s p)) (dev s) = (ret, d) \<and> (st, s') = (IOError, s\<lparr>dev := d\<rparr>))"
  proof (rule Zone_Append_loop_rule [where I = ?I, OF L])
    fix data' t ret d
    assume I: "?I data' t" and "nat ret \<le> length data'"
    then show "?I (drop (nat ret) data') (append_result p (nat ret) d t)"
      using room by (simp add: append_result_def upd_zone_def unat_add_u64 unat_of_nat_u64)
  qed simp
  then show ?thesis using assms(2) by (auto simp flip: length_greater_0_conv)
qed

end

text \<open>
  One round of the copy loop: a read of whole blocks and an append. \<open>copy_room\<close> is what the arguments satisfy
  as long as there is something to copy.
\<close>

definition copy_room :: "nat \<Rightarrow> u32 \<Rightarrow> u64 \<Rightarrow> u32 \<Rightarrow> bool" where
  "copy_room b rs off len \<longleftrightarrow> 0 < b \<and>
    (len \<noteq> 0 \<longrightarrow> rs \<noteq> 0 \<and> b dvd unat rs \<and> unat rs \<le> 2 ^ 17 \<and> unat off + unat len + 2 ^ 17 < 2 ^ 64)"

abbreviation (input) chunk :: "u32 \<Rightarrow> u32 \<Rightarrow> u32" where
  "chunk rs len \<equiv> (if len > rs then rs else len)"

lemma copy_room_next:
  assumes "copy_room b rs off len" "len \<noteq> 0" "m \<le> roundup b (unat (chunk rs len))"
  shows "copy_room b (chunk rs len) (off + of_nat m) (len - chunk rs len)"
    "roundup b (unat len) = roundup b (unat (chunk rs len)) + roundup b (unat (len - chunk rs len))"
    "unat (len - chunk rs len) < unat len" "roundup b (unat (chunk rs len)) \<le> unat rs"
    "unat (off + of_nat m) = unat off + m"
    "len - chunk rs len \<noteq> 0 \<Longrightarrow> roundup b (unat (chunk rs len)) = unat (chunk rs len)"
proof -
  note a = assms(1) [unfolded copy_room_def]
  have b: "0 < b" "b dvd unat rs" "rs \<noteq> 0" using a assms(2) by auto
  have c: "unat (chunk rs len) = min (unat len) (unat rs)" by (simp add: word_less_nat_alt)
  have d: "unat (len - chunk rs len) = unat len - min (unat len) (unat rs)"
    using c by (subst unat_sub) (auto simp: word_le_nat_alt word_less_nat_alt)
  have rs: "0 < unat rs" using b(3) by (simp add: unat_gt_0)
  have l: "0 < unat len" using assms(2) by (simp add: unat_gt_0)
  show "unat (len - chunk rs len) < unat len" unfolding d using rs l by simp
  show n: "roundup b (unat (chunk rs len)) \<le> unat rs"
    unfolding c using roundup_mono [OF b(1), of "min (unat len) (unat rs)" "unat rs"] roundup_id [OF b(2)] by simp
  have m: "unat (of_nat m :: u64) = m" using assms(3) n a assms(2) by (intro unat_of_nat_u64) auto
  show o: "unat (off + of_nat m) = unat off + m" using m assms(3) n a assms(2) by (subst unat_add_u64) auto
  show "roundup b (unat len) = roundup b (unat (chunk rs len)) + roundup b (unat (len - chunk rs len))"
  proof (cases "unat rs < unat len")
    case True
    then show ?thesis using roundup_shift [OF b(2,1), of "unat len - unat rs"] roundup_id [OF b(2)] unfolding c d by simp
  next
    case False
    then show ?thesis unfolding c d by (simp add: roundup_def)
  qed
  show e: "roundup b (unat (chunk rs len)) = unat (chunk rs len)" if "len - chunk rs len \<noteq> 0"
    using that roundup_id [OF b(2)] by (auto split: if_splits)
  show "copy_room b (chunk rs len) (off + of_nat m) (len - chunk rs len)"
  proof (cases "unat rs < unat len")
    case True
    then have "chunk rs len = rs" by (simp add: word_less_nat_alt)
    then show ?thesis using a o assms(2,3) n d True unfolding copy_room_def by auto
  next
    case False
    then have "len - chunk rs len = 0" by (simp add: word_less_nat_alt)
    then show ?thesis using b by (simp add: copy_room_def)
  qed
qed

context steady_storage
begin

lemma MigrateData_step:
  assumes L: "MigrateData_loop be z rs off len s = Some (st, s')" and len: "len \<noteq> 0"
    and b: "b = unat (be_block_sz be (dev s))" "copy_room b rs off len"
  obtains (failed) d where "media d = media (dev s)" "geometry be d = geometry be (dev s)" "s' = s\<lparr>dev := d\<rparr>"
  | (copied) m d ap s2 where "media d = media (dev s)" "geometry be d = geometry be (dev s)" "m \<le> roundup b (unat (chunk rs len))"
      "Zone_Append be z (media_slice (media (dev s)) (unat off) m) (s\<lparr>dev := d\<rparr>) = Some (ap, s2)"
      "MigrateData_loop be z (chunk rs len) (off + of_nat m) (len - chunk rs len) s2 = Some (st, s')"
proof -
  let ?b = "be_block_sz be (dev s)" and ?c = "chunk rs len"
  define n where "n = roundup b (unat ?c)"
  have nle: "n \<le> unat rs" unfolding n_def using copy_room_next(4) [OF b(2) len, of 0] by simp
  have rs: "unat rs \<le> 2 ^ 17" "0 < b" "unat off + 2 ^ 17 < 2 ^ 64" using b(2) len by (auto simp: copy_room_def)
  define pad where "pad = (if ?c mod ?b = 0 then 0 else ?b - ?c mod ?b)"
  have pe: "pad = (if ?c mod ?b \<noteq> 0 then ?b - ?c mod ?b else 0)" by (simp add: pad_def)
  have "unat (?c + pad) = n"
    unfolding pe n_def b(1) by (rule pad_u32(2)) (use nle rs in \<open>auto simp: n_def b(1)\<close>)
  then have nn: "sint (?c + pad) = int n" using sint_small_u32 [of "?c + pad"] nle rs by simp
  obtain r buf s1 where R: "Zbd_Read be off (int n) True s = Some (r, buf, s1)"
    and N: "(if r < 0 then Some (IOError, s1) else if r > 128 * 1024 then None
       else case Zone_Append be z buf s1 of None \<Rightarrow> None
         | Some (_, s2) \<Rightarrow> MigrateData_loop be z ?c (off + of_int r) (len - ?c) s2) = Some (st, s')"
    using L len unfolding MigrateData_loop.simps [of be z rs] Let_def pad_def [symmetric] nn
    by (auto split: option.splits)
  obtain d where d: "s1 = s\<lparr>dev := d\<rparr>" using Zbd_Read_dev [OF R] by blast
  have M: "media (dev s1) = media (dev s)" "geometry be (dev s1) = geometry be (dev s)"
    "0 \<le> r \<longrightarrow> (\<exists>m. buf = media_slice (media (dev s)) (unat off) m \<and> r = int m \<and> m \<le> n)"
    using Zbd_Read_loop_media [OF R [unfolded Zbd_Read_def]] nle rs by auto
  show ?thesis
  proof (cases "r < 0")
    case True
    then show ?thesis using N M d by (intro failed [of d]) auto
  next
    case False
    then obtain m where m: "buf = media_slice (media (dev s)) (unat off) m" "r = int m" "m \<le> n" using M(3) by auto
    obtain ap s2 where "Zone_Append be z buf s1 = Some (ap, s2)"
      "MigrateData_loop be z ?c (off + of_nat m) (len - ?c) s2 = Some (st, s')"
      using N False m(2) by (auto split: if_splits option.splits)
    then show ?thesis using M(1,2) m d n_def by (intro copied [of d m]) auto
  qed
qed

lemma MigrateData_bound:
  assumes "MigrateData_loop be z rs off len s = Some (st, s')" "zone_wf (be_zone_sz be (dev s)) (zheap s z)"
    and "b = unat (be_block_sz be (dev s))" "copy_room b rs off len"
  shows "unat (z_wp (zheap s' z)) \<le> unat (z_wp (zheap s z)) + roundup b (unat len)"
  using assms
proof (induction "unat len" arbitrary: rs off len s rule: less_induct)
  case less
  show ?case
  proof (cases "len = 0")
    case True
    then show ?thesis using less.prems(1) by (simp add: MigrateData_loop.simps)
  next
    case False
    from less.prems(1) False less.prems(3,4) show ?thesis
    proof (cases rule: MigrateData_step)
      case failed
      then show ?thesis by simp
    next
      case (copied m d ap s2)
      note nx = copy_room_next [OF less.prems(4) False copied(3)]
      have g: "be_zone_sz be d = be_zone_sz be (dev s)" "be_block_sz be d = be_block_sz be (dev s)"
        using copied(2) by (simp_all add: geometry_def)
      have "zone_wf (be_zone_sz be (dev (s\<lparr>dev := d\<rparr>))) (zheap (s\<lparr>dev := d\<rparr>) z)" using less.prems(2) g by simp
      from Zone_Append_effect [OF this, of "media_slice (media (dev s)) (unat off) m"] copied(4)
      obtain k d2 where k: "s2 = append_result z k d2 (s\<lparr>dev := d\<rparr>)" "k \<le> m" "k \<le> unat (z_capacity (zheap s z))"
        "geometry be d2 = geometry be d" "unat (z_wp (zheap s2 z)) = unat (z_wp (zheap s z)) + k" by auto
      have g2: "be_zone_sz be (dev s2) = be_zone_sz be (dev s)" "b = unat (be_block_sz be (dev s2))"
        using k(1,4) g less.prems(3) by (simp_all add: geometry_def append_result_def upd_zone_def)
      have "zone_wf (be_zone_sz be (dev s2)) (zheap s2 z)"
        unfolding g2 using append_zone_wf [OF less.prems(2) k(3)] k(1) by (simp add: append_result_def upd_zone_def)
      from less.hyps [OF nx(3) copied(5) this g2(2) nx(1)] show ?thesis using k(2,5) nx(2) copied(3) by linarith
    qed
  qed
qed

text \<open>An append leaves every extent alone: it starts behind those of its zone and ends within the zone.\<close>

lemma append_extents:
  assumes "Zone_Append be z data s = Some (st, s1)" "disk_ok be s" "z \<in> set (io_zones s)" "extent_in s e"
  shows "extent_in s1 e \<and> bytes_of media s1 e = bytes_of media s e"
proof (cases "unat (z_capacity (zheap s z)) < length data")
  case True
  then show ?thesis using assms(1,4) by (simp add: Zone_Append_def)
next
  case False
  define w where "w = unat (z_wp (zheap s z))"
  have wf: "zone_wf (be_zone_sz be (dev s)) (zheap s z)" using assms by (simp add: disk_ok_def)
  obtain n d where s1: "s1 = append_result z n d s" and wp: "unat (z_wp (zheap s1 z)) = w + n"
    and out: "\<forall>i. i < w \<or> w + length data \<le> i \<longrightarrow> media d i = media (dev s) i"
    using Zone_Append_effect [OF wf, of data] assms(1) unfolding w_def by auto
  have x: "extent_in s1 e"
    using assms(4) wp by (cases "e_zone e = z") (auto simp: extent_in_def s1 append_result_def upd_zone_def w_def)
  have "media d i = media (dev s) i" if "unat (e_start e) \<le> i" "i < unat (e_start e) + unat (e_length e)" for i
  proof (cases "e_zone e = z")
    case True
    then have "i < w" using that assms(4) by (auto simp: extent_in_def w_def)
    then show ?thesis using out by blast
  next
    case ne: False
    have "i \<in> zone_range (be_zone_sz be (dev s)) (zheap s (e_zone e))"
      using extent_in_range [OF assms(4,2)] that by blast
    moreover have "e_zone e \<in> set (io_zones s)" using assms(4) by (simp add: extent_in_def)
    ultimately have "i \<notin> zone_range (be_zone_sz be (dev s)) (zheap s z)"
      using assms(2,3) ne unfolding disk_ok_def by blast
    moreover have "{w ..< w + length data} \<subseteq> zone_range (be_zone_sz be (dev s)) (zheap s z)"
      using wf False by (cases "z_capacity (zheap s z) = 0") (auto simp: zone_range_def zone_wf_def w_def word_le_nat_alt)
    ultimately show ?thesis using out by (metis atLeastLessThan_iff not_le subsetD)
  qed
  then have "bytes_of media s1 e = bytes_of media s e"
    unfolding bytes_of_def s1 by (intro media_slice_cong) (simp add: append_result_def upd_zone_def)
  then show ?thesis using x by blast
qed

lemma MigrateData_complete:
  fixes s s' :: "('d, 'x) fdev_scheme"
  assumes "MigrateData_loop be z rs off len s = Some (st, s')" "disk_ok be s" "z \<in> set (io_zones s)"
    and "b = unat (be_block_sz be (dev s))" "copy_room b rs off len"
    and "extent_in s \<lparr>e_start = off, e_length = ucast len, e_zone = q, e_level = l\<rparr>"
    and "unat (z_wp (zheap s' z)) = unat (z_wp (zheap s z)) + roundup b (unat len)"
  shows "data_stays be media s s' \<and>
    media_slice (media (dev s')) (unat (z_wp (zheap s z))) (unat len) = media_slice (media (dev s)) (unat off) (unat len)"
  using assms
proof (induction "unat len" arbitrary: rs off len s rule: less_induct)
  case less
  show ?case
  proof (cases "len = 0")
    case True
    then show ?thesis using less.prems(1) by (simp add: MigrateData_loop.simps)
  next
    case False
    have "0 < unat len" "0 < b" using False less.prems(5) by (simp_all add: unat_gt_0 copy_room_def)
    then have pos: "0 < roundup b (unat len)" using roundup_le(1) [of b "unat len"] by linarith
    from less.prems(1) False less.prems(4,5) show ?thesis
    proof (cases rule: MigrateData_step)
      case failed
      then show ?thesis using less.prems(7) pos by simp
    next
      case (copied m d ap s2)
      let ?c = "chunk rs len" and ?s1 = "s\<lparr>dev := d\<rparr>" and ?w = "unat (z_wp (zheap s z))"
      let ?data = "media_slice (media (dev s)) (unat off) m"
      note nx = copy_room_next [OF less.prems(5) False copied(3)]
      have s1: "data_stays be media s ?s1" by (rule data_stays_dev [OF copied(1,2)])
      then have ok1: "disk_ok be ?s1" "z \<in> set (io_zones ?s1)" using less.prems(2,3) by (auto simp: data_stays_def extents_stay_def)
      have g: "be_zone_sz be d = be_zone_sz be (dev s)" "be_block_sz be d = be_block_sz be (dev s)"
        using copied(2) by (simp_all add: geometry_def)
      from append_io [OF copied(4) ok1, of 0]
      obtain k d2 where k: "s2 = append_result z k d2 ?s1" "meta_stays be ?s1 s2" "geometry be d2 = geometry be d"
        "ap = OK \<longrightarrow> k = m \<and> media_slice (media d2) ?w m = ?data" "unat (z_wp (zheap s2 z)) = ?w + k"
        "unat (be_block_sz be (dev ?s1)) dvd k \<longrightarrow> disk_ok be s2"
        by auto
      have wf1: "zone_wf (be_zone_sz be (dev ?s1)) (zheap ?s1 z)" using ok1 by (simp add: disk_ok_def)
      have km: "k \<le> m" using Zone_Append_effect [OF wf1, of ?data] copied(4) k(5) by auto
      have d2: "dev s2 = d2" by (simp add: k(1) append_result_def upd_zone_def)
      have g2: "be_zone_sz be (dev s2) = be_zone_sz be (dev s)" "b = unat (be_block_sz be (dev s2))"
        using k(3) g less.prems(4) d2 by (simp_all add: geometry_def)
      have wf2: "zone_wf (be_zone_sz be (dev s2)) (zheap s2 z)"
        using Zone_Append_effect [OF wf1, of ?data] copied(4) append_zone_wf [OF wf1] unfolding g2
        by (auto simp: append_result_def upd_zone_def g)
      note bd = MigrateData_bound [OF copied(5) wf2 g2(2) nx(1)]
      have full: "k = roundup b (unat ?c)" "m = roundup b (unat ?c)"
        "unat (z_wp (zheap s' z)) = unat (z_wp (zheap s2 z)) + roundup b (unat (len - ?c))"
        using bd less.prems(7) k(5) nx(2) km copied(3) by linarith+
      have ok: "ap = OK" using append_incomplete [OF copied(4) _ wf1] full(1,2) k(5) by force
      have b0: "0 < b" using less.prems(5) by (simp add: copy_room_def)
      have "unat (be_block_sz be (dev ?s1)) dvd k" using roundup_dvd [OF b0] g less.prems(4) by (simp add: full(1))
      then have ok2: "disk_ok be s2" using k(6) by blast
      have st2: "data_stays be media ?s1 s2"
        using k(2) ok2 append_extents [OF copied(4) ok1]
        by (simp add: data_stays_def extents_stay_def k(1) append_result_def upd_zone_def)
      note S = data_stays_trans [OF s1 st2]
      have z2: "z \<in> set (io_zones s2)" using data_stays_zones [OF S] less.prems(3) by simp
      let ?rest = "\<lparr>e_start = off + of_nat m, e_length = ucast (len - ?c), e_zone = q, e_level = l\<rparr>"
      have first: "media_slice (media d2) ?w (unat ?c) = media_slice (media (dev s)) (unat off) (unat ?c)"
      proof -
        have "unat ?c \<le> m" using roundup_le(1) [OF b0] full(2) by simp
        then show ?thesis using k(4) ok take_media_slice by metis
      qed
      show ?thesis
      proof (cases "len - ?c = 0")
        case True
        then have "s' = s2" using copied(5) by (simp add: MigrateData_loop.simps)
        moreover have "?c = len" using True by (simp split: if_splits)
        ultimately show ?thesis using S first d2 by simp
      next
        case more: False
        have c: "unat ?c + unat (len - ?c) = unat len" "m = unat ?c"
          using nx(6) [OF more] full(2) by (auto simp: unat_sub word_less_nat_alt word_le_nat_alt)
        have "extent_in s ?rest"
          using less.prems(6) nx(5) c by (simp add: extent_in_def unat_ucast_u64)
        then have r2: "extent_in s2 ?rest" "bytes_of media s2 ?rest = bytes_of media s ?rest"
          using S less.prems(2) by (auto simp: data_stays_def extents_stay_def)
        note IH = less.hyps [OF nx(3) copied(5) ok2 z2 g2(2) nx(1) r2(1) full(3)]
        have w2: "unat (z_wp (zheap s2 z)) = ?w + unat ?c" using k(5) full c(2) by simp
        let ?done = "\<lparr>e_start = z_wp (zheap s z), e_length = ucast ?c, e_zone = z, e_level = l\<rparr>"
        have "extent_in s2 ?done"
          using z2 w2 wf1 by (auto simp: extent_in_def unat_ucast_u64 k(1) append_result_def upd_zone_def zone_wf_def word_le_nat_alt)
        then have "bytes_of media s' ?done = bytes_of media s2 ?done" using IH ok2 by (auto simp: data_stays_def extents_stay_def)
        then have "media_slice (media (dev s')) ?w (unat ?c) = media_slice (media (dev s)) (unat off) (unat ?c)"
          using first d2 by (simp add: bytes_of_def unat_ucast_u64)
        moreover have "media_slice (media (dev s')) (?w + unat ?c) (unat (len - ?c)) =
            media_slice (media (dev s)) (unat off + unat ?c) (unat (len - ?c))"
          using IH w2 r2(2) nx(5) c(2) by (simp add: bytes_of_def unat_ucast_u64)
        ultimately have "media_slice (media (dev s')) ?w (unat ?c + unat (len - ?c)) =
            media_slice (media (dev s)) (unat off) (unat ?c + unat (len - ?c))"
          by (simp only: media_slice_add)
        then show ?thesis using data_stays_trans [OF S] IH c(1) by simp
      qed
    qed
  qed
qed

end

section \<open>Migrating the extents of a file\<close>

text \<open>The zones are in order, blocks are a power of two up to 128 KiB, and the device does not reach the end of
  the address space.\<close>

definition gc_ready :: "('d, 'b) backend_scheme \<Rightarrow> ('d, 'm) zbd_scheme \<Rightarrow> bool" where
  "gc_ready be s \<longleftrightarrow> disk_ok be s \<and> 0 < unat (be_block_sz be (dev s)) \<and> unat (be_block_sz be (dev s)) dvd 2 ^ 17 \<and>
    (\<forall>p \<in> set (io_zones s). unat (z_start (zheap s p)) + unat (be_zone_sz be (dev s)) + 2 ^ 17 < 2 ^ 64)"

lemma gc_ready_stays: "data_stays be media s s' \<Longrightarrow> gc_ready be s \<Longrightarrow> gc_ready be s'"
  by (simp add: gc_ready_def data_stays_def extents_stay_def meta_stays_def geometry_def)

text \<open>Every copy that \<open>migrate_loop\<close> makes is complete.\<close>

definition copy_complete :: "('d, 'a) sysenv \<Rightarrow> fptr \<Rightarrow> extent \<Rightarrow> ('d, 'a, 'z) zenfs_scheme \<Rightarrow> bool" where
  "copy_complete E f e s =
    (case TakeMigrateZone (sys_penv E) (sys_be E) f (f_lifetime (fheap s f)) (ucast (e_length e)) s of
       Some (st, Some z, s1) \<Rightarrow>
         st = OK \<longrightarrow> (case copy_extent E f e z s1 of
           None \<Rightarrow> True
         | Some s2 \<Rightarrow> unat (z_wp (zheap s2 z)) =
             unat (z_wp (zheap s1 z)) + roundup (unat (be_block_sz (sys_be E) (dev s1))) (unat (e_length e)))
     | _ \<Rightarrow> True)"

fun copies_complete :: "('d, 'a) sysenv \<Rightarrow> string \<Rightarrow> fptr \<Rightarrow> extent_snapshot list \<Rightarrow> extent list
    \<Rightarrow> ('d, 'a, 'z) zenfs_scheme \<Rightarrow> bool" where
  "copies_complete E fname f exts [] s = True"
| "copies_complete E fname f exts (e # es) s =
    (if \<not> list_ex (\<lambda>x. es_start x = e_start e \<and> es_length x = e_length e) exts
     then copies_complete E fname f exts es s
     else copy_complete E f e s \<and>
       (case migrate_extent E fname f e s of
          Some (True, _, s1) \<Rightarrow> copies_complete E fname f exts es s1 | _ \<Rightarrow> True))"

locale collecting_zenfs = persistent_zenfs E media + steady_storage "sys_be E" media
    + zone_allocation "sys_be E" media "sys_penv E"
  for E :: "('d, 'a) sysenv" and media :: "'d \<Rightarrow> nat \<Rightarrow> byte"
begin

abbreviation (input) be where "be \<equiv> sys_be E"

lemma take_zone_stays:
  assumes "TakeMigrateZone (sys_penv E) be f fl minc s = Some (st, out, s')" "disk_ok be s"
  shows "data_stays be media s s' \<and> (\<forall>z. out = Some z \<longrightarrow> z \<in> set (io_zones s))"
proof -
  obtain s1 where A: "AllocateIOZoneNoLock (sys_penv E) be fl (f_io_type (fheap s f)) f (ucast minc) (s\<lparr>migrating := True\<rparr>) = Some (st, out, s1)"
    and s': "s' = s1 \<or> s' = s1\<lparr>migrating := False\<rparr>"
    using assms(1) by (auto simp: TakeMigrateZone_def split: if_splits option.splits)
  have ok: "distinct (io_zones (s\<lparr>migrating := True\<rparr>))" "index_ok (s\<lparr>migrating := True\<rparr>)"
    using assms(2) by (simp_all add: disk_ok_def index_ok_def)
  note D = AllocateIOZoneNoLock_data_frame [OF A ok]
  have "data_stays be media s (s\<lparr>migrating := True\<rparr>)" by simp
  moreover have "data_stays be media (s\<lparr>migrating := True\<rparr>) s1"
    using D by (intro data_stays_io data_frame_stays) blast+
  ultimately have "data_stays be media s s1" by (rule data_stays_trans)
  then show ?thesis using s' D by auto
qed

lemma release_zone_stays:
  assumes "ReleaseMigrateZone be out s = (st, s')" "\<forall>z. out = Some z \<longrightarrow> z \<in> set (io_zones s)"
  shows "data_stays be media s s'"
proof (cases out)
  case None
  then show ?thesis using assms(1) by (auto simp: ReleaseMigrateZone_def)
next
  case (Some z)
  let ?s = "s\<lparr>migrating := False\<rparr>"
  obtain st1 s1 where C: "Zone_Close be z ?s = (st1, s1)" by fastforce
  have "\<exists>d. s1 = ?s\<lparr>dev := d\<rparr> \<and> media d = media (dev s) \<and> geometry be d = geometry be (dev s)"
  proof (cases "IsEmpty (zheap s z) \<or> IsFull (zheap s z)")
    case True
    then show ?thesis using C by (auto simp: Zone_Close_def intro: exI [of _ "dev s"])
  next
    case False
    obtain st2 d where "be_Close be (z_start (zheap s z)) (dev s) = (st2, d)" by fastforce
    then show ?thesis using C False close_media close_geometry by (auto simp: Zone_Close_def)
  qed
  then obtain d where d: "s1 = ?s\<lparr>dev := d\<rparr>" "media d = media (dev s)" "geometry be d = geometry be (dev s)" by blast
  have S1: "data_stays be media s s1" unfolding d(1) by (rule data_stays_trans [OF _ data_stays_dev]) (simp_all add: d)
  obtain st2 s2 where R: "Zone_CheckRelease z s1 = (st2, s2)" by fastforce
  have "data_stays be media s1 s2"
    using R assms(2) Some d(1)
    by (intro data_stays_book) (auto simp: Zone_CheckRelease_def Zone_Release_def upd_zone_def split: if_splits)
  note S2 = data_stays_trans [OF S1 this]
  show ?thesis using assms(1) Some C R S1 S2 by (auto simp: ReleaseMigrateZone_def Let_def split: if_splits)
qed

lemma copy_extent_bytes:
  assumes C: "copy_extent E f e z s = Some s'" and ok: "gc_ready be s" "z \<in> set (io_zones s)" "extent_in s e"
    and sp: "\<not> f_is_sparse (fheap s f)"
    and full: "unat (z_wp (zheap s' z)) = unat (z_wp (zheap s z)) + roundup (unat (be_block_sz be (dev s))) (unat (e_length e))"
  shows "data_stays be media s s' \<and> media_slice (media (dev s')) (unat (z_wp (zheap s z))) (unat (e_length e)) = bytes_of media s e"
proof -
  let ?b = "unat (be_block_sz be (dev s))" and ?n = "unat (e_length e)" and ?l = "ucast (e_length e) :: u32"
  obtain st s1 where M: "MigrateData be (e_start e) ?l z s = Some (st, s1)"
    and s': "s' = s1\<lparr>gc_bytes_written := gc_bytes_written s1 + e_length e\<rparr>"
    using C sp by (auto simp: copy_extent_def Let_def split: bind_splits)
  have d: "disk_ok be s" "0 < ?b" "?b dvd 2 ^ 17" using ok(1) by (auto simp: gc_ready_def)
  have wf: "zone_wf (be_zone_sz be (dev s)) (zheap s z)" using d(1) ok(2) by (simp add: disk_ok_def)
  have wfe: "zone_wf (be_zone_sz be (dev s)) (zheap s (e_zone e))" "unat (z_start (zheap s (e_zone e))) + unat (be_zone_sz be (dev s)) + 2 ^ 17 < 2 ^ 64"
    using d(1) ok(1,3) by (auto simp: disk_ok_def extent_in_def gc_ready_def)
  have full1: "unat (z_wp (zheap s1 z)) = unat (z_wp (zheap s z)) + roundup ?b ?n" using full s' by simp
  show ?thesis
  proof (cases "e_start e mod of_int (sint (be_block_sz be (dev s))) = 0")
    case False
    have b0: "be_block_sz be (dev s) \<noteq> 0" using d(2) by auto
    have "s1 = s" using M unfolding MigrateData_def Let_def if_not_P [OF b0] if_P [OF False] by simp
    then have "roundup ?b ?n = 0" using full1 by simp
    then have "?n = 0" using roundup_le(1) [OF d(2), of ?n] by simp
    then show ?thesis using s' \<open>s1 = s\<close> by (simp add: bytes_of_def)
  next
    case True
    have b0: "be_block_sz be (dev s) \<noteq> 0" using d(2) by auto
    have L: "MigrateData_loop be z (128 * 1024) (e_start e) ?l s = Some (st, s1)"
      using M True b0 by (simp add: MigrateData_def Let_def)
    have "unat (e_start e) + ?n \<le> unat (z_start (zheap s (e_zone e))) + unat (be_zone_sz be (dev s))"
      using ok(3) wfe(1) by (auto simp: extent_in_def zone_wf_def)
    moreover have l: "unat ?l = ?n mod 2 ^ 32" by (simp add: unsigned_ucast_eq take_bit_eq_mod)
    ultimately have room: "copy_room ?b (128 * 1024) (e_start e) ?l"
      using d wfe(2) mod_less_eq_dividend [of ?n "2 ^ 32"] by (auto simp: copy_room_def)
    have "roundup ?b ?n \<le> roundup ?b (unat ?l)" using MigrateData_bound [OF L wf refl room] full1 by simp
    moreover have "roundup ?b ?n = 2 ^ 32 * (?n div 2 ^ 32) + roundup ?b (unat ?l)"
    proof -
      have "(2 :: nat) ^ 17 dvd 2 ^ 32" by (rule le_imp_power_dvd) simp
      then have "?b dvd 2 ^ 32 * (?n div 2 ^ 32)" using d(3) dvd_trans dvd_mult2 by blast
      then have "roundup ?b (2 ^ 32 * (?n div 2 ^ 32) + ?n mod 2 ^ 32) = 2 ^ 32 * (?n div 2 ^ 32) + roundup ?b (?n mod 2 ^ 32)"
        using d(2) by (rule roundup_shift)
      then show ?thesis by (simp add: l)
    qed
    ultimately have "?n div 2 ^ 32 = 0" by simp
    then have n: "unat ?l = ?n" unfolding l by (simp add: div_eq_0_iff)
    have "ucast ?l = e_length e" using n unat_ucast_u64 [of ?l] by (simp add: word_unat_eq_iff)
    then have x: "extent_in s \<lparr>e_start = e_start e, e_length = ucast ?l, e_zone = e_zone e, e_level = 0\<rparr>"
      using ok(3) by (simp add: extent_in_def)
    from MigrateData_complete [OF L d(1) ok(2) refl room x] full1 n
    show ?thesis using s' by (simp add: bytes_of_def)
  qed
qed

lemma migrate_extent_bytes:
  assumes M: "migrate_extent E fname f e s = Some (go, e', s')" and ok: "gc_ready be s" "extent_in s e"
    and sp: "\<not> f_is_sparse (fheap s f)" and cc: "copy_complete E f e s"
  shows "data_stays be media s s' \<and> extent_in s' e' \<and> e_length e' = e_length e \<and> bytes_of media s' e' = bytes_of media s e"
proof -
  have d: "disk_ok be s" using ok(1) by (simp add: gc_ready_def)
  obtain st target s1 where T: "TakeMigrateZone (sys_penv E) be f (f_lifetime (fheap s f)) (ucast (e_length e)) s = Some (st, target, s1)"
    using M by (auto simp: migrate_extent_def split: bind_splits)
  have S1: "data_stays be media s s1" "\<forall>z. target = Some z \<longrightarrow> z \<in> set (io_zones s)" using take_zone_stays [OF T d] by auto
  have same: ?thesis if "data_stays be media s s'" "e' = e"
    using that d ok(2) by (simp add: data_stays_def extents_stay_def)
  have rel: "data_stays be media t (snd (ReleaseMigrateZone be out t))" if "\<forall>z. out = Some z \<longrightarrow> z \<in> set (io_zones t)" for out t
    using release_zone_stays [OF prod.collapse [symmetric] that] .
  show ?thesis
  proof (cases "st = OK \<and> target \<noteq> None")
    case False
    have "data_stays be media s (snd (ReleaseMigrateZone be None s1))" by (rule data_stays_trans [OF S1(1) rel]) simp
    moreover have "e' = e \<and> (s' = s1 \<or> s' = snd (ReleaseMigrateZone be None s1))"
      using M T False by (auto simp: migrate_extent_def split: if_splits)
    ultimately show ?thesis using same S1(1) by blast
  next
    case True
    then obtain z where z: "target = Some z" "st = OK" by blast
    have ok1: "gc_ready be s1" "z \<in> set (io_zones s1)" "extent_in s1 e"
      using gc_ready_stays [OF S1(1) ok(1)] S1 z data_stays_zones [OF S1(1)] d ok(2) by (auto simp: data_stays_def extents_stay_def)
    have sp1: "\<not> f_is_sparse (fheap s1 f)"
      using S1(1) sp file_kept_fields(6) [of "fheap s1 f" "fheap s f"] by (simp add: data_stays_def)
    obtain s2 zfile where C: "copy_extent E f e z s1 = Some s2" "GetFileNoLock E fname s2 = Some zfile"
      and R: "(if zfile = None then (False, e, snd (ReleaseMigrateZone be target s2))
        else (True, e\<lparr>e_start := z_wp (zheap s1 z), e_zone := z\<rparr>,
           snd (ReleaseMigrateZone be target (charge z (e_length e) s2)))) = (go, e', s')"
      using M T z sp1 by (auto simp: migrate_extent_def Let_def split: bind_splits if_splits)
    have full: "unat (z_wp (zheap s2 z)) = unat (z_wp (zheap s1 z)) + roundup (unat (be_block_sz be (dev s1))) (unat (e_length e))"
      using cc T z C(1) by (simp add: copy_complete_def)
    note B = copy_extent_bytes [OF C(1) ok1 sp1 full]
    have S2: "data_stays be media s s2" using data_stays_trans [OF S1(1)] B by blast
    have z2: "z \<in> set (io_zones s2)" using data_stays_zones [OF S2] S1(2) z by simp
    show ?thesis
    proof (cases "zfile = None")
      case True
      have "data_stays be media s (snd (ReleaseMigrateZone be target s2))"
        by (rule data_stays_trans [OF S2 rel]) (use z z2 in simp)
      then show ?thesis using R True same by simp
    next
      case False
      let ?s3 = "charge z (e_length e) s2"
      have "data_stays be media s2 ?s3" using z2 by (rule data_stays_charge)
      moreover have "data_stays be media ?s3 s'" using R False rel [of target ?s3] z z2 by (auto simp: charge_def upd_zone_def)
      ultimately have S3: "data_stays be media s2 s'" by (rule data_stays_trans)
      have e': "e' = e\<lparr>e_start := z_wp (zheap s1 z), e_zone := z\<rparr>" using R False by simp
      have d2: "disk_ok be s2" "disk_ok be s1" using S2 d ok1(1) by (auto simp: data_stays_def extents_stay_def gc_ready_def)
      have wf: "unat (z_start (zheap s2 z)) \<le> unat (z_wp (zheap s1 z))"
        using B d2(2) ok1(2) by (auto simp: data_stays_def meta_stays_def disk_ok_def zone_wf_def word_le_nat_alt)
      have "0 < unat (be_block_sz be (dev s1))" using ok1(1) by (simp add: gc_ready_def)
      then have "extent_in s2 e'" using z2 wf full roundup_le(1) [of _ "unat (e_length e)"] by (simp add: e' extent_in_def)
      moreover have "bytes_of media s2 e' = bytes_of media s1 e" using B by (simp add: e' bytes_of_def)
      moreover have "bytes_of media s1 e = bytes_of media s e" using S1(1) d ok(2) by (simp add: data_stays_def extents_stay_def)
      ultimately show ?thesis using data_stays_trans [OF S2 S3] S3 d2(1) e' by (simp add: data_stays_def extents_stay_def)
    qed
  qed
qed

lemma migrate_loop_bytes:
  assumes "migrate_loop E fname f exts es s = Some (es', s')" "gc_ready be s" "list_all (extent_in s) es"
    "\<not> f_is_sparse (fheap s f)" "copies_complete E fname f exts es s"
  shows "data_stays be media s s' \<and> list_all (extent_in s') es' \<and> map e_length es' = map e_length es \<and>
    map (bytes_of media s') es' = map (bytes_of media s) es"
  using assms
proof (induction es arbitrary: es' s)
  case Nil
  then show ?case by simp
next
  case (Cons e es)
  have stay: "extent_in t' x \<and> bytes_of media t' x = bytes_of media t x"
    if "data_stays be media t t'" "gc_ready be t" "extent_in t x" for t t' x
    using that by (simp add: data_stays_def extents_stay_def gc_ready_def)
  show ?case
  proof (cases "list_ex (\<lambda>x. es_start x = e_start e \<and> es_length x = e_length e) exts")
    case False
    then obtain es1 where L: "migrate_loop E fname f exts es s = Some (es1, s')" "es' = e # es1"
      using Cons.prems(1) by auto
    from Cons.IH [OF L(1)] Cons.prems False have IH: "data_stays be media s s' \<and> list_all (extent_in s') es1 \<and>
      map e_length es1 = map e_length es \<and> map (bytes_of media s') es1 = map (bytes_of media s) es" by simp
    then show ?thesis using stay [of s s' e] Cons.prems(2,3) L(2) by simp
  next
    case True
    then obtain go e1 s1 where X: "migrate_extent E fname f e s = Some (go, e1, s1)"
      and R: "if \<not> go then es' = e1 # es \<and> s' = s1
        else \<exists>es1. migrate_loop E fname f exts es s1 = Some (es1, s') \<and> es' = e1 # es1"
      using Cons.prems(1) by (auto split: bind_splits if_splits)
    have cc: "copy_complete E f e s" using Cons.prems(5) True by simp
    have x: "data_stays be media s s1 \<and> extent_in s1 e1 \<and> e_length e1 = e_length e \<and> bytes_of media s1 e1 = bytes_of media s e"
      by (rule migrate_extent_bytes [OF X Cons.prems(2) _ Cons.prems(4) cc]) (use Cons.prems(3) in simp)
    have rest: "list_all (extent_in s1) es" "map (bytes_of media s1) es = map (bytes_of media s) es"
      using Cons.prems(2,3) x stay [of s s1] by (auto simp: list_all_iff)
    show ?thesis
    proof (cases go)
      case False
      then show ?thesis using R x rest by simp
    next
      case go: True
      then obtain es1 where L: "migrate_loop E fname f exts es s1 = Some (es1, s')" "es' = e1 # es1" using R by auto
      have r1: "gc_ready be s1" using gc_ready_stays x Cons.prems(2) by blast
      have "\<not> f_is_sparse (fheap s1 f)"
        using x Cons.prems(4) file_kept_fields(6) [of "fheap s1 f" "fheap s f"] by (simp add: data_stays_def)
      moreover have "copies_complete E fname f exts es s1" using Cons.prems(5) True X go by simp
      ultimately have IH: "data_stays be media s1 s' \<and> list_all (extent_in s') es1 \<and>
        map e_length es1 = map e_length es \<and> map (bytes_of media s') es1 = map (bytes_of media s1) es"
        using Cons.IH [OF L(1) r1 rest(1)] by blast
      have S: "data_stays be media s s'" using data_stays_trans x IH by blast
      have last: "extent_in s' e1 \<and> bytes_of media s' e1 = bytes_of media s1 e1" using stay [of s1 s' e1] x IH r1 by blast
      show ?thesis using S last IH x rest(2) L(2) by simp
    qed
  qed
qed

lemma uncharge_stays:
  assumes "uncharge_moved olds news s = Some s'" "list_all (extent_in s) olds"
  shows "data_stays be media s s' \<and> fheap s' = fheap s \<and> fs_files s' = fs_files s"
  using assms
proof (induction olds news s rule: uncharge_moved.induct)
  case (3 e es n ns s)
  let ?s1 = "if e_start e \<noteq> e_start n then upd_zone (e_zone e) (\<lambda>z. z\<lparr>z_used := z_used z - e_length e\<rparr>) s else s"
  have "data_stays be media s ?s1"
    by (rule data_stays_book) (use 3(3) in \<open>auto simp: upd_zone_def extent_in_def\<close>)
  moreover have "list_all (extent_in ?s1) es" using 3(3) by (auto simp: list_all_iff extent_in_def upd_zone_def)
  ultimately show ?case using 3(1) [OF 3(2) [unfolded uncharge_moved.simps]] data_stays_trans
    by (auto simp: upd_zone_def)
qed simp_all

lemma SyncFileExtents_stays:
  assumes S: "SyncFileExtents E f new s = Some (st, s')" and ok: "log_ok be s" "disk_ok be s" "file_in f s"
  shows "extents_stay be media s s' \<and> fs_files s' = fs_files s \<and> f_extents (fheap s' f) = new \<and>
    (\<forall>g. g \<noteq> f \<longrightarrow> f_extents (fheap s' g) = f_extents (fheap s g)) \<and>
    (\<forall>g. f_file_size (fheap s' g) = f_file_size (fheap s g))"
proof -
  let ?s0 = "upd_file f MetadataUnsynced (ReplaceExtentList new f s)"
  obtain st1 s1 where P: "SyncFileMetadataNoLock E True f ?s0 = Some (st1, s1)"
    and R: "s' = s1 \<or> uncharge_moved (f_extents (fheap s f)) new s1 = Some s'"
    using S by (auto simp: SyncFileExtents_def split: bind_splits if_splits)
  have s0: "log_ok be ?s0" "disk_ok be ?s0" "\<And>e. extent_in ?s0 e = extent_in s e" "\<And>e. bytes_of media ?s0 e = bytes_of media s e"
    using ok by (simp_all add: upd_file_def ReplaceExtentList_def log_ok_def meta_wf_def disk_ok_def index_ok_def
        extent_in_def bytes_of_def)
  note P1 = persisted_Sync [OF s0(1) P]
  have io: "io_stays be media ?s0 s1" using persisted_io_stays [OF P1 s0(1)] by blast
  have x1: "extents_stay be media s s1"
    using io_stays_bytes [OF io s0(2)] disk_ok_stays [OF io s0(2)] s0(3,4) by (simp add: extents_stay_def)
  have k1: "f_extents (fheap s1 g) = f_extents (fheap ?s0 g)" "f_file_size (fheap s1 g) = f_file_size (fheap ?s0 g)" for g
    using io by (auto simp: io_stays_def intro: file_kept_fields)
  have f1: "fs_files s1 = fs_files s" using P1 by (simp add: persisted_def upd_file_def ReplaceExtentList_def)
  have old: "list_all (extent_in s1) (f_extents (fheap s f))"
    using ok(2,3) x1 by (auto simp: file_in_def extents_stay_def list_all_iff)
  have x2: "extents_stay be media s1 s' \<and> fheap s' = fheap s1 \<and> fs_files s' = fs_files s1"
    using R uncharge_stays [OF _ old] by (auto simp: data_stays_def extents_stay_def)
  show ?thesis
    using extents_stay_trans [OF x1] x2 f1 k1
    by (simp add: upd_file_def ReplaceExtentList_def MetadataUnsynced_def)
qed

end

lemma content_bytes: "content (media (dev s)) es = concat (map (bytes_of media s) es)"
  by (simp add: content_def bytes_of_def [abs_def])

text \<open>All the copies that \<open>MigrateFileExtents\<close> makes are complete.\<close>

definition migration_complete :: "('d, 'a) sysenv \<Rightarrow> string \<Rightarrow> extent_snapshot list \<Rightarrow> ('d, 'a, 'z) zenfs_scheme \<Rightarrow> bool" where
  "migration_complete E fname exts s =
    (case GetFileNoLock E fname s of
       Some (Some f) \<Rightarrow>
         (let s1 = snd (TryAcquireWRLock f (hold_ref f s))
          in copies_complete E fname f exts (map (e_level_update (\<lambda>_. f_level (fheap s1 f))) (f_extents (fheap s1 f))) s1)
     | _ \<Rightarrow> True)"

text \<open>A file reads the same before and after.\<close>

definition same_file :: "('d \<Rightarrow> nat \<Rightarrow> byte) \<Rightarrow> fptr \<Rightarrow> ('d, 'm) fdev_scheme \<Rightarrow> ('d, 'm) fdev_scheme \<Rightarrow> bool" where
  "same_file media g s s' \<longleftrightarrow> file_in g s' \<and>
    content (media (dev s')) (f_extents (fheap s' g)) = content (media (dev s)) (f_extents (fheap s g)) \<and>
    f_file_size (fheap s' g) = f_file_size (fheap s g)"

lemma same_file_stays:
  assumes "extents_stay be media s s'" "disk_ok be s" "file_in g s"
    "f_extents (fheap s' g) = f_extents (fheap s g)" "f_file_size (fheap s' g) = f_file_size (fheap s g)"
  shows "same_file media g s s'"
proof -
  have "\<forall>e \<in> set (f_extents (fheap s g)). extent_in s' e \<and> bytes_of media s' e = bytes_of media s e"
    using assms(1-3) by (auto simp: extents_stay_def file_in_def list_all_iff)
  then have "map (bytes_of media s') (f_extents (fheap s g)) = map (bytes_of media s) (f_extents (fheap s g))"
    "list_all (extent_in s') (f_extents (fheap s g))" by (auto simp: list_all_iff)
  then show ?thesis using assms(4,5) unfolding same_file_def content_bytes file_in_def by metis
qed

text \<open>Locks and reference counts do not matter for what files hold.\<close>

lemma same_file_book:
  assumes "zheap t' = zheap t" "dev t' = dev t" "io_zones t' = io_zones t" "zone_start_to_pointer_map t' = zone_start_to_pointer_map t"
    "\<And>g. f_extents (fheap t' g) = f_extents (fheap t g)" "\<And>g. f_file_size (fheap t' g) = f_file_size (fheap t g)"
  shows "same_file media g s t' = same_file media g s t" "same_file media g t' u = same_file media g t u"
    "file_in g t' = file_in g t" "disk_ok be t' = disk_ok be t"
  using assms by (simp_all add: same_file_def file_in_def extent_in_def [abs_def] disk_ok_def index_ok_def)

context collecting_zenfs
begin

text \<open>The part of \<open>MigrateFileExtents\<close> under the file's lock.\<close>

lemma migrate_locked:
  fixes s s3 :: "('d, 'a, 'z) zenfs_scheme" and f :: fptr
  defines "es \<equiv> map (e_level_update (\<lambda>_. f_level (fheap s f))) (f_extents (fheap s f))"
  assumes L: "migrate_loop E fname f exts es s = Some (es', s2)" and Y: "SyncFileExtents E f es' s2 = Some (st, s3)"
    and ok: "gc_ready be s" "log_ok be s" "file_in f s" "\<not> f_is_sparse (fheap s f)"
    and full: "copies_complete E fname f exts es s"
  shows "fs_files s3 = fs_files s \<and> disk_ok be s3 \<and> (\<forall>g. file_in g s \<longrightarrow> same_file media g s s3)"
proof -
  have d: "disk_ok be s" using ok(1) by (simp add: gc_ready_def)
  have lv: "extent_in s (e_level_update h e) = extent_in s e" "bytes_of media s (e_level_update h e) = bytes_of media s e" for h e
    by (simp_all add: extent_in_def bytes_of_def)
  have "list_all (extent_in s) es" using ok(3) by (auto simp: es_def file_in_def list_all_iff lv)
  note B = migrate_loop_bytes [OF L ok(1) this ok(4) full]
  have S2: "data_stays be media s s2" using B by blast
  have r2: "log_ok be s2" "disk_ok be s2" using S2 log_ok_stays [OF ok(2)] d by (auto simp: data_stays_def extents_stay_def)
  have f2: "fs_files s2 = fs_files s" using S2 by (cases s2; cases s) (simp add: data_stays_def meta_stays_def)
  have k2: "f_extents (fheap s2 g) = f_extents (fheap s g)" "f_file_size (fheap s2 g) = f_file_size (fheap s g)" for g
    using S2 by (auto simp: data_stays_def intro: file_kept_fields)
  have "file_in f s2" using S2 d k2 ok(3) by (auto simp: file_in_def data_stays_def extents_stay_def list_all_iff)
  note Y1 = SyncFileExtents_stays [OF Y r2 this]
  have x: "extents_stay be media s s3" using extents_stay_trans [of be media s s2 s3] S2 Y1 by (simp add: data_stays_def)
  have "same_file media f s s3"
  proof -
    have "extent_in s3 e \<and> bytes_of media s3 e = bytes_of media s2 e" if "extent_in s2 e" for e
      using that Y1 r2(2) by (simp add: extents_stay_def)
    moreover have "list_all (extent_in s2) es'" using B by blast
    ultimately have "list_all (extent_in s3) es'" "map (bytes_of media s3) es' = map (bytes_of media s2) es'"
      by (auto simp: list_all_iff)
    moreover have "map (bytes_of media s2) es' = map (bytes_of media s) (f_extents (fheap s f))"
      using B by (simp add: es_def comp_def lv)
    ultimately show ?thesis using Y1 k2 unfolding same_file_def content_bytes file_in_def by metis
  qed
  moreover have "same_file media g s s3" if "g \<noteq> f" "file_in g s" for g
    by (rule same_file_stays [OF x d that(2)]) (use that Y1 k2 in simp_all)
  ultimately have "same_file media g s s3" if "file_in g s" for g using that by (cases "g = f") simp_all
  moreover have "disk_ok be s3" using x d by (simp add: extents_stay_def)
  ultimately show ?thesis using Y1 f2 by simp
qed

lemma MigrateFileExtents_keeps:
  fixes s s' :: "('d, 'a, 'z) zenfs_scheme"
  assumes M: "MigrateFileExtents E fname exts s = Some (st, s')" and ok: "gc_ready be s" "log_ok be s"
    and files: "\<forall>f. GetFileNoLock E fname s = Some (Some f) \<longrightarrow> file_in f s \<and> \<not> f_is_sparse (fheap s f)"
    and full: "migration_complete E fname exts s"
  shows "st = OK \<and> disk_ok be s' \<and> (\<forall>g. file_in g s \<longrightarrow> same_file media g s s')"
proof -
  have self: "disk_ok be s \<and> (\<forall>g. file_in g s \<longrightarrow> same_file media g s s)" using ok(1) by (simp add: gc_ready_def same_file_def)
  obtain zfile where G: "GetFileNoLock E fname s = Some zfile" using M by (auto simp: MigrateFileExtents_def split: bind_splits)
  show ?thesis
  proof (cases zfile)
    case None
    then show ?thesis using M G self by (simp add: MigrateFileExtents_def)
  next
    case (Some f)
    let ?h = "hold_ref f s" and ?unref = "\<lambda>t. t\<lparr>fs_refs := (fs_refs t)(f := fs_refs t f - 1)\<rparr>"
    have shared: "f \<in> snd ` set (fs_files s)"
      using G Some by (auto simp: GetFileNoLock_def dest!: map_of_SomeD intro: rev_image_eqI)
    show ?thesis
    proof (cases "f_open_for_wr (fheap s f)")
      case True
      then have "st = OK \<and> s' = ?unref ?h"
        using M G Some shared
        by (auto simp: MigrateFileExtents_def TryAcquireWRLock_def hold_ref_def release_ref_def drop_shared_def)
      then show ?thesis using self same_file_book [of "?unref ?h" s] by (simp add: hold_ref_def)
    next
      case False
      define s1 where "s1 = upd_file f (f_open_for_wr_update (\<lambda>_. True)) ?h"
      have T: "TryAcquireWRLock f ?h = (True, s1)" using False by (simp add: TryAcquireWRLock_def s1_def hold_ref_def)
      obtain es' s2 st3 s3 where L: "migrate_loop E fname f exts
            (map (e_level_update (\<lambda>_. f_level (fheap s1 f))) (f_extents (fheap s1 f))) s1 = Some (es', s2)"
        and Y: "SyncFileExtents E f es' s2 = Some (st3, s3)" and Z: "release_ref f (ReleaseWRLock f s3) = Some s'" "st = OK"
        using M G Some T by (auto simp: MigrateFileExtents_def Let_def split: bind_splits)
      have b1: "same_file media g s1 u = same_file media g s u" "file_in g s1 = file_in g s" for g and u :: "('d, 'a, 'z) zenfs_scheme"
        by (rule same_file_book; simp add: s1_def hold_ref_def upd_file_def)+
      have r1: "gc_ready be s1" "log_ok be s1" "\<not> f_is_sparse (fheap s1 f)" "file_in f s1"
        using ok files G Some by (simp_all add: b1(2))
          (simp_all add: gc_ready_def log_ok_def meta_wf_def disk_ok_def index_ok_def s1_def hold_ref_def upd_file_def)
      have "copies_complete E fname f exts (map (e_level_update (\<lambda>_. f_level (fheap s1 f))) (f_extents (fheap s1 f))) s1"
        using full G Some T by (simp add: migration_complete_def Let_def)
      note K = migrate_locked [OF L Y r1(1,2,4,3) this]
      have "fs_files s1 = fs_files s" by (simp add: s1_def hold_ref_def upd_file_def)
      then have s': "s' = ?unref (ReleaseWRLock f s3)"
        using Z(1) K shared by (simp add: release_ref_def drop_shared_def ReleaseWRLock_def upd_file_def)
      have "same_file media g s s' = same_file media g s s3" "disk_ok be s' = disk_ok be s3" for g
        by (rule same_file_book; simp add: s' ReleaseWRLock_def upd_file_def)+
      then show ?thesis using K Z(2) by (simp add: b1)
    qed
  qed
qed

end


section \<open>A migration on the device in memory\<close>

text \<open>File \<open>/a.sst\<close> has ten bytes in zone 0; they are copied to zone 2.\<close>

interpretation sample_collector: collecting_zenfs sample_sys ram_bytes
  using ram.steady_storage_axioms sample_alloc.zone_allocation_axioms
  by (simp add: collecting_zenfs_def persistent_zenfs_def steady_storage_def sample_sys_def)

definition sample_snap :: "extent_snapshot list" where
  "sample_snap = [\<lparr>es_start = 0, es_length = 10, es_zone_start = 0, es_level = 0, es_filename = ''/a.sst''\<rparr>]"

lemma sample_gc_zone:
  assumes "s = sample_fs\<lparr>fheap := h, fs_refs := r\<rparr>" "f_level (h 0) = -1" "f_alloc_size (h 0) = 0" "f_io_type (h 0) = IO_kWAL"
    "f_lifetime (h 0) = 0" "f_linkfiles (h 0) = [''/a.sst'']"
  shows "TakeMigrateZone sample_env ram_backend 0 0 10 s =
    Some (OK, Some 2, acquired 2 (s\<lparr>migrating := True, need_flag := False, open_io_zones := 1\<rparr>))"
proof -
  let ?s = "s\<lparr>migrating := True, need_flag := False, open_io_zones := 1\<rparr>"
  have "pick_zone (\<lambda>z _. GetLifeTimeDiff (z_lifetime z) 0) (\<lambda>diff best. diff \<le> best) 0 (zheap ?s)
      (all_zones ?s) (None, 100) = (Some 2, 0)"
    by (simp add: pick_zone_def pick_step_def all_zones_def suitable_def GetLifeTimeDiff_def sample_fs_eval zone_ops assms(1))
  then have "GetBestOpenZoneMatch sample_env 0 0 10 100 ?s = Some (OK, 0, Some 2, acquired 2 ?s)"
    using assms by (simp add: GetBestOpenZoneMatch_def MatchLifetimeBased_eq holding_def)
  moreover have "WaitForOpenIOZoneToken True (s\<lparr>migrating := True, need_flag := False\<rparr>) = Some ?s"
    by (simp add: token_ops allocator_open_limit_def sample_fs_eval assms(1))
  moreover have "f_level (fheap s 0) = -1" "f_alloc_size (fheap s 0) = 0"
    "GetFilename (fheap (acquired 2 ?s) 0) \<noteq> None" "zone_deferred_status s = OK"
    "\<not> uint (max_level (params s)) < -1"  "\<not> migrating s" "f_io_type (fheap s 0) = IO_kWAL" 
    using assms by (simp_all add: sample_fs_eval GetFilename_def acquired_def upd_zone_def)
  ultimately show ?thesis
    by (auto simp: TakeMigrateZone_def AllocateIOZoneNoLock_def Let_def GetZoneDeferredStatus_def use_match_def)
qed

lemma sample_gc_copy:
  assumes "dev s = dev sample_fs" "zheap s 2 = (sample_zone 8192 2944 64)\<lparr>z_busy := True\<rparr>" "\<not> f_is_sparse (fheap s 0)"
  shows "\<exists>d. copy_extent sample_sys 0 \<lparr>e_start = 0, e_length = 10, e_zone = 0, e_level = l\<rparr> 2 s =
    Some ((append_result 2 64 d s)\<lparr>gc_bytes_written := gc_bytes_written s + 10\<rparr>) \<and> zb_zone_sz d = zb_zone_sz (dev s)"
proof -
  have b: "zb_block_sz (dev s) = 64" using assms(1) by (simp add: sample_fs_eval)
  define data where "data = media_slice (ram_bytes (dev s)) 0 64"
  have len: "length data = 64" by (simp add: data_def)
  have R: "Zbd_Read ram_backend 0 64 True s = Some (64, data, s)"
    using ram_Zbd_Read [of 64 0 True s] by (simp add: data_def)
  have "Zone_Append ram_backend 2 data s = Some (OK, append_result 2 (length data)
      (snd (be_Write ram_backend data (z_wp (zheap s 2)) (dev s))) s)"
    by (rule ram_Zone_Append) (use assms len in \<open>auto simp: sample_fs_eval ram_accepts_def\<close>)
  then have "\<exists>d. MigrateData_loop ram_backend 2 131072 0 10 s = Some (OK, append_result 2 64 d s) \<and> zb_zone_sz d = zb_zone_sz (dev s)"
    using R b len by (auto simp: MigrateData_loop.simps Let_def Zbdlib_Write_def split: prod.split)
  then show ?thesis using assms(3) b
    by (auto simp: copy_extent_def MigrateData_def Let_def sample_sys_def append_result_def upd_zone_def)
qed


definition sample_locked :: "(ram zbdlib, nat) zenfs" where
  "sample_locked = upd_file 0 (f_open_for_wr_update (\<lambda>_. True)) (hold_ref 0 sample_fs)"

lemmas sample_locked_eval = sample_locked_def hold_ref_def upd_file_def sample_fs_eval

lemma release_zone_frame:
  assumes "t = snd (ReleaseMigrateZone ram_backend (Some z) s)"
  shows "p \<noteq> z \<Longrightarrow> zheap t p = zheap s p" "zbd.more t = zbd.more s" "zb_zone_sz (dev t) = zb_zone_sz (dev s)"
  using assms by (auto simp: ReleaseMigrateZone_def Zone_Close_def Zone_CheckRelease_def Zone_Release_def token_ops upd_zone_def Let_def
      Zbdlib_Close_def split: prod.splits if_splits)

lemma sample_gc_migrate:
  defines "es \<equiv> [\<lparr>e_start = 0, e_length = 10, e_zone = 0, e_level = -1\<rparr>]"
  shows "copies_complete sample_sys ''/a.sst'' 0 sample_snap es sample_locked"
    "\<exists>s2. migrate_loop sample_sys ''/a.sst'' 0 sample_snap es sample_locked =
       Some ([\<lparr>e_start = 11136, e_length = 10, e_zone = 2, e_level = -1\<rparr>], s2) \<and>
       zbd.more s2 = zbd.more sample_locked \<and> zheap s2 3 = sample_zone 12288 0 0 \<and> zb_zone_sz (dev s2) = 4096"
proof -
  define s1 where "s1 = acquired 2 (sample_locked\<lparr>migrating := True, need_flag := False, open_io_zones := 1\<rparr>)"
  have T: "TakeMigrateZone sample_env ram_backend 0 0 10 sample_locked = Some (OK, Some 2, s1)"
    unfolding s1_def by (rule sample_gc_zone [where h = "fheap sample_locked" and r = "fs_refs sample_locked"])
     (simp_all add: sample_locked_eval)
  have s1: "zbd.more s1 = zbd.more sample_locked" "zheap s1 3 = sample_zone 12288 0 0" "z_wp (zheap s1 2) = 11136"
    "zb_zone_sz (dev s1) = 4096" "zb_block_sz (dev s1) = 64" "\<not> f_is_sparse (fheap s1 0)"
    by (simp_all add: s1_def acquired_def upd_zone_def sample_locked_eval)
  obtain d where C: "copy_extent sample_sys 0 \<lparr>e_start = 0, e_length = 10, e_zone = 0, e_level = -1\<rparr> 2 s1 =
    Some ((append_result 2 64 d s1)\<lparr>gc_bytes_written := gc_bytes_written s1 + 10\<rparr>)" "zb_zone_sz d = 4096"
    using sample_gc_copy [of s1 "-1"] s1(4) by (auto simp: s1_def acquired_def upd_zone_def sample_locked_eval)
  define s2 where "s2 = (append_result 2 64 d s1)\<lparr>gc_bytes_written := gc_bytes_written s1 + 10\<rparr>"
  have s2: "zbd.more s2 = zbd.more sample_locked" "zheap s2 3 = sample_zone 12288 0 0" "z_wp (zheap s2 2) = 11136 + 64"
    "zb_zone_sz (dev s2) = 4096"
    using s1 C(2) by (simp_all add: s2_def append_result_def upd_zone_def)
  have G: "GetFileNoLock sample_sys ''/a.sst'' s2 = Some (Some 0)"
    by (rule sample_name) (use zenfs_more_eq(4) [OF s2(1)] in \<open>simp add: sample_locked_eval\<close>)
  define s3 where "s3 = snd (ReleaseMigrateZone ram_backend (Some 2) (charge 2 10 s2))"
  have s3: "zbd.more s3 = zbd.more sample_locked" "zheap s3 3 = sample_zone 12288 0 0" "zb_zone_sz (dev s3) = 4096"
    using release_zone_frame [OF s3_def] s2 by (simp_all add: charge_def upd_zone_def)
  have l: "f_lifetime (fheap sample_locked 0) = 0" by (simp add: sample_locked_eval)
  have M: "migrate_extent sample_sys ''/a.sst'' 0 \<lparr>e_start = 0, e_length = 10, e_zone = 0, e_level = -1\<rparr> sample_locked =
    Some (True, \<lparr>e_start = 11136, e_length = 10, e_zone = 2, e_level = -1\<rparr>, s3)"
    using T l s1(3,6) C(1) G by (simp add: migrate_extent_def sample_sys_def s3_def s2_def)
  then show "\<exists>s2. migrate_loop sample_sys ''/a.sst'' 0 sample_snap es sample_locked =
       Some ([\<lparr>e_start = 11136, e_length = 10, e_zone = 2, e_level = -1\<rparr>], s2) \<and>
       zbd.more s2 = zbd.more sample_locked \<and> zheap s2 3 = sample_zone 12288 0 0 \<and> zb_zone_sz (dev s2) = 4096"
    using s3 by (simp add: es_def sample_snap_def)
  show "copies_complete sample_sys ''/a.sst'' 0 sample_snap es sample_locked"
    using M T l C(1) s1(3,5) s2(3)
    by (simp add: es_def sample_snap_def copy_complete_def sample_sys_def s2_def roundup_def)
qed

abbreviation (input) sample_moved :: extent where
  "sample_moved \<equiv> \<lparr>e_start = 11136, e_length = 10, e_zone = 2, e_level = -1\<rparr>"

lemma sample_gc_sync:
  assumes "zbd.more s = zbd.more sample_locked" "zheap s 3 = sample_zone 12288 0 0" "zb_zone_sz (dev s) = 4096"
  shows "\<exists>st s'. SyncFileExtents sample_sys 0 [sample_moved] s = Some (st, s') \<and> fs_files s' = [(''/a.sst'', 0)]"
proof -
  let ?zf = "(fheap sample_locked 0)\<lparr>f_extents := [sample_moved], f_nr_synced_extents := 0\<rparr>"
  let ?rec = "EncodeFileUpdate le_coding True ?zf"
  define s1 where "s1 = upd_file 0 MetadataUnsynced (ReplaceExtentList [sample_moved] 0 s)"
  have fh: "fheap s = fheap sample_locked" "fs_meta_log s = Some sample_ml" "fs_files s = [(''/a.sst'', 0)]"
    using zenfs_more_eq [OF assms(1)] by (simp_all add: sample_locked_eval)
  have s1: "fheap s1 0 = ?zf" "fs_meta_log s1 = Some sample_ml" "fs_files s1 = [(''/a.sst'', 0)]" "zheap s1 3 = sample_zone 12288 0 0"
    "zb_zone_sz (dev s1) = 4096"
    using fh assms by (simp_all add: s1_def upd_file_def ReplaceExtentList_def MetadataUnsynced_def)
  have "length ?rec < 1000"
    using length_EncodeFileUpdate [of True ?zf] by (simp add: sample_locked_eval)
  then obtain ios n d where P: "PersistRecord sample_sys ?rec s1 = Some (ios, append_result 3 n d s1)"
    using sample_persist [OF sample_sys_sel s1(2,4,5)] by metis
  have nd: "\<not> f_is_deleted (fheap sample_locked 0)" "f_extents (fheap sample_locked 0) = [\<lparr>e_start = 0, e_length = 10, e_zone = 0, e_level = 0\<rparr>]"
    by (simp_all add: sample_locked_eval)
  have "SyncFileMetadataNoLock sample_sys True 0 s1 =
    Some (ios, if ios = OK then upd_file 0 MetadataSynced (append_result 3 n d s1) else append_result 3 n d s1)"
    using P s1(1) nd(1) by (simp add: SyncFileMetadataNoLock_def sample_sys_def Let_def)
  then show ?thesis
    unfolding SyncFileExtents_def Let_def s1_def [symmetric]
    using fh(1) nd(2) s1(3) by (auto simp: append_result_def upd_zone_def upd_file_def)
qed

lemma sample_locked_open:
  "TryAcquireWRLock 0 (hold_ref 0 sample_fs) = (True, sample_locked)"
  "f_level (fheap sample_locked 0) = -1" "f_extents (fheap sample_locked 0) = [\<lparr>e_start = 0, e_length = 10, e_zone = 0, e_level = 0\<rparr>]"
  by (simp_all add: TryAcquireWRLock_def sample_locked_eval)

lemma sample_gc_runs: "\<exists>st s'. MigrateFileExtents sample_sys ''/a.sst'' sample_snap sample_fs = Some (st, s')"
proof -
  obtain s2 where L: "migrate_loop sample_sys ''/a.sst'' 0 sample_snap [\<lparr>e_start = 0, e_length = 10, e_zone = 0, e_level = -1\<rparr>] sample_locked =
       Some ([sample_moved], s2)" "zbd.more s2 = zbd.more sample_locked" "zheap s2 3 = sample_zone 12288 0 0" "zb_zone_sz (dev s2) = 4096"
    using sample_gc_migrate(2) by blast
  obtain st s3 where S: "SyncFileExtents sample_sys 0 [sample_moved] s2 = Some (st, s3)" "fs_files s3 = [(''/a.sst'', 0)]"
    using sample_gc_sync [OF L(2-4)] by blast
  have R: "release_ref 0 (ReleaseWRLock 0 s3) \<noteq> None"
    using S(2) by (simp add: release_ref_def drop_shared_def ReleaseWRLock_def upd_file_def)
    show ?thesis using L(1) S(1) R sample_name [OF refl] by (auto simp: MigrateFileExtents_def Let_def sample_locked_open)
qed


section \<open>The zones to clean\<close>

lemma fold_choose:
  "sorted starts \<and> distinct starts \<Longrightarrow>
   (case fold choose_zone xs (starts, n, s) of (starts', n', s') \<Rightarrow>
      set starts' = set starts \<union> zs_start ` set xs \<and> sorted starts' \<and> distinct starts' \<and> n' = n + of_nat (length xs))"
proof (induction xs arbitrary: starts n s)
  case (Cons x xs)
  have "sorted (insort_insert (zs_start x) starts) \<and> distinct (insort_insert (zs_start x) starts)"
    using Cons.prems by (simp add: sorted_insort_insert distinct_insort_insert)
  note IH = Cons.IH [OF this, of "n + 1" "snd (snd (choose_zone x (starts, n, s)))"]
  have "choose_zone x (starts, n, s) = (insort_insert (zs_start x) starts, n + 1, snd (snd (choose_zone x (starts, n, s))))"
    by (simp add: choose_zone_def)
  then have "fold choose_zone (x # xs) (starts, n, s) =
    fold choose_zone xs (insort_insert (zs_start x) starts, n + 1, snd (snd (choose_zone x (starts, n, s))))" by simp
  then show ?case using IH by (simp add: set_insort_insert ac_simps split: prod.splits)
qed simp

lemma fold_if: "fold (\<lambda>x r. if P x then f x r else r) xs = fold f (filter P xs)"
  by (induction xs) (simp_all add: fun_eq_iff)

text \<open>What a full zone has to satisfy, in numbers: some live data, and less of it than the distance to the start
  level asks for.\<close>

definition worth_cleaning :: "nat \<Rightarrow> zone_snapshot \<Rightarrow> bool" where
  "worth_cleaning k x \<longleftrightarrow> zs_capacity x = 0 \<and> k \<le> 100 \<and>
    1 \<le> 100 * unat (zs_used_capacity x) div unat (zs_max_capacity x) \<and>
    100 * unat (zs_used_capacity x) div unat (zs_max_capacity x) < k"

definition zone_counts_ok :: "zone_snapshot \<Rightarrow> bool" where
  "zone_counts_ok x \<longleftrightarrow> zs_max_capacity x \<noteq> 0 \<and> zs_used_capacity x \<le> zs_max_capacity x \<and> 100 * unat (zs_max_capacity x) < 2 ^ 64"

lemma is_garbage_worth:
  assumes "zone_counts_ok x" "free \<le> start" "start < 100" "slope < (100 :: u64)"
  shows "is_garbage (gc_threshold start slope free) x = worth_cleaning (unat slope * (unat start - unat free)) x"
proof -
  let ?u = "unat (zs_used_capacity x)" and ?m = "unat (zs_max_capacity x)"
  define k where "k = unat slope * (unat start - unat free)"
  have b: "unat slope < 100" "unat start < 100" "unat free \<le> unat start" using assms by (simp_all add: word_less_nat_alt word_le_nat_alt)
  then have "k \<le> 100 * 100" unfolding k_def by (intro mult_le_mono) auto
  then have kb: "k < 2 ^ 64" by simp
  have d: "unat (start - free) = unat start - unat free" using b(3) by (simp add: unat_sub word_le_nat_alt)
  have kw: "unat (slope * (start - free)) = k" using kb by (simp add: unat_word_ariths d k_def)
  have um: "?u \<le> ?m" "0 < ?m" "100 * ?m < 2 ^ 64" using assms(1) by (auto simp: zone_counts_ok_def word_le_nat_alt unat_gt_0)
  have "unat (100 * zs_used_capacity x) = 100 * ?u" using um by (simp add: unat_word_ariths)
  then have q: "unat (100 * zs_used_capacity x div zs_max_capacity x) = 100 * ?u div ?m" by (simp add: unat_div_distrib)
  have q100: "100 * ?u div ?m \<le> 100" using um by (metis div_le_mono mult_le_mono2 nonzero_mult_div_cancel_right not_less_zero)
  have g: "unat (100 - 100 * zs_used_capacity x div zs_max_capacity x) = 100 - 100 * ?u div ?m"
    using q q100 by (subst unat_sub) (simp_all add: word_le_nat_alt)
  have t: "unat (gc_threshold start slope free) = (if k \<le> 100 then 100 - k else 2 ^ 64 + 100 - k)"
  proof (cases "k \<le> 100")
    case True
    then show ?thesis using kw unfolding gc_threshold_def by (subst unat_sub) (simp_all add: word_le_nat_alt)
  next
    case False
    then show ?thesis using kw kb unfolding gc_threshold_def by (simp add: unat_sub_if' word_le_nat_alt)
  qed
  show ?thesis
    unfolding is_garbage_def worth_cleaning_def Let_def k_def [symmetric] word_less_nat_alt g t
    using \<open>k \<le> 100 * 100\<close> q100 by auto
qed

text \<open>
  C37: Choosing zones. \<open>SelectGarbageZonesDefault\<close> chooses exactly the full zones that still hold some data but less,
  in percent, than slope times the distance of the free space from the start level, each once and in order. If
  that product is above 100, which the accepted parameters allow, the threshold wraps around and no zone is
  chosen, however full the device is.
\<close>

theorem SelectGarbageZonesDefault_selects:
  assumes "free \<le> start" "start < 100" "slope < 100" "\<forall>x \<in> set zones. zone_counts_ok x"
    and "SelectGarbageZonesDefault start slope zones free s = (starts, n, s')"
  shows "set starts = zs_start ` {x \<in> set zones. worth_cleaning (unat slope * (unat start - unat free)) x} \<and>
    sorted starts \<and> distinct starts \<and>
    n = of_nat (length (filter (worth_cleaning (unat slope * (unat start - unat free))) zones)) \<and>
    (100 < unat slope * (unat start - unat free) \<longrightarrow> starts = [])"
proof -
  let ?k = "unat slope * (unat start - unat free)"
  have "filter (is_garbage (gc_threshold start slope free)) zones = filter (worth_cleaning ?k) zones"
    using is_garbage_worth [OF _ assms(1-3)] assms(4) by (intro filter_cong) auto
  then have F: "fold choose_zone (filter (worth_cleaning ?k) zones) ([], 0, s) = (starts, n, s')"
    using assms(5) by (simp add: SelectGarbageZonesDefault_def fold_if)
  from fold_choose [of "[]" "filter (worth_cleaning ?k) zones" 0 s] F
  have "set starts = zs_start ` {x \<in> set zones. worth_cleaning ?k x}" "sorted starts" "distinct starts"
    "n = of_nat (length (filter (worth_cleaning ?k) zones))" by auto
  moreover from this(1) have "100 < ?k \<longrightarrow> starts = []" by (auto simp: worth_cleaning_def)
  ultimately show ?thesis by blast
qed

definition sample_zones :: "zone_snapshot list" where
  "sample_zones = [\<lparr>zs_start = 4096, zs_wp = 7168, zs_capacity = 0, zs_used_capacity = 1024, zs_max_capacity = 3072,
     zs_reset_count = 0, zs_finish_count = 0, zs_garbage_percent = 67\<rparr>]"

theorem SelectGarbageZonesDefault_selects_witness:
  "fst (SelectGarbageZonesDefault 20 3 sample_zones 5 sample_zbd) = [4096] \<and>
   fst (SelectGarbageZonesDefault 20 6 sample_zones 3 sample_zbd) = []"
proof -
  have ok: "\<forall>x \<in> set sample_zones. zone_counts_ok x" by (simp add: sample_zones_def zone_counts_ok_def)
  obtain st1 n1 s1 where A: "SelectGarbageZonesDefault 20 3 sample_zones 5 sample_zbd = (st1, n1, s1)" by (metis prod_cases3)
  obtain st2 n2 s2 where B: "SelectGarbageZonesDefault 20 6 sample_zones 3 sample_zbd = (st2, n2, s2)" by (metis prod_cases3)
  have "st1 = [4096]"
  proof -
    have "{x \<in> set sample_zones. worth_cleaning 45 x} = set sample_zones" by (auto simp: sample_zones_def worth_cleaning_def)
    with SelectGarbageZonesDefault_selects [OF _ _ _ ok A] have "set st1 = {4096}" "distinct st1" by (auto simp: sample_zones_def)
    then show ?thesis by (cases st1) (auto simp: subset_singleton_iff)
  qed
  moreover have "st2 = []" using SelectGarbageZonesDefault_selects [OF _ _ _ ok B] by simp
  ultimately show ?thesis using A B by simp
qed

end
