(* ===== verification/Zen_Space.thy ===== *)
theory Zen_Space
  imports Zen_Sample
begin

text \<open>
  The name space as a finite map. The operations of \<open>ZenFS\<close> on names keep the map and the lists of links in the
  file objects in agreement, whatever fails on the way, and act on the map as their names say; where they report
  success although nothing was changed, or destroy a file that is renamed onto itself, this is stated too.
\<close>

section \<open>The ordered map\<close>

definition map_wf :: "(string \<times> 'v) list \<Rightarrow> bool" where
  "map_wf xs \<longleftrightarrow> sorted_wrt (<) (map fst xs)"

lemma map_wf_Nil [simp]: "map_wf []" by (simp add: map_wf_def)

lemma map_wf_Cons: "map_wf ((k, v) # xs) \<longleftrightarrow> (\<forall>k' \<in> fst ` set xs. k < k') \<and> map_wf xs"
  by (auto simp: map_wf_def)

lemma set_map_insert: "fst ` set (map_insert k v xs) = insert k (fst ` set xs)"
  by (induction k v xs rule: map_insert.induct) auto

lemma map_wf_insert: "map_wf xs \<Longrightarrow> map_wf (map_insert k v xs)"
  by (induction k v xs rule: map_insert.induct) (auto simp: map_wf_Cons set_map_insert)

lemma map_of_insert:
  "map_wf xs \<Longrightarrow> map_of (map_insert k v xs) = (if k \<in> dom (map_of xs) then map_of xs else (map_of xs)(k \<mapsto> v))"
proof (induction k v xs rule: map_insert.induct)
  case (2 k v k' v' xs)
  have out: "k \<notin> dom (map_of xs)" if "k < k'"
    using that 2(2) by (auto simp: dom_map_of_conv_image_fst map_wf_Cons)
  show ?case
  proof (cases "k = k' \<or> k < k'")
    case True
    then show ?thesis using out by (auto simp: fun_eq_iff)
  next
    case False
    then show ?thesis using 2(1) 2(2) by (auto simp: map_wf_Cons fun_eq_iff)
  qed
qed simp

lemma map_of_erase: "map_of (map_erase k xs) = (map_of xs)(k := None)"
  by (induction xs) (auto simp: map_erase_def fun_eq_iff)

lemma map_wf_erase: "map_wf xs \<Longrightarrow> map_wf (map_erase k xs)"
  by (induction xs) (auto simp: map_erase_def map_wf_Cons)

lemmas map_ops = map_of_erase map_wf_erase map_of_insert map_wf_insert

section \<open>What concerns names\<close>

definition names :: "('d, 'a, 'z) zenfs_scheme \<Rightarrow> string \<Rightarrow> fptr option" where
  "names s = map_of (fs_files s)"

definition name_view :: "zonefile \<Rightarrow> string list \<times> bool \<times> u64" where
  "name_view zf = (f_linkfiles zf, f_is_deleted zf, f_file_id zf)"

definition same_names :: "('d, 'a, 'z) zenfs_scheme \<Rightarrow> ('d, 'a, 'z) zenfs_scheme \<Rightarrow> bool" where
  "same_names s s' \<longleftrightarrow> fs_files s' = fs_files s \<and> next_fptr s' = next_fptr s \<and>
    fs_next_file_id s' = fs_next_file_id s \<and> (\<forall>g. name_view (fheap s' g) = name_view (fheap s g))"

lemma same_names_refl [simp]: "same_names s s"
  by (simp add: same_names_def)

lemma same_names_trans [trans]: "same_names s s' \<Longrightarrow> same_names s' s'' \<Longrightarrow> same_names s s''"
  by (simp add: same_names_def)

lemma same_names_upd [simp]:
  "(\<And>zf. name_view (h zf) = name_view zf) \<Longrightarrow> same_names s (upd_file f h s') = same_names s s'"
  by (auto simp: same_names_def upd_file_def)

lemma same_names_fields [simp]:
  "same_names s (s'\<lparr>fs_meta_log := ml\<rparr>) = same_names s s'" "same_names s (s'\<lparr>fs_superblock := sb\<rparr>) = same_names s s'"
  "same_names s (s'\<lparr>fs_refs := r\<rparr>) = same_names s s'" "same_names s (s'\<lparr>fs_host := h\<rparr>) = same_names s s'"
  "same_names s (s'\<lparr>fs_bufcount := c\<rparr>) = same_names s s'" "same_names s (hold_ref f s') = same_names s s'"
  by (simp_all add: same_names_def hold_ref_def)

lemma name_view_sync [simp]: "name_view (MetadataSynced zf) = name_view zf"
  by (simp add: name_view_def MetadataSynced_def)

lemma same_names_more: "zbd.more s' = zbd.more s \<Longrightarrow> same_names s s'"
  for s s' :: "('d, 'a, 'z) zenfs_scheme"
  by (cases s; cases s') (simp add: same_names_def)

lemma same_names_synced: "same_names s (fold (\<lambda>(_, f). upd_file f MetadataSynced) fs s') = same_names s s'"
  by (induction fs arbitrary: s') (auto simp: case_prod_beta)

text \<open>Zone operations leave everything above the zones alone.\<close>

lemma more_append: "Zone_Append be p data s = Some (st, s') \<Longrightarrow> zbd.more s' = zbd.more s"
  by (auto simp: Zone_Append_def append_result_def upd_zone_def split: if_splits dest!: Zone_Append_loop_frame)

lemma more_AddRecord: "AddRecord c be ml data s = Some (st, s') \<Longrightarrow> zbd.more s' = zbd.more s"
  by (auto simp: AddRecord_def Let_def split: if_splits dest: more_append)

lemma more_zone_ops:
  "Zone_Reset be p s = (st, s') \<Longrightarrow> zbd.more s' = zbd.more s"
  "Zone_Finish be p s = (st, s') \<Longrightarrow> zbd.more s' = zbd.more s"
  "Zone_CheckRelease p s = (st, s') \<Longrightarrow> zbd.more s' = zbd.more s"
  "Zone_Acquire p s = (got, s') \<Longrightarrow> zbd.more s' = zbd.more s"
  "zbd.more (snd (Zone_Release p s)) = zbd.more s"
  by (auto simp: Zone_Reset_def Zone_Finish_def Zone_CheckRelease_def Zone_Release_def Zone_Acquire_def Let_def
      upd_zone_def split: prod.splits if_splits)

lemma more_AllocateMeta: "AllocateMetaZone be s = (st, z, s') \<Longrightarrow> zbd.more s' = zbd.more s"
proof -
  have "zbd.more s' = zbd.more s" if "AllocateMetaZone_loop be zs s = (st, z, s')" for zs s
    using that
  proof (induction zs arbitrary: s)
    case (Cons p zs)
    obtain got s1 where A: "Zone_Acquire p s = (got, s1)" by fastforce
    obtain r s2 where R: "Zone_Reset be p s1 = (r, s2)" by fastforce
    obtain r' s3 where C: "Zone_CheckRelease p s2 = (r', s3)" by fastforce
    note m = more_zone_ops(4) [OF A] more_zone_ops(1) [OF R] more_zone_ops(3) [OF C]
    show ?case using Cons.prems A R C m Cons.IH [of s1] Cons.IH [of s3]
      by (auto simp: AllocateMetaZone_loop.simps split: if_splits)
  qed simp
  then show "AllocateMetaZone be s = (st, z, s') \<Longrightarrow> zbd.more s' = zbd.more s" by (simp add: AllocateMetaZone_def)
qed

lemma more_ResetUnused: "ResetUnusedIOZones be gc s = (st, s') \<Longrightarrow> zbd.more s' = zbd.more s"
proof -
  have "zbd.more s' = zbd.more s" if "ResetUnusedIOZones_loop be gc zs s = (st, s')" for zs s
    using that
  proof (induction zs arbitrary: s)
    case (Cons p zs)
    obtain r s2 where R: "Zone_Reset be p s = (r, s2)" by fastforce
    show ?case using Cons.prems Cons.IH R more_zone_ops(1) [OF R]
      by (auto simp: ResetUnused_step reset_book_def Let_def token_ops upd_zone_def split: if_splits)
  qed simp
  then show "ResetUnusedIOZones be gc s = (st, s') \<Longrightarrow> zbd.more s' = zbd.more s" by (simp add: ResetUnusedIOZones_def)
qed

text \<open>Nor does writing metadata touch names.\<close>

lemma same_names_AddRecord: "AddRecord c be ml data s = Some (st, s') \<Longrightarrow> same_names s s'"
  for s s' :: "('d, 'a, 'z) zenfs_scheme"
  by (rule same_names_more) (rule more_AddRecord)

lemma same_names_WriteSnapshot: "WriteSnapshotLocked E ml s = Some (st, s') \<Longrightarrow> same_names s s'"
  by (auto simp: WriteSnapshotLocked_def same_names_synced split: bind_splits dest: same_names_AddRecord)

lemma same_names_close_log: "close_old_log E old s = Some s' \<Longrightarrow> same_names s s'"
  by (auto simp: close_old_log_def WriteEndRecord_def split: bind_splits if_splits
      dest!: same_names_AddRecord intro: same_names_trans same_names_more more_zone_ops(2) [OF prod.collapse [symmetric]])

lemma same_names_destroy: "same_names s (ZenMetaLog_destroy ml s') = same_names s s'"
  using same_names_more [OF more_zone_ops(5), of s' "ml_zone ml"]
  by (simp add: ZenMetaLog_destroy_def same_names_def)

lemma same_names_Roll:
  fixes s s' :: "('d, 'a, 'z) zenfs_scheme"
  assumes "RollMetaZoneLocked E s = Some (st, s')"
  shows "same_names s s'"
proof -
  obtain st0 zone s1 where A: "AllocateMetaZone (sys_be E) s = (st0, zone, s1)" by (metis prod_cases3)
  have s1: "same_names s s1" using A by (intro same_names_more more_AllocateMeta)
  have reset: "same_names t (snd (Zone_Reset (sys_be E) p t))" for t :: "('d, 'a, 'z) zenfs_scheme" and p
    using more_zone_ops(1) [OF prod.collapse [symmetric]] by (rule same_names_more)
  show ?thesis
  proof (cases "st0 = OK \<and> zone \<noteq> None")
    case False
    then show ?thesis using assms A s1 by (auto simp: RollMetaZoneLocked_def split: if_splits option.splits)
  next
    case True
    then obtain z where z: "zone = Some z" "st0 = OK" by blast
    define new where "new = ZenMetaLog_new (sys_be E) z s1"
    obtain old s2 sb st3 s3 where R: "fs_meta_log s1 = Some old" "close_old_log E old (s1\<lparr>fs_meta_log := Some new\<rparr>) = Some s2"
        "fs_superblock s2 = Some sb" "AddRecord (sys_coding E) (sys_be E) new (fst (Superblock_EncodeTo (sys_coding E) sb))
          (s2\<lparr>fs_superblock := Some (snd (Superblock_EncodeTo (sys_coding E) sb))\<rparr>) = Some (st3, s3)"
      and F: "if st3 \<noteq> OK then s' = ZenMetaLog_destroy old s3
        else \<exists>s4. WriteSnapshotLocked E new s3 = Some (st, s4) \<and>
          s' = ZenMetaLog_destroy old (if st = OK then snd (Zone_Reset (sys_be E) (ml_zone old) s4) else s4)"
      using assms A z
      by (auto simp: RollMetaZoneLocked_def Let_def new_def case_prod_beta split: bind_splits if_splits)
    have s2: "same_names s s2" using same_names_trans [OF _ same_names_close_log [OF R(2)]] s1 by simp
    have s3: "same_names s s3" using same_names_trans [OF _ same_names_AddRecord [OF R(4)]] s2 by simp
    show ?thesis
    proof (cases "st3 = OK")
      case False
      then show ?thesis using F s3 by (simp add: same_names_destroy)
    next
      case True
      then obtain s4 where W: "WriteSnapshotLocked E new s3 = Some (st, s4)"
        "s' = ZenMetaLog_destroy old (if st = OK then snd (Zone_Reset (sys_be E) (ml_zone old) s4) else s4)" using F by auto
      note s4 = same_names_trans [OF s3 same_names_WriteSnapshot [OF W(1)]]
      then show ?thesis using W(2) same_names_trans [OF s4 reset [of s4 "ml_zone old"]] by (simp add: same_names_destroy)
    qed
  qed
qed

lemma same_names_PersistRecord: "PersistRecord E rec s = Some (st, s') \<Longrightarrow> same_names s s'"
  by (auto simp: PersistRecord_def split: bind_splits if_splits
      dest!: same_names_AddRecord same_names_Roll intro: same_names_trans)

lemma same_names_Sync:
  assumes "SyncFileMetadataNoLock E replace f s = Some (st, s')"
  shows "same_names s s'"
proof -
  have t: "name_view (zf\<lparr>f_m_time := n\<rparr>) = name_view zf" for zf n by (simp add: name_view_def)
  then have m: "same_names s (upd_file f (f_m_time_update (\<lambda>_. n)) (s\<lparr>fs_host := h\<rparr>))" for n h
    by (simp add: same_names_upd)
  show ?thesis
    using assms
    by (auto simp: SyncFileMetadataNoLock_def Let_def case_prod_beta split: bind_splits if_splits
        dest!: same_names_PersistRecord intro: same_names_trans [OF m])
qed

lemma more_bytes: "UpdateBytesOfLevel p l n s = Some t \<Longrightarrow> zbd.more t = zbd.more s"
  by (auto simp: UpdateBytesOfLevel_def upd_zone_def Let_def split: if_splits)

lemma more_clear: "ClearExtents_loop es s = Some s' \<Longrightarrow> zbd.more s' = zbd.more s"
  by (induction es arbitrary: s)
    (auto simp: Let_def upd_zone_def split: if_splits option.splits dest!: more_bytes)

lemma same_names_ClearExtents: "ClearExtents f s = Some s' \<Longrightarrow> same_names s s'"
  for s s' :: "('d, 'a, 'z) zenfs_scheme"
  by (auto simp: ClearExtents_def name_view_def dest!: more_clear intro: same_names_more)

lemma same_names_drop: "drop_shared f s = Some s' \<Longrightarrow> same_names s s'"
  by (auto simp: drop_shared_def split: if_splits dest: same_names_ClearExtents)

lemma same_names_release: "release_ref f s = Some s' \<Longrightarrow> same_names s s'"
  using same_names_drop [of f "s\<lparr>fs_refs := (fs_refs s)(f := fs_refs s f - 1)\<rparr>" s']
  by (auto simp: release_ref_def intro: same_names_trans [rotated])

lemma same_names_reset: "ResetUnusedIOZones be gc s = (st, s') \<Longrightarrow> same_names s s'"
  for s s' :: "('d, 'a, 'z) zenfs_scheme"
  by (rule same_names_more) (rule more_ResetUnused)

lemma same_names_with_reset: "with_reset E (st, s) = (st', s') \<Longrightarrow> same_names s s'"
  by (auto simp: with_reset_def split: if_splits dest: same_names_reset)

lemma same_names_host: "on_host op s = (r, s') \<Longrightarrow> same_names s s'"
  by (auto simp: on_host_def split: prod.splits)

lemma less_Suc_u64: "i + 1 \<noteq> 0 \<Longrightarrow> i < i + 1" for i :: u64
proof -
  assume "i + 1 \<noteq> 0"
  then have "unat (i + 1) \<noteq> 0" by (simp only: unat_eq_0 not_False_eq_True)
  then have "unat i + 1 \<noteq> 2 ^ 64" by (auto simp: unat_word_ariths)
  moreover have "unat i < 2 ^ 64" using unsigned_less [of i] by simp
  ultimately show "i < i + 1" by (subst word_less_nat_alt, subst unat_add_u64) auto
qed

section \<open>The invariant\<close>

text \<open>
  The map is in order; a file in the map is alive, its names are the links it lists, each once, and no other
  file in the map has its identifier.
\<close>

definition names_ok :: "('d, 'a, 'z) zenfs_scheme \<Rightarrow> bool" where
  "names_ok s \<longleftrightarrow> map_wf (fs_files s) \<and>
    (\<forall>f \<in> ran (names s). f < next_fptr s \<and> \<not> f_is_deleted (fheap s f) \<and> f_file_id (fheap s f) < fs_next_file_id s \<and>
       distinct (f_linkfiles (fheap s f)) \<and> set (f_linkfiles (fheap s f)) = {n. names s n = Some f}) \<and>
    inj_on (\<lambda>f. f_file_id (fheap s f)) (ran (names s))"

lemma same_names_ok: "same_names s s' \<Longrightarrow> names_ok s' = names_ok s \<and> names s' = names s"
  by (simp add: names_ok_def names_def same_names_def name_view_def inj_on_def)

lemma names_ok_links:
  assumes "names_ok s" "names s n = Some f"
  shows "distinct (f_linkfiles (fheap s f))" "set (f_linkfiles (fheap s f)) = {n. names s n = Some f}" "f < next_fptr s"
    "\<not> f_is_deleted (fheap s f)" "f_file_id (fheap s f) < fs_next_file_id s" "map_wf (fs_files s)"
  using assms by (auto simp: names_ok_def ran_def)

text \<open>A change that concerns one file and its names.\<close>

lemma names_ok_change:
  assumes ok: "names_ok s" and wf: "map_wf (fs_files s')"
    and le: "next_fptr s \<le> next_fptr s'" "fs_next_file_id s \<le> fs_next_file_id s'"
    and same: "\<And>g. g \<noteq> f \<Longrightarrow> name_view (fheap s' g) = name_view (fheap s g)"
      "\<And>g n. g \<noteq> f \<Longrightarrow> (names s' n = Some g) = (names s n = Some g)"
    and new: "f \<in> ran (names s') \<Longrightarrow> f < next_fptr s' \<and> \<not> f_is_deleted (fheap s' f) \<and> f_file_id (fheap s' f) < fs_next_file_id s' \<and>
       distinct (f_linkfiles (fheap s' f)) \<and> set (f_linkfiles (fheap s' f)) = {n. names s' n = Some f} \<and>
       (\<forall>g \<in> ran (names s). g \<noteq> f \<longrightarrow> f_file_id (fheap s g) \<noteq> f_file_id (fheap s' f))"
  shows "names_ok s'"
proof -
  have r: "g \<in> ran (names s)" if "g \<in> ran (names s')" "g \<noteq> f" for g using that same(2) by (auto simp: ran_def)
  have v: "f_linkfiles (fheap s' g) = f_linkfiles (fheap s g)" "f_is_deleted (fheap s' g) = f_is_deleted (fheap s g)"
    "f_file_id (fheap s' g) = f_file_id (fheap s g)" if "g \<noteq> f" for g
    using same(1) [OF that] by (simp_all add: name_view_def)
  have "g < next_fptr s' \<and> \<not> f_is_deleted (fheap s' g) \<and> f_file_id (fheap s' g) < fs_next_file_id s' \<and>
       distinct (f_linkfiles (fheap s' g)) \<and> set (f_linkfiles (fheap s' g)) = {n. names s' n = Some g}"
    if g: "g \<in> ran (names s')" for g
  proof (cases "g = f")
    case True
    then show ?thesis using new g by simp
  next
    case False
    then show ?thesis using r [OF g False] v [OF False] same(2) [OF False] ok le by (auto simp: names_ok_def)
  qed
  moreover have "inj_on (\<lambda>f. f_file_id (fheap s' f)) (ran (names s'))"
  proof (rule inj_onI)
    fix g h
    assume g: "g \<in> ran (names s')" and h: "h \<in> ran (names s')" and e: "f_file_id (fheap s' g) = f_file_id (fheap s' h)"
    have inj: "inj_on (\<lambda>f. f_file_id (fheap s f)) (ran (names s))" using ok by (simp add: names_ok_def)
    have id: "f_file_id (fheap s' x) \<noteq> f_file_id (fheap s' f)" if "f \<in> ran (names s')" "x \<in> ran (names s')" "x \<noteq> f" for x
      using new [OF that(1)] r [OF that(2,3)] v(3) [OF that(3)] that(3) by simp
    show "g = h"
    proof (cases "g = f \<or> h = f")
      case True
      then show ?thesis using id [of g] id [of h] g h e by metis
    next
      case False
      then show ?thesis using inj_onD [OF inj _ r r, of g h] g h e v(3) by simp
    qed
  qed
  ultimately show ?thesis using wf by (simp add: names_ok_def)
qed

lemma id_unique: "\<lbrakk>names_ok s; names s n = Some f; g \<in> ran (names s); g \<noteq> f\<rbrakk> \<Longrightarrow> f_file_id (fheap s g) \<noteq> f_file_id (fheap s f)"
  unfolding names_ok_def by (metis (mono_tags, lifting) inj_onD ranI)

section \<open>Deleting\<close>

lemma delete_link_names:
  assumes ok: "names_ok s" "names s fname = Some f" "c_str fname = fname" and D: "delete_link E fname f s = Some (st, s')"
  shows "names_ok s' \<and> names s' = (if st = OK then (names s)(fname := None) else names s) \<and>
    next_fptr s' = next_fptr s \<and> fs_next_file_id s' = fs_next_file_id s \<and>
    (st = OK \<longrightarrow> fname \<notin> set (f_linkfiles (fheap s' f)))"
proof -
  note L = names_ok_links [OF ok(1,2)]
  let ?ls = "remove1 fname (f_linkfiles (fheap s f))"
  have l: "fname \<in> set (f_linkfiles (fheap s f))" using L(2) ok(2) by simp
  have ls: "distinct ?ls" "set ?ls = {n. names s n = Some f \<and> n \<noteq> fname}" using L(1,2) by auto
  define s2 where "s2 = upd_file f (f_linkfiles_update (\<lambda>_. ?ls)) (s\<lparr>fs_files := map_erase fname (fs_files s)\<rparr>)"
  obtain st3 s3 where P: "PersistRecord E (EncodeFileDeletionTo (sys_coding E) (fheap s2 f) fname) s2 = Some (st3, s3)"
    and R: "st = st3" "s' = (if st3 \<noteq> OK
              then upd_file f (AddLinkName fname) (s3\<lparr>fs_files := map_insert (c_str fname) f (fs_files s3)\<rparr>)
              else if f_linkfiles (fheap s3 f) \<noteq> [] then s3 else SetDeleted fname f s3)"
    using D l by (auto simp: delete_link_def RemoveLinkName_def Let_def s2_def upd_file_def split: bind_splits)
  have s3: "same_names s2 s3" by (rule same_names_PersistRecord [OF P])
  then have v3: "f_linkfiles (fheap s3 f) = ?ls" "f_file_id (fheap s3 f) = f_file_id (fheap s f)"
      "f_is_deleted (fheap s3 f) = f_is_deleted (fheap s f)" "fs_files s3 = map_erase fname (fs_files s)"
      "\<And>g. g \<noteq> f \<Longrightarrow> name_view (fheap s3 g) = name_view (fheap s g)" "next_fptr s3 = next_fptr s"
      "fs_next_file_id s3 = fs_next_file_id s"
    by (auto simp: same_names_def s2_def upd_file_def name_view_def)
  have n3: "names s3 = (names s)(fname := None)" by (simp add: names_def v3 map_of_erase)
  have wf3: "map_wf (fs_files s3)" using L(6) by (simp add: v3 map_wf_erase)
  have same: "(names s3 n = Some g) = (names s n = Some g)" if "g \<noteq> f" for g n using that ok(2) by (auto simp: n3)
  show ?thesis
  proof (cases "st3 = OK")
    case False
    have f': "fs_files s' = map_insert fname f (fs_files s3)" "fheap s' = (fheap s3)(f := AddLinkName fname (fheap s3 f))"
      "next_fptr s' = next_fptr s" "fs_next_file_id s' = fs_next_file_id s"
      using R False ok(3) by (simp_all add: upd_file_def v3)
    have n': "names s' = names s"
      using map_of_insert [OF wf3, of fname f] ok(2) n3 by (auto simp: names_def f'(1))
    have "names_ok s'"
    proof (rule names_ok_change [OF ok(1), where f = f])
      show "map_wf (fs_files s')" using wf3 by (simp add: f' map_wf_insert)
    qed (use f' n' v3 ls L ok id_unique [OF ok(1,2)] in \<open>auto simp: AddLinkName_def\<close>)
    then show ?thesis using n' R(1) False f' by simp
  next
    case True
    have n': "names s' = (names s)(fname := None)" "next_fptr s' = next_fptr s" "fs_next_file_id s' = fs_next_file_id s"
      "fs_files s' = fs_files s3" "\<And>g. g \<noteq> f \<Longrightarrow> name_view (fheap s' g) = name_view (fheap s3 g)"
      using R(2) True n3 v3 by (auto simp: SetDeleted_def RemoveZoneFileRecord_def upd_file_def names_def)
    have gone: "f \<notin> ran (names s')" if "?ls = []" using that ls(2) unfolding n' by (auto simp: ran_def split: if_splits)
    have "names_ok s'"
    proof (rule names_ok_change [OF ok(1), where f = f])
      assume "f \<in> ran (names s')"
      then have "s' = s3" using gone R(2) True v3(1) by auto
      then show "f < next_fptr s' \<and> \<not> f_is_deleted (fheap s' f) \<and> f_file_id (fheap s' f) < fs_next_file_id s' \<and>
       distinct (f_linkfiles (fheap s' f)) \<and> set (f_linkfiles (fheap s' f)) = {n. names s' n = Some f} \<and>
       (\<forall>g \<in> ran (names s). g \<noteq> f \<longrightarrow> f_file_id (fheap s g) \<noteq> f_file_id (fheap s' f))"
        using v3 ls L ok id_unique [OF ok(1,2)] by (auto simp: n3)
    qed (use wf3 n' v3 same n3 in auto)
    moreover have "f_linkfiles (fheap s' f) = ?ls"
      using R(2) True v3(1) by (auto simp: SetDeleted_def RemoveZoneFileRecord_def upd_file_def)
    ultimately show ?thesis using n' R(1) True ls(2) by simp
  qed
qed

section \<open>Linking and renaming\<close>

lemma link_file_names:
  assumes ok: "names_ok s" "names s n = Some f" "names s l = None" and L: "link_file E l f s = Some (st, s')"
  shows "names_ok s' \<and> st = OK \<and> (\<exists>st1 s1. SyncFileMetadataNoLock E False f
      (upd_file f (AddLinkName l) (s\<lparr>fs_files := map_insert l f (fs_files s)\<rparr>)) = Some (st1, s1) \<and>
    names s' = (if st1 = OK then (names s)(l \<mapsto> f) else names s))"
proof -
  note F = names_ok_links [OF ok(1,2)]
  let ?ls = "f_linkfiles (fheap s f)"
  have l: "l \<notin> set ?ls" using F(2) ok(3) by simp
  define s0 where "s0 = upd_file f (AddLinkName l) (s\<lparr>fs_files := map_insert l f (fs_files s)\<rparr>)"
  obtain st1 s1 where S: "SyncFileMetadataNoLock E False f s0 = Some (st1, s1)"
    and R: "if st1 = OK then st = OK \<and> s' = s1
      else \<exists>zf. RemoveLinkName l (fheap s1 f) = (st, zf) \<and>
        s' = (if st \<noteq> OK then upd_file f (\<lambda>_. zf) s1
          else (upd_file f (\<lambda>_. zf) s1)\<lparr>fs_files := map_erase l (fs_files (upd_file f (\<lambda>_. zf) s1))\<rparr>)"
    using L by (auto simp: link_file_def s0_def Let_def split: bind_splits if_splits prod.splits)
  have "same_names s0 s1" by (rule same_names_Sync [OF S])
  then have v: "f_linkfiles (fheap s1 f) = ?ls @ [l]" "f_file_id (fheap s1 f) = f_file_id (fheap s f)"
      "f_is_deleted (fheap s1 f) = f_is_deleted (fheap s f)" "fs_files s1 = map_insert l f (fs_files s)"
      "\<And>g. g \<noteq> f \<Longrightarrow> name_view (fheap s1 g) = name_view (fheap s g)" "next_fptr s1 = next_fptr s"
      "fs_next_file_id s1 = fs_next_file_id s"
    by (auto simp: same_names_def s0_def upd_file_def name_view_def AddLinkName_def)
  have n1: "names s1 = (names s)(l \<mapsto> f)" using map_of_insert [OF F(6)] ok(3) by (auto simp: names_def v)
  have ok1: "names_ok s1"
    by (rule names_ok_change [OF ok(1), where f = f])
      (use v n1 F l id_unique [OF ok(1,2)] ok(3) in \<open>auto simp: map_wf_insert\<close>)
  show ?thesis
  proof (cases "st1 = OK")
    case True
    then show ?thesis using R n1 ok1 S by (auto simp: s0_def)
  next
    case False
    then obtain zf where zf: "RemoveLinkName l (fheap s1 f) = (st, zf)" using R by auto
    have z: "st = OK" "zf = (fheap s1 f)\<lparr>f_linkfiles := ?ls\<rparr>" using zf v(1) l by (auto simp: RemoveLinkName_def remove1_append)
    have s': "s' = (upd_file f (\<lambda>_. zf) s1)\<lparr>fs_files := map_erase l (fs_files s1)\<rparr>"
      using R False zf z(1) by (auto simp: upd_file_def)
    have n': "names s' = names s" using n1 ok(3) by (auto simp: names_def s' map_of_erase fun_eq_iff)
    have "names_ok s'"
      by (rule names_ok_change [OF ok(1), where f = f])
        (use v n' F z id_unique [OF ok(1,2)] in \<open>auto simp: s' upd_file_def map_wf_erase map_wf_insert\<close>)
    then show ?thesis using n' z(1) S False by (auto simp: s0_def)
  qed
qed

lemma rename_link_names:
  assumes ok: "names_ok s" "names s a = Some f" "names s b = None" and L: "rename_link E a b f s = Some (st, s')"
  shows "names_ok s' \<and> st = OK \<and> (names s' = (names s)(a := None, b \<mapsto> f) \<or> names s' = names s)"
proof -
  note F = names_ok_links [OF ok(1,2)]
  let ?ls = "f_linkfiles (fheap s f)"
  have a: "a \<in> set ?ls" and b: "b \<notin> set ?ls" and ab: "a \<noteq> b" using F(2) ok(2,3) by auto
  define s0 where "s0 = upd_file f (f_linkfiles_update (\<lambda>_. remove1 a ?ls @ [b]))
    (s\<lparr>fs_files := map_insert b f (map_erase a (fs_files s))\<rparr>)"
  obtain st1 s1 where S: "SyncFileMetadataNoLock E False f s0 = Some (st1, s1)"
    and R: "if st1 = OK then st = OK \<and> s' = s1
      else let s2 = s1\<lparr>fs_files := map_erase b (fs_files s1)\<rparr> in \<exists>zf. RenameLink b a (fheap s2 f) = (st, zf) \<and>
        s' = (if st \<noteq> OK then upd_file f (\<lambda>_. zf) s2
          else (upd_file f (\<lambda>_. zf) s2)\<lparr>fs_files := map_insert a f (fs_files (upd_file f (\<lambda>_. zf) s2))\<rparr>)"
    using L a by (auto simp: rename_link_def RenameLink_def s0_def upd_file_def Let_def split: bind_splits if_splits)
  have "same_names s0 s1" by (rule same_names_Sync [OF S])
  then have v: "f_linkfiles (fheap s1 f) = remove1 a ?ls @ [b]" "f_file_id (fheap s1 f) = f_file_id (fheap s f)"
      "f_is_deleted (fheap s1 f) = f_is_deleted (fheap s f)" "fs_files s1 = map_insert b f (map_erase a (fs_files s))"
      "\<And>g. g \<noteq> f \<Longrightarrow> name_view (fheap s1 g) = name_view (fheap s g)" "next_fptr s1 = next_fptr s"
      "fs_next_file_id s1 = fs_next_file_id s"
    by (auto simp: same_names_def s0_def upd_file_def name_view_def)
  have wf: "map_wf (map_erase a (fs_files s))" using F(6) by (rule map_wf_erase)
  have n1: "names s1 = (names s)(a := None, b \<mapsto> f)"
    using map_of_insert [OF wf] ok(3) by (auto simp: names_def v map_of_erase)
  have ok1: "names_ok s1"
    by (rule names_ok_change [OF ok(1), where f = f])
      (use v n1 F a b ab id_unique [OF ok(1,2)] ok(2,3) wf in \<open>auto simp: map_wf_insert\<close>)
  show ?thesis
  proof (cases "st1 = OK")
    case True
    then show ?thesis using R n1 ok1 by simp
  next
    case False
    define s2 where "s2 = s1\<lparr>fs_files := map_erase b (fs_files s1)\<rparr>"
    obtain zf where zf: "RenameLink b a (fheap s1 f) = (st, zf)" "s' = (if st \<noteq> OK then upd_file f (\<lambda>_. zf) s2
          else (upd_file f (\<lambda>_. zf) s2)\<lparr>fs_files := map_insert a f (fs_files (upd_file f (\<lambda>_. zf) s2))\<rparr>)"
      using R False by (auto simp: s2_def Let_def)
    have z: "st = OK" "zf = (fheap s1 f)\<lparr>f_linkfiles := remove1 a ?ls @ [a]\<rparr>"
      using zf(1) v(1) b ab by (auto simp: RenameLink_def remove1_append split: if_splits)
    have s': "s' = (upd_file f (\<lambda>_. zf) s2)\<lparr>fs_files := map_insert a f (map_erase b (fs_files s1))\<rparr>"
      using zf(2) z(1) by (simp add: upd_file_def s2_def)
    have wf1: "map_wf (map_erase b (fs_files s1))" using wf by (simp add: v map_wf_insert map_wf_erase)
    have "names s' = ((names s1)(b := None))(a \<mapsto> f)"
      using map_of_insert [OF wf1, of a f] n1 ab by (auto simp: names_def s' map_of_erase)
    then have n': "names s' = names s" using ok(2,3) n1 by (auto simp: fun_eq_iff)
    have "names_ok s'"
      by (rule names_ok_change [OF ok(1), where f = f])
        (use v n' F a z id_unique [OF ok(1,2)] wf1 in \<open>auto simp: s' s2_def upd_file_def map_wf_insert\<close>)
    then show ?thesis using n' z(1) by simp
  qed
qed

section \<open>Directories\<close>

text \<open>Renaming a directory renames the files below it: what a single renaming keeps, all of them keep.\<close>

lemma names_on_host: "\<lbrakk>on_host op s = (r, s'); names_ok s\<rbrakk> \<Longrightarrow> names_ok s'"
  by (drule same_names_host, drule same_names_ok) simp

definition keeps_names :: "('d, 'a, 'z) renamer \<Rightarrow> bool" where
  "keeps_names ren \<longleftrightarrow> (\<forall>a b s st s'. names_ok s \<longrightarrow> ren a b s = Some (st, s') \<longrightarrow> names_ok s')"

lemma names_RenameChild: "\<lbrakk>keeps_names ren; RenameChildNoLock E ren a b c s = Some (st, s'); names_ok s\<rbrakk> \<Longrightarrow> names_ok s'"
  by (auto simp: keeps_names_def RenameChildNoLock_def split: bind_splits)

lemma names_Rollback: "\<lbrakk>keeps_names ren; Rollback_children E ren a b cs s = Some (st, s'); names_ok s\<rbrakk> \<Longrightarrow> names_ok s'"
  by (induction cs arbitrary: s) (auto split: bind_splits if_splits dest: names_RenameChild)

lemma names_RollbackAux:
  assumes "RollbackAuxDirRenameNoLock E ren a b cs s = Some (st, s')" "names_ok s" "keeps_names ren"
  shows "names_ok s'"
proof -
  obtain st1 s1 where R: "Rollback_children E ren a b cs s = Some (st1, s1)"
    and S: "s' = s1 \<or> (\<exists>x y r. on_host (aux_RenameFile (sys_host E) x y) s1 = (r, s'))"
    using assms(1) by (auto simp: RollbackAuxDirRenameNoLock_def split: bind_splits if_splits prod.splits)
  have "names_ok s1" using names_Rollback [OF assms(3) R assms(2)] .
  then show ?thesis using S by (auto dest: names_on_host)
qed

lemma names_rename_children: "\<lbrakk>keeps_names ren; rename_children E ren a b cs rn s = Some (st, s'); names_ok s\<rbrakk> \<Longrightarrow> names_ok s'"
  by (induction cs arbitrary: rn s) (auto split: bind_splits if_splits, (metis names_RenameChild names_RollbackAux)+)

lemma names_RenameAux:
  assumes "RenameAuxPathNoLock E ren a b s = Some (st, s')" "names_ok s" "keeps_names ren"
  shows "names_ok s'"
proof -
  obtain x y r s1 where H: "on_host (aux_RenameFile (sys_host E) x y) s = (r, s1)"
    and S: "s' = s1 \<or> (\<exists>cs. rename_children E ren a b cs [] s1 = Some (st, s'))"
    using assms(1) unfolding RenameAuxPathNoLock_def Let_def
    by (fastforce split: bind_splits if_splits prod.splits)
  show ?thesis using S names_on_host [OF H assms(2)] by (auto dest: names_rename_children [OF assms(3)])
qed

section \<open>The operations\<close>

text \<open>Names are formatted, and do not contain the character that ends C strings.\<close>

locale plain_paths = path_laws +
  assumes plain: "FormatPathLexically P p = Some q \<Longrightarrow> c_str q = q"

locale naming_zenfs = plain_paths "sys_paths E"
  for E :: "('d, 'a) sysenv"
begin

lemma GetFile_formatted:
  "FormatPathLexically (sys_paths E) p = Some q \<Longrightarrow> GetFileNoLock E q s = Some (names s q)"
  using format_idem by (simp add: GetFileNoLock_def names_def)

lemma DeleteFileNoLock_names:
  assumes ok: "names_ok s" and D: "DeleteFileNoLock E n s = Some (st, s')" and F: "FormatPathLexically (sys_paths E) n = Some q"
  shows "names_ok s' \<and> names s' = (if st = OK then (names s)(q := None) else names s) \<and>
    fs_next_file_id s' = fs_next_file_id s \<and>
    (\<forall>f. st = OK \<and> names s q = Some f \<longrightarrow> q \<notin> set (f_linkfiles (fheap s' f)))"
proof (cases "names s q")
  case None
  then obtain aux where "on_host (aux_DeleteFile (sys_host E) aux) s = (st, s')"
    using D F GetFile_formatted [OF F, of s] by (auto simp: DeleteFileNoLock_def split: bind_splits)
  then have "same_names s s'" by (rule same_names_host)
  then show ?thesis using same_names_ok [of s s'] ok None by (auto simp: fun_eq_iff same_names_def)
next
  case (Some f)
  then obtain s1 where L: "delete_link E q f s = Some (st, s1)" and R: "drop_shared f s1 = Some s'"
    using D F GetFile_formatted [OF F, of s] by (auto simp: DeleteFileNoLock_def split: bind_splits)
  show ?thesis
    using delete_link_names [OF ok Some plain [OF F] L] same_names_ok [OF same_names_drop [OF R]] same_names_drop [OF R] Some
    by (simp add: same_names_def name_view_def)
qed

text \<open>The function is called with formatted names.\<close>

lemma rename_file_names:
  assumes ok: "names_ok s" "names s a = Some f" and fa: "FormatPathLexically (sys_paths E) a' = Some a" "FormatPathLexically (sys_paths E) b' = Some b"
    and R: "rename_file E a b f s = Some (st, s')"
  shows "names_ok s' \<and>
    (if a = b then st \<noteq> OK \<and> (names s' = names s \<or> names s' = (names s)(a := None))
     else if st = OK then names s' = (names s)(a := None, b \<mapsto> f) \<or> names s' = (names s)(b := None)
     else names s' = names s)"
proof (cases "names s b")
  case None
  then have ab: "a \<noteq> b" using ok(2) by auto
  obtain s1 where L: "rename_link E a b f (hold_ref f s) = Some (st, s1)" and D: "release_ref f s1 = Some s'"
    using R None GetFile_formatted [OF fa(2), of s] by (auto simp: rename_file_def split: bind_splits)
  have h: "names_ok (hold_ref f s)" "names (hold_ref f s) = names s" using same_names_ok [of s "hold_ref f s"] ok(1) by simp_all
  have "(names s)(b := None) = names s" using None by (simp add: fun_upd_idem)
  then show ?thesis
    using rename_link_names [OF h(1) _ _ L] h(2) ok(2) None same_names_ok [OF same_names_release [OF D]] ab by auto
next
  case (Some g)
  define h where "h = hold_ref g (hold_ref f s)"
  obtain st1 s1 s2 s3 where D: "DeleteFileNoLock E b h = Some (st1, s1)"
    and L: "(if st1 \<noteq> OK then Some (st1, s1) else rename_link E a b f s1) = Some (st, s2)"
    and X: "release_ref g s2 = Some s3" "release_ref f s3 = Some s'"
    using R Some GetFile_formatted [OF fa(2), of s] unfolding h_def by (auto simp: rename_file_def split: bind_splits)
  have h: "names_ok h" "names h = names s" using same_names_ok [of s h] ok(1) by (simp_all add: h_def)
  have fb: "FormatPathLexically (sys_paths E) b = Some b" by (rule format_idem [OF fa(2)])
  have D1: "names_ok s1" "names s1 = (if st1 = OK then (names s)(b := None) else names s)"
    using DeleteFileNoLock_names [OF h(1) D fb] h(2) by auto
  have e: "names s' = names s2" "names_ok s' = names_ok s2"
    using same_names_ok [OF same_names_release [OF X(1)]] same_names_ok [OF same_names_release [OF X(2)]] by simp_all
  show ?thesis
  proof (cases "st1 = OK \<and> a \<noteq> b")
    case True
    then have "names s1 a = Some f" "names s1 b = None" using D1(2) ok(2) by auto
    from rename_link_names [OF D1(1) this] L True
    show ?thesis using e D1(2) by (auto simp: fun_upd_twist)
  next
    case False
    have "a \<notin> set (f_linkfiles (fheap s1 f))" if "a = b" "st1 = OK"
      using DeleteFileNoLock_names [OF h(1) D fb] h(2) ok(2) that by simp
    then have "if st1 = OK then st = IOError \<and> s2 = s1 \<and> a = b else st = st1 \<and> s2 = s1"
      using False L by (auto simp: rename_link_def RenameLink_def split: if_splits)
    then show ?thesis using e D1 by (auto split: if_splits)
  qed
qed

lemma RenameFileNoLock_names:
  fixes s s' :: "('d, 'a, 'z) zenfs_scheme"
  assumes "names_ok s" "RenameFileNoLock E k a b s = Some (st, s')"
  shows "names_ok s'"
  using assms
proof (induction k arbitrary: a b st s s')
  case (Suc k)
  obtain x y where F: "FormatPathLexically (sys_paths E) a = Some x" "FormatPathLexically (sys_paths E) b = Some y"
    using Suc.prems(2) by (auto split: bind_splits)
  show ?case
  proof (cases "names s x")
    case None
    then have "RenameAuxPathNoLock E (RenameFileNoLock E k) x y s = Some (st, s')"
      using Suc.prems F GetFile_formatted [OF F(1), of s] by (auto split: bind_splits)
    then show ?thesis using names_RenameAux Suc.IH Suc.prems(1) unfolding keeps_names_def by blast
  next
    case (Some f)
    then have "rename_file E x y f s = Some (st, s')" using Suc.prems F GetFile_formatted [OF F(1), of s] by (auto split: bind_splits)
    then show ?thesis using rename_file_names [OF Suc.prems(1) Some F] by blast
  qed
qed simp

lemma create_file_names:
  fixes s s' :: "('d, 'a, 'z) zenfs_scheme"
  assumes ok: "names_ok s" "names s q = None" "c_str q = q" "fs_next_file_id s + 1 \<noteq> 0"
    and C: "create_file E q direct old s = Some (st, w, s')"
  shows "names_ok s' \<and> (if w = None then names s' = names s \<and> st \<noteq> OK else st = OK \<and> names s' = (names s)(q \<mapsto> next_fptr s))"
proof -
  let ?f = "next_fptr s" and ?i = "fs_next_file_id s"
  define s1 where "s1 = snd (new_file ?i (s\<lparr>fs_next_file_id := ?i + 1\<rparr>))"
  have nf: "new_file ?i (s\<lparr>fs_next_file_id := ?i + 1\<rparr>) = (?f, s1)" by (simp add: s1_def new_file_def Let_def)
  define set_up where "set_up = (\<lambda>now zf. set_file_type q direct (AddLinkName q (zf\<lparr>f_m_time := now\<rparr>)))"
  obtain s2 now s3 st1 s5 where R: "(case old of None \<Rightarrow> Some s1 | Some g \<Rightarrow> release_ref g s1) = Some s2"
      "on_host (host_time (sys_host E)) s2 = (now, s3)"
    and Y: "SyncFileMetadataNoLock E False ?f (upd_file ?f (set_up now) s3) = Some (st1, s5)"
    using C unfolding create_file_def nf Let_def set_up_def by (auto split: bind_splits prod.splits)
  have S: "if st1 \<noteq> OK then st = st1 \<and> w = None \<and> drop_shared ?f s5 = Some s'
       else \<exists>s6 w'. AcquireWRLock ?f s5 = Some s6 \<and> st = OK \<and> w = Some w' \<and>
         new_handle E q direct ?f (s6\<lparr>fs_files := map_insert (c_str q) ?f (fs_files s6)\<rparr>) = Some (w', s')"
    using C R Y unfolding create_file_def nf Let_def set_up_def by (auto split: bind_splits)
  have "same_names s1 s2" using R(1) same_names_release by (auto split: option.splits)
  then have e3: "same_names s1 s3" using same_names_trans same_names_host [OF R(2)] by blast
  have v5: "fs_files s5 = fs_files s" "next_fptr s5 = ?f + 1" "fs_next_file_id s5 = ?i + 1" "f_linkfiles (fheap s5 ?f) = [q]"
    "f_file_id (fheap s5 ?f) = ?i" "\<not> f_is_deleted (fheap s5 ?f)" "\<And>g. g \<noteq> ?f \<Longrightarrow> name_view (fheap s5 g) = name_view (fheap s g)"
    using same_names_Sync [OF Y] e3
    by (auto simp: same_names_def upd_file_def name_view_def set_up_def set_file_type_def AddLinkName_def s1_def new_file_def
        ZoneFile_new_def Let_def)
  have wrap: "?i < ?i + 1" by (rule less_Suc_u64 [OF ok(4)])
  have n5: "names s5 = names s" by (simp add: names_def v5)
  have out: "?f \<notin> ran (names s)" using ok(1) by (auto simp: names_ok_def)
  have ok5: "names_ok s5"
    by (rule names_ok_change [OF ok(1), where f = ?f]) (use v5 n5 out wrap ok(1) in \<open>auto simp: names_ok_def\<close>)
  show ?thesis
  proof (cases "st1 = OK")
    case False
    then show ?thesis using S same_names_ok [OF same_names_drop] ok5 n5 by auto
  next
    case True
    then obtain s6 w' where H: "AcquireWRLock ?f s5 = Some s6" "st = OK" "w = Some w'"
        "new_handle E q direct ?f (s6\<lparr>fs_files := map_insert q ?f (fs_files s6)\<rparr>) = Some (w', s')" using S ok(3) by auto
    define s7 where "s7 = s6\<lparr>fs_files := map_insert q ?f (fs_files s6)\<rparr>"
    have e6: "same_names s5 s6" using H(1) by (auto simp: AcquireWRLock_def name_view_def split: if_splits)
    have e7: "same_names s7 s'" using H(4) by (auto simp: new_handle_def s7_def split: bind_splits)
    have n7: "names s7 = (names s)(q \<mapsto> ?f)"
      using map_of_insert [of "fs_files s" q ?f] ok(1,2) e6 v5(1)
      by (auto simp: names_def s7_def same_names_def names_ok_def)
    have ids: "\<forall>g \<in> ran (names s). f_file_id (fheap s g) \<noteq> ?i" using ok(1) by (auto simp: names_ok_def)
    have v7: "next_fptr s7 = ?f + 1" "fs_next_file_id s7 = ?i + 1" "f_linkfiles (fheap s7 ?f) = [q]" "f_file_id (fheap s7 ?f) = ?i"
      "\<not> f_is_deleted (fheap s7 ?f)" "\<And>g. g \<noteq> ?f \<Longrightarrow> name_view (fheap s7 g) = name_view (fheap s g)"
      using e6 v5 by (auto simp: s7_def same_names_def name_view_def)
    have "{n. names s7 n = Some ?f} = {q}" using out by (auto simp: n7 ran_def)
    moreover have "map_wf (fs_files s7)" using ok(1) e6 v5(1) by (simp add: s7_def same_names_def names_ok_def map_wf_insert)
    ultimately have "names_ok s7"
      by (intro names_ok_change [OF ok(1), where f = ?f]) (use v7 n7 wrap ids ok(2) in auto)
    then show ?thesis using same_names_ok [OF e7] n7 H(2,3) by simp
  qed
qed

lemma OpenWritableFile_names:
  assumes ok: "names_ok s" "fs_next_file_id s + 1 \<noteq> 0" and O: "OpenWritableFile E n direct reopen s = Some (st, w, s')"
  shows "names_ok s'"
proof -
  obtain q where F: "FormatPathLexically (sys_paths E) n = Some q" using O by (auto simp: OpenWritableFile_def split: bind_splits)
  note P = plain [OF F]
  show ?thesis
  proof (cases "names s q")
    case None
    then have "create_file E q direct None s = Some (st, w, s')"
      using O F GetFile_formatted [OF F, of s] by (auto simp: OpenWritableFile_def split: bind_splits)
    then show ?thesis using create_file_names [OF ok(1) None P ok(2)] by blast
  next
    case (Some f)
    show ?thesis
    proof (cases reopen)
      case True
      then have "same_names s s'"
        using O F Some GetFile_formatted [OF F, of s]
        by (auto simp: OpenWritableFile_def new_handle_def AcquireWRLock_def name_view_def split: bind_splits if_splits)
      then show ?thesis using same_names_ok ok(1) by blast
    next
      case False
      have h: "names_ok (hold_ref f s)" "fs_next_file_id (hold_ref f s) = fs_next_file_id s"
        using same_names_ok [of s "hold_ref f s"] ok(1) by (simp_all add: hold_ref_def)
      obtain st1 s1 where D: "DeleteFileNoLock E q (hold_ref f s) = Some (st1, s1)"
        using O F Some False GetFile_formatted [OF F, of s] by (auto simp: OpenWritableFile_def split: bind_splits)
      note D1 = DeleteFileNoLock_names [OF h(1) D format_idem [OF F]]
      show ?thesis
      proof (cases "st1 = OK")
        case False
        then have "release_ref f s1 = Some s'"
          using O F Some \<open>\<not> reopen\<close> D GetFile_formatted [OF F, of s] by (auto simp: OpenWritableFile_def split: bind_splits)
        then show ?thesis using same_names_ok [OF same_names_release] D1 by blast
      next
        case True
        then obtain st2 s2 where C: "create_file E q direct (Some f) s1 = Some (st2, w, s2)"
          and R: "s' = s2 \<or> s' = snd (ResetUnusedIOZones (sys_be E) False s2)"
          using O F Some \<open>\<not> reopen\<close> D GetFile_formatted [OF F, of s]
          by (auto simp: OpenWritableFile_def split: bind_splits if_splits prod.splits)
        have "names s1 q = None" using D1 True by simp
        then have "names_ok s2" using create_file_names [OF _ _ P _ C] D1 h(2) ok(2) by simp
        then show ?thesis using R same_names_ok [OF same_names_reset [OF prod.collapse [symmetric]]] by blast
      qed
    qed
  qed
qed

lemma DeleteFileNoLock_ok:
  assumes "names_ok s" "DeleteFileNoLock E n s = Some (st, s')"
  shows "names_ok s'"
proof -
  obtain q where "FormatPathLexically (sys_paths E) n = Some q"
    using assms(2) by (cases "FormatPathLexically (sys_paths E) n") (auto simp: DeleteFileNoLock_def)
  then show ?thesis using DeleteFileNoLock_names [OF assms] by blast
qed

lemma delete_children_names:
  fixes s s' :: "('d, 'a, 'z) zenfs_scheme"
  assumes del: "\<And>d s st s'. \<lbrakk>names_ok s; del_dir d s = Some (st, s')\<rbrakk> \<Longrightarrow> names_ok s'"
    and "names_ok s" "delete_children E del_dir d cs s = Some (st, s')"
  shows "names_ok s'"
  using assms(2,3)
proof (induction cs arbitrary: s)
  case (Cons c cs)
  obtain p st1 is_dir s1 where I: "IsDirectoryNoLock E p s = Some (st1, is_dir, s1)"
    and R: "if st1 \<noteq> OK then s' = s1
      else \<exists>st2 s2. (if is_dir then del_dir p s1 else DeleteFileNoLock E p s1) = Some (st2, s2) \<and>
        (s' = s2 \<or> delete_children E del_dir d cs s2 = Some (st, s'))"
    using Cons.prems(2) by (auto split: bind_splits if_splits)
  have "same_names s s1" using I by (auto simp: IsDirectoryNoLock_def split: bind_splits if_splits prod.splits)
  then have "names_ok s1" using same_names_ok Cons.prems(1) by blast
  note s1 = this
  show ?case
  proof (cases "st1 = OK")
    case True
    then obtain st2 s2 where D: "(if is_dir then del_dir p s1 else DeleteFileNoLock E p s1) = Some (st2, s2)"
      "s' = s2 \<or> delete_children E del_dir d cs s2 = Some (st, s')" using R by auto
    have "names_ok s2" using del [OF s1] DeleteFileNoLock_ok [OF s1] D(1) by (cases is_dir) auto
    then show ?thesis using D(2) Cons.IH by auto
  qed (use R s1 in simp)
qed simp

lemma DeleteDirRecursiveNoLock_names:
  fixes s s' :: "('d, 'a, 'z) zenfs_scheme"
  assumes "names_ok s" "DeleteDirRecursiveNoLock E k d s = Some (st, s')"
  shows "names_ok s'"
  using assms
proof (induction k arbitrary: d st s s')
  case (Suc k)
  obtain d' st1 cs s1 where G: "GetChildrenNoLock E d' s = Some (st1, cs, s1)"
    and R: "s' = s1 \<or> (\<exists>st2 s2. delete_children E (DeleteDirRecursiveNoLock E k) d' cs s1 = Some (st2, s2) \<and>
      (s' = s2 \<or> (\<exists>aux r. on_host (aux_DeleteDir (sys_host E) aux) s2 = (r, s'))))"
    using Suc.prems(2) by (fastforce split: bind_splits if_splits)
  have "same_names s s1"
    using G by (auto simp: GetChildrenNoLock_def Let_def split: bind_splits if_splits prod.splits)
  then have "names_ok s1" using same_names_ok Suc.prems(1) by blast
  moreover have "names_ok s2" if "delete_children E (DeleteDirRecursiveNoLock E k) d' cs s1 = Some (st2, s2)" for st2 s2
    by (rule delete_children_names [OF _ \<open>names_ok s1\<close> that]) (rule Suc.IH)
  ultimately show ?case using R by (auto dest: names_on_host)
qed simp

end

section \<open>Histories\<close>

text \<open>
  What threads do with names, one call at a time: each call succeeds or fails. Handles end (\<open>closed\<close>) and metadata of
  a file is persisted (\<open>synced\<close>) between them. Identifiers are not exhausted.
\<close>

inductive ns_step :: "('d, 'a) sysenv \<Rightarrow> ('d, 'a, 'z) zenfs_scheme \<Rightarrow> ('d, 'a, 'z) zenfs_scheme \<Rightarrow> bool" for E where
  opened: "\<lbrakk>OpenWritableFile E n direct reopen s = Some (st, w, s'); fs_next_file_id s + 1 \<noteq> 0\<rbrakk> \<Longrightarrow> ns_step E s s'"
| read: "NewRandomAccessFile E n direct s = Some (st, r, s') \<Longrightarrow> ns_step E s s'"
| deleted: "DeleteFile E n s = Some (st, s') \<Longrightarrow> ns_step E s s'"
| linked: "LinkFile E a b s = Some (st, s') \<Longrightarrow> ns_step E s s'"
| renamed: "RenameFile E k a b s = Some (st, s') \<Longrightarrow> ns_step E s s'"
| emptied: "DeleteDirRecursive E k d s = Some (st, s') \<Longrightarrow> ns_step E s s'"
| synced: "SyncFileMetadataNoLock E replace f s = Some (st, s') \<Longrightarrow> ns_step E s s'"
| closed: "release_ref f s = Some s' \<Longrightarrow> ns_step E s s'"

context naming_zenfs
begin

lemma names_with_reset: "\<lbrakk>map_option (with_reset E) r = Some (st, s'); \<And>st1 s1. r = Some (st1, s1) \<Longrightarrow> names_ok s1\<rbrakk> \<Longrightarrow> names_ok s'"
  using same_names_ok same_names_with_reset by (cases r) fastforce+

lemma LinkFile_ok:
  assumes "LinkFile E a b s = Some (st, s')" "names_ok s"
  shows "names_ok s'"
proof -
  obtain x y where F: "FormatPathLexically (sys_paths E) a = Some x" "FormatPathLexically (sys_paths E) b = Some y"
    using assms(1) by (auto simp: LinkFile_def split: bind_splits)
  consider "s' = s" | p where "names s x = Some p" "names s y = None" "link_file E y p s = Some (st, s')"
    | u v where "on_host (aux_LinkFile (sys_host E) u v) s = (st, s')"
    using assms(1) F GetFile_formatted [OF F(1), of s] GetFile_formatted [OF F(2), of s]
    by (auto simp: LinkFile_def split: bind_splits if_splits option.splits)
  then show ?thesis
  proof cases
    case 2
    then show ?thesis using link_file_names [OF assms(2)] by blast
  next
    case 3
    then show ?thesis by (rule names_on_host [OF _ assms(2)])
  qed (use assms(2) in simp)
qed

lemma LinkFile_result:
  assumes "names_ok s" "FormatPathLexically (sys_paths E) src = Some a"
    and "FormatPathLexically (sys_paths E) dst = Some b" "names s a = Some f" "names s b = None"
    and "SyncFileMetadataNoLock E False f (upd_file f (AddLinkName b) (s\<lparr>fs_files := map_insert b f (fs_files s)\<rparr>)) = Some (st, s1)"
  shows "\<exists>s'. LinkFile E src dst s = Some (OK, s') \<and> names s' = (if st = OK then (names s)(b \<mapsto> f) else names s)"
proof -
  have "link_file E b f s \<noteq> None" using assms(6) by (simp add: link_file_def Let_def split: prod.splits)
  then obtain st' s' where L: "link_file E b f s = Some (st', s')" by auto
  have "LinkFile E src dst s = Some (st', s')"
    using L assms(2-5) GetFile_formatted [OF assms(2), of s] GetFile_formatted [OF assms(3), of s] by (simp add: LinkFile_def)
  then show ?thesis using link_file_names [OF assms(1,4,5) L] assms(6) by auto
qed

lemma ns_step_ok: "ns_step E s s' \<Longrightarrow> names_ok s \<Longrightarrow> names_ok s'"
proof (induction rule: ns_step.induct)
  case (opened n direct reopen s st w s')
  then show ?case using OpenWritableFile_names by blast
next
  case (read n direct s st r s')
  then have "same_names s s'"
    by (auto simp: NewRandomAccessFile_def Let_def split: bind_splits option.splits prod.splits dest: same_names_host)
  then show ?case using same_names_ok read by blast
next
  case (deleted n s st s')
  then show ?case unfolding DeleteFile_def by (elim names_with_reset) (rule DeleteFileNoLock_ok)
next
  case (linked a b s st s')
  then show ?case using LinkFile_ok by blast
next
  case (renamed k a b s st s')
  then show ?case unfolding RenameFile_def by (elim names_with_reset) (rule RenameFileNoLock_names)
next
  case (emptied k d s st s')
  then show ?case unfolding DeleteDirRecursive_def by (elim names_with_reset) (rule DeleteDirRecursiveNoLock_names)
next
  case (synced replace f s st s')
  then show ?case using same_names_ok [OF same_names_Sync] by blast
next
  case (closed f s s')
  then show ?case using same_names_ok [OF same_names_release] by blast
qed

end





section \<open>The sample file system\<close>

text \<open>Paths that are not used with names that contain the end of a C string.\<close>

definition plain_util :: paths where
  "plain_util = util_paths\<lparr>path_join := (\<lambda>a b. case path_join util_paths a b of
     Some r \<Rightarrow> if c_str r = r then Some r else None | None \<Rightarrow> None)\<rparr>"

lemma format_plain:
  "FormatPathLexically plain_util p = (case FormatPathLexically util_paths p of
     Some r \<Rightarrow> if c_str r = r then Some r else None | None \<Rightarrow> None)"
  by (cases "lexically_normal util_paths p") (simp_all add: FormatPathLexically_def plain_util_def)

interpretation plain_util: plain_paths plain_util
  by unfold_locales (auto simp: format_plain split: option.splits if_splits dest: util.format_idem)

definition naming_sys :: "(ram zbdlib, nat) sysenv" where
  "naming_sys = sample_sys\<lparr>sys_paths := plain_util\<rparr>"

interpretation sample_naming: naming_zenfs naming_sys
  using plain_util.plain_paths_axioms by (simp add: naming_zenfs_def naming_sys_def)

lemma sample_plain: "plain_paths (sys_paths naming_sys)"
  using plain_util.plain_paths_axioms by (simp add: naming_sys_def)

lemma sample_format:
  "FormatPathLexically (sys_paths naming_sys) ''/a.sst'' = Some ''/a.sst''"
  "FormatPathLexically (sys_paths naming_sys) ''/b'' = Some ''/b''"
  by (simp_all add: naming_sys_def format_plain format_util_eq segments_def push_segment_def absolute_def c_str_def)

text \<open>The same file system on a device that refuses writes.\<close>

definition sample_refusing :: "(ram zbdlib, nat) zenfs" where
  "sample_refusing = sample_fs\<lparr>dev := (dev sample_fs)\<lparr>zb_kernel := (zb_kernel (dev sample_fs))\<lparr>ram_zones := []\<rparr>\<rparr>\<rparr>"

lemma sample_names:
  "names_ok sample_fs" "names sample_fs = [''/a.sst'' \<mapsto> 0]" "names_ok sample_refusing" "names sample_refusing = [''/a.sst'' \<mapsto> 0]"
  by (simp_all add: names_ok_def names_def map_wf_def sample_refusing_def sample_fs_eval ran_def)

lemma sample_sync:
  assumes "fs_meta_log s = Some sample_ml" "zheap s 3 = sample_zone 12288 0 0" "zb_zone_sz (dev s) = 4096" "\<not> f_is_deleted (fheap s f)"
    and "25 * length (f_extents (fheap s f)) + (\<Sum>l\<leftarrow>f_linkfiles (fheap s f). length l + 9) \<le> 800"
  obtains st s1 where "SyncFileMetadataNoLock naming_sys False f s = Some (st, s1)"
    "ram_zones (zb_kernel (dev s)) = ram_zones (zb_kernel (dev sample_fs)) \<Longrightarrow> st = OK"
    "ram_zones (zb_kernel (dev s)) = [] \<Longrightarrow> st = IOError"
proof -
  obtain now h where H: "host_time (sys_host naming_sys) (fs_host s) = (now, h)" by fastforce
  define t where "t = upd_file f (f_m_time_update (\<lambda>_. now)) (s\<lparr>fs_host := h\<rparr>)"
  let ?rec = "EncodeFileUpdate le_coding False (fheap t f)"
  have t: "fs_meta_log t = Some sample_ml" "zheap t 3 = sample_zone 12288 0 0" "zb_zone_sz (dev t) = 4096" "dev t = dev s"
    using assms by (simp_all add: t_def upd_file_def)
  have rec: "length ?rec < 1000" using length_EncodeFileUpdate [of False "fheap t f"] assms(5) by (simp add: t_def upd_file_def)
  have c: "sys_coding naming_sys = le_coding" "sys_be naming_sys = ram_backend" by (simp_all add: naming_sys_def sample_sys_sel)
  obtain ios n d where P: "PersistRecord naming_sys ?rec t = Some (ios, append_result 3 n d t)"
    "ram_zones (zb_kernel (dev t)) = ram_zones (zb_kernel (dev sample_fs)) \<Longrightarrow> ios = OK"
    "ram_zones (zb_kernel (dev t)) = [] \<Longrightarrow> ios = IOError"
    using sample_persist [OF c t(1-3) rec] by metis
  show thesis
    by (rule that [where st = ios]) (use assms(4) P H t(4) in \<open>auto simp: SyncFileMetadataNoLock_def c t_def Let_def\<close>)
qed

lemma sample_differs: "sample_refusing \<noteq> sample_fs"
proof
  assume "sample_refusing = sample_fs"
  then have "ram_zones (zb_kernel (dev sample_refusing)) = ram_zones (zb_kernel (dev sample_fs))" by simp
  then show False by (simp add: sample_refusing_def sample_fs_eval)
qed

lemma sample_link:
  assumes "s = sample_fs \<or> s = sample_refusing"
  obtains st s1 where "SyncFileMetadataNoLock naming_sys False 0
      (upd_file 0 (AddLinkName ''/b'') (s\<lparr>fs_files := map_insert ''/b'' 0 (fs_files s)\<rparr>)) = Some (st, s1)"
    "st = (if s = sample_fs then OK else IOError)"
proof -
  let ?t = "upd_file 0 (AddLinkName ''/b'') (s\<lparr>fs_files := map_insert ''/b'' 0 (fs_files s)\<rparr>)"
  have t: "fs_meta_log ?t = Some sample_ml" "zheap ?t 3 = sample_zone 12288 0 0" "zb_zone_sz (dev ?t) = 4096" "\<not> f_is_deleted (fheap ?t 0)"
    "25 * length (f_extents (fheap ?t 0)) + (\<Sum>l\<leftarrow>f_linkfiles (fheap ?t 0). length l + 9) \<le> 800"
    "ram_zones (zb_kernel (dev ?t)) = (if s = sample_fs then ram_zones (zb_kernel (dev sample_fs)) else [])"
    using assms sample_differs by (auto simp: upd_file_def AddLinkName_def sample_refusing_def sample_fs_eval)
  obtain st s1 where "SyncFileMetadataNoLock naming_sys False 0 ?t = Some (st, s1)"
    "ram_zones (zb_kernel (dev ?t)) = ram_zones (zb_kernel (dev sample_fs)) \<Longrightarrow> st = OK"
    "ram_zones (zb_kernel (dev ?t)) = [] \<Longrightarrow> st = IOError"
    using sample_sync [OF t(1-5)] by metis
  then show thesis using t(6) by (intro that) auto
qed



lemma sample_rename:
  "\<exists>s'. RenameFileNoLock naming_sys (Suc 0) ''/a.sst'' ''/b'' sample_fs = Some (OK, s')"
proof -
  let ?h = "hold_ref 0 sample_fs"
  define t where "t = upd_file 0 (\<lambda>_. (fheap ?h 0)\<lparr>f_linkfiles := [''/b'']\<rparr>)
    (?h\<lparr>fs_files := map_insert ''/b'' 0 (map_erase ''/a.sst'' (fs_files ?h))\<rparr>)"
  have t: "fs_meta_log t = Some sample_ml" "zheap t 3 = sample_zone 12288 0 0" "zb_zone_sz (dev t) = 4096" "\<not> f_is_deleted (fheap t 0)"
    "25 * length (f_extents (fheap t 0)) + (\<Sum>l\<leftarrow>f_linkfiles (fheap t 0). length l + 9) \<le> 800" "dev t = dev sample_fs"
    by (simp_all add: t_def upd_file_def hold_ref_def sample_fs_eval)
  obtain st s1 where S: "SyncFileMetadataNoLock naming_sys False 0 t = Some (st, s1)" "st = OK"
    using sample_sync [OF t(1-5)] t(6) by metis
  have "fs_files s1 = [(''/b'', 0)]"
    using same_names_Sync [OF S(1)] by (simp add: same_names_def t_def upd_file_def hold_ref_def sample_fs_eval map_erase_def)
  then have "\<exists>s'. release_ref 0 s1 = Some s'" by (simp add: release_ref_def drop_shared_def)
  moreover have l: "f_linkfiles (fheap ?h 0) = [''/a.sst'']" by (simp add: hold_ref_def sample_fs_eval)
  have "rename_link naming_sys ''/a.sst'' ''/b'' 0 ?h = Some (OK, s1)"
    using S unfolding rename_link_def RenameLink_def l by (simp add: t_def)
  ultimately show ?thesis
    using sample_naming.GetFile_formatted [OF sample_format(1), of sample_fs] sample_naming.GetFile_formatted [OF sample_format(2), of sample_fs]
    by (auto simp: sample_format sample_names rename_file_def)
qed


lemma sample_self_rename:
  "\<exists>s1 st s'. delete_link naming_sys ''/a.sst'' 0 (hold_ref 0 (hold_ref 0 sample_fs)) = Some (OK, s1) \<and>
    RenameFileNoLock naming_sys (Suc 0) ''/a.sst'' ''/a.sst'' sample_fs = Some (st, s')"
proof -
  let ?h = "hold_ref 0 (hold_ref 0 sample_fs)"
  define t where "t = upd_file 0 (\<lambda>_. (fheap ?h 0)\<lparr>f_linkfiles := []\<rparr>) (?h\<lparr>fs_files := map_erase ''/a.sst'' (fs_files ?h)\<rparr>)"
  let ?rec = "EncodeFileDeletionTo le_coding (fheap t 0) ''/a.sst''"
  have t: "fs_meta_log t = Some sample_ml" "zheap t 3 = sample_zone 12288 0 0" "zb_zone_sz (dev t) = 4096" "dev t = dev sample_fs"
    "fs_files t = []" "fs_refs t 0 = 2" "f_linkfiles (fheap t 0) = []" "dynamic_level_adjustment (params t) = 0"
    by (simp_all add: t_def upd_file_def hold_ref_def sample_fs_eval map_erase_def)
  have c: "sys_coding naming_sys = le_coding" "sys_be naming_sys = ram_backend" by (simp_all add: naming_sys_def sample_sys_sel)
  have rec: "length ?rec < 1000" using length_EncodeFileDeletion [of "fheap t 0" "''/a.sst''"] by simp
  obtain ios n d where P: "PersistRecord naming_sys ?rec t = Some (ios, append_result 3 n d t)" "ios = OK"
    using sample_persist [OF c t(1-3) rec] t(4) by metis
  define s1 where "s1 = SetDeleted ''/a.sst'' 0 (append_result 3 n d t)"
  have l: "f_linkfiles (fheap ?h 0) = [''/a.sst'']" by (simp add: hold_ref_def sample_fs_eval)
  have q: "RemoveLinkName ''/a.sst'' (fheap ?h 0) = (OK, (fheap ?h 0)\<lparr>f_linkfiles := []\<rparr>)"
    using l by (simp add: RemoveLinkName_def)
  have ft: "fheap t 0 = (fheap ?h 0)\<lparr>f_linkfiles := []\<rparr>" by (simp add: t_def upd_file_def)
  have D: "delete_link naming_sys ''/a.sst'' 0 ?h = Some (OK, s1)"
    using P t(7) ft by (simp add: delete_link_def q Let_def t_def [symmetric] c s1_def append_result_def upd_zone_def)
  have s1: "fs_files s1 = []" "fs_refs s1 0 = 2" "f_linkfiles (fheap s1 0) = []" "dynamic_level_adjustment (params s1) = 0"
    using t by (simp_all add: s1_def SetDeleted_def RemoveZoneFileRecord_def append_result_def upd_zone_def upd_file_def)
  have "ClearExtents_loop es r \<noteq> None" if "dynamic_level_adjustment (params r) = 0" for es and r :: "(ram zbdlib, nat) zenfs"
    using that by (induction es arbitrary: r) (simp_all add: Let_def upd_zone_def)
  then have "release_ref 0 (s1\<lparr>fs_refs := (fs_refs s1)(0 := 1)\<rparr>) \<noteq> None"
    using s1 by (simp add: release_ref_def drop_shared_def ClearExtents_def)
  moreover have "release_ref 0 s1 = Some (s1\<lparr>fs_refs := (fs_refs s1)(0 := 1)\<rparr>)"
    using s1 by (simp add: release_ref_def drop_shared_def)
  moreover have "DeleteFileNoLock naming_sys ''/a.sst'' ?h = Some (OK, s1)"
    using D s1 sample_naming.GetFile_formatted [OF sample_format(1), of ?h] same_names_ok [of sample_fs ?h]
    by (simp add: DeleteFileNoLock_def sample_format sample_names drop_shared_def)
  moreover have "rename_link naming_sys ''/a.sst'' ''/a.sst'' 0 s1 = Some (IOError, s1)"
    using s1(3) by (simp add: rename_link_def RenameLink_def)
  ultimately have "RenameFileNoLock naming_sys (Suc 0) ''/a.sst'' ''/a.sst'' sample_fs \<noteq> None"
    using sample_naming.GetFile_formatted [OF sample_format(1), of sample_fs]
    by (auto simp: sample_format sample_names rename_file_def)
  then show ?thesis using D by auto
qed


end
