(* ===== verification/Zen_Recovery.thy ===== *)
theory Zen_Recovery
  imports Zen_Space
begin

text \<open>
  Recovery from a snapshot. The snapshot record lists every file once for each of its names; decoding it gives
  the name space back, with a file that has several names restored as one file and its extents charged once.
\<close>

section \<open>Pieces\<close>

lemma map_insert_all:
  assumes "map_wf xs"
  shows "map_wf (fold (\<lambda>n. map_insert n g) ns xs) \<and>
    map_of (fold (\<lambda>n. map_insert n g) ns xs) = (\<lambda>n. if n \<in> set ns \<and> n \<notin> dom (map_of xs) then Some g else map_of xs n)"
  using assms
proof (induction ns arbitrary: xs)
  case (Cons n ns)
  then show ?case using map_of_insert [OF Cons.prems, of n g] by (auto simp: map_wf_insert fun_eq_iff split: if_splits)
qed (simp add: fun_eq_iff)

lemma ran_map_wf: "map_wf xs \<Longrightarrow> ran (map_of xs) = snd ` set xs"
  unfolding map_wf_def by (rule ran_distinct) (simp add: strict_sorted_iff)

definition extent_sum :: "extent list \<Rightarrow> zptr \<Rightarrow> u64" where
  "extent_sum es p = (\<Sum>e\<leftarrow>filter (\<lambda>e. e_zone e = p) es. e_length e)"

lemma extent_sum_unleveled [simp]: "extent_sum (map (e_level_update h) es) p = extent_sum es p"
  by (simp add: extent_sum_def filter_map comp_def)

lemma clear_uncharges:
  "dynamic_level_adjustment (params s) = 0 \<Longrightarrow>
   \<exists>z. ClearExtents_loop es s = Some (s\<lparr>zheap := z\<rparr>) \<and> (\<forall>p. z p = (zheap s p)\<lparr>z_used := z_used (zheap s p) - extent_sum es p\<rparr>)"
proof (induction es arbitrary: s)
  case Nil
  show ?case by (intro exI [of _ "zheap s"]) (simp add: extent_sum_def)
next
  case (Cons e es)
  let ?s1 = "upd_zone (e_zone e) (\<lambda>z. z\<lparr>z_used := z_used z - e_length e\<rparr>) s"
  have "dynamic_level_adjustment (params ?s1) = 0" using Cons.prems by (simp add: upd_zone_def)
  from Cons.IH [OF this] obtain z where z: "ClearExtents_loop es ?s1 = Some (?s1\<lparr>zheap := z\<rparr>)"
    "\<forall>p. z p = (zheap ?s1 p)\<lparr>z_used := z_used (zheap ?s1 p) - extent_sum es p\<rparr>" by blast
  have "z p = (zheap s p)\<lparr>z_used := z_used (zheap s p) - extent_sum (e # es) p\<rparr>" for p
    using z(2) by (simp add: upd_zone_def extent_sum_def diff_diff_eq)
  moreover have "ClearExtents_loop (e # es) s = Some (s\<lparr>zheap := z\<rparr>)"
    using z(1) Cons.prems by (simp add: Let_def upd_zone_def)
  ultimately show ?case by blast
qed

lemma GetIOZone_same:
  assumes "\<And>p. z_start (zheap t p) = z_start (zheap s p)" "io_zones t = io_zones s" "dev t = dev s"
  shows "GetIOZone be off t = GetIOZone be off s"
  by (simp add: GetIOZone_def assms)

text \<open>A file object as the snapshot describes it.\<close>

definition recovered :: "zonefile \<Rightarrow> zonefile" where
  "recovered zf = MetadataSynced (stored_fields zf (f_extents zf) (ZoneFile_new 0))"

lemma recovered_fields [simp]:
  "f_linkfiles (recovered zf) = f_linkfiles zf" "f_file_id (recovered zf) = f_file_id zf"
  "f_extents (recovered zf) = map (\<lambda>e. e\<lparr>e_level := -1\<rparr>) (f_extents zf)" "f_file_size (recovered zf) = f_file_size zf"
  "f_lifetime (recovered zf) = f_lifetime zf" "f_m_time (recovered zf) = f_m_time zf"
  "f_extent_start (recovered zf) = f_extent_start zf" "f_is_sparse (recovered zf) = f_is_sparse zf"
  by (simp_all add: recovered_def MetadataSynced_def stored_fields_def ZoneFile_new_def)

lemma more_charge_extents: "zbd.more (charge_extents es s) = zbd.more s"
  by (induction es arbitrary: s) (simp_all add: charge_def upd_zone_def)

section \<open>Decoding one file after the other\<close>

text \<open>
  The state after some of the files have been decoded: \<open>D\<close> are the files of the old state that are there again,
  \<open>h\<close> their new objects, \<open>s0\<close> the state before.
\<close>

definition recovering :: "('d, 'a, 'z) zenfs_scheme \<Rightarrow> ('d, 'a, 'z) zenfs_scheme \<Rightarrow> fptr set \<Rightarrow> (fptr \<Rightarrow> fptr)
    \<Rightarrow> ('d, 'a, 'z) zenfs_scheme \<Rightarrow> bool" where
  "recovering s s0 D h t \<longleftrightarrow> D \<subseteq> ran (names s) \<and> inj_on h D \<and> map_wf (fs_files t) \<and>
    names t = (\<lambda>n. case names s n of Some f \<Rightarrow> if f \<in> D then Some (h f) else None | None \<Rightarrow> None) \<and>
    (\<forall>f \<in> D. h f < next_fptr t \<and> fheap t (h f) = recovered (fheap s f) \<and> f_file_id (fheap s f) < fs_next_file_id t) \<and>
    (\<forall>p. zheap t p = (zheap s0 p)\<lparr>z_used := z_used (zheap s0 p) + (\<Sum>f \<in> D. extent_sum (f_extents (fheap s f)) p)\<rparr>) \<and>
    io_zones t = io_zones s0 \<and> dev t = dev s0 \<and> params t = params s0"

text \<open>What the snapshot needs: names and records of ordinary size, extents in I/O zones, identifiers below the
  last one.\<close>

definition snapshot_ok :: "'e coding_scheme \<Rightarrow> ('d, 'b) backend_scheme \<Rightarrow> ('d, 'a, 'z) zenfs_scheme \<Rightarrow> ('d, 'a, 'z) zenfs_scheme \<Rightarrow> bool" where
  "snapshot_ok c be s s0 \<longleftrightarrow>
    length (concat (map (\<lambda>(_, f). PutLengthPrefixedSlice c (EncodeSnapshotTo_file c (fheap s f))) (fs_files s))) < 2 ^ 32 \<and> (\<forall>f \<in> ran (names s).
    (\<forall>l \<in> set (f_linkfiles (fheap s f)). l \<noteq> [] \<and> length l < 2 ^ 32) \<and>
    length (EncodeSnapshotTo_file c (fheap s f)) < 2 ^ 32 \<and> f_file_id (fheap s f) + 1 \<noteq> 0 \<and>
    (\<forall>e \<in> set (f_extents (fheap s f)). GetIOZone be (e_start e) s0 = Some (e_zone e)))"

text \<open>File \<open>f\<close> of the old state has been decoded into the next free object, and its names inserted.\<close>

definition decoded :: "('d, 'a, 'z) zenfs_scheme \<Rightarrow> fptr \<Rightarrow> ('d, 'a, 'z) zenfs_scheme \<Rightarrow> ('d, 'a, 'z) zenfs_scheme \<Rightarrow> bool" where
  "decoded s f t t' \<longleftrightarrow> fheap t' = (fheap t)(next_fptr t := recovered (fheap s f)) \<and> next_fptr t' = next_fptr t + 1 \<and>
    fs_refs t' (next_fptr t) = 0 \<and> io_zones t' = io_zones t \<and> dev t' = dev t \<and> params t' = params t \<and>
    fs_files t' = fold (\<lambda>n. map_insert n (next_fptr t)) (f_linkfiles (fheap s f)) (fs_files t) \<and>
    (\<forall>p. zheap t' p = (zheap t p)\<lparr>z_used := z_used (zheap t p) + extent_sum (f_extents (fheap s f)) p\<rparr>) \<and>
    f_file_id (fheap s f) < fs_next_file_id t' \<and> fs_next_file_id t \<le> fs_next_file_id t'"

lemma decoded_names:
  assumes "decoded s f t t'" "map_wf (fs_files t)"
  shows "map_wf (fs_files t')"
    "names t' = (\<lambda>n. if n \<in> set (f_linkfiles (fheap s f)) \<and> n \<notin> dom (names t) then Some (next_fptr t) else names t n)"
  using map_insert_all [OF assms(2), of "next_fptr t" "f_linkfiles (fheap s f)"] assms(1)
  unfolding decoded_def names_def by simp_all

lemma recovering_old:
  assumes "recovering s s0 D h t" "decoded s f t t'" "x \<in> D"
  shows "h x < next_fptr t'" "h x \<noteq> next_fptr t" "fheap t' (h x) = recovered (fheap s x)" "f_file_id (fheap s x) < fs_next_file_id t'"
proof -
  have x: "h x < next_fptr t" "fheap t (h x) = recovered (fheap s x)" "f_file_id (fheap s x) < fs_next_file_id t"
    using assms(1,3) by (auto simp: recovering_def)
  then show "h x < next_fptr t'" "h x \<noteq> next_fptr t" "fheap t' (h x) = recovered (fheap s x)" "f_file_id (fheap s x) < fs_next_file_id t'"
    using assms(2) by (auto simp: decoded_def)
qed

lemma recovering_new:
  assumes ok: "names_ok s" "names s n0 = Some f" and R: "recovering s s0 D h t" and T: "decoded s f t t'" and new: "f \<notin> D"
  shows "drop_shared (next_fptr t) t' = Some t'" "recovering s s0 (insert f D) (h(f := next_fptr t)) t'"
proof -
  let ?g = "next_fptr t" and ?h = "h(f := next_fptr t)"
  note R' = R [unfolded recovering_def] and T' = T [unfolded decoded_def]
  have wf: "map_wf (fs_files t)" using R' by blast
  note n = decoded_names [OF T wf]
  have links: "set (f_linkfiles (fheap s f)) = {n. names s n = Some f}" by (rule names_ok_links [OF ok])
  have fin: "finite D" using R' finite_subset finite_ran [of "names s"] by (metis names_def finite_dom_map_of)
  note old = recovering_old [OF R T]
  have nt: "names t' = (\<lambda>n. case names s n of Some x \<Rightarrow> if x \<in> insert f D then Some (?h x) else None | None \<Rightarrow> None)"
  proof -
    have nm: "names t = (\<lambda>n. case names s n of Some x \<Rightarrow> if x \<in> D then Some (h x) else None | None \<Rightarrow> None)" using R' by blast
    show ?thesis using links new by (auto simp: n(2) nm fun_eq_iff split: option.splits)
  qed
  have "?g \<in> ran (names t')" using ok(2) by (auto simp: nt ran_def intro!: exI [of _ n0])
  then show "drop_shared ?g t' = Some t'" using ran_map_wf [OF n(1)] by (simp add: drop_shared_def names_def)
  show "recovering s s0 (insert f D) ?h t'"
    unfolding recovering_def
  proof (intro conjI allI)
    show "insert f D \<subseteq> ran (names s)" using R' ok(2) by (auto simp: ran_def)
    have "inj_on h D" using R' by blast
    moreover have "?g \<notin> h ` D" using old(2) by (metis imageE)
    ultimately show "inj_on ?h (insert f D)" using new by (auto simp: inj_on_insert inj_on_fun_updI)
    show "\<forall>x \<in> insert f D. ?h x < next_fptr t' \<and> fheap t' (?h x) = recovered (fheap s x) \<and>
        f_file_id (fheap s x) < fs_next_file_id t'"
      using old T' new by auto
    show "zheap t' p = (zheap s0 p)\<lparr>z_used := z_used (zheap s0 p) + (\<Sum>x \<in> insert f D. extent_sum (f_extents (fheap s x)) p)\<rparr>" for p
      using R' T' new fin by (simp add: ac_simps)
  qed (use R' T' n nt in auto)
qed

lemma recovering_again:
  assumes ok: "names_ok s" "names s n0 = Some f" "dynamic_level_adjustment (params s0) = 0"
    and R: "recovering s s0 D h t" and T: "decoded s f t t'" and old: "f \<in> D"
  shows "\<exists>t''. drop_shared (next_fptr t) t' = Some t'' \<and> recovering s s0 D h t''"
proof -
  let ?g = "next_fptr t" and ?es = "f_extents (recovered (fheap s f))"
  note R' = R [unfolded recovering_def] and T' = T [unfolded decoded_def]
  have wf: "map_wf (fs_files t)" using R' by blast
  note n = decoded_names [OF T wf]
  have links: "set (f_linkfiles (fheap s f)) = {n. names s n = Some f}" by (rule names_ok_links [OF ok(1,2)])
  note lt = recovering_old [OF R T]
  have nt: "names t' = names t" using old R' links by (auto simp: n(2) fun_eq_iff dom_def split: option.splits)
  have "?g \<notin> ran (names t')" using lt(2) R' by (auto simp: nt ran_def split: option.splits if_splits)
  then have nd: "drop_shared ?g t' = ClearExtents ?g t'" using ran_map_wf [OF n(1)] T' by (simp add: drop_shared_def names_def)
  obtain z where z: "ClearExtents_loop ?es t' = Some (t'\<lparr>zheap := z\<rparr>)"
    "\<forall>p. z p = (zheap t' p)\<lparr>z_used := z_used (zheap t' p) - extent_sum ?es p\<rparr>"
    using clear_uncharges [of t' ?es] ok(3) T' R' by auto
  define t'' where "t'' = upd_file ?g (f_extents_update (\<lambda>_. [])) (t'\<lparr>zheap := z\<rparr>)"
  have "drop_shared ?g t' = Some t''" unfolding nd using z(1) T' by (simp add: ClearExtents_def t''_def)
  moreover have "recovering s s0 D h t''"
    unfolding recovering_def
  proof (intro conjI allI)
    show "\<forall>x \<in> D. h x < next_fptr t'' \<and> fheap t'' (h x) = recovered (fheap s x) \<and> f_file_id (fheap s x) < fs_next_file_id t''"
      using lt by (simp add: t''_def upd_file_def)
    show "zheap t'' p = (zheap s0 p)\<lparr>z_used := z_used (zheap s0 p) + (\<Sum>x \<in> D. extent_sum (f_extents (fheap s x)) p)\<rparr>" for p
      using R' T' z(2) by (simp add: t''_def upd_file_def)
  qed (use R' T' n nt in \<open>auto simp: t''_def upd_file_def names_def\<close>)
  ultimately show ?thesis by blast
qed

context coding_laws
begin

lemma get_slice_Nil [simp]: "GetLengthPrefixedSlice c [] = None"
  using get_slice_shrinks [of "[]"] by (cases "GetLengthPrefixedSlice c []") auto

lemma decode_file:
  fixes s s0 t :: "('d, 'a, 'z) zenfs_scheme"
  assumes ok: "snapshot_ok c be s s0" "f \<in> ran (names s)" and R: "recovering s s0 D h t"
  shows "\<exists>t'. decoded s f t t' \<and> DecodeSnapshotFrom c be (PutLengthPrefixedSlice c (EncodeSnapshotTo_file c (fheap s f)) @ rest) t =
      Option.bind (drop_shared (next_fptr t) t') (DecodeSnapshotFrom c be rest)"
proof -
  let ?zf = "fheap s f" and ?g = "next_fptr t"
  let ?es = "f_extents ?zf"
  note R' = R [unfolded recovering_def]
  define t1 where "t1 = snd (new_file 0 t)"
  have t1: "new_file 0 t = (?g, t1)" "zheap t1 = zheap t" "io_zones t1 = io_zones t" "dev t1 = dev t" "params t1 = params t"
    "fheap t1 = (fheap t)(?g := ZoneFile_new 0)" "next_fptr t1 = ?g + 1" "fs_files t1 = fs_files t" "fs_refs t1 ?g = 0"
    "fs_next_file_id t1 = fs_next_file_id t"
    by (simp_all add: t1_def new_file_def Let_def)
  have z: "GetIOZone be off t1 = GetIOZone be off s0" for off by (rule GetIOZone_same) (use R' t1 in auto)
  have S: "\<forall>l \<in> set (f_linkfiles ?zf). l \<noteq> [] \<and> length l < 2 ^ 32" "length (EncodeSnapshotTo_file c ?zf) < 2 ^ 32"
    "f_file_id ?zf + 1 \<noteq> 0" "\<forall>e \<in> set ?es. GetIOZone be (e_start e) t1 = Some (e_zone e)"
    using ok z by (auto simp: snapshot_ok_def)
  define t2 where "t2 = upd_file ?g (\<lambda>old. MetadataSynced (stored_fields ?zf ?es old)) (charge_extents ?es t1)"
  have D: "ZoneFile_DecodeFrom c be ?g (EncodeSnapshotTo_file c ?zf) t1 = Some (OK, t2)"
    using DecodeFrom_EncodeTo [of 0 ?zf be t1 ?g] S by (simp add: t2_def EncodeSnapshotTo_file_def)
  define t3 where "t3 = insert_names (f_linkfiles ?zf) ?g (bump_next_file_id ?g t2)"
  have g2: "fheap t2 ?g = recovered ?zf" by (simp add: t2_def upd_file_def t1 recovered_def)
  then have b: "bump_next_file_id ?g t2 = t2\<lparr>fs_next_file_id := (if f_file_id ?zf \<ge> fs_next_file_id t2 then f_file_id ?zf + 1 else fs_next_file_id t2)\<rparr>"
    by (simp add: bump_next_file_id_def)
  note m = zenfs_more_eq [OF more_charge_extents, of ?es t1]
  have "zheap t3 = zheap (charge_extents ?es t1)" "fs_next_file_id t3 = (if f_file_id ?zf \<ge> fs_next_file_id t then f_file_id ?zf + 1 else fs_next_file_id t)"
    unfolding t3_def b insert_names_def by (simp_all add: t2_def upd_file_def m t1)
  then have "\<forall>p. zheap t3 p = (zheap t p)\<lparr>z_used := z_used (zheap t p) + extent_sum ?es p\<rparr>"
    "f_file_id ?zf < fs_next_file_id t3 \<and> fs_next_file_id t \<le> fs_next_file_id t3"
    using less_Suc_u64 [OF S(3)] by (auto simp: charge_extents_used t1 extent_sum_def not_le split: if_splits)
  then have "decoded s f t t3"
    unfolding decoded_def t3_def b insert_names_def by (simp add: t2_def upd_file_def m t1 recovered_def)
  moreover have "DecodeSnapshotFrom c be (PutLengthPrefixedSlice c (EncodeSnapshotTo_file c ?zf) @ rest) t =
      Option.bind (drop_shared ?g t3) (DecodeSnapshotFrom c be rest)"
    using D t1(1) get_slice [OF S(2)] g2 by (subst DecodeSnapshotFrom.simps) (simp add: t3_def)
  ultimately show ?thesis by blast
qed

lemma decode_files:
  assumes ok: "names_ok s" "snapshot_ok c be s s0" "dynamic_level_adjustment (params s0) = 0"
    and "set fs \<subseteq> ran (names s)" "recovering s s0 D h t"
  shows "\<exists>h' t'. DecodeSnapshotFrom c be (concat (map (\<lambda>f. PutLengthPrefixedSlice c (EncodeSnapshotTo_file c (fheap s f))) fs)) t =
      Some (OK, t') \<and> recovering s s0 (D \<union> set fs) h' t'"
  using assms(4,5)
proof (induction fs arbitrary: D h t)
  case Nil
  then show ?case by (subst DecodeSnapshotFrom.simps) auto
next
  case (Cons f fs)
  obtain n0 where n0: "names s n0 = Some f" using Cons.prems(1) by (auto simp: ran_def)
  have f: "f \<in> ran (names s)" using Cons.prems(1) by simp
  obtain t' where T: "decoded s f t t'" and go: "DecodeSnapshotFrom c be (concat (map (\<lambda>f. PutLengthPrefixedSlice c
      (EncodeSnapshotTo_file c (fheap s f))) (f # fs))) t =
      Option.bind (drop_shared (next_fptr t) t') (DecodeSnapshotFrom c be (concat (map (\<lambda>f. PutLengthPrefixedSlice c
        (EncodeSnapshotTo_file c (fheap s f))) fs)))"
    using decode_file [OF ok(2) f Cons.prems(2)] by auto
  have "\<exists>h' t''. drop_shared (next_fptr t) t' = Some t'' \<and> recovering s s0 (insert f D) h' t''"
    using recovering_new [OF ok(1) n0 Cons.prems(2) T] recovering_again [OF ok(1) n0 ok(3) Cons.prems(2) T]
    by (cases "f \<in> D") (auto simp: insert_absorb)
  then obtain h' t'' where "drop_shared (next_fptr t) t' = Some t''" "recovering s s0 (insert f D) h' t''" by blast
  moreover from Cons.IH [OF _ this(2)] Cons.prems(1) obtain h3 t3 where
    "DecodeSnapshotFrom c be (concat (map (\<lambda>f. PutLengthPrefixedSlice c (EncodeSnapshotTo_file c (fheap s f))) fs)) t'' = Some (OK, t3)"
    "recovering s s0 (insert f D \<union> set fs) h3 t3" by auto
  ultimately show ?case using go by auto
qed

text \<open>The whole record.\<close>

lemma snapshot_applies:
  assumes ok: "names_ok s" "snapshot_ok c be s s0" "dynamic_level_adjustment (params s0) = 0" "fs_files s0 = []"
    and data: "ZenFS_EncodeSnapshotTo c s = PutFixed32 c kCompleteFilesSnapshot @ PutLengthPrefixedSlice c data"
      "data = concat (map (\<lambda>(_, f). PutLengthPrefixedSlice c (EncodeSnapshotTo_file c (fheap s f))) (fs_files s))"
  shows "\<exists>h s'. apply_record c be kCompleteFilesSnapshot data s0 = Some (OK, s') \<and> recovering s s0 (ran (names s)) h s'"
proof -
  have wf: "map_wf (fs_files s)" using ok(1) by (simp add: names_ok_def)
  have all: "set (map snd (fs_files s)) = ran (names s)" using ran_map_wf [OF wf] by (simp add: names_def)
  have "recovering s s0 {} id s0"
    by (simp add: recovering_def ok(4) names_def fun_eq_iff split: option.splits)
  from decode_files [OF ok(1-3) _ this, of "map snd (fs_files s)"] all
  obtain h s' where "DecodeSnapshotFrom c be data s0 = Some (OK, s')" "recovering s s0 (ran (names s)) h s'"
    by (auto simp: data(2) case_prod_unfold comp_def)
  moreover have "ClearFiles s0 = Some s0" using ok(4) by (cases s0) (simp add: ClearFiles_def)
  ultimately show ?thesis by (auto simp: apply_record_def)
qed

end

section \<open>From the log\<close>

text \<open>\<open>recovers s s0 s'\<close>: state \<open>s'\<close>, mounted from \<open>s0\<close>, has the name space of \<open>s\<close>: the same names, grouped into files in the
  same way, each file as it was stored, and the zones charged with its extents once.\<close>

definition recovers :: "('d, 'a, 'z) zenfs_scheme \<Rightarrow> ('d, 'a, 'z) zenfs_scheme \<Rightarrow> ('d, 'a, 'z) zenfs_scheme \<Rightarrow> bool" where
  "recovers s s0 s' \<longleftrightarrow> (\<exists>h. inj_on h (ran (names s)) \<and> names s' = (\<lambda>n. map_option h (names s n)) \<and>
    (\<forall>f \<in> ran (names s). fheap s' (h f) = recovered (fheap s f) \<and> f_file_id (fheap s f) < fs_next_file_id s') \<and>
    (\<forall>p. zheap s' p = (zheap s0 p)\<lparr>z_used := z_used (zheap s0 p) + (\<Sum>f \<in> ran (names s). extent_sum (f_extents (fheap s f)) p)\<rparr>))"

lemma recovering_recovers: "recovering s s0 (ran (names s)) h s' \<Longrightarrow> recovers s s0 s'"
  unfolding recovers_def recovering_def
  by (intro exI [of _ h]) (auto simp: fun_eq_iff ran_def split: option.splits)

text \<open>Reading the log does not change the geometry of the device.\<close>

context zoned_storage
begin

lemma Zbd_Read_geometry:
  assumes "Zbd_Read be offset n direct s = Some (v, buf, s')"
  shows "geometry be (dev s') = geometry be (dev s)"
proof -
  let ?P = "\<lambda>b buf offset left direct r ret s (v, buf', s'). b = be \<longrightarrow> geometry be (dev s') = geometry be (dev s)"
  have "?P be [] offset n direct (-1) 0 s (v, buf, s')"
  proof (rule Zbd_Read_loop.raw_induct [where P = ?P, OF _ assms [unfolded Zbd_Read_def]], goal_cases)
    case (1 f b buf offset left direct r ret s res)
    obtain r1 e bytes d where R: "be_Read be left offset direct (dev s) = (r1, e, bytes, d)" by (metis prod_cases4)
    then show ?case
      using 1(2) 1(1) [of be _ _ _ direct r1 _ "s\<lparr>dev := d\<rparr>"] read_keeps [OF R]
      by (cases res) (fastforce simp: Let_def split: if_splits)
  qed
  then show ?thesis by simp
qed

lemma MetaLog_Read_loop_geometry:
  assumes "MetaLog_Read_loop be buf left pos s = Some (st, buf', pos', s')"
  shows "geometry be (dev s') = geometry be (dev s)"
proof -
  let ?P = "\<lambda>b buf left pos s (st, buf', pos', s'). b = be \<longrightarrow> geometry be (dev s') = geometry be (dev s)"
  have "?P be buf left pos s (st, buf', pos', s')"
  proof (rule MetaLog_Read_loop.raw_induct [where P = ?P, OF _ assms], goal_cases)
    case (1 f b buf left pos s res)
    show ?case
    proof (cases res, clarify)
      fix st buf' pos' s'
      assume r: "res = (st, buf', pos', s')" "b = be"
      show "geometry be (dev s') = geometry be (dev s)"
      proof (cases "left = 0")
        case True
        then show ?thesis using 1(2) r by simp
      next
        case False
        then obtain ret bytes s1 where Z: "Zbd_Read be pos (int_of_size left) False s = Some (ret, bytes, s1)"
          using 1(2) r by (auto split: option.splits)
        have "geometry be (dev s1) = geometry be (dev s)" using Zbd_Read_geometry [OF Z] .
        then show ?thesis using 1(1) 1(2) r Z False by (fastforce split: if_splits)
      qed
    qed
  qed
  then show ?thesis by simp
qed

lemma ReadRecord_geometry:
  assumes "ReadRecord c be ml s = Some (st, rec, ml', s')"
  shows "geometry be (dev s') = geometry be (dev s)"
proof -
  have M: "geometry be (dev t') = geometry be (dev t)" if "MetaLog_Read be n l t = Some (st, b, l', t')"
    for n l t st b l' t'
    using that by (auto simp: MetaLog_Read_def Let_def split: if_splits option.splits dest: MetaLog_Read_loop_geometry)
  show ?thesis
    using assms by (auto simp: ReadRecord_def Let_def split: option.splits if_splits prod.splits dest!: M)
qed

end

text \<open>
  The log of a metadata zone of readable size holds \<open>recs\<close>, and is positioned at record \<open>i\<close>.
\<close>

definition log_positioned :: "'e coding_scheme \<Rightarrow> ('d, 'b) backend_scheme \<Rightarrow> ('d \<Rightarrow> nat \<Rightarrow> byte) \<Rightarrow> u32 \<Rightarrow> byte list list \<Rightarrow> nat
    \<Rightarrow> metalog \<Rightarrow> ('d, 'm) zbd_scheme \<Rightarrow> bool" where
  "log_positioned c be media bsz recs i ml s \<longleftrightarrow> (let z = zheap s (ml_zone ml); lim = unat (z_start z) + unat (z_max_capacity z) in
    reads_nonempty be lim \<and> lim + unat bsz < 2 ^ 64 \<and> unat (z_wp z) \<le> lim \<and> ml_bs ml = ucast bsz \<and>
    0 < unat bsz \<and> unat bsz dvd unat (z_start z) \<and> log_holds c (unat bsz) (media (dev s)) z recs \<and>
    (\<forall>r \<in> set recs. r \<noteq> [] \<and> length r < 2 ^ 31) \<and> i \<le> length recs \<and>
    unat (ml_read_pos ml) = unat (z_start z) + length (log_bytes c (unat bsz) (take i recs)))"

lemma log_positioned_same:
  assumes "log_positioned c be media bsz recs i ml s" "media (dev s') = media (dev s)"
    "z_start (zheap s' (ml_zone ml)) = z_start (zheap s (ml_zone ml))" "z_wp (zheap s' (ml_zone ml)) = z_wp (zheap s (ml_zone ml))"
    "z_max_capacity (zheap s' (ml_zone ml)) = z_max_capacity (zheap s (ml_zone ml))"
  shows "log_positioned c be media bsz recs i ml s'"
  using assms by (simp add: log_positioned_def Let_def log_holds_def)

lemma read_positioned:
  fixes s :: "('d, 'm) zbd_scheme"
  assumes "coding_laws c" "steady_storage be media" "log_positioned c be media bsz recs i ml s"
  shows "\<exists>st rec ml' d. ReadRecord c be ml s = Some (st, rec, ml', s\<lparr>dev := d\<rparr>) \<and> geometry be d = geometry be (dev s) \<and>
    media d = media (dev s) \<and>
    (if i = length recs then st = OK \<and> rec = [] \<and> ml' = ml
     else st = IOError \<and> \<not> reads_succeed be \<or> st = OK \<and> rec = recs ! i \<and> log_positioned c be media bsz recs (Suc i) ml' (s\<lparr>dev := d\<rparr>))"
proof -
  let ?z = "zheap s (ml_zone ml)"
  define lim where "lim = unat (z_start ?z) + unat (z_max_capacity ?z)"
  note P = assms(3) [unfolded log_positioned_def Let_def, folded lim_def]
  have lim: "lim < 2 ^ 64" "lim \<le> lim" using P by auto
  obtain st rec ml' d where R: "ReadRecord c be ml s = Some (st, rec, ml', s\<lparr>dev := d\<rparr>)" "media d = media (dev s)"
    "if i = length recs then st = OK \<and> rec = [] \<and> ml' = ml
     else st = IOError \<and> \<not> reads_succeed be \<or> st = OK \<and> rec = recs ! i \<and> ml_zone ml' = ml_zone ml \<and> ml_bs ml' = ml_bs ml \<and>
       unat (ml_read_pos ml') = unat (z_start ?z) + length (log_bytes c (unat bsz) (take (Suc i) recs))"
    using ReadRecord_at [OF assms(1,2) _ lim(1) refl, where ml = ml and bsz = bsz and recs = recs and i = i and s = s] P lim_def by auto
  have "zoned_storage be media" using assms(2) by (simp add: steady_storage_def)
  from zoned_storage.ReadRecord_geometry [OF this R(1)] have "geometry be d = geometry be (dev s)" by simp
  then show ?thesis using R P by (auto simp: log_positioned_def Let_def lim_def)
qed

lemma RecoverFrom_last:
  assumes "coding_laws c" "steady_storage be media" "names_ok s" "snapshot_ok c be s s0"
    and "dynamic_level_adjustment (params s0) = 0" "fs_files s0 = []"
    and "log_positioned c be media bsz (recs @ [ZenFS_EncodeSnapshotTo c s]) (length recs) ml s0"
  shows "\<exists>st ml' s'. RecoverFrom c be ml s0 = Some (st, ml', s') \<and> (st = Corruption \<and> \<not> reads_succeed be \<or> st = OK \<and> recovers s s0 s')"
proof -
  let ?snap = "ZenFS_EncodeSnapshotTo c s" and ?recs = "recs @ [ZenFS_EncodeSnapshotTo c s]"
  define data where "data = concat (map (\<lambda>(_, f). PutLengthPrefixedSlice c (EncodeSnapshotTo_file c (fheap s f))) (fs_files s))"
  have snap: "?snap = PutFixed32 c kCompleteFilesSnapshot @ PutLengthPrefixedSlice c data"
    by (simp add: ZenFS_EncodeSnapshotTo_def data_def)
  obtain st rec ml1 d where R: "ReadRecord c be ml s0 = Some (st, rec, ml1, s0\<lparr>dev := d\<rparr>)" "geometry be d = geometry be (dev s0)"
    "st = IOError \<and> \<not> reads_succeed be \<or> st = OK \<and> rec = ?snap \<and> log_positioned c be media bsz ?recs (Suc (length recs)) ml1 (s0\<lparr>dev := d\<rparr>)"
    using read_positioned [OF assms(1,2,7)] by (auto simp: nth_append)
  show ?thesis
  proof (cases "st = OK")
    case False
    then show ?thesis using R(1,3) by (auto simp: RecoverFrom_def RecoverFrom_loop.simps)
  next
    case True
    let ?s1 = "s0\<lparr>dev := d\<rparr>"
    have rec: "rec = ?snap" and L: "log_positioned c be media bsz ?recs (Suc (length recs)) ml1 ?s1" using R(3) True by auto
    have "snapshot_ok c be s ?s1"
      using assms(4) R(2) by (simp add: snapshot_ok_def GetIOZone_def geometry_def)
    then obtain h s2 where A: "apply_record c be kCompleteFilesSnapshot data ?s1 = Some (OK, s2)" "recovering s ?s1 (ran (names s)) h s2"
      using coding_laws.snapshot_applies [OF assms(1,3), of be ?s1 data] assms(5,6) snap by (auto simp: data_def)
    have "log_positioned c be media bsz ?recs (Suc (length recs)) ml1 s2"
      by (rule log_positioned_same [OF L]) (use A(2) in \<open>auto simp: recovering_def\<close>)
    from read_positioned [OF assms(1,2) this]
    obtain d2 where E: "ReadRecord c be ml1 s2 = Some (OK, [], ml1, s2\<lparr>dev := d2\<rparr>)" by auto
    have "length data < 2 ^ 32" using assms(4) by (simp add: snapshot_ok_def data_def)
    then have "RecoverFrom c be ml s0 = Some (OK, ml1, s2\<lparr>dev := d2\<rparr>)"
      using R(1) True rec snap A(1) E coding_laws.get_slice [OF assms(1), of data "[]"] coding_laws.get32 [OF assms(1)] coding_laws.get32_Nil [OF assms(1)]
      by (simp add: RecoverFrom_def RecoverFrom_loop.simps)
    moreover have "recovers s s0 (s2\<lparr>dev := d2\<rparr>)"
      using recovering_recovers [OF A(2)] by (simp add: recovers_def names_def)
    ultimately show ?thesis by blast
  qed
qed


section \<open>The sample file system after a crash\<close>

text \<open>Its snapshot is in the metadata zone, the map of names is empty.\<close>

definition sample_frame :: "byte list" where
  "sample_frame = log_frame le_coding 64 (ZenFS_EncodeSnapshotTo le_coding sample_fs)"

definition sample_crashed :: "(ram zbdlib, nat) zenfs" where
  "sample_crashed = sample_fs\<lparr>fs_files := [], zheap := (zheap sample_fs)(3 := sample_zone 12288 (of_nat (length sample_frame)) 0),
    dev := (dev sample_fs)\<lparr>zb_kernel := (zb_kernel (dev sample_fs))\<lparr>ram_media := (\<lambda>i. sample_frame ! (i - 12288))\<rparr>\<rparr>\<rparr>"

lemma sample_snapshot_length:
  "length (EncodeSnapshotTo_file le_coding (fheap sample_fs 0)) < 400"
  "length (ZenFS_EncodeSnapshotTo le_coding sample_fs) < 500" "ZenFS_EncodeSnapshotTo le_coding sample_fs \<noteq> []"
  "length (concat (map (\<lambda>(_, f). PutLengthPrefixedSlice le_coding (EncodeSnapshotTo_file le_coding (fheap sample_fs f))) (fs_files sample_fs))) < 450"
proof -
  let ?zf = "fheap sample_fs 0"
  have zf: "f_extents ?zf = [\<lparr>e_start = 0, e_length = 10, e_zone = 0, e_level = 0\<rparr>]" "f_linkfiles ?zf = [''/a.sst'']"
    "\<not> f_is_sparse ?zf" "fs_files sample_fs = [(''/a.sst'', 0)]" by (simp_all add: sample_fs_eval)
  show l: "length (EncodeSnapshotTo_file le_coding ?zf) < 400"
    using length_encode_extents [of "f_extents ?zf"] length_encode_links [of "f_linkfiles ?zf"] zf
    by (simp add: EncodeSnapshotTo_file_def ZoneFile_EncodeTo_def)
  show d: "length (concat (map (\<lambda>(_, f). PutLengthPrefixedSlice le_coding (EncodeSnapshotTo_file le_coding (fheap sample_fs f))) (fs_files sample_fs))) < 450"
    using length_prefixed [of "EncodeSnapshotTo_file le_coding ?zf"] l by (simp add: zf)
  show "length (ZenFS_EncodeSnapshotTo le_coding sample_fs) < 500"
    using length_prefixed [of "concat (map (\<lambda>(_, f). PutLengthPrefixedSlice le_coding (EncodeSnapshotTo_file le_coding (fheap sample_fs f))) (fs_files sample_fs))"] d
    by (simp add: ZenFS_EncodeSnapshotTo_def)
  show "ZenFS_EncodeSnapshotTo le_coding sample_fs \<noteq> []"
    using le.length32 by (auto simp: ZenFS_EncodeSnapshotTo_def dest: arg_cong [of _ _ length])
qed

lemma sample_crashed_log:
  "log_positioned le_coding ram_backend ram_bytes 64 ([] @ [ZenFS_EncodeSnapshotTo le_coding sample_fs]) (length []) sample_ml sample_crashed"
proof -
  let ?z = "zheap sample_crashed 3"
  have len: "length sample_frame = roundup 64 (length (ZenFS_EncodeSnapshotTo le_coding sample_fs) + 8)"
    using le.length_log_frame [of 64] by (simp add: sample_frame_def)
  have le: "length sample_frame \<le> 512"
    unfolding len using roundup_mono [of 64 "length (ZenFS_EncodeSnapshotTo le_coding sample_fs) + 8" 512] sample_snapshot_length(2)
    by (simp add: roundup_def)
  then have u: "unat (of_nat (length sample_frame) :: u64) = length sample_frame" by (intro unat_of_nat_u64) simp
  have z: "unat (z_start ?z) = 12288" "unat (z_wp ?z) = 12288 + length sample_frame" "unat (z_max_capacity ?z) = 3072"
    using le u by (simp_all add: sample_crashed_def sample_zone_def Zone_new_def unat_add_u64)
  have "media_slice (ram_bytes (dev sample_crashed)) 12288 (length sample_frame) = sample_frame"
    by (rule media_slice_eqI [symmetric]) (simp_all add: sample_crashed_def)
  then have "log_holds le_coding (unat (64 :: u32)) (ram_bytes (dev sample_crashed)) ?z [ZenFS_EncodeSnapshotTo le_coding sample_fs]"
    using z by (simp add: log_holds_def sample_frame_def)
  then show ?thesis
    using z le sample_snapshot_length(2,3) ram_reads_nonempty by (simp add: log_positioned_def Let_def)
qed


end
