(* ===== verification/Zen_Mount.thy ===== *)
theory Zen_Mount
  imports Zen_Recovery
begin

text \<open>
  Mounting after a crash. While the file system rolls to a new metadata zone, the zones pass through these states: the
  new zone is empty, has a superblock with a higher sequence number, and then a snapshot; only after that
  the old zone is reset. Shown: \<open>Mount\<close> recovers from the newest zone that has a snapshot, whatever the others
  have got to.
\<close>

section \<open>States that differ in the busy flags of zones\<close>

definition alike :: "('d, 'b) backend_scheme \<Rightarrow> ('d \<Rightarrow> nat \<Rightarrow> byte) \<Rightarrow> ('d, 'm) zbd_scheme \<Rightarrow> ('d, 'm) zbd_scheme \<Rightarrow> bool" where
  "alike be media s s' \<longleftrightarrow> s' = s\<lparr>dev := dev s', zheap := zheap s'\<rparr> \<and> media (dev s') = media (dev s) \<and>
    geometry be (dev s') = geometry be (dev s) \<and> (\<forall>p. (zheap s' p)\<lparr>z_busy := False\<rparr> = (zheap s p)\<lparr>z_busy := False\<rparr>)"

lemma alike_refl [simp]: "alike be media s s"
  by (simp add: alike_def)

lemma alike_trans:
  assumes "alike be media s s1" "alike be media s1 s2"
  shows "alike be media s s2"
proof -
  have e: "s1 = s\<lparr>dev := dev s1, zheap := zheap s1\<rparr>" using assms(1) by (simp add: alike_def)
  have "s2 = s1\<lparr>dev := dev s2, zheap := zheap s2\<rparr>" using assms(2) by (simp add: alike_def)
  also have "\<dots> = s\<lparr>dev := dev s2, zheap := zheap s2\<rparr>" by (subst e) simp
  finally have "s2 = s\<lparr>dev := dev s2, zheap := zheap s2\<rparr>" .
  then show ?thesis using assms by (simp add: alike_def)
qed

lemma alike_zone:
  assumes "alike be media s s'"
  shows "z_start (zheap s' p) = z_start (zheap s p)" "z_wp (zheap s' p) = z_wp (zheap s p)"
    "z_max_capacity (zheap s' p) = z_max_capacity (zheap s p)" "z_used (zheap s' p) = z_used (zheap s p)"
proof -
  have e: "(zheap s' p)\<lparr>z_busy := False\<rparr> = (zheap s p)\<lparr>z_busy := False\<rparr>" using assms by (simp add: alike_def)
  show "z_start (zheap s' p) = z_start (zheap s p)" using arg_cong [OF e, of z_start] by simp
  show "z_wp (zheap s' p) = z_wp (zheap s p)" using arg_cong [OF e, of z_wp] by simp
  show "z_max_capacity (zheap s' p) = z_max_capacity (zheap s p)" using arg_cong [OF e, of z_max_capacity] by simp
  show "z_used (zheap s' p) = z_used (zheap s p)" using arg_cong [OF e, of z_used] by simp
qed

lemma alike_fields:
  fixes s :: "('d, 'a, 'z) zenfs_scheme"
  assumes "alike be media s s'"
  shows "fs_files s' = fs_files s" "fheap s' = fheap s" "params s' = params s" "io_zones s' = io_zones s" "meta_zones s' = meta_zones s"
    "fs_next_file_id s' = fs_next_file_id s"
proof -
  have e: "s' = s\<lparr>dev := dev s', zheap := zheap s'\<rparr>" using assms by (simp add: alike_def)
  show "fs_files s' = fs_files s" by (subst e) simp
  show "fheap s' = fheap s" by (subst e) simp
  show "params s' = params s" by (subst e) simp
  show "io_zones s' = io_zones s" by (subst e) simp
  show "meta_zones s' = meta_zones s" by (subst e) simp
  show "fs_next_file_id s' = fs_next_file_id s" by (subst e) simp
qed

lemma alike_busy: "alike be media s (upd_zone p (z_busy_update (\<lambda>_. b)) s)"
  by (simp add: alike_def upd_zone_def)

lemma alike_destroy: "alike be media s (ZenMetaLog_destroy ml s)"
  by (simp add: ZenMetaLog_destroy_def Zone_Release_def alike_busy)

lemma alike_destroy_logs: "alike be media s (destroy_logs logs s)"
  unfolding destroy_logs_def
proof (induction logs arbitrary: s)
  case (Cons l logs)
  then show ?case using alike_destroy alike_trans by (cases l) fastforce+
qed simp

lemma alike_read: "media d = media (dev s) \<Longrightarrow> geometry be d = geometry be (dev s) \<Longrightarrow> alike be media s (s\<lparr>dev := d\<rparr>)"
  by (simp add: alike_def)

lemma log_positioned_alike:
  "log_positioned c be media bsz recs i ml s \<Longrightarrow> alike be media s s' \<Longrightarrow> log_positioned c be media bsz recs i ml s'"
  by (erule log_positioned_same) (simp_all add: alike_zone, simp add: alike_def)

lemma CompatibleWith_alike: "alike be media s s' \<Longrightarrow> CompatibleWith be sb s' = CompatibleWith be sb s"
  unfolding CompatibleWith_def alike_def geometry_def by simp

section \<open>Finding the superblocks\<close>

text \<open>What a metadata zone holds: nothing, or a superblock with the records behind it.\<close>

definition zone_records :: "'e coding_scheme \<Rightarrow> (superblock \<times> byte list list) option \<Rightarrow> byte list list" where
  "zone_records c log = (case log of None \<Rightarrow> [] | Some (sb, rest) \<Rightarrow> fst (Superblock_EncodeTo c sb) # rest)"

abbreviation (input) stored_sb :: "'e coding_scheme \<Rightarrow> superblock \<Rightarrow> superblock" where
  "stored_sb c sb \<equiv> snd (Superblock_EncodeTo c sb)"

definition metadata_zone :: "'e coding_scheme \<Rightarrow> ('d, 'b) backend_scheme \<Rightarrow> ('d \<Rightarrow> nat \<Rightarrow> byte) \<Rightarrow> u32 \<Rightarrow> ('d, 'm) zbd_scheme
    \<Rightarrow> zptr \<Rightarrow> (superblock \<times> byte list list) option \<Rightarrow> bool" where
  "metadata_zone c be media bsz s z log \<longleftrightarrow> \<not> z_busy (zheap s z) \<and>
    log_positioned c be media bsz (zone_records c log) 0 (ZenMetaLog_new be z s) s \<and>
    (case log of None \<Rightarrow> True | Some (sb, _) \<Rightarrow> superblock_wf sb \<and> CompatibleWith be (stored_sb c sb) s = OK)"

lemma metadata_zone_same:
  assumes "metadata_zone c be media bsz s z log" "alike be media s s'" "zheap s' z = zheap s z"
  shows "metadata_zone c be media bsz s' z log"
proof -
  have g: "be_block_sz be (dev s') = be_block_sz be (dev s)" using assms(2) by (simp add: alike_def geometry_def)
  have "ZenMetaLog_new be z s' = ZenMetaLog_new be z s" by (simp add: ZenMetaLog_new_def g assms(3))
  then show ?thesis
    using assms(1,3) log_positioned_alike [OF _ assms(2)]
    by (auto simp: metadata_zone_def CompatibleWith_alike [OF assms(2)] split: option.splits)
qed

text \<open>A log that has been read past its superblock.\<close>

definition found :: "'e coding_scheme \<Rightarrow> ('d, 'b) backend_scheme \<Rightarrow> ('d \<Rightarrow> nat \<Rightarrow> byte) \<Rightarrow> u32
    \<Rightarrow> (zptr \<Rightarrow> (superblock \<times> byte list list) option) \<Rightarrow> ('d, 'm) zbd_scheme \<Rightarrow> zptr \<Rightarrow> superblock \<times> metalog \<Rightarrow> bool" where
  "found c be media bsz L s z e \<longleftrightarrow> (\<exists>sb rest. L z = Some (sb, rest) \<and> fst e = stored_sb c sb \<and>
    log_positioned c be media bsz (zone_records c (L z)) 1 (snd e) s)"

lemma found_alike: "found c be media bsz L s z e \<Longrightarrow> alike be media s s' \<Longrightarrow> found c be media bsz L s' z e"
  unfolding found_def using log_positioned_alike by blast

lemma scan_zone:
  fixes s :: "('d, 'a, 'z) zenfs_scheme"
  assumes "coding_laws (sys_coding E)" "steady_storage (sys_be E) media" "reads_succeed (sys_be E)"
    and "metadata_zone (sys_coding E) (sys_be E) media bsz s z (L z)"
  shows "\<exists>new s'. Mount_scan E (z # zs) valid s = Mount_scan E zs (valid @ new) s' \<and> alike (sys_be E) media s s' \<and>
    (\<forall>p. p \<noteq> z \<longrightarrow> zheap s' p = zheap s p) \<and>
    list_all2 (found (sys_coding E) (sys_be E) media bsz L s') (filter (\<lambda>z. L z \<noteq> None) [z]) new"
proof -
  let ?c = "sys_coding E" and ?be = "sys_be E"
  define s1 where "s1 = upd_zone z (z_busy_update (\<lambda>_. True)) s"
  have acq: "Zone_Acquire z s = (True, s1)" using assms(4) by (simp add: metadata_zone_def Zone_Acquire_def s1_def)
  have a1: "alike ?be media s s1" by (simp add: s1_def alike_busy)
  have ml: "ZenMetaLog_new ?be z s1 = ZenMetaLog_new ?be z s" by (simp add: ZenMetaLog_new_def s1_def upd_zone_def)
  have P: "log_positioned ?c ?be media bsz (zone_records ?c (L z)) 0 (ZenMetaLog_new ?be z s1) s1"
    unfolding ml using assms(4) by (intro log_positioned_alike [OF _ a1]) (simp add: metadata_zone_def)
  obtain st rec log d where R: "ReadRecord ?c ?be (ZenMetaLog_new ?be z s1) s1 = Some (st, rec, log, s1\<lparr>dev := d\<rparr>)"
    "geometry ?be d = geometry ?be (dev s1)" "media d = media (dev s1)"
    "if 0 = length (zone_records ?c (L z)) then st = OK \<and> rec = [] \<and> log = ZenMetaLog_new ?be z s1
     else st = OK \<and> rec = zone_records ?c (L z) ! 0 \<and> log_positioned ?c ?be media bsz (zone_records ?c (L z)) (Suc 0) log (s1\<lparr>dev := d\<rparr>)"
    using read_positioned [OF assms(1,2) P] by (simp only: assms(3) simp_thms) blast
  define s2 where "s2 = s1\<lparr>dev := d\<rparr>"
  have a2: "alike ?be media s s2" using alike_trans [OF a1 alike_read [OF R(3,2)]] by (simp add: s2_def)
  have o2: "zheap s2 p = zheap s p" if "p \<noteq> z" for p using that by (simp add: s2_def s1_def upd_zone_def)
  show ?thesis
  proof (cases "L z")
    case None
    then have "rec = []" "log = ZenMetaLog_new ?be z s1" using R(4) by (simp_all add: zone_records_def)
    then have "Mount_scan E (z # zs) valid s = Mount_scan E zs (valid @ []) (ZenMetaLog_destroy log s2)"
      using acq R(1) by (simp add: s2_def)
    moreover have "\<forall>p. p \<noteq> z \<longrightarrow> zheap (ZenMetaLog_destroy log s2) p = zheap s p"
      using o2 \<open>log = _\<close> by (simp add: ZenMetaLog_destroy_def Zone_Release_def upd_zone_def ZenMetaLog_new_def)
    ultimately show ?thesis using alike_trans [OF a2 alike_destroy] None
      by (intro exI [of _ "[]"] exI [of _ "ZenMetaLog_destroy log s2"]) simp
  next
    case (Some e)
    then obtain sb rest where e: "L z = Some (sb, rest)" by (cases e) auto
    have wf: "superblock_wf sb" "CompatibleWith ?be (stored_sb ?c sb) s = OK" using assms(4) e by (simp_all add: metadata_zone_def)
    have rec: "rec = fst (Superblock_EncodeTo ?c sb)" "st = OK" using R(4) e by (simp_all add: zone_records_def)
    have pos: "log_positioned ?c ?be media bsz (zone_records ?c (L z)) 1 log s2" using R(4) e by (simp add: zone_records_def s2_def)
    have enc: "length rec = 512" "Superblock_DecodeFrom ?c rec Superblock_default = (OK, stored_sb ?c sb)"
      using Superblock_encoded [OF assms(1) wf(1), of rec "stored_sb ?c sb" Superblock_default ?be _ _ _ _ _ s] by (simp_all add: rec)
    have "CompatibleWith ?be (stored_sb ?c sb) s2 = OK" using wf(2) CompatibleWith_alike [OF a2] by simp
    then have "Mount_scan E (z # zs) valid s = Mount_scan E zs (valid @ [(stored_sb ?c sb, log)]) s2"
      using acq R(1) rec(2) enc by (auto simp: s2_def)
    moreover have "found ?c ?be media bsz L s2 z (stored_sb ?c sb, log)" using e pos by (simp add: found_def)
    ultimately show ?thesis using a2 o2 e by (intro exI [of _ "[(stored_sb ?c sb, log)]"] exI [of _ s2]) simp
  qed
qed

lemma Mount_scan_found:
  fixes s :: "('d, 'a, 'z) zenfs_scheme"
  assumes "coding_laws (sys_coding E)" "steady_storage (sys_be E) media" "reads_succeed (sys_be E)"
    and "distinct zs" "\<forall>z \<in> set zs. metadata_zone (sys_coding E) (sys_be E) media bsz s z (L z)"
  shows "\<exists>logs s'. Mount_scan E zs valid s = Some (OK, valid @ logs, s') \<and> alike (sys_be E) media s s' \<and>
    list_all2 (found (sys_coding E) (sys_be E) media bsz L s') (filter (\<lambda>z. L z \<noteq> None) zs) logs"
  using assms(4,5)
proof (induction zs arbitrary: valid s)
  case (Cons z zs)
  let ?F = "found (sys_coding E) (sys_be E) media bsz L"
  obtain new s1 where S: "Mount_scan E (z # zs) valid s = Mount_scan E zs (valid @ new) s1" "alike (sys_be E) media s s1"
    "\<forall>p. p \<noteq> z \<longrightarrow> zheap s1 p = zheap s p" "list_all2 (?F s1) (filter (\<lambda>z. L z \<noteq> None) [z]) new"
    using scan_zone [OF assms(1-3)] Cons.prems(2) by (metis list.set_intros(1))
  have "\<forall>y \<in> set zs. metadata_zone (sys_coding E) (sys_be E) media bsz s1 y (L y)"
    using Cons.prems S(2,3) metadata_zone_same by (metis distinct.simps(2) list.set_intros(2))
  from Cons.IH [OF _ this, of "valid @ new"] Cons.prems(1)
  obtain logs s' where I: "Mount_scan E zs (valid @ new) s1 = Some (OK, (valid @ new) @ logs, s')" "alike (sys_be E) media s1 s'"
    "list_all2 (?F s') (filter (\<lambda>z. L z \<noteq> None) zs) logs" by auto
  have "list_all2 (?F s') (filter (\<lambda>z. L z \<noteq> None) [z]) new"
    by (rule list_all2_mono [OF S(4)]) (rule found_alike [OF _ I(2)])
  from list_all2_appendI [OF this I(3)] have "list_all2 (?F s') (filter (\<lambda>z. L z \<noteq> None) (z # zs)) (new @ logs)"
    by (auto split: if_splits)
  then show ?case using S(1) I(1) alike_trans [OF S(2) I(2)] by (intro exI [of _ "new @ logs"] exI [of _ s']) simp
qed simp

section \<open>Recovering from the newest snapshot\<close>

lemma seq_order_split:
  assumes "i < length sbs" "length sbs \<le> 2 ^ 32"
  shows "\<exists>xs ys. seq_order sbs = xs @ i # ys \<and> distinct (xs @ i # ys) \<and> set (xs @ i # ys) = {..<length sbs} \<and>
    (\<forall>j \<in> set xs. sb_sequence (sbs ! i) \<le> sb_sequence (sbs ! j))"
proof -
  let ?n = "length sbs" and ?k = "\<lambda>(sq, i). unat sq * 2 ^ 32 + i"
  define zs where "zs = zip (map sb_sequence sbs) [0..<length sbs]"
  define q where "q = sort_key ?k zs"
  have "zs = map (\<lambda>j. (sb_sequence (sbs ! j), j)) [0..<?n]" unfolding zs_def by (rule nth_equalityI) simp_all
  then have zs: "set zs = (\<lambda>j. (sb_sequence (sbs ! j), j)) ` {..<?n}" by (simp add: atLeast0LessThan)
  have "mset (map snd q) = mset (map snd zs)" unfolding q_def mset_map by simp
  moreover have "map snd zs = [0..<?n]" by (simp add: zs_def)
  ultimately have m: "mset (map snd q) = mset [0..<?n]" by metis
  have q: "distinct (map snd q)" "set (map snd q) = {..<?n}" "set q = set zs"
    using mset_eq_imp_distinct_iff [OF m] mset_eq_setD [OF m] by (simp_all add: q_def lessThan_atLeast0)
  have "(sb_sequence (sbs ! i), i) \<in> set q" using assms(1) by (simp add: q(3) zs)
  then obtain us vs where uv: "q = us @ (sb_sequence (sbs ! i), i) # vs" by (meson split_list)
  have order: "seq_order sbs = map snd (rev vs) @ i # map snd (rev us)"
    unfolding seq_order_def zs_def [symmetric] q_def [symmetric] uv by simp
  have "sb_sequence (sbs ! i) \<le> sb_sequence (sbs ! j)" if jv: "j \<in> set (map snd (rev vs))" for j
  proof -
    obtain sq where v: "(sq, j) \<in> set vs" using jv by auto
    then have "(sq, j) \<in> set zs" using q(3) uv by (metis Un_iff list.set_intros(2) set_append)
    then have sq: "sq = sb_sequence (sbs ! j)" "j < ?n" by (auto simp: zs)
    have "sorted (map ?k q)" by (simp add: q_def)
    then have "unat (sb_sequence (sbs ! i)) * 2 ^ 32 + i \<le> unat sq * 2 ^ 32 + j"
      using v by (fastforce simp: uv sorted_append)
    moreover have "j < 2 ^ 32" using sq(2) assms(2) by simp
    ultimately have "unat (sb_sequence (sbs ! i)) \<le> unat sq"
      by simp
    then show ?thesis by (simp add: sq(1) word_le_nat_alt)
  qed
  moreover have "distinct (map snd (rev vs) @ i # map snd (rev us))" "set (map snd (rev vs) @ i # map snd (rev us)) = {..<?n}"
    using q(1,2) by (auto simp: uv rev_map [symmetric])
  ultimately show ?thesis using order by blast
qed

text \<open>A log that ends behind its superblock has no snapshot.\<close>

lemma RecoverFrom_unfinished:
  fixes s :: "('d, 'a, 'z) zenfs_scheme"
  assumes "coding_laws c" "steady_storage be media" "log_positioned c be media bsz [r] 1 ml s"
  shows "\<exists>d. RecoverFrom c be ml s = Some (NotFound, ml, s\<lparr>dev := d\<rparr>) \<and> alike be media s (s\<lparr>dev := d\<rparr>)"
proof -
  obtain d where "ReadRecord c be ml s = Some (OK, [], ml, s\<lparr>dev := d\<rparr>)" "geometry be d = geometry be (dev s)" "media d = media (dev s)"
    using read_positioned [OF assms] by auto
  then show ?thesis
    using coding_laws.get32_Nil [OF assms(1)] alike_read [of media d s be]
    by (auto simp: RecoverFrom_def RecoverFrom_loop.simps)
qed

lemma Mount_recover_skips:
  fixes s :: "('d, 'a, 'z) zenfs_scheme"
  assumes "coding_laws (sys_coding E)" "steady_storage (sys_be E) media" "distinct (xs @ ys)" "set xs \<subseteq> {..<length logs}"
    and "\<forall>i \<in> set xs. \<exists>ml r. logs ! i = Some ml \<and> log_positioned (sys_coding E) (sys_be E) media bsz [r] 1 ml s"
  shows "\<exists>logs' s'. Mount_recover E (xs @ ys) logs s = Mount_recover E ys logs' s' \<and> alike (sys_be E) media s s' \<and>
    (\<forall>j \<in> set ys. logs' ! j = logs ! j)"
  using assms(3-)
proof (induction xs arbitrary: logs s)
  case (Cons i xs)
  let ?c = "sys_coding E" and ?be = "sys_be E"
  obtain ml r where i: "logs ! i = Some ml" "log_positioned ?c ?be media bsz [r] 1 ml s" using Cons.prems(3) by auto
  obtain d where R: "RecoverFrom ?c ?be ml s = Some (NotFound, ml, s\<lparr>dev := d\<rparr>)" "alike ?be media s (s\<lparr>dev := d\<rparr>)"
    using RecoverFrom_unfinished [OF assms(1,2) i(2)] by blast
  let ?s1 = "ZenMetaLog_destroy ml (s\<lparr>dev := d\<rparr>)" and ?l1 = "logs[i := None]"
  have a: "alike ?be media s ?s1" using alike_trans [OF R(2) alike_destroy] .
  have "\<forall>j \<in> set xs. \<exists>ml r. ?l1 ! j = Some ml \<and> log_positioned ?c ?be media bsz [r] 1 ml ?s1"
  proof
    fix j assume j: "j \<in> set xs"
    then obtain m r where "logs ! j = Some m" "log_positioned ?c ?be media bsz [r] 1 m s" using Cons.prems(3) by auto
    moreover have "?l1 ! j = logs ! j" using j Cons.prems(1) by (intro nth_list_update_neq) auto
    ultimately show "\<exists>ml r. ?l1 ! j = Some ml \<and> log_positioned ?c ?be media bsz [r] 1 ml ?s1"
      using log_positioned_alike [OF _ a] by fastforce
  qed
  from Cons.IH [OF _ _ this] Cons.prems(1,2)
  obtain logs' s' where I: "Mount_recover E (xs @ ys) ?l1 ?s1 = Mount_recover E ys logs' s'" "alike ?be media ?s1 s'"
    "\<forall>j \<in> set ys. logs' ! j = ?l1 ! j" by auto
  have "Mount_recover E ((i # xs) @ ys) logs s = Mount_recover E (xs @ ys) ?l1 ?s1" using i(1) R(1) by simp
  moreover have "\<forall>j \<in> set ys. logs' ! j = logs ! j" using I(3) Cons.prems(1) by (metis Un_iff append_Cons distinct.simps(2) nth_list_update_neq set_append)
  ultimately show ?case using I(1) alike_trans [OF a I(2)] by auto
next
  case Nil
  show ?case by (intro exI [of _ logs] exI [of _ s]) simp
qed

text \<open>What a file system has after mounting, of the state \<open>t\<close> that was saved.\<close>

definition restored :: "('d, 'a, 'z) zenfs_scheme \<Rightarrow> ('d, 'a, 'z) zenfs_scheme \<Rightarrow> ('d, 'a, 'z) zenfs_scheme \<Rightarrow> bool" where
  "restored t s0 s' \<longleftrightarrow> (\<exists>h. inj_on h (ran (names t)) \<and> names s' = (\<lambda>n. map_option h (names t n)) \<and>
    (\<forall>f \<in> ran (names t). fheap s' (h f) = recovered (fheap t f) \<and> f_file_id (fheap t f) < fs_next_file_id s') \<and>
    (\<forall>p. z_used (zheap s' p) = z_used (zheap s0 p) + (\<Sum>f \<in> ran (names t). extent_sum (f_extents (fheap t f)) p)))"

lemma restored_alike: "restored t s0 s \<Longrightarrow> alike be media s s' \<Longrightarrow> restored t s0 s'"
  unfolding restored_def names_def using alike_fields [of be media s s'] alike_zone(4) [of be media s s'] by simp

lemma snapshot_ok_alike:
  assumes "snapshot_ok c be t s0" "alike be media s0 s"
  shows "snapshot_ok c be t s"
proof -
  have "be_zone_sz be (dev s) = be_zone_sz be (dev s0)" using assms(2) by (simp add: alike_def geometry_def)
  then have "GetIOZone be x s = GetIOZone be x s0" for x
    by (simp add: GetIOZone_def alike_fields [OF assms(2)] alike_zone [OF assms(2)])
  then show ?thesis using assms(1) by (simp add: snapshot_ok_def)
qed

lemma recovers_restored:
  assumes "recovers t s s'" "alike be media s0 s"
  shows "restored t s0 s'"
  using assms alike_zone(4) [OF assms(2)] unfolding recovers_def restored_def by fastforce


section \<open>The sample file system, interrupted while it changes metadata zones\<close>

text \<open>Zone 3 has a superblock and the snapshot, zone 4 a newer superblock and nothing else, zone 5 is empty.\<close>

definition sample_sb :: superblock where
  "sample_sb = Superblock_new ram_backend (replicate 36 65) [50] [47] 10 False sample_fs"

definition rolled_log :: "zptr \<Rightarrow> (superblock \<times> byte list list) option" where
  "rolled_log z = (if z = 3 then Some (sample_sb, [ZenFS_EncodeSnapshotTo le_coding sample_fs])
    else if z = 4 then Some (sample_sb\<lparr>sb_sequence := 1\<rparr>, []) else None)"

definition rolled_bytes :: "zptr \<Rightarrow> byte list" where
  "rolled_bytes z = log_bytes le_coding 64 (zone_records le_coding (rolled_log z))"

definition sample_rolled :: "(ram zbdlib, nat) zenfs" where
  "sample_rolled = sample_fs\<lparr>fs_files := [], meta_zones := [3, 4, 5],
    zheap := (\<lambda>p. if p \<in> {3, 4, 5} then sample_zone (of_nat (4096 * p)) (of_nat (length (rolled_bytes p))) 0 else zheap sample_fs p),
    dev := (dev sample_fs)\<lparr>zb_kernel := (zb_kernel (dev sample_fs))\<lparr>ram_media := (\<lambda>i. rolled_bytes (i div 4096) ! (i mod 4096))\<rparr>\<rparr>\<rparr>"

lemma sample_sb_encoded:
  "superblock_wf (sample_sb\<lparr>sb_sequence := n\<rparr>)" "superblock_wf sample_sb"
  "length (fst (Superblock_EncodeTo le_coding (sample_sb\<lparr>sb_sequence := n\<rparr>))) = 512" "length (fst (Superblock_EncodeTo le_coding sample_sb)) = 512"
proof -
  show w: "superblock_wf sample_sb" unfolding sample_sb_def by (rule Superblock_new_wf)
  then show w': "superblock_wf (sample_sb\<lparr>sb_sequence := n\<rparr>)" by (simp add: superblock_wf_def)
  show "length (fst (Superblock_EncodeTo le_coding (sample_sb\<lparr>sb_sequence := n\<rparr>))) = 512"
    using Superblock_encoded [OF le.coding_laws_axioms w', of _ _ undefined ram_backend _ _ _ _ _ sample_fs] by (metis prod.collapse)
  show "length (fst (Superblock_EncodeTo le_coding sample_sb)) = 512"
    using Superblock_encoded [OF le.coding_laws_axioms w, of _ _ undefined ram_backend _ _ _ _ _ sample_fs] by (metis prod.collapse)
qed

lemma rolled_small: "length (rolled_bytes z) \<le> 3072"
proof -
  let ?n = "length (ZenFS_EncodeSnapshotTo le_coding sample_fs)"
  have "roundup 64 (?n + 8) \<le> roundup 64 512" using sample_snapshot_length(2) by (intro roundup_mono) simp_all
  then have "length (log_frame le_coding 64 (ZenFS_EncodeSnapshotTo le_coding sample_fs)) \<le> 512"
    using le.length_log_frame [of 64] by (simp add: roundup_def)
  moreover have "length (log_frame le_coding 64 r) = 576" if "length r = 512" for r
    using le.length_log_frame [of 64 r] that by (simp add: roundup_def)
  ultimately show ?thesis using sample_sb_encoded by (simp add: rolled_bytes_def rolled_log_def zone_records_def)
qed

lemma rolled_metadata:
  assumes "z \<in> set (meta_zones sample_rolled)"
  shows "metadata_zone le_coding ram_backend ram_bytes 64 sample_rolled z (rolled_log z)"
proof -
  let ?z = "zheap sample_rolled z" and ?n = "length (rolled_bytes z)"
  have z: "z \<in> {3, 4, 5}" using assms by (simp add: sample_rolled_def)
  have zh: "?z = sample_zone (of_nat (4096 * z)) (of_nat ?n) 0" using z by (simp add: sample_rolled_def)
  have u: "unat (of_nat ?n :: u64) = ?n" using rolled_small [of z] by (intro unat_of_nat_u64) simp
  have st: "unat (of_nat (4096 * z) :: u64) = 4096 * z" using z by (intro unat_of_nat_u64) auto
  have f: "\<not> z_busy ?z" "unat (z_start ?z) = 4096 * z" "unat (z_wp ?z) = 4096 * z + ?n" "unat (z_max_capacity ?z) = 3072"
    using st u rolled_small [of z] z by (auto simp: zh sample_zone_def Zone_new_def unat_add_u64)
  have "media_slice (ram_bytes (dev sample_rolled)) (4096 * z) ?n = rolled_bytes z"
    using rolled_small [of z] by (intro media_slice_eqI [symmetric]) (simp_all add: sample_rolled_def)
  then have holds: "log_holds le_coding (unat (64 :: u32)) (ram_bytes (dev sample_rolled)) ?z (zone_records le_coding (rolled_log z))"
    using f by (simp add: log_holds_def flip: rolled_bytes_def)
  have recs: "r \<noteq> [] \<and> length r < 2 ^ 31" if "r \<in> set (zone_records le_coding (rolled_log z))" for r
    using that sample_sb_encoded(3) [where n = 1] sample_sb_encoded(4) sample_snapshot_length(2,3)
    by (auto simp: rolled_log_def zone_records_def split: if_splits)
  have bs: "be_block_sz ram_backend (dev sample_rolled) = 64" by (simp add: sample_rolled_def sample_fs_eval)
  have "log_positioned le_coding ram_backend ram_bytes 64 (zone_records le_coding (rolled_log z)) 0 (ZenMetaLog_new ram_backend z sample_rolled) sample_rolled"
    unfolding log_positioned_def Let_def
    using f holds recs z rolled_small [of z] ram_reads_nonempty bs by (auto simp: ZenMetaLog_new_def)
  moreover have "CompatibleWith ram_backend (stored_sb le_coding (sample_sb\<lparr>sb_sequence := n\<rparr>)) sample_rolled = OK"
    "CompatibleWith ram_backend (stored_sb le_coding sample_sb) sample_rolled = OK" for n
    by (simp_all add: CompatibleWith_def Superblock_EncodeTo_def sample_sb_def Superblock_new_def Superblock_default_def sample_rolled_def sample_fs_eval)
  ultimately show ?thesis
    using f(1) sample_sb_encoded by (auto simp: metadata_zone_def rolled_log_def)
qed


end
