(* ===== verification/File_Copy.thy ===== *)
theory File_Copy
  imports Zen_Recovery
begin

text \<open>
  Copying files between file systems, the core of the commands \<open>backup\<close> and \<open>restore\<close> (\<open>src/util/zenfs.cc\<close>).
  The code is written against RocksDB's class \<open>FileSystem\<close>: its operations are a record of functions on a
  state \<open>'w\<close>, with \<open>'r\<close> and \<open>'p\<close> the handles for reading and writing. \<open>ZenFS_filesystem\<close> is the file system of
  this development as such a record; the other side is the default file system, a parameter.

  The hints on the life time of files travel in a text file; writing it and reading it back is also here.
\<close>

section \<open>The class \<open>FileSystem\<close>\<close>

text \<open>An operation returns its results with the new state. The last two are the destructors of the handles.\<close>

record ('w, 'r, 'p) filesystem =
  op_GetFileSize :: "string \<Rightarrow> 'w \<Rightarrow> ((IOStatus \<times> u64) \<times> 'w) option"
  op_NewSequentialFile :: "string \<Rightarrow> 'w \<Rightarrow> ((IOStatus \<times> 'r option) \<times> 'w) option"
  op_NewWritableFile :: "string \<Rightarrow> 'w \<Rightarrow> ((IOStatus \<times> 'p option) \<times> 'w) option"
  op_GetChildren :: "string \<Rightarrow> 'w \<Rightarrow> ((IOStatus \<times> string list) \<times> 'w) option"
  op_IsDirectory :: "string \<Rightarrow> 'w \<Rightarrow> ((IOStatus \<times> bool) \<times> 'w) option"
  op_CreateDir :: "string \<Rightarrow> 'w \<Rightarrow> (IOStatus \<times> 'w) option"
  op_CreateDirIfMissing :: "string \<Rightarrow> 'w \<Rightarrow> (IOStatus \<times> 'w) option"
  op_Read :: "u64 \<Rightarrow> 'r \<Rightarrow> 'w \<Rightarrow> ((IOStatus \<times> byte list \<times> 'r) \<times> 'w) option"
  op_SetWriteLifeTimeHint :: "WriteLifeTimeHint \<Rightarrow> 'p \<Rightarrow> 'w \<Rightarrow> ('p \<times> 'w) option"
  op_Append :: "byte list \<Rightarrow> 'p \<Rightarrow> 'w \<Rightarrow> ((IOStatus \<times> 'p) \<times> 'w) option"
  op_Fsync :: "'p \<Rightarrow> 'w \<Rightarrow> ((IOStatus \<times> 'p) \<times> 'w) option"
  delete_reader :: "'r \<Rightarrow> 'w \<Rightarrow> (unit \<times> 'w) option"
  delete_writer :: "'p \<Rightarrow> 'w \<Rightarrow> (unit \<times> 'w) option"

section \<open>Life time hints\<close>

text \<open>The global \<open>wlth_map\<close> is a \<open>std::map\<close>, kept in its order.\<close>

type_synonym hints = "(string \<times> WriteLifeTimeHint) list"

definition GetWriteLifeTimeHint :: "hints \<Rightarrow> string \<Rightarrow> WriteLifeTimeHint" where
  "GetWriteLifeTimeHint m filename = (case map_of m filename of None \<Rightarrow> WLTH_NOT_SET | Some h \<Rightarrow> h)"

text \<open>Decimal digits of a number, as \<open>operator<<\<close> prints it.\<close>

fun decimal :: "nat \<Rightarrow> string" where
  "decimal n = (if n < 10 then [char_of (48 + n)] else decimal (n div 10) @ [char_of (48 + n mod 10)])"

declare decimal.simps [simp del]

text \<open>\<open>GetWriteLifeTimeHints\<close> of the file system.\<close>

definition GetWriteLifeTimeHints :: "('d, 'a, 'z) zenfs_scheme \<Rightarrow> hints" where
  "GetWriteLifeTimeHints s = fold (\<lambda>(filename, f). map_insert filename (f_lifetime (fheap s f))) (fs_files s) []"

definition hints_text :: "hints \<Rightarrow> string" where
  "hints_text m = concat (map (\<lambda>(filename, h). filename @ [CHR 0x09] @ decimal (unat h) @ [CHR 0x0A]) m)"

text \<open>\<open>operator>>\<close> for a string and for an \<open>uint32_t\<close>; \<open>None\<close> sets the fail bit, which ends the loop.\<close>

definition extract_string :: "string \<Rightarrow> (string \<times> string) option" where
  "extract_string t =
    (let r = dropWhile is_space t; w = takeWhile (\<lambda>c. \<not> is_space c) r
     in if w = [] then None else Some (w, dropWhile (\<lambda>c. \<not> is_space c) r))"

definition extract_u32 :: "string \<Rightarrow> (u32 \<times> string) option" where
  "extract_u32 t =
    (let r = dropWhile is_space t;
         neg = (case r of c # _ \<Rightarrow> c = CHR ''-'' | [] \<Rightarrow> False);
         body = (case r of c # r' \<Rightarrow> if c = CHR ''-'' \<or> c = CHR ''+'' then r' else r | [] \<Rightarrow> r);
         ds = takeWhile is_digit body; n = digits_value ds
     in if ds = [] \<or> 2 ^ 32 \<le> n then None
        else Some (if neg then - of_nat n else of_nat n, dropWhile is_digit body))"

lemma extract_string_shorter: "extract_string t = Some (w, r) \<Longrightarrow> length r < length t"
proof -
  assume a: "extract_string t = Some (w, r)"
  let ?d = "dropWhile is_space t"
  have "takeWhile (\<lambda>c. \<not> is_space c) ?d \<noteq> []" "r = dropWhile (\<lambda>c. \<not> is_space c) ?d"
    using a by (simp_all add: extract_string_def Let_def split: if_splits)
  moreover have "length (takeWhile (\<lambda>c. \<not> is_space c) ?d) + length (dropWhile (\<lambda>c. \<not> is_space c) ?d) = length ?d"
    by (metis length_append takeWhile_dropWhile_id)
  ultimately have "length r < length ?d" by (cases "takeWhile (\<lambda>c. \<not> is_space c) ?d") auto
  then show "length r < length t" using length_dropWhile_le [of is_space t] by simp
qed

lemma extract_u32_shorter: "extract_u32 t = Some (v, r) \<Longrightarrow> length r \<le> length t"
proof -
  assume a: "extract_u32 t = Some (v, r)"
  let ?d = "dropWhile is_space t"
  obtain b where "r = dropWhile is_digit b" "length b \<le> length ?d"
    using a by (auto simp: extract_u32_def Let_def split: if_splits list.splits)
  then show ?thesis using length_dropWhile_le [of is_space t] length_dropWhile_le [of is_digit b] by simp
qed

function read_hints :: "string \<Rightarrow> hints \<Rightarrow> hints" where
  "read_hints t m =
    (case extract_string t of
       None \<Rightarrow> m
     | Some (filename, t1) \<Rightarrow>
         (case extract_u32 t1 of
            None \<Rightarrow> m
          | Some (lth, t2) \<Rightarrow> read_hints t2 (map_insert filename lth m)))"
  by pat_completeness auto

termination read_hints
  by (relation "measure (length \<circ> fst)") (use extract_string_shorter extract_u32_shorter in \<open>fastforce+\<close>)

declare read_hints.simps [simp del]

text \<open>The file is given by its text, \<open>None\<close> when it cannot be opened.\<close>

definition ReadWriteLifeTimeHints :: "string option \<Rightarrow> hints \<Rightarrow> hints" where
  "ReadWriteLifeTimeHints file_text m = (case file_text of None \<Rightarrow> m | Some t \<Rightarrow> read_hints t m)"

section \<open>Copying a file\<close>

abbreviation (input) copy_buffer_sz :: u64 where "copy_buffer_sz \<equiv> 1024 * 1024"

text \<open>
  A chunk of no bytes makes no progress: the loop then runs for ever. An error of \<open>Append\<close> is overwritten by
  the result of the next \<open>Read\<close>.
\<close>

partial_function (option) copy_loop :: "('w, 'r, 'x) filesystem \<Rightarrow> ('w, 'y, 'p) filesystem \<Rightarrow> u64 \<Rightarrow> IOStatus
    \<Rightarrow> 'r \<Rightarrow> 'p \<Rightarrow> 'w \<Rightarrow> ((IOStatus \<times> 'r \<times> 'p) \<times> 'w) option" where
  "copy_loop f_fs t_fs to_copy s f_file t_file w =
    (if to_copy = 0 then Some ((s, f_file, t_file), w)
     else
       Option.bind (op_Read f_fs (if to_copy > copy_buffer_sz then copy_buffer_sz else to_copy) f_file w)
         (\<lambda>((s1, chunk, f_file1), w1).
           if s1 \<noteq> OK then Some ((s1, f_file1, t_file), w1)
           else Option.bind (op_Append t_fs chunk t_file w1)
             (\<lambda>((s2, t_file1), w2). copy_loop f_fs t_fs (to_copy - of_nat (length chunk)) s2 f_file1 t_file1 w2)))"

declare copy_loop.simps [code]

text \<open>The handles are destroyed in the reverse order of their declaration. Allocating the buffer succeeds.\<close>

definition zenfs_tool_copy_file :: "hints \<Rightarrow> ('w, 'r, 'x) filesystem \<Rightarrow> string \<Rightarrow> ('w, 'y, 'p) filesystem \<Rightarrow> string
    \<Rightarrow> 'w \<Rightarrow> (IOStatus \<times> 'w) option" where
  "zenfs_tool_copy_file m f_fs f t_fs t w = do {
     ((s, to_copy), w1) \<leftarrow> op_GetFileSize f_fs f w;
     if s \<noteq> OK then Some (s, w1)
     else do {
       ((s, f_handle), w2) \<leftarrow> op_NewSequentialFile f_fs f w1;
       if s \<noteq> OK then Some (s, w2)
       else do {
         f_file \<leftarrow> f_handle;
         ((s, t_handle), w3) \<leftarrow> op_NewWritableFile t_fs t w2;
         if s \<noteq> OK then do {
           (_, w4) \<leftarrow> (case t_handle of None \<Rightarrow> Some ((), w3) | Some t_file \<Rightarrow> delete_writer t_fs t_file w3);
           (_, w5) \<leftarrow> delete_reader f_fs f_file w4;
           Some (s, w5)
         }
         else do {
           t_file \<leftarrow> t_handle;
           (t_file1, w4) \<leftarrow> op_SetWriteLifeTimeHint t_fs (GetWriteLifeTimeHint m t) t_file w3;
           ((s, f_file2, t_file2), w5) \<leftarrow> copy_loop f_fs t_fs to_copy OK f_file t_file1 w4;
           ((s, t_file3), w6) \<leftarrow> (if s \<noteq> OK then Some ((s, t_file2), w5) else op_Fsync t_fs t_file2 w5);
           (_, w7) \<leftarrow> delete_writer t_fs t_file3 w6;
           (_, w8) \<leftarrow> delete_reader f_fs f_file2 w7;
           Some (s, w8)
         }
       }
     }
   }"

section \<open>Copying a directory\<close>

definition dest_name :: "string \<Rightarrow> string \<Rightarrow> string" where
  "dest_name t_dir f =
    (if t_dir = [] then f else if last t_dir = CHR ''/'' then t_dir @ f else t_dir @ ''/'' @ f)"

text \<open>
  The loop over the children; copying a subdirectory is the same loop over its own children. It need not end
  on a file system whose directories contain themselves.
\<close>

partial_function (option) copy_entries :: "hints \<Rightarrow> ('w, 'r, 'x) filesystem \<Rightarrow> string \<Rightarrow> ('w, 'y, 'p) filesystem
    \<Rightarrow> string \<Rightarrow> string list \<Rightarrow> 'w \<Rightarrow> (IOStatus \<times> 'w) option" where
  "copy_entries m f_fs f_dir t_fs t_dir files w =
    (case files of
       [] \<Rightarrow> Some (OK, w)
     | f # fs \<Rightarrow>
         if f = ''.'' \<or> f = ''..'' \<or> f = ''write_lifetime_hints.dat'' then copy_entries m f_fs f_dir t_fs t_dir fs w
         else Option.bind (op_IsDirectory f_fs (f_dir @ f) w) (\<lambda>((s, is_dir), w1).
           if s \<noteq> OK then Some (s, w1)
           else Option.bind
             (if is_dir
              then Option.bind (op_CreateDir t_fs (dest_name t_dir f) w1) (\<lambda>(s, w2).
                if s \<noteq> OK then Some (s, w2)
                else Option.bind (op_GetChildren f_fs (f_dir @ f @ ''/'') w2) (\<lambda>((s, children), w3).
                  if s \<noteq> OK then Some (s, w3)
                  else copy_entries m f_fs (f_dir @ f @ ''/'') t_fs (dest_name t_dir f) children w3))
              else zenfs_tool_copy_file m f_fs (f_dir @ f) t_fs (dest_name t_dir f) w1)
             (\<lambda>(s, w4). if s \<noteq> OK then Some (s, w4) else copy_entries m f_fs f_dir t_fs t_dir fs w4)))"

declare copy_entries.simps [code]

definition zenfs_tool_copy_dir :: "hints \<Rightarrow> ('w, 'r, 'x) filesystem \<Rightarrow> string \<Rightarrow> ('w, 'y, 'p) filesystem \<Rightarrow> string
    \<Rightarrow> 'w \<Rightarrow> (IOStatus \<times> 'w) option" where
  "zenfs_tool_copy_dir m f_fs f_dir t_fs t_dir w = do {
     ((s, children), w1) \<leftarrow> op_GetChildren f_fs f_dir w;
     if s \<noteq> OK then Some (s, w1) else copy_entries m f_fs f_dir t_fs t_dir children w1
   }"

definition AddDirSeparatorAtEnd :: "string \<Rightarrow> string" where
  "AddDirSeparatorAtEnd path = (if path = [] \<or> last path \<noteq> CHR ''/'' then path @ ''/'' else path)"

text \<open>The prefixes of a path before each separator; the empty one is skipped.\<close>

definition dir_prefixes :: "string \<Rightarrow> string list" where
  "dir_prefixes path = filter (\<lambda>d. d \<noteq> []) (map (\<lambda>p. take p path) (filter (\<lambda>p. path ! p = CHR ''/'') [0..<length path]))"

fun create_each :: "('w, 'r, 'p) filesystem \<Rightarrow> string list \<Rightarrow> 'w \<Rightarrow> (IOStatus \<times> 'w) option" where
  "create_each fs [] w = Some (OK, w)"
| "create_each fs (d # ds) w = do {
     (s, w1) \<leftarrow> op_CreateDirIfMissing fs d w;
     if s \<noteq> OK then Some (s, w1) else create_each fs ds w1
   }"

definition zenfs_create_directories :: "('w, 'r, 'p) filesystem \<Rightarrow> string \<Rightarrow> 'w \<Rightarrow> (IOStatus \<times> 'w) option" where
  "zenfs_create_directories fs path w = create_each fs (dir_prefixes (AddDirSeparatorAtEnd path)) w"

section \<open>The two file systems\<close>

text \<open>The default file system works on the state of the host.\<close>

definition host_op :: "('a \<Rightarrow> ('b \<times> 'a) option) \<Rightarrow> ('d, 'a, 'z) zenfs_scheme \<Rightarrow> ('b \<times> ('d, 'a, 'z) zenfs_scheme) option" where
  "host_op g s = map_option (\<lambda>(r, h). (r, s\<lparr>fs_host := h\<rparr>)) (g (fs_host s))"

definition host_filesystem :: "('a, 'r, 'p) filesystem \<Rightarrow> (('d, 'a) zenfs, 'r, 'p) filesystem" where
  "host_filesystem D =
    \<lparr>op_GetFileSize = (\<lambda>f. host_op (op_GetFileSize D f)),
     op_NewSequentialFile = (\<lambda>f. host_op (op_NewSequentialFile D f)),
     op_NewWritableFile = (\<lambda>f. host_op (op_NewWritableFile D f)),
     op_GetChildren = (\<lambda>f. host_op (op_GetChildren D f)),
     op_IsDirectory = (\<lambda>f. host_op (op_IsDirectory D f)),
     op_CreateDir = (\<lambda>f. host_op (op_CreateDir D f)),
     op_CreateDirIfMissing = (\<lambda>f. host_op (op_CreateDirIfMissing D f)),
     op_Read = (\<lambda>n r. host_op (op_Read D n r)),
     op_SetWriteLifeTimeHint = (\<lambda>n p. host_op (op_SetWriteLifeTimeHint D n p)),
     op_Append = (\<lambda>d p. host_op (op_Append D d p)),
     op_Fsync = (\<lambda>p. host_op (op_Fsync D p)),
     delete_reader = (\<lambda>r. host_op (delete_reader D r)),
     delete_writer = (\<lambda>p. host_op (delete_writer D p))\<rparr>"

text \<open>
  ZenFS. A file it does not know is read through the default file system, so a handle for reading is one of
  either; directories are created there.
\<close>

definition ZenFS_open_reader :: "('d, 'a) sysenv \<Rightarrow> ('a, 'r, 'p) filesystem \<Rightarrow> string \<Rightarrow> ('d, 'a) zenfs
    \<Rightarrow> ((IOStatus \<times> (rfile + 'r) option) \<times> ('d, 'a) zenfs) option" where
  "ZenFS_open_reader E D filename s = do {
     fname \<leftarrow> FormatPathLexically (sys_paths E) filename;
     zoneFile \<leftarrow> GetFileNoLock E fname s;
     (case zoneFile of
        None \<Rightarrow> do {
          aux \<leftarrow> ToAuxPath fname s;
          ((st, r), s1) \<leftarrow> host_op (op_NewSequentialFile D aux) s;
          Some ((st, map_option Inr r), s1)
        }
      | Some f \<Rightarrow> do {
          (st, r, s1) \<leftarrow> NewSequentialFile E filename False s;
          Some ((st, map_option Inl r), s1)
        })
   }"

definition ZenFS_read :: "('d, 'a) sysenv \<Rightarrow> ('a, 'r, 'p) filesystem \<Rightarrow> u64 \<Rightarrow> rfile + 'r \<Rightarrow> ('d, 'a) zenfs
    \<Rightarrow> ((IOStatus \<times> byte list \<times> (rfile + 'r)) \<times> ('d, 'a) zenfs) option" where
  "ZenFS_read E D n h s =
    (case h of
       Inl r \<Rightarrow> map_option (\<lambda>(st, bytes, r1, s1). ((st, bytes, Inl r1), s1)) (SequentialFile_Read (sys_be E) n r s)
     | Inr r \<Rightarrow> map_option (\<lambda>((st, bytes, r1), s1). ((st, bytes, Inr r1), s1)) (host_op (op_Read D n r) s))"

text \<open>The auxiliary path of a directory is not normalised.\<close>

definition ZenFS_CreateDir :: "('d, 'a) sysenv \<Rightarrow> ('a, 'r, 'p) filesystem \<Rightarrow> string \<Rightarrow> ('d, 'a) zenfs
    \<Rightarrow> (IOStatus \<times> ('d, 'a) zenfs) option" where
  "ZenFS_CreateDir E D d s = Option.bind (ToAuxPath d s) (\<lambda>aux. host_op (op_CreateDir D aux) s)"

definition ZenFS_CreateDirIfMissing :: "('d, 'a) sysenv \<Rightarrow> ('a, 'r, 'p) filesystem \<Rightarrow> string \<Rightarrow> ('d, 'a) zenfs
    \<Rightarrow> (IOStatus \<times> ('d, 'a) zenfs) option" where
  "ZenFS_CreateDirIfMissing E D d s = Option.bind (ToAuxPath d s) (\<lambda>aux. host_op (op_CreateDirIfMissing D aux) s)"

text \<open>A handle of ZenFS holds a pointer to its file; the last pointer destroys the file object.\<close>

definition delete_wfile :: "('d, 'a) sysenv \<Rightarrow> wfile \<Rightarrow> ('d, 'a) zenfs \<Rightarrow> (unit \<times> ('d, 'a) zenfs) option" where
  "delete_wfile E w s = do {
     (cnt, s1) \<leftarrow> ZonedWritableFile_destroy (sys_coding E) (sys_penv E) (sys_be E) (ZenFS_Persist E) w (fs_bufcount s) s;
     s2 \<leftarrow> release_ref (w_file w) (s1\<lparr>fs_bufcount := cnt\<rparr>);
     Some ((), s2)
   }"

definition ZenFS_filesystem :: "('d, 'a) sysenv \<Rightarrow> ('a, 'r, 'p) filesystem \<Rightarrow> (('d, 'a) zenfs, rfile + 'r, wfile) filesystem" where
  "ZenFS_filesystem E D =
    \<lparr>op_GetFileSize = (\<lambda>f s. map_option (\<lambda>(st, n, s1). ((st, n), s1)) (ZenFS_GetFileSize E f s)),
     op_NewSequentialFile = ZenFS_open_reader E D,
     op_NewWritableFile = (\<lambda>f s. map_option (\<lambda>(st, p, s1). ((st, p), s1)) (NewWritableFile E f False s)),
     op_GetChildren = (\<lambda>d s. map_option (\<lambda>(st, cs, s1). ((st, cs), s1)) (GetChildrenNoLock E d s)),
     op_IsDirectory = (\<lambda>d s. map_option (\<lambda>(st, b, s1). ((st, b), s1)) (IsDirectoryNoLock E d s)),
     op_CreateDir = ZenFS_CreateDir E D,
     op_CreateDirIfMissing = ZenFS_CreateDirIfMissing E D,
     op_Read = ZenFS_read E D,
     op_SetWriteLifeTimeHint = (\<lambda>h p s. Some (p, upd_file (w_file p) (f_lifetime_update (\<lambda>_. h)) s)),
     op_Append = (\<lambda>d p s. map_option (\<lambda>(st, p1, s1). ((st, p1), s1))
       (ZonedWritableFile_Append (sys_coding E) (sys_penv E) (sys_be E) (ZenFS_Persist E) d p s)),
     op_Fsync = (\<lambda>p s. map_option (\<lambda>(st, p1, s1). ((st, p1), s1))
       (Fsync (sys_coding E) (sys_penv E) (sys_be E) (ZenFS_Persist E) p s)),
     delete_reader = (\<lambda>h s. (case h of Inl r \<Rightarrow> map_option (Pair ()) (release_ref (r_file r) s) | Inr r \<Rightarrow> host_op (delete_reader D r) s)),
     delete_writer = delete_wfile E\<rparr>"

section \<open>The file of hints\<close>

lemma is_digit_char: "d < 10 \<Longrightarrow> is_digit (char_of (48 + d))" "d < 10 \<Longrightarrow> of_char (char_of (48 + d)) - 48 = (d :: nat)"
  by (simp_all add: is_digit_def)

lemma decimal_digits: "decimal n \<noteq> []" "\<forall>c \<in> set (decimal n). is_digit c"
  by (induction n rule: decimal.induct) (subst decimal.simps; auto simp: is_digit_char)+

lemma digits_value_snoc: "digits_value (ds @ [c]) = 10 * digits_value ds + (of_char c - 48)"
  by (simp add: digits_value_def)

lemma digits_value_decimal: "digits_value (decimal n) = n"
proof (induction n rule: decimal.induct)
  case (1 n)
  show ?case
  proof (cases "n < 10")
    case True
    then show ?thesis using is_digit_char(2) [of n] by (simp add: decimal.simps digits_value_def)
  next
    case False
    then have "decimal n = decimal (n div 10) @ [char_of (48 + n mod 10)]" by (simp add: decimal.simps)
    then show ?thesis
      using 1 False is_digit_char(2) [of "n mod 10"] by (simp add: digits_value_snoc del: of_char_of)
  qed
qed

lemma digit_not_space: "is_digit c \<Longrightarrow> \<not> is_space c" "is_digit c \<Longrightarrow> c \<noteq> CHR ''-'' \<and> c \<noteq> CHR ''+''"
  by (auto simp: is_digit_def is_space_def)

lemma extract_u32_decimal: "extract_u32 (CHR 0x09 # decimal (unat (v :: u32)) @ CHR 0x0A # t) = Some (v, CHR 0x0A # t)"
proof -
  let ?ds = "decimal (unat v)"
  obtain c r where c: "?ds = c # r" using decimal_digits(1) [of "unat v"] by (cases ?ds) auto
  have "is_digit c" using decimal_digits(2) [of "unat v"] by (simp add: c)
  note nc = digit_not_space [OF this]
  have sp: "is_space (CHR 0x09)" by (simp add: is_space_def)
  have d: "dropWhile is_space (CHR 0x09 # ?ds @ CHR 0x0A # t) = ?ds @ CHR 0x0A # t" using nc(1) sp by (simp add: c)
  have t: "takeWhile is_digit (?ds @ CHR 0x0A # t) = ?ds" "dropWhile is_digit (?ds @ CHR 0x0A # t) = CHR 0x0A # t"
    using decimal_digits(2) [of "unat v"] by (simp_all add: is_digit_def)
  have "unat v < 2 ^ 32" using unsigned_less [of v] by simp
  then show ?thesis
    using nc t decimal_digits(1) [of "unat v"]
    unfolding extract_u32_def d by (simp add: c Let_def digits_value_decimal [of "unat v", unfolded c])
qed

lemma extract_string_word:
  assumes "w \<noteq> []" "\<forall>c \<in> set w. \<not> is_space c" "\<forall>c \<in> set sp. is_space c" "is_space c"
  shows "extract_string (sp @ w @ c # t) = Some (w, c # t)"
proof -
  have "dropWhile is_space (sp @ w @ c # t) = w @ c # t" using assms(1-3) by (cases w) simp_all
  then show ?thesis using assms by (simp add: extract_string_def)
qed

lemma map_insert_last: "\<forall>k' \<in> fst ` set m. k' < k \<Longrightarrow> map_insert k v m = m @ [(k, v)]"
  by (induction m) auto

lemma read_hints_text:
  assumes "sorted_wrt (<) (map fst (m0 @ m))" "\<forall>n \<in> fst ` set m. n \<noteq> [] \<and> (\<forall>c \<in> set n. \<not> is_space c)" "\<forall>c \<in> set sp. is_space c"
  shows "read_hints (sp @ hints_text m) m0 = m0 @ m"
  using assms
proof (induction m arbitrary: m0 sp)
  case Nil
  then have "dropWhile is_space sp = []" by (simp add: dropWhile_eq_Nil_conv)
  then have "extract_string sp = None" unfolding extract_string_def Let_def by (simp only: takeWhile.simps simp_thms if_True)
  then show ?case by (simp add: read_hints.simps hints_text_def)
next
  case (Cons x m)
  obtain n v where x: "x = (n, v)" by (cases x)
  have w: "n \<noteq> []" "\<forall>c \<in> set n. \<not> is_space c" using Cons.prems(2) by (simp_all add: x)
  have "extract_string (sp @ n @ CHR 0x09 # decimal (unat v) @ CHR 0x0A # hints_text m) =
      Some (n, CHR 0x09 # decimal (unat v) @ CHR 0x0A # hints_text m)"
    by (rule extract_string_word [OF w Cons.prems(3)]) (simp add: is_space_def)
  moreover have "map_insert n v m0 = m0 @ [(n, v)]"
    using Cons.prems(1) by (intro map_insert_last) (auto simp: sorted_wrt_append x)
  moreover have "read_hints ([CHR 0x0A] @ hints_text m) (m0 @ [(n, v)]) = (m0 @ [(n, v)]) @ m"
    by (rule Cons.IH) (use Cons.prems in \<open>simp_all add: x is_space_def\<close>)
  ultimately show ?case
    by (subst read_hints.simps) (simp add: hints_text_def x extract_u32_decimal)
qed

lemma GetWriteLifeTimeHints_eq:
  assumes "sorted_wrt (<) (map fst (fs_files s))"
  shows "GetWriteLifeTimeHints s = map (\<lambda>(n, f). (n, f_lifetime (fheap s f))) (fs_files s)"
proof -
  have "fold (\<lambda>(n, f). map_insert n (f_lifetime (fheap s f))) xs m0 = m0 @ map (\<lambda>(n, f). (n, f_lifetime (fheap s f))) xs"
    if "sorted_wrt (<) (map fst m0 @ map fst xs)" for xs m0
    using that
  proof (induction xs arbitrary: m0)
    case (Cons x xs)
    obtain n f where x: "x = (n, f)" by (cases x)
    have "map_insert n (f_lifetime (fheap s f)) m0 = m0 @ [(n, f_lifetime (fheap s f))]"
      using Cons.prems by (intro map_insert_last) (auto simp: sorted_wrt_append x)
    then show ?case using Cons by (simp add: x)
  qed simp
  from this [of "[]"] assms show ?thesis by (simp add: GetWriteLifeTimeHints_def)
qed

text \<open>
  C40: The hints on the life time of files survive a backup. What \<open>SaveWriteLifeTimeHints\<close> writes of the files of
  a file system, \<open>ReadWriteLifeTimeHints\<close> reads back as exactly the same map from names to hints, for names
  that are not empty and contain no white space.
\<close>

theorem WriteLifeTimeHints_roundtrip:
  assumes "sorted_wrt (<) (map fst (fs_files s))"
    and "\<forall>n \<in> fst ` set (fs_files s). n \<noteq> [] \<and> (\<forall>c \<in> set n. \<not> is_space c)"
  shows "ReadWriteLifeTimeHints (Some (hints_text (GetWriteLifeTimeHints s))) [] =
    map (\<lambda>(n, f). (n, f_lifetime (fheap s f))) (fs_files s)"
proof -
  let ?m = "map (\<lambda>(n, f). (n, f_lifetime (fheap s f))) (fs_files s)"
  have k: "map fst ?m = map fst (fs_files s)" by (simp add: case_prod_beta comp_def)
  then have "fst ` set ?m = fst ` set (fs_files s)" by (metis list.set_map)
  then have "read_hints ([] @ hints_text ?m) [] = [] @ ?m"
    using assms(2) by (intro read_hints_text) (simp_all only: append_Nil k assms(1) list.set ball_empty)
  then show ?thesis by (simp add: ReadWriteLifeTimeHints_def GetWriteLifeTimeHints_eq [OF assms(1)])
qed

text \<open>A name with a space ends the reading: this hint and all that follow are lost.\<close>

lemma hints_name_with_space:
  assumes "n = w @ '' '' @ n'" "w \<noteq> []" "\<forall>c \<in> set w. \<not> is_space c" "n' \<noteq> []" "\<not> is_space (hd n')" "\<not> is_digit (hd n')" "hd n' \<notin> {CHR ''-'', CHR ''+''}"
  shows "read_hints (hints_text ((n, v) # m)) m0 = m0"
proof -
  have sp: "is_space (CHR '' '')" by (simp add: is_space_def)
  have "extract_string ([] @ w @ CHR '' '' # n' @ t) = Some (w, CHR '' '' # n' @ t)" for t
    by (rule extract_string_word) (use assms(2,3) sp in simp_all)
  moreover have "extract_u32 (CHR '' '' # n' @ t) = None" for t
    using assms(4-) sp by (cases n') (simp_all add: extract_u32_def)
  ultimately show ?thesis by (subst read_hints.simps) (simp add: hints_text_def assms(1))
qed

theorem WriteLifeTimeHints_roundtrip_witness:
  "ReadWriteLifeTimeHints (Some (hints_text (GetWriteLifeTimeHints sample_fs))) [] = [(''/a.sst'', 0)]"
proof -
  have f: "fs_files sample_fs = [(''/a.sst'', 0)]" "f_lifetime (fheap sample_fs 0) = 0" by (simp_all add: sample_fs_eval)
  then show ?thesis using WriteLifeTimeHints_roundtrip [of sample_fs] by (simp add: is_space_def)
qed

section \<open>A file is copied completely\<close>

text \<open>
  What is expected of the file system that is written to. \<open>writes q t h b\<close>: the handle \<open>q\<close> is open on the file
  \<open>t\<close> and has written \<open>b\<close>. An append that fails may have written anything.
\<close>

locale appending_filesystem =
  fixes D :: "('a, 'r, 'p) filesystem" and writes :: "'p \<Rightarrow> string \<Rightarrow> 'a \<Rightarrow> byte list \<Rightarrow> bool"
    and stored :: "string \<Rightarrow> 'a \<Rightarrow> byte list option"
  assumes create: "\<exists>st p h'. op_NewWritableFile D t h = Some ((st, p), h') \<and>
      (if st = OK then \<exists>q. p = Some q \<and> writes q t h' [] else p = None)"
    and hint: "writes q t h b \<Longrightarrow> \<exists>q' h'. op_SetWriteLifeTimeHint D x q h = Some (q', h') \<and> writes q' t h' b"
    and append: "writes q t h b \<Longrightarrow> \<exists>st q' h' b'. op_Append D data q h = Some ((st, q'), h') \<and> writes q' t h' b' \<and>
      (st = OK \<longrightarrow> b' = b @ data)"
    and sync: "writes q t h b \<Longrightarrow> \<exists>st q' h'. op_Fsync D q h = Some ((st, q'), h') \<and> writes q' t h' b"
    and close: "writes q t h b \<Longrightarrow> \<exists>h'. delete_writer D q h = Some ((), h') \<and> stored t h' = Some b"

text \<open>No append fails; creating and synchronising a file do not fail either.\<close>

definition appends_succeed :: "('a, 'r, 'p) filesystem \<Rightarrow> bool" where
  "appends_succeed D \<longleftrightarrow> (\<forall>data q h st q' h'. op_Append D data q h = Some ((st, q'), h') \<longrightarrow> st = OK)"

definition writes_succeed :: "('a, 'r, 'p) filesystem \<Rightarrow> bool" where
  "writes_succeed D \<longleftrightarrow> appends_succeed D \<and>
    (\<forall>t h st p h'. op_NewWritableFile D t h = Some ((st, p), h') \<longrightarrow> st = OK) \<and>
    (\<forall>q h st q' h'. op_Fsync D q h = Some ((st, q'), h') \<longrightarrow> st = OK)"

context zoned_storage
begin

lemma PositionedRead_loop_geometry:
  assumes "PositionedRead_loop be direct es offset r_sz ptr read r_off extent_end r s = Some (v, buf, s')"
  shows "geometry be (dev s') = geometry be (dev s)"
proof -
  let ?P = "\<lambda>b direct es offset r_sz ptr read r_off extent_end r s (v, buf', s'). b = be \<longrightarrow> geometry be (dev s') = geometry be (dev s)"
  have "?P be direct es offset r_sz ptr read r_off extent_end r s (v, buf, s')"
  proof (rule PositionedRead_loop.raw_induct [where P = ?P, OF _ assms], goal_cases)
    case (1 f b direct es offset r_sz ptr read r_off extent_end r s res)
    show ?case
    proof (cases res, clarify)
      fix v buf' s'
      assume r: "res = (v, buf', s')" "b = be"
      show "geometry be (dev s') = geometry be (dev s)"
      proof (cases "read = r_sz")
        case True
        then show ?thesis using 1(2) r by simp
      next
        case False
        have IH: "f be dir es offset r_sz ptr read r_off e ret t = Some (v, buf', s') \<Longrightarrow> geometry be (dev s') = geometry be (dev t)"
          for dir ptr read r_off e ret t using 1(1) by fastforce
        show ?thesis
          using 1(2) r False
          by (auto simp: Let_def split: if_splits option.splits dest!: Zbd_Read_geometry IH)
      qed
    qed
  qed
  then show ?thesis by simp
qed

lemma PositionedRead_geometry:
  assumes "PositionedRead be f offset n direct s = Some (st, bytes, s')"
  shows "geometry be (dev s') = geometry be (dev s)"
  using assms PositionedRead_loop_geometry by (auto simp: PositionedRead_def Let_def split: if_splits option.splits)

end

text \<open>The file \<open>f\<close> can be read: its extents are within the device and hold as many bytes as its size says.\<close>

definition readable :: "('d, 'b) backend_scheme \<Rightarrow> ('d \<Rightarrow> nat \<Rightarrow> byte) \<Rightarrow> nat \<Rightarrow> fptr \<Rightarrow> ('d, 'm) fdev_scheme \<Rightarrow> bool" where
  "readable be media lim f s \<longleftrightarrow>
    (let bs = unat (be_block_sz be (dev s)); zf = fheap s f
     in extents_below (lim - bs) (f_extents zf) \<and> 0 < bs \<and> bs \<le> lim \<and> bs + 2 ^ 20 < 2 ^ 31 \<and> lim + 2 ^ 31 < 2 ^ 64 \<and>
        length (content (media (dev s)) (f_extents zf)) = unat (f_file_size zf))"

lemma readable_same:
  "readable be media lim f s \<Longrightarrow> fheap s' = fheap s \<Longrightarrow> media (dev s') = media (dev s) \<Longrightarrow>
    geometry be (dev s') = geometry be (dev s) \<Longrightarrow> readable be media lim f s'"
  by (simp add: readable_def geometry_def Let_def)

lemma read_chunk:
  fixes E :: "('d, 'a) sysenv" and s :: "('d, 'a) zenfs"
  assumes "steady_storage (sys_be E) media" "reads_nonempty (sys_be E) lim" "readable (sys_be E) media lim f s"
    and "r_file r = f" "unat n \<le> 2 ^ 20" "unat (r_pos r) + unat n \<le> unat (f_file_size (fheap s f))"
  obtains st bytes r' d where "op_Read (ZenFS_filesystem E D) n (Inl r) s = Some ((st, bytes, Inl r'), s\<lparr>dev := d\<rparr>)"
    "media d = media (dev s)" "geometry (sys_be E) d = geometry (sys_be E) (dev s)" "r_file r' = f"
    "st = OK \<Longrightarrow> bytes = take (unat n) (drop (unat (r_pos r)) (content (media (dev s)) (f_extents (fheap s f)))) \<and>
      length bytes = unat n \<and> unat (r_pos r') = unat (r_pos r) + unat n" "reads_succeed (sys_be E) \<Longrightarrow> st = OK"
proof -
  let ?be = "sys_be E" and ?c = "content (media (dev s)) (f_extents (fheap s f))"
  let ?bs = "unat (be_block_sz ?be (dev s))"
  have R: "extents_below (lim - ?bs) (f_extents (fheap s f))" "lim - ?bs + ?bs \<le> lim" "0 < ?bs" "?bs + 2 ^ 20 < 2 ^ 31"
    "lim + 2 ^ 31 < 2 ^ 64" "length ?c = unat (f_file_size (fheap s f))"
    using assms(3) by (simp_all add: readable_def Let_def)
  have "unat (f_file_size (fheap s f)) < 2 ^ 64" using unsigned_less [of "f_file_size (fheap s f)"] by simp
  then have sz: "unat (r_pos r) + unat n < 2 ^ 64" using assms(6) by simp
  obtain st bytes d where P: "PositionedRead ?be f (r_pos r) n (r_direct r) s = Some (st, bytes, s\<lparr>dev := d\<rparr>)"
    "media d = media (dev s)"
    "st = OK \<and> bytes = take (unat n) (drop (unat (r_pos r)) (take (unat (f_file_size (fheap s f))) ?c)) \<or> st = IOError \<and> bytes = [] \<and> \<not> reads_succeed ?be"
    using PositionedRead_part [OF assms(1,2) R(5,1,2,3), of n "r_pos r" "r_direct r"] R(4) assms(5) sz by auto
  have g: "geometry ?be d = geometry ?be (dev s)"
    using zoned_storage.PositionedRead_geometry [of ?be media, OF _ P(1)] assms(1) by (simp add: steady_storage_def)
  define r' where "r' = (if st = OK then r\<lparr>r_pos := r_pos r + of_nat (length bytes)\<rparr> else r)"
  have op: "op_Read (ZenFS_filesystem E D) n (Inl r) s = Some ((st, bytes, Inl r'), s\<lparr>dev := d\<rparr>)"
    using P(1) assms(4) by (simp add: ZenFS_filesystem_def ZenFS_read_def SequentialFile_Read_def r'_def)
  have "bytes = take (unat n) (drop (unat (r_pos r)) ?c) \<and> length bytes = unat n" if "st = OK"
    using that P(3) R(6) assms(6) by simp
  moreover have "unat (r_pos r') = unat (r_pos r) + unat n" if "st = OK"
  proof -
    have "length bytes = unat n" using calculation that by blast
    then show ?thesis using that sz by (simp add: r'_def unat_add_u64 unat_of_nat_u64)
  qed
  moreover have "r_file r' = f" using assms(4) by (simp add: r'_def)
  moreover have "reads_succeed ?be \<Longrightarrow> st = OK" using P(3) by blast
  ultimately show thesis using that [OF op P(2) g] by blast
qed

lemma host_filesystem_ops:
  "op_NewWritableFile (host_filesystem D) t s = host_op (op_NewWritableFile D t) s"
  "op_SetWriteLifeTimeHint (host_filesystem D) x q s = host_op (op_SetWriteLifeTimeHint D x q) s"
  "op_Append (host_filesystem D) data q s = host_op (op_Append D data q) s"
  "op_Fsync (host_filesystem D) q s = host_op (op_Fsync D q) s"
  "delete_writer (host_filesystem D) q s = host_op (delete_writer D q) s"
  by (simp_all add: host_filesystem_def)

text \<open>What stays as it is while a file is copied out.\<close>

definition copying_keeps :: "('d, 'b) backend_scheme \<Rightarrow> ('d \<Rightarrow> nat \<Rightarrow> byte) \<Rightarrow> ('d, 'a) zenfs \<Rightarrow> ('d, 'a) zenfs \<Rightarrow> bool" where
  "copying_keeps be media s s' \<longleftrightarrow> fheap s' = fheap s \<and> zheap s' = zheap s \<and> fs_files s' = fs_files s \<and> fs_refs s' = fs_refs s \<and>
    media (dev s') = media (dev s) \<and> geometry be (dev s') = geometry be (dev s)"

lemma copying_keeps_trans: "copying_keeps be media s s1 \<Longrightarrow> copying_keeps be media s1 s2 \<Longrightarrow> copying_keeps be media s s2"
  by (simp add: copying_keeps_def)

context appending_filesystem
begin

lemma copy_loop_complete:
  fixes E :: "('d, 'a) sysenv"
  assumes "steady_storage (sys_be E) media" "reads_nonempty (sys_be E) lim"
    and "readable (sys_be E) media lim f s" "r_file r = f" "writes q t (fs_host s) b"
    and "unat (r_pos r) + unat to_copy = unat (f_file_size (fheap s f))"
  shows "\<exists>st r' q' s' b'. copy_loop (ZenFS_filesystem E D) (host_filesystem D) to_copy st0 (Inl r) q s = Some ((st, Inl r', q'), s') \<and>
    r_file r' = f \<and> copying_keeps (sys_be E) media s s' \<and> writes q' t (fs_host s') b' \<and>
    (st = OK \<and> (unat to_copy \<le> 2 ^ 20 \<or> appends_succeed D) \<longrightarrow>
      b' = b @ drop (unat (r_pos r)) (content (media (dev s)) (f_extents (fheap s f)))) \<and>
    (st0 = OK \<and> reads_succeed (sys_be E) \<and> appends_succeed D \<longrightarrow> st = OK)"
  using assms(3-)
proof (induction "unat to_copy" arbitrary: to_copy st0 r q s b rule: less_induct)
  case less
  let ?c = "content (media (dev s)) (f_extents (fheap s f))" and ?F = "ZenFS_filesystem E D" and ?T = "host_filesystem D"
  show ?case
  proof (cases "to_copy = 0")
    case True
    have "length ?c = unat (f_file_size (fheap s f))" using less.prems(1) by (simp add: readable_def Let_def)
    then have "drop (unat (r_pos r)) ?c = []" using less.prems(4) True by simp
    then show ?thesis
      using less.prems(2,3) True by (intro exI [of _ st0] exI [of _ r] exI [of _ q] exI [of _ s] exI [of _ b]) (simp add: copy_loop.simps copying_keeps_def)
  next
    case False
    define n where "n = (if to_copy > copy_buffer_sz then copy_buffer_sz else to_copy)"
    have n: "unat n \<le> 2 ^ 20" "unat n \<le> unat to_copy" "0 < unat n"
      using False by (auto simp: n_def word_less_nat_alt word_le_nat_alt unat_gt_0)
    obtain st1 bytes r1 d where R: "op_Read ?F n (Inl r) s = Some ((st1, bytes, Inl r1), s\<lparr>dev := d\<rparr>)"
      "media d = media (dev s)" "geometry (sys_be E) d = geometry (sys_be E) (dev s)" "r_file r1 = f"
      "st1 = OK \<Longrightarrow> bytes = take (unat n) (drop (unat (r_pos r)) ?c) \<and> length bytes = unat n \<and> unat (r_pos r1) = unat (r_pos r) + unat n"
      "reads_succeed (sys_be E) \<Longrightarrow> st1 = OK"
      using read_chunk [OF assms(1,2) less.prems(1,2) n(1)] n(2) less.prems(4) by (metis add_left_mono)
    show ?thesis
    proof (cases "st1 = OK")
      case False
      then have "copy_loop ?F ?T to_copy st0 (Inl r) q s = Some ((st1, Inl r1, q), s\<lparr>dev := d\<rparr>)"
        unfolding copy_loop.simps [of _ _ to_copy] n_def [symmetric] using \<open>to_copy \<noteq> 0\<close> R(1) by simp
      then show ?thesis
        using False R(2-4,6) less.prems(3)
        by (intro exI [of _ st1] exI [of _ r1] exI [of _ q] exI [of _ "s\<lparr>dev := d\<rparr>"] exI [of _ b]) (auto simp: copying_keeps_def)
    next
      case True
      note B = R(5) [OF True]
      have len: "length bytes = unat n" using B by blast
      obtain st2 q1 h b1 where A: "op_Append D bytes q (fs_host s) = Some ((st2, q1), h)" "writes q1 t h b1" "st2 = OK \<longrightarrow> b1 = b @ bytes"
        using append [OF less.prems(3), of bytes] by blast
      let ?s2 = "s\<lparr>dev := d, fs_host := h\<rparr>"
      have eq: "copy_loop ?F ?T to_copy st0 (Inl r) q s = copy_loop ?F ?T (to_copy - of_nat (length bytes)) st2 (Inl r1) q1 ?s2"
        unfolding copy_loop.simps [of _ _ to_copy] n_def [symmetric]
        using False True R(1) A(1) by (simp add: host_filesystem_ops host_op_def)
      have left: "unat (to_copy - of_nat (length bytes)) = unat to_copy - unat n"
        using n(2) by (simp add: len unat_sub word_le_nat_alt)
      have k: "copying_keeps (sys_be E) media s ?s2" using R(2,3) by (simp add: copying_keeps_def)
      have rd: "readable (sys_be E) media lim f ?s2" by (rule readable_same [OF less.prems(1)]) (simp_all add: R(2,3))
      have w: "writes q1 t (fs_host ?s2) b1" using A(2) by simp
      have lt: "unat (to_copy - of_nat (length bytes)) < unat to_copy" using left n by simp
      have pos: "unat (r_pos r1) + unat (to_copy - of_nat (length bytes)) = unat (f_file_size (fheap ?s2 f))"
        using B left n(2) less.prems(4) by simp
      obtain st r' q' s' b' where I: "copy_loop ?F ?T (to_copy - of_nat (length bytes)) st2 (Inl r1) q1 ?s2 = Some ((st, Inl r', q'), s')"
        "r_file r' = f" "copying_keeps (sys_be E) media ?s2 s'" "writes q' t (fs_host s') b'"
        "st = OK \<and> (unat (to_copy - of_nat (length bytes)) \<le> 2 ^ 20 \<or> appends_succeed D) \<longrightarrow>
          b' = b1 @ drop (unat (r_pos r1)) (content (media (dev ?s2)) (f_extents (fheap ?s2 f)))"
        "st2 = OK \<and> reads_succeed (sys_be E) \<and> appends_succeed D \<longrightarrow> st = OK"
        using less.hyps [OF lt rd R(4) w pos, of st2] by blast
      have ok: "st2 = OK" if "appends_succeed D" using that A(1) unfolding appends_succeed_def by blast
      have "b' = b @ drop (unat (r_pos r)) ?c" if "st = OK" "unat to_copy \<le> 2 ^ 20 \<or> appends_succeed D"
      proof -
        have "st2 = OK"
        proof (cases "appends_succeed D")
          case True
          then show ?thesis by (rule ok)
        next
          case False
          then have "to_copy \<le> copy_buffer_sz" using that(2) by (simp add: word_le_nat_alt)
          then have "n = to_copy" by (auto simp: n_def)
          then have "to_copy - of_nat (length bytes) = 0" using left by (simp add: unat_eq_zero [symmetric] del: unat_eq_zero)
          then show ?thesis using I(1) that(1) by (simp add: copy_loop.simps)
        qed
        then have "b' = b @ bytes @ drop (unat (r_pos r1)) ?c" using I(5) that A(3) lt R(2) by auto
        moreover have "bytes @ drop (unat (r_pos r1)) ?c = drop (unat (r_pos r)) ?c"
          using B append_take_drop_id [of "unat n" "drop (unat (r_pos r)) ?c"] by (simp add: add.commute)
        ultimately show ?thesis by simp
      qed
      then show ?thesis using eq I(1-4,6) ok copying_keeps_trans [OF k I(3)] by auto
    qed
  qed
qed

end

text \<open>Opening a file of ZenFS for reading, and destroying the handle.\<close>

lemma ZenFS_reader:
  fixes E :: "('d, 'a) sysenv" and s :: "('d, 'a) zenfs"
  assumes "FormatPathLexically (sys_paths E) p = Some fname" "FormatPathLexically (sys_paths E) fname = Some fname" "map_of (fs_files s) fname = Some f"
  shows "op_GetFileSize (ZenFS_filesystem E D) p s = Some ((OK, f_file_size (fheap s f)), s)"
    and "op_NewSequentialFile (ZenFS_filesystem E D) p s = Some ((OK, Some (Inl (RFile_new f False s))), hold_ref f s)"
    and "fs_files s' = fs_files s \<Longrightarrow> r_file r = f \<Longrightarrow>
      delete_reader (ZenFS_filesystem E D) (Inl r) s' = Some ((), s'\<lparr>fs_refs := (fs_refs s')(f := fs_refs s' f - 1)\<rparr>)"
proof -
  have g: "GetFileNoLock E fname s = Some (Some f)" using assms by (simp add: GetFileNoLock_def)
  have "f \<in> snd ` set (fs_files s)" using map_of_SomeD [OF assms(3)] by force
  then show "fs_files s' = fs_files s \<Longrightarrow> r_file r = f \<Longrightarrow>
      delete_reader (ZenFS_filesystem E D) (Inl r) s' = Some ((), s'\<lparr>fs_refs := (fs_refs s')(f := fs_refs s' f - 1)\<rparr>)"
    by (simp add: ZenFS_filesystem_def release_ref_def drop_shared_def)
  show "op_GetFileSize (ZenFS_filesystem E D) p s = Some ((OK, f_file_size (fheap s f)), s)"
    using assms by (simp add: ZenFS_filesystem_def ZenFS_GetFileSize_def ask_def)
  show "op_NewSequentialFile (ZenFS_filesystem E D) p s = Some ((OK, Some (Inl (RFile_new f False s))), hold_ref f s)"
    using assms g by (simp add: ZenFS_filesystem_def ZenFS_open_reader_def NewSequentialFile_def)
qed

context appending_filesystem
begin

lemma copy_file_complete:
  fixes E :: "('d, 'a) sysenv"
  assumes "steady_storage (sys_be E) media" "reads_nonempty (sys_be E) lim" "readable (sys_be E) media lim f s"
    and "FormatPathLexically (sys_paths E) p = Some fname" "FormatPathLexically (sys_paths E) fname = Some fname" "map_of (fs_files s) fname = Some f"
  shows "\<exists>st s'. zenfs_tool_copy_file m (ZenFS_filesystem E D) p (host_filesystem D) t s = Some (st, s') \<and>
    copying_keeps (sys_be E) media s s' \<and>
    (st = OK \<and> (unat (f_file_size (fheap s f)) \<le> 2 ^ 20 \<or> appends_succeed D) \<longrightarrow>
      stored t (fs_host s') = Some (content (media (dev s)) (f_extents (fheap s f)))) \<and>
    (reads_succeed (sys_be E) \<and> writes_succeed D \<longrightarrow> st = OK)"
proof -
  let ?F = "ZenFS_filesystem E D" and ?T = "host_filesystem D" and ?s1 = "hold_ref f s" and ?r = "RFile_new f False s"
  let ?c = "content (media (dev s)) (f_extents (fheap s f))"
  note O = ZenFS_reader [OF assms(4-6), where D = D]
  have h1: "fs_host ?s1 = fs_host s" "fheap ?s1 = fheap s" "dev ?s1 = dev s" "fs_files ?s1 = fs_files s" "zheap ?s1 = zheap s"
    "fs_refs ?s1 = (fs_refs s)(f := fs_refs s f + 1)" by (simp_all add: hold_ref_def)
  have del: "\<exists>s''. delete_reader ?F (Inl r) s' = Some ((), s'') \<and> copying_keeps (sys_be E) media s s'' \<and> fs_host s'' = fs_host s'"
    if "copying_keeps (sys_be E) media ?s1 s'" "r_file r = f" for r s'
    using that O(3) [of s' r] by (auto simp: copying_keeps_def h1)
  obtain st2 q2 h2 where N: "op_NewWritableFile D t (fs_host s) = Some ((st2, q2), h2)"
    "if st2 = OK then \<exists>q. q2 = Some q \<and> writes q t h2 [] else q2 = None" using create by blast
  show ?thesis
  proof (cases "st2 = OK")
    case False
    have "copying_keeps (sys_be E) media ?s1 (?s1\<lparr>fs_host := h2\<rparr>)" by (simp add: copying_keeps_def)
    from del [OF this, of ?r] obtain s'' where "delete_reader ?F (Inl ?r) (?s1\<lparr>fs_host := h2\<rparr>) = Some ((), s'')"
      "copying_keeps (sys_be E) media s s''" by (auto simp: RFile_new_def)
    moreover have "\<not> writes_succeed D" using N(1) False unfolding writes_succeed_def by blast
    ultimately show ?thesis
      using O N False h1(1) by (simp add: zenfs_tool_copy_file_def host_filesystem_ops host_op_def)
  next
    case True
    then obtain q where q: "q2 = Some q" "writes q t h2 []" using N(2) by auto
    obtain q3 h3 where H: "op_SetWriteLifeTimeHint D (GetWriteLifeTimeHint m t) q h2 = Some (q3, h3)" "writes q3 t h3 []"
      using hint [OF q(2)] by blast
    let ?s3 = "?s1\<lparr>fs_host := h3\<rparr>"
    have "readable (sys_be E) media lim f ?s3" by (rule readable_same [OF assms(3)]) (simp_all add: h1)
    from copy_loop_complete [OF assms(1,2) this, of ?r q3 t "[]" "f_file_size (fheap s f)" OK]
    have "\<exists>st r' q' s' b'. copy_loop ?F ?T (f_file_size (fheap s f)) OK (Inl ?r) q3 ?s3 = Some ((st, Inl r', q'), s') \<and>
        r_file r' = f \<and> copying_keeps (sys_be E) media ?s3 s' \<and> writes q' t (fs_host s') b' \<and>
        (st = OK \<and> (unat (f_file_size (fheap s f)) \<le> 2 ^ 20 \<or> appends_succeed D) \<longrightarrow> b' = ?c) \<and>
        (reads_succeed (sys_be E) \<and> appends_succeed D \<longrightarrow> st = OK)"
      using H(2) by (simp add: RFile_new_def h1)
    then obtain st4 r4 q4 s4 b where L: "copy_loop ?F ?T (f_file_size (fheap s f)) OK (Inl ?r) q3 ?s3 = Some ((st4, Inl r4, q4), s4)"
      "r_file r4 = f" "copying_keeps (sys_be E) media ?s3 s4" "writes q4 t (fs_host s4) b"
      "st4 = OK \<and> (unat (f_file_size (fheap s f)) \<le> 2 ^ 20 \<or> appends_succeed D) \<longrightarrow> b = ?c"
      "reads_succeed (sys_be E) \<and> appends_succeed D \<longrightarrow> st4 = OK"
      by blast
    obtain st5 q5 h5 where S: "op_Fsync D q4 (fs_host s4) = Some ((st5, q5), h5)" "writes q5 t h5 b"
      using sync [OF L(4)] by blast
    define st q6 h6 where "st = (if st4 = OK then st5 else st4)" "q6 = (if st4 = OK then q5 else q4)" "h6 = (if st4 = OK then h5 else fs_host s4)"
    have W: "writes q6 t h6 b" using S(2) L(4) by (simp add: st_q6_h6_def)
    obtain h7 where C: "delete_writer D q6 h6 = Some ((), h7)" "stored t h7 = Some b" using close [OF W] by blast
    have "copying_keeps (sys_be E) media ?s1 (s4\<lparr>fs_host := h7\<rparr>)" using L(3) by (simp add: copying_keeps_def)
    from del [OF this L(2)] obtain s'' where D: "delete_reader ?F (Inl r4) (s4\<lparr>fs_host := h7\<rparr>) = Some ((), s'')"
      "copying_keeps (sys_be E) media s s''" "fs_host s'' = h7" by auto
    have "zenfs_tool_copy_file m ?F p ?T t s = Some (st, s'')"
      using O(1,2) N(1) True q(1) H(1) L(1) S(1) C(1) D(1) h1(1)
      by (cases "st4 = OK") (simp_all add: zenfs_tool_copy_file_def host_filesystem_ops host_op_def st_q6_h6_def)
    moreover have "st = OK" if "reads_succeed (sys_be E)" "writes_succeed D"
      using L(6) S(1) that unfolding writes_succeed_def st_q6_h6_def by metis
    ultimately show ?thesis using D C(2) L(5) by (auto simp: st_q6_h6_def split: if_splits)
  qed
qed

end

text \<open>
  C20: A backup copies a file completely. For a file of ZenFS with readable extents and a target file system that
  keeps what is appended, \<open>zenfs_tool_copy_file\<close> returns, leaves files, zones and media of ZenFS alone, and
  when it reports success the target file holds exactly the content of the file. It reports success
  when no read of the device and no operation of the target fails. For files of more than one chunk (1 MiB)
  this needs that no append fails: the status of an append is overwritten by the next read.
\<close>

theorem zenfs_tool_copy_file_complete:
  fixes E :: "('d, 'a) sysenv"
  assumes "appending_filesystem D writes stored"
    and "steady_storage (sys_be E) media" "reads_nonempty (sys_be E) lim" "readable (sys_be E) media lim f s"
    and "FormatPathLexically (sys_paths E) p = Some fname" "FormatPathLexically (sys_paths E) fname = Some fname" "map_of (fs_files s) fname = Some f"
  shows "\<exists>st s'. zenfs_tool_copy_file m (ZenFS_filesystem E D) p (host_filesystem D) t s = Some (st, s') \<and>
    copying_keeps (sys_be E) media s s' \<and>
    (st = OK \<and> (unat (f_file_size (fheap s f)) \<le> 2 ^ 20 \<or> appends_succeed D) \<longrightarrow>
      stored t (fs_host s') = Some (content (media (dev s)) (f_extents (fheap s f)))) \<and>
    (reads_succeed (sys_be E) \<and> writes_succeed D \<longrightarrow> st = OK)"
  using assms by (rule appending_filesystem.copy_file_complete)

text \<open>The failed append of a chunk that is not the last goes unnoticed.\<close>

lemma copy_loop_loses_error:
  assumes "to_copy > copy_buffer_sz" "op_Read F copy_buffer_sz r w = Some ((OK, c1, r1), w1)" "length c1 = 2 ^ 20"
    and "op_Append T c1 q w1 = Some ((st, q1), w2)" "st \<noteq> OK"
    and "to_copy - copy_buffer_sz \<le> copy_buffer_sz" "op_Read F (to_copy - copy_buffer_sz) r1 w2 = Some ((OK, c2, r2), w3)"
    and "of_nat (length c2) = to_copy - copy_buffer_sz" "op_Append T c2 q1 w3 = Some ((OK, q2), w4)"
  shows "copy_loop F T to_copy st0 r q w = Some ((OK, r2, q2), w4)"
proof -
  have nz: "to_copy - copy_buffer_sz \<noteq> 0" "to_copy \<noteq> 0" using assms(1) by auto
  have "copy_loop F T to_copy st0 r q w = copy_loop F T (to_copy - copy_buffer_sz) st r1 q1 w2"
    unfolding copy_loop.simps [of _ _ to_copy] using assms(1-4) nz by simp
  also have "\<dots> = Some ((OK, r2, q2), w4)"
    unfolding copy_loop.simps [of _ _ "to_copy - copy_buffer_sz"] using assms(6-) nz
    by (simp add: copy_loop.simps [of _ _ 0] linorder_not_less [symmetric])
  finally show ?thesis .
qed

section \<open>A target in memory\<close>

text \<open>File contents by name; the handle is the name.\<close>

definition memory_filesystem :: "(string \<Rightarrow> byte list, unit, string) filesystem" where
  "memory_filesystem =
    \<lparr>op_GetFileSize = (\<lambda>f h. Some ((OK, of_nat (length (h f))), h)),
     op_NewSequentialFile = (\<lambda>f h. Some ((NotFound, None), h)),
     op_NewWritableFile = (\<lambda>f h. Some ((OK, Some f), h(f := []))),
     op_GetChildren = (\<lambda>f h. Some ((OK, []), h)),
     op_IsDirectory = (\<lambda>f h. Some ((OK, False), h)),
     op_CreateDir = (\<lambda>f h. Some (OK, h)),
     op_CreateDirIfMissing = (\<lambda>f h. Some (OK, h)),
     op_Read = (\<lambda>n r h. Some ((OK, [], r), h)),
     op_SetWriteLifeTimeHint = (\<lambda>x q h. Some (q, h)),
     op_Append = (\<lambda>d q h. Some ((OK, q), h(q := h q @ d))),
     op_Fsync = (\<lambda>q h. Some ((OK, q), h)),
     delete_reader = (\<lambda>r h. Some ((), h)),
     delete_writer = (\<lambda>q h. Some ((), h))\<rparr>"

interpretation memory: appending_filesystem memory_filesystem "\<lambda>q t h b. q = t \<and> h t = b" "\<lambda>t h. Some (h t)"
  by unfold_locales (simp_all add: memory_filesystem_def)

lemma memory_writes: "writes_succeed memory_filesystem"
  by (simp add: writes_succeed_def appends_succeed_def memory_filesystem_def)

definition memory_host :: "(string \<Rightarrow> byte list) hostops" where
  "memory_host = \<lparr>host_time = (\<lambda>h. (0, h)), host_uuid = (\<lambda>h. (replicate 36 65, h)),
    aux_DeleteFile = (\<lambda>_ h. (NotFound, h)), aux_FileExists = (\<lambda>_ h. (NotFound, h)),
    aux_GetChildren = (\<lambda>_ h. (NotFound, [], h)), aux_IsDirectory = (\<lambda>_ h. (NotFound, False, h)),
    aux_DeleteDir = (\<lambda>_ h. (NotFound, h)), aux_CreateDirIfMissing = (\<lambda>_ h. (OK, h)),
    aux_RenameFile = (\<lambda>_ _ h. (NotFound, h)), aux_LinkFile = (\<lambda>_ _ h. (NotFound, h)),
    aux_NumFileLinks = (\<lambda>_ h. (NotFound, 0, h)), aux_AreFilesSame = (\<lambda>_ _ h. (NotFound, False, h)),
    aux_GetFileSize = (\<lambda>_ h. (NotFound, 0, h)), aux_GetFileModificationTime = (\<lambda>_ h. (NotFound, 0, h)),
    aux_NewSequentialFile = (\<lambda>_ h. (NotFound, h)), aux_NewRandomAccessFile = (\<lambda>_ h. (NotFound, h))\<rparr>"

definition memory_sys :: "(ram zbdlib, string \<Rightarrow> byte list) sysenv" where
  "memory_sys = \<lparr>sys_coding = le_coding, sys_be = ram_backend, sys_penv = sample_env, sys_paths = util_paths,
    sys_host = memory_host, sys_malloc = (\<lambda>n. replicate n 0), sys_version = []\<rparr>"

definition memory_fs :: "(ram zbdlib, string \<Rightarrow> byte list) zenfs" where
  "memory_fs = fdev.extend (fdev.truncate sample_fs)
    \<lparr>fs_files = [(''/a.sst'', 0)], fs_next_file_id = 1, fs_meta_log = Some sample_ml, fs_superblock = None, fs_refs = (\<lambda>_. 0),
     fs_bufcount = \<lparr>max_buffer_count = 2, curr_buffer_count = 0\<rparr>, fs_run_gc_worker = False, fs_host = (\<lambda>_. [])\<rparr>"

lemmas memory_fs_eval = memory_fs_def fdev.truncate_def sample_fs_eval

theorem zenfs_tool_copy_file_complete_witness:
  "\<exists>s'. zenfs_tool_copy_file [] (ZenFS_filesystem memory_sys memory_filesystem) ''/a.sst'' (host_filesystem memory_filesystem) ''/tmp/a'' memory_fs =
    Some (OK, s') \<and> fs_host s' ''/tmp/a'' = [0, 1, 2, 3, 4, 5, 6, 7, 8, 9]"
proof -
  have p: "FormatPathLexically (sys_paths memory_sys) ''/a.sst'' = Some ''/a.sst''"
    by (simp add: memory_sys_def format_util_eq segments_def push_segment_def absolute_def)
  have g: "map_of (fs_files memory_fs) ''/a.sst'' = Some 0" by (simp add: memory_fs_eval)
  have f: "f_extents (fheap memory_fs 0) = [\<lparr>e_start = 0, e_length = 10, e_zone = 0, e_level = 0\<rparr>]" "f_file_size (fheap memory_fs 0) = 10"
    "zb_block_sz (dev memory_fs) = 64" "ram_bytes (dev memory_fs) = of_nat"
    by (simp_all add: memory_fs_eval fun_eq_iff)
  have be: "sys_be memory_sys = ram_backend" by (simp add: memory_sys_def)
  have c: "content (ram_bytes (dev memory_fs)) (f_extents (fheap memory_fs 0)) = [0, 1, 2, 3, 4, 5, 6, 7, 8, 9]"
    by (simp add: f media_slice_def upt_rec)
  have "readable ram_backend ram_bytes 16384 0 memory_fs"
    using c by (simp add: readable_def Let_def f extents_below_def)
  from zenfs_tool_copy_file_complete [OF memory.appending_filesystem_axioms, of memory_sys ram_bytes 16384, unfolded be,
      OF ram.steady_storage_axioms ram_reads_nonempty this p p g, of "[]" "''/tmp/a''"]
  show ?thesis using ram_reads_succeed memory_writes by (auto simp: c f(2))
qed

end
