(* ===== verification/Zen_Report.thy ===== *)
theory Zen_Report
  imports File_Copy
begin

text \<open>
  What the file system says about itself: the JSON of the command \<open>dump\<close>, the report of the superblock, and
  the statistics of zones that go to the log (\<open>EncodeJson\<close>, \<open>GetReport\<close>, \<open>LogZoneStats\<close>, \<open>LogGarbageInfo\<close>,
  \<open>LogDetailedZoneState\<close>, \<open>LogLevelwiseZoneStats\<close>). Of the log the numbers are modelled, not the texts.
\<close>

section \<open>JSON\<close>

definition quoted :: "string \<Rightarrow> string" where
  "quoted s = [CHR 0x22] @ s @ [CHR 0x22]"

definition key_number :: "string \<Rightarrow> 'w :: len word \<Rightarrow> string" where
  "key_number k v = quoted k @ '':'' @ decimal (unat v)"

text \<open>The elements with commas between them, as the loops with \<open>first_element\<close> write them.\<close>

definition commas :: "string list \<Rightarrow> string" where
  "commas xs = concat (map (\<lambda>(i, x). (if i = 0 then [] else '','') @ x) (enumerate 0 xs))"

text \<open>Two commas are missing.\<close>

definition Zone_EncodeJson :: "zone \<Rightarrow> string" where
  "Zone_EncodeJson z =
    ''{'' @ key_number ''start'' (z_start z) @ '','' @ key_number ''capacity'' (z_capacity z) @ '','' @
    key_number ''max_capacity'' (z_max_capacity z) @ '','' @ key_number ''wp'' (z_wp z) @ '','' @
    key_number ''lifetime'' (z_lifetime z) @ '','' @ key_number ''used_capacity'' (z_used z) @
    key_number ''reset_count'' (z_reset_count z) @ key_number ''finish_count'' (z_finish_count z) @ ''}''"

definition EncodeJsonZone :: "zptr list \<Rightarrow> ('d, 'm) zbd_scheme \<Rightarrow> string" where
  "EncodeJsonZone zones s = ''['' @ commas (map (\<lambda>p. Zone_EncodeJson (zheap s p)) zones) @ '']''"

definition Zbd_EncodeJson :: "('d, 'm) zbd_scheme \<Rightarrow> string" where
  "Zbd_EncodeJson s = ''{'' @ quoted ''meta'' @ '':'' @ EncodeJsonZone (meta_zones s) s @ '','' @ quoted ''io'' @ '':'' @
    EncodeJsonZone (io_zones s) s @ ''}''"

definition ZoneExtent_EncodeJson :: "extent \<Rightarrow> string" where
  "ZoneExtent_EncodeJson e = ''{'' @ key_number ''start'' (e_start e) @ '','' @ key_number ''length'' (e_length e) @ ''}''"

definition ZoneFile_EncodeJson :: "zonefile \<Rightarrow> string" where
  "ZoneFile_EncodeJson zf =
    ''{'' @ key_number ''id'' (f_file_id zf) @ '','' @ key_number ''size'' (f_file_size zf) @ '','' @
    key_number ''hint'' (f_lifetime zf) @ '','' @ quoted ''filename'' @ '':['' @ commas (map quoted (f_linkfiles zf)) @ ''],'' @
    quoted ''extents'' @ '':['' @ commas (map ZoneExtent_EncodeJson (f_extents zf)) @ '']}''"

definition ZenFS_EncodeJson :: "('d, 'a, 'z) zenfs_scheme \<Rightarrow> string" where
  "ZenFS_EncodeJson s = ''['' @ commas (map (\<lambda>(_, f). ZoneFile_EncodeJson (fheap s f)) (fs_files s)) @ '']''"

definition dump_text :: "('d, 'a, 'z) zenfs_scheme \<Rightarrow> string" where
  "dump_text s = ''{'' @ quoted ''zones'' @ '':'' @ Zbd_EncodeJson s @ '','' @ quoted ''files'' @ '':'' @ ZenFS_EncodeJson s @ ''}''"

lemma commas_Nil [simp]: "commas [] = []"
  by (simp add: commas_def)

lemma commas_Cons: "commas (x # xs) = x @ concat (map (\<lambda>y. '','' @ y) xs)"
proof -
  have "concat (map (\<lambda>(i, x). (if i = 0 then [] else '','') @ x) (enumerate (Suc n) xs)) = concat (map (\<lambda>y. '','' @ y) xs)" for n
    by (induction xs arbitrary: n) simp_all
  then show ?thesis by (simp add: commas_def)
qed

text \<open>The text of a zone is not JSON: a number is followed directly by the next name.\<close>

lemma Zone_EncodeJson_no_comma:
  "\<exists>before after. Zone_EncodeJson z = before @ decimal (unat (z_used z)) @ quoted ''reset_count'' @ after"
proof -
  define x where "x = ''{'' @ key_number ''start'' (z_start z) @ '','' @ key_number ''capacity'' (z_capacity z) @ '','' @
    key_number ''max_capacity'' (z_max_capacity z) @ '','' @ key_number ''wp'' (z_wp z) @ '','' @
    key_number ''lifetime'' (z_lifetime z) @ '','' @ quoted ''used_capacity'' @ '':''"
  have "Zone_EncodeJson z = x @ decimal (unat (z_used z)) @ quoted ''reset_count'' @
      ('':'' @ decimal (unat (z_reset_count z)) @ key_number ''finish_count'' (z_finish_count z) @ ''}'')"
    unfolding Zone_EncodeJson_def key_number_def x_def append_assoc by (rule refl)
  then show ?thesis by blast
qed

section \<open>The report of the superblock\<close>

text \<open>A character array up to its first zero byte.\<close>

definition c_array :: "byte list \<Rightarrow> string" where
  "c_array bs = bytes_string (takeWhile (\<lambda>b. b \<noteq> 0) bs)"

text \<open>The magic number is appended in its encoding on disk, the numbers behind it in decimal.\<close>

definition GetReport :: "'e coding_scheme \<Rightarrow> superblock \<Rightarrow> string" where
  "GetReport c sb =
    (let line = (\<lambda>label v. [CHR 0x0A] @ label @ v); tabs = (\<lambda>n. replicate n (CHR 0x09));
         version = c_array (sb_zenfs_version sb)
     in ''Magic:'' @ tabs 4 @ bytes_string (PutFixed32 c (sb_magic sb)) @
        line (''UUID:'' @ tabs 4) (c_array (sb_uuid sb)) @
        line (''Sequence Number:'' @ tabs 2) (decimal (unat (sb_sequence sb))) @
        line (''Superblock Version:'' @ tabs 2) (decimal (unat (sb_superblock_version sb))) @
        line (''Flags [Decimal]:'' @ tabs 2) (decimal (unat (sb_flags sb))) @
        line (''Block Size [Bytes]:'' @ tabs 2) (decimal (unat (sb_block_size sb))) @
        line (''Zone Size [Blocks]:'' @ tabs 2) (decimal (unat (sb_zone_size sb))) @
        line (''Number of Zones:'' @ tabs 2) (decimal (unat (sb_nr_zones sb))) @
        line (''Finish Threshold [%]:'' @ tabs 2) (decimal (unat (sb_finish_treshold sb))) @
        line (''Garbage Collection Enabled:'' @ tabs 1) (decimal (if IsGCEnabled sb then 1 else 0)) @
        line (''Auxiliary FS Path:'' @ tabs 2) (c_array (sb_aux_fs_path sb)) @
        line (''ZenFS Version:'' @ tabs 3) (if version = [] then ''Not Available'' else version))"

section \<open>Statistics of zones\<close>

text \<open>Used and reclaimable megabytes, average share that is reclaimable, zones in use.\<close>

definition LogZoneStats :: "('d, 'm) zbd_scheme \<Rightarrow> u64 \<times> u64 \<times> u64 \<times> u64 \<times> int \<times> int" where
  "LogZoneStats s =
    (let (used, reclaimable, most, active) =
       foldl (\<lambda>(used, reclaimable, most, active) p.
           let z = zheap s p
           in (used + z_used z,
               if z_used z \<noteq> 0 then reclaimable + (z_max_capacity z - z_used z) else reclaimable,
               if z_used z \<noteq> 0 then most + z_max_capacity z else most,
               if \<not> (IsFull z \<or> IsEmpty z) then active + 1 else active)) (0, 0, 0, 0) (io_zones s);
         most' = (if most = 0 then 1 else most)
     in (used div (1024 * 1024), reclaimable div (1024 * 1024), 100 * reclaimable div most', active,
         active_io_zones s, open_io_zones s))"

text \<open>\<open>used_capacity_\<close> is read as a signed number.\<close>

definition LogZoneUsage :: "('d, 'm) zbd_scheme \<Rightarrow> (u64 \<times> int) list" where
  "LogZoneUsage s = map (\<lambda>p. (z_start (zheap s p), sint (z_used (zheap s p))))
    (filter (\<lambda>p. 0 < sint (z_used (zheap s p))) (io_zones s))"

abbreviation (input) fp_0_1 :: double where "fp_0_1 \<equiv> 0x3FB999999999999A"
abbreviation (input) fp_hundred :: double where "fp_hundred \<equiv> 0x4059000000000000"
abbreviation (input) fp_10 :: double where "fp_10 \<equiv> 0x4024000000000000"

definition garbage_index :: "fpu \<Rightarrow> zone \<Rightarrow> int" where
  "garbage_index fp z =
    (let garbage = (if IsFull z then z_max_capacity z - z_used z else z_wp z - z_start z - z_used z);
         rate = fp_div fp (fp_of_u64 fp garbage) (fp_of_u64 fp (z_max_capacity z))
     in fp_to_int fp (fp_mul fp (fp_add fp rate fp_0_1) fp_10))"

text \<open>Zones that are in use at the moment are passed over; the others are held while they are looked at.\<close>

fun LogGarbageInfo_loop :: "fpu \<Rightarrow> zptr list \<Rightarrow> nat list \<Rightarrow> ('d, 'm) zbd_scheme \<Rightarrow> nat list \<times> ('d, 'm) zbd_scheme" where
  "LogGarbageInfo_loop fp [] stat s = (stat, s)"
| "LogGarbageInfo_loop fp (p # ps) stat s =
    (case Zone_Acquire p s of (got, s1) \<Rightarrow>
       if \<not> got then LogGarbageInfo_loop fp ps stat s1
       else
         let z = zheap s1 p; i = (if IsEmpty z then 0 else garbage_index fp z);
             stat' = (if 0 \<le> i \<and> i < 12 then stat[nat i := stat ! nat i + 1] else stat)
         in LogGarbageInfo_loop fp ps stat' (snd (Zone_Release p s1)))"

definition LogGarbageInfo :: "fpu \<Rightarrow> ('d, 'm) zbd_scheme \<Rightarrow> nat list \<times> ('d, 'm) zbd_scheme" where
  "LogGarbageInfo fp s = LogGarbageInfo_loop fp (io_zones s) (replicate 12 0) s"

datatype zone_state = State_undefined | State_open | State_closed | State_empty

definition zone_state_of :: "zone \<Rightarrow> zone_state" where
  "zone_state_of z =
    (if IsUsed z \<and> \<not> IsFull z then State_open
     else if z_capacity z = 0 then State_closed
     else if IsEmpty z then State_empty else State_undefined)"

text \<open>Number (as an \<open>int\<close>), saturation and live share in percent, and state of each zone.\<close>

definition LogDetailedZoneState :: "fpu \<Rightarrow> ('d, 'b) backend_scheme \<Rightarrow> ('d, 'm) zbd_scheme \<Rightarrow> (int \<times> double \<times> double \<times> zone_state) list" where
  "LogDetailedZoneState fp be s = map (\<lambda>p.
    let z = zheap s p;
        percent = (\<lambda>n. fp_div fp (fp_mul fp fp_hundred (fp_of_u64 fp n)) (fp_of_u64 fp (z_max_capacity z)))
    in (int_of_size (GetZoneNr be (dev s) z), percent (z_max_capacity z - z_capacity z), percent (z_used z), zone_state_of z)) (io_zones s)"

text \<open>
  Per level up to \<open>max_level\<close>: open zones with the percentage of their capacity that is left, and the number
  of closed zones. The percentage traps for a zone without capacity (a zone of no capacity is full, and so not open).
\<close>

definition zones_of_level :: "(zone \<Rightarrow> bool) \<Rightarrow> nat \<Rightarrow> ('d, 'm) zbd_scheme \<Rightarrow> zone list" where
  "zones_of_level q l s = filter (\<lambda>z. q z \<and> z_level z = int l) (map (zheap s) (io_zones s))"

definition LogLevelwiseZoneStats :: "('d, 'm) zbd_scheme \<Rightarrow> (u64 \<times> u64) \<times> (u64 list \<times> nat) list" where
  "LogLevelwiseZoneStats s =
    ((foldl (\<lambda>n p. n + z_used (zheap s p)) 0 (io_zones s) div (1024 * 1024),
      foldl (\<lambda>n p. n + (z_max_capacity (zheap s p) - z_capacity (zheap s p))) 0 (io_zones s) div (1024 * 1024)),
     map (\<lambda>l. (map (\<lambda>z. 100 * z_capacity z div z_max_capacity z) (zones_of_level (\<lambda>z. IsUsed z \<and> \<not> IsFull z) l s),
               length (zones_of_level (\<lambda>z. z_capacity z = 0) l s)))
       [0..<Suc (unat (max_level (params s)))])"

text \<open>Taking the statistics leaves the zones as they were, and every index stays in the array.\<close>

lemma LogGarbageInfo_loop_keeps:
  "length stat = 12 \<Longrightarrow> LogGarbageInfo_loop fp ps stat s = (stat', s') \<Longrightarrow> length stat' = 12 \<and> s' = s"
proof (induction ps arbitrary: stat s)
  case (Cons p ps)
  show ?case
  proof (cases "z_busy (zheap s p)")
    case True
    then show ?thesis using Cons by (simp add: Zone_Acquire_def)
  next
    case False
    let ?s1 = "snd (Zone_Acquire p s)"
    have "snd (Zone_Release p ?s1) = s"
      using False by (simp add: Zone_Acquire_def Zone_Release_def upd_zone_def fun_upd_idem)
    then obtain st where "LogGarbageInfo_loop fp (p # ps) stat s = LogGarbageInfo_loop fp ps st s" "length st = 12"
      using Cons.prems(1) False by (simp add: Zone_Acquire_def Let_def)
    then show ?thesis using Cons by simp
  qed
qed simp

lemma LogGarbageInfo_keeps: "snd (LogGarbageInfo fp s) = s" "length (fst (LogGarbageInfo fp s)) = 12"
  using LogGarbageInfo_loop_keeps [of "replicate 12 0" fp "io_zones s" s]
  by (cases "LogGarbageInfo fp s"; simp add: LogGarbageInfo_def)+

end
