(* ===== verification/Zen_Tool.thy ===== *)
theory Zen_Tool
  imports Zen_Report
begin

text \<open>
  The command line tool (\<open>src/util/zenfs.cc\<close>) and the ways a file system is found and opened (\<open>NewZenFS\<close>,
  \<open>AppendZenFileSystem\<close>, \<open>ListZenFileSystems\<close> and the URIs of the plugin, \<open>src/fs/fs_zenfs.cc\<close>).

  A command takes the state of the host to its exit code and the state it leaves. Opening a device moves the
  kernel's state from the host into the backend object, whose destructor gives it back. What is printed is
  a result where it is computed (\<open>list\<close>, \<open>df\<close>, \<open>ls-uuid\<close>), and left out where it is text. The
  garbage collection thread of a writable mount sleeps before it does anything and is not modelled here.
\<close>

section \<open>The surroundings of a command\<close>

datatype ZbdBackendType = kBlockDev | kZoneFS

record tool_flags =
  FLAGS_zbd :: string
  FLAGS_zonefs :: string
  FLAGS_aux_path :: string
  FLAGS_force :: bool
  FLAGS_path :: string
  FLAGS_finish_threshold :: int
  FLAGS_restore_path :: string
  FLAGS_backup_path :: string
  FLAGS_src_file :: string
  FLAGS_dest_file :: string
  FLAGS_enable_gc :: bool

definition default_flags :: tool_flags where
  "default_flags = \<lparr>FLAGS_zbd = [], FLAGS_zonefs = [], FLAGS_aux_path = [], FLAGS_force = False, FLAGS_path = [],
    FLAGS_finish_threshold = 0, FLAGS_restore_path = [], FLAGS_backup_path = [], FLAGS_src_file = [],
    FLAGS_dest_file = [], FLAGS_enable_gc = True\<rparr>"

text \<open>
  \<open>te_new_backend\<close> and \<open>te_delete_backend\<close> are constructor and destructor of the backend class for the type;
  \<open>te_leak_backend\<close> is what remains when the object is never destroyed. The rest are system calls:
  \<open>mkdir\<close> (success, or the error \<open>EEXIST\<close>, or another error), \<open>stat\<close>, \<open>readdir\<close>, \<open>access\<close>, text files, the entries of \<open>/sys/class/block\<close>
  that are links, the types and directories of the mount table.
\<close>

datatype mkdir_result = Mkdir_ok | Mkdir_exists | Mkdir_failed

record ('d, 'a, 'r, 'p) toolenv =
  te_sys :: "ZbdBackendType \<Rightarrow> ('d, 'a) sysenv"
  te_params :: zenfs_params
  te_new_backend :: "ZbdBackendType \<Rightarrow> string \<Rightarrow> 'a \<Rightarrow> 'd"
  te_delete_backend :: "ZbdBackendType \<Rightarrow> 'd \<Rightarrow> 'a \<Rightarrow> 'a"
  te_leak_backend :: "ZbdBackendType \<Rightarrow> 'd \<Rightarrow> 'a \<Rightarrow> 'a"
  te_default :: "('a, 'r, 'p) filesystem"
  te_mkdir :: "string \<Rightarrow> 'a \<Rightarrow> mkdir_result \<times> 'a"
  te_stat_isdir :: "string \<Rightarrow> 'a \<Rightarrow> bool option"
  te_readdir :: "string \<Rightarrow> 'a \<Rightarrow> string list option"
  te_access :: "string \<Rightarrow> 'a \<Rightarrow> bool"
  te_read_text :: "string \<Rightarrow> 'a \<Rightarrow> string option"
  te_write_text :: "string \<Rightarrow> string \<Rightarrow> 'a \<Rightarrow> 'a option"
  te_block_links :: "'a \<Rightarrow> string list option"
  te_mounts :: "'a \<Rightarrow> (string \<times> string) list option"

section \<open>Devices and file systems\<close>

definition open_zbd :: "('d, 'a, 'r, 'p) toolenv \<Rightarrow> ZbdBackendType \<Rightarrow> string \<Rightarrow> bool \<Rightarrow> bool \<Rightarrow> 'a \<Rightarrow> IOStatus \<times> 'd zbd" where
  "open_zbd T ty name readonly exclusive h =
    Zbd_Open (sys_be (te_sys T ty)) readonly exclusive (ZonedBlockDevice_new (te_params T) (te_new_backend T ty name h))"

definition flags_type :: "tool_flags \<Rightarrow> ZbdBackendType" where
  "flags_type F = (if FLAGS_zbd F = [] then kZoneFS else kBlockDev)"

definition zbd_open :: "('d, 'a, 'r, 'p) toolenv \<Rightarrow> tool_flags \<Rightarrow> bool \<Rightarrow> bool \<Rightarrow> 'a \<Rightarrow> 'd zbd option \<times> 'a" where
  "zbd_open T F readonly exclusive h =
    (case open_zbd T (flags_type F) (if FLAGS_zbd F = [] then FLAGS_zonefs F else FLAGS_zbd F) readonly exclusive h of
       (open_status, zbd) \<Rightarrow>
         if open_status \<noteq> OK then (None, te_delete_backend T (flags_type F) (dev zbd) h) else (Some zbd, h))"

text \<open>A new \<open>ZenFS\<close> on an opened device, and its destructor, which closes the log, drops the files and the device.\<close>

definition ZenFS_new :: "'d zbd \<Rightarrow> 'a \<Rightarrow> ('d, 'a) zenfs" where
  "ZenFS_new zbd h = fdev.extend (zbd.extend zbd \<lparr>fheap = (\<lambda>_. ZoneFile_new 0), next_fptr = 0, levelwise_file_list = []\<rparr>)
    \<lparr>fs_files = [], fs_next_file_id = 1, fs_meta_log = None, fs_superblock = None, fs_refs = (\<lambda>_. 0),
     fs_bufcount = \<lparr>max_buffer_count = INT32_MAX, curr_buffer_count = 0\<rparr>, fs_run_gc_worker = False, fs_host = h\<rparr>"

definition ZenFS_delete :: "('d, 'a, 'r, 'p) toolenv \<Rightarrow> ZbdBackendType \<Rightarrow> ('d, 'a) zenfs \<Rightarrow> 'a option" where
  "ZenFS_delete T ty s = do {
     s1 \<leftarrow> ClearFiles ((destroy_logs [fs_meta_log s] s)\<lparr>fs_run_gc_worker := False, fs_meta_log := None\<rparr>);
     Some (te_delete_backend T ty (dev s1) (fs_host s1))
   }"

text \<open>The mounted file system, or the host after a failed mount.\<close>

definition zenfs_mount :: "('d, 'a, 'r, 'p) toolenv \<Rightarrow> ZbdBackendType \<Rightarrow> 'd zbd \<Rightarrow> bool \<Rightarrow> 'a
    \<Rightarrow> (IOStatus \<times> ('a + ('d, 'a) zenfs)) option" where
  "zenfs_mount T ty zbd readonly h = do {
     (s, zenFS) \<leftarrow> Mount (te_sys T ty) readonly (ZenFS_new zbd h);
     if s \<noteq> OK then map_option (\<lambda>h1. (s, Inl h1)) (ZenFS_delete T ty zenFS) else Some (s, Inr zenFS)
   }"

text \<open>The frame of most commands: open, mount, run, destroy; \<open>bad\<close> is the result when opening or mounting fails.\<close>

definition with_zbd :: "('d, 'a, 'r, 'p) toolenv \<Rightarrow> tool_flags \<Rightarrow> bool \<Rightarrow> 'b \<Rightarrow> 'd zbd option \<times> 'a
    \<Rightarrow> (('d, 'a) sysenv \<Rightarrow> ('d, 'a) zenfs \<Rightarrow> ('b \<times> ('d, 'a) zenfs) option) \<Rightarrow> ('b \<times> 'a) option" where
  "with_zbd T F readonly bad opened body =
    (case opened of
       (None, h1) \<Rightarrow> Some (bad, h1)
     | (Some zbd, h1) \<Rightarrow> do {
         (_, r) \<leftarrow> zenfs_mount T (flags_type F) zbd readonly h1;
         (case r of
            Inl h2 \<Rightarrow> Some (bad, h2)
          | Inr s \<Rightarrow> do {
              (code, s1) \<leftarrow> body (te_sys T (flags_type F)) s;
              h3 \<leftarrow> ZenFS_delete T (flags_type F) s1;
              Some (code, h3)
            })
       })"

definition exit_code :: "(IOStatus \<times> 's) option \<Rightarrow> (int \<times> 's) option" where
  "exit_code r = map_option (\<lambda>(st, s). (if st = OK then 0 else 1, s)) r"

section \<open>Making a file system\<close>

text \<open>A path that cannot be examined counts as a directory.\<close>

definition is_dir :: "('d, 'a, 'r, 'p) toolenv \<Rightarrow> string \<Rightarrow> 'a \<Rightarrow> bool" where
  "is_dir T path h = (case te_stat_isdir T path h of None \<Rightarrow> True | Some b \<Rightarrow> b)"

text \<open>The directory counts as empty with at most two entries.\<close>

definition create_aux_dir :: "('d, 'a, 'r, 'p) toolenv \<Rightarrow> string \<Rightarrow> 'a \<Rightarrow> int \<times> 'a" where
  "create_aux_dir T path h =
    (case te_mkdir T path h of (ret, h1) \<Rightarrow>
       if ret = Mkdir_failed then (1, h1)
       else if \<not> is_dir T path h1 then (1, h1)
       else case te_readdir T path h1 of
         None \<Rightarrow> (1, h1)
       | Some entries \<Rightarrow>
           if length entries > 2 then (1, h1)
           else if \<not> te_access T path h1 then (1, h1)
           else (0, h1))"

text \<open>The second time the device is opened the result is used without looking at it.\<close>

definition mkfs_again :: "('d, 'a, 'r, 'p) toolenv \<Rightarrow> tool_flags \<Rightarrow> 'a \<Rightarrow> (int \<times> 'a) option" where
  "mkfs_again T F h =
    (case zbd_open T F False True h of
       (None, _) \<Rightarrow> None
     | (Some zbd, h1) \<Rightarrow> do {
         (code, s1) \<leftarrow> exit_code (MkFS (te_sys T (flags_type F)) (AddDirSeparatorAtEnd (FLAGS_aux_path F))
           (of_int (FLAGS_finish_threshold F)) (FLAGS_enable_gc F) (ZenFS_new zbd h1));
         h2 \<leftarrow> ZenFS_delete T (flags_type F) s1;
         Some (code, h2)
       })"

definition zenfs_tool_mkfs :: "('d, 'a, 'r, 'p) toolenv \<Rightarrow> tool_flags \<Rightarrow> 'a \<Rightarrow> (int \<times> 'a) option" where
  "zenfs_tool_mkfs T F h =
    (if FLAGS_aux_path F = [] then Some (1, h)
     else case create_aux_dir T (FLAGS_aux_path F) h of (failed, h1) \<Rightarrow>
       if failed \<noteq> 0 then Some (1, h1)
       else case zbd_open T F False True h1 of
         (None, h2) \<Rightarrow> Some (1, h2)
       | (Some zbd, h2) \<Rightarrow> do {
           (s, r) \<leftarrow> zenfs_mount T (flags_type F) zbd False h2;
           h3 \<leftarrow> (case r of Inl h3 \<Rightarrow> Some h3 | Inr zenFS \<Rightarrow> ZenFS_delete T (flags_type F) zenFS);
           if (s = OK \<or> s \<noteq> NotFound) \<and> \<not> FLAGS_force F then Some (1, h3) else mkfs_again T F h3
         })"

section \<open>Looking at a file system\<close>

text \<open>Size, modification time and name of each child, up to the first one that cannot be examined.\<close>

fun list_loop :: "('d, 'a) sysenv \<Rightarrow> string \<Rightarrow> string list \<Rightarrow> ('d, 'a) zenfs
    \<Rightarrow> ((u64 \<times> u64 \<times> string) list \<times> ('d, 'a) zenfs) option" where
  "list_loop E path [] s = Some ([], s)"
| "list_loop E path (f # fs) s = do {
     (st, size, s1) \<leftarrow> ZenFS_GetFileSize E (path @ f) s;
     if st \<noteq> OK then Some ([], s1)
     else do {
       (st, mtime, s2) \<leftarrow> GetFileModificationTime E (path @ f) s1;
       if st \<noteq> OK then Some ([], s2)
       else map_option (\<lambda>(rows, s3). ((size, mtime, f) # rows, s3)) (list_loop E path fs s2)
     }
   }"

definition list_children :: "('d, 'a) sysenv \<Rightarrow> string \<Rightarrow> ('d, 'a) zenfs
    \<Rightarrow> ((u64 \<times> u64 \<times> string) list \<times> ('d, 'a) zenfs) option" where
  "list_children E path s = do {
     (st, result, s1) \<leftarrow> GetChildrenNoLock E path s;
     if st \<noteq> OK then Some ([], s1) else list_loop E path result s1
   }"

definition zenfs_tool_list :: "('d, 'a, 'r, 'p) toolenv \<Rightarrow> tool_flags \<Rightarrow> 'a
    \<Rightarrow> ((int \<times> (u64 \<times> u64 \<times> string) list) \<times> 'a) option" where
  "zenfs_tool_list T F h = with_zbd T F True (1, []) (zbd_open T F True False h)
    (\<lambda>E s. map_option (\<lambda>(rows, s1). ((0, rows), s1)) (list_children E (AddDirSeparatorAtEnd (FLAGS_path F)) s))"

text \<open>Free, used and reclaimable megabytes and the space amplification in percent, all in \<open>uint64_t\<close>.\<close>

definition df_report :: "('d, 'm) zbd_scheme \<Rightarrow> u64 \<times> u64 \<times> u64 \<times> u64" where
  "df_report s =
    (let used = (if GetUsedSpace s = 0 then 1 else GetUsedSpace s); free = GetFreeSpace s; reclaimable = GetReclaimableSpace s
     in (free div (1024 * 1024), used div (1024 * 1024), reclaimable div (1024 * 1024), (100 * reclaimable) div used))"

definition zenfs_tool_df :: "('d, 'a, 'r, 'p) toolenv \<Rightarrow> tool_flags \<Rightarrow> 'a
    \<Rightarrow> ((int \<times> (u64 \<times> u64 \<times> u64 \<times> u64) option) \<times> 'a) option" where
  "zenfs_tool_df T F h = with_zbd T F True (1, None) (zbd_open T F True False h) (\<lambda>E s. Some ((0, Some (df_report s)), s))"

section \<open>Backup and restore\<close>

definition hints_file :: "tool_flags \<Rightarrow> string" where
  "hints_file F = FLAGS_path F @ ''/write_lifetime_hints.dat''"

definition SaveWriteLifeTimeHints :: "('d, 'a, 'r, 'p) toolenv \<Rightarrow> tool_flags \<Rightarrow> hints \<Rightarrow> ('d, 'a) zenfs \<Rightarrow> int \<times> ('d, 'a) zenfs" where
  "SaveWriteLifeTimeHints T F m s =
    (case te_write_text T (hints_file F) (hints_text m) (fs_host s) of
       None \<Rightarrow> (1, s)
     | Some h \<Rightarrow> (0, s\<lparr>fs_host := h\<rparr>))"

text \<open>The part of a path behind its last separator.\<close>

definition base_name :: "string \<Rightarrow> string" where
  "base_name path = rev (takeWhile (\<lambda>c. c \<noteq> CHR ''/'') (rev path))"

definition backup_copy :: "('d, 'a, 'r, 'p) toolenv \<Rightarrow> tool_flags \<Rightarrow> ('d, 'a) sysenv \<Rightarrow> bool \<Rightarrow> ('d, 'a) zenfs
    \<Rightarrow> (IOStatus \<times> ('d, 'a) zenfs) option" where
  "backup_copy T F E dir s =
    (let zen = ZenFS_filesystem E (te_default T); host = host_filesystem (te_default T); path = FLAGS_backup_path F
     in if \<not> dir then zenfs_tool_copy_file [] zen path host (FLAGS_path F @ ''/'' @ base_name path) s
        else do {
          (st, s1) \<leftarrow> zenfs_create_directories host (FLAGS_path F) s;
          if st \<noteq> OK then Some (st, s1)
          else zenfs_tool_copy_dir [] zen (if path \<noteq> [] then AddDirSeparatorAtEnd path else path) host (FLAGS_path F) s1
        })"

definition backup_body :: "('d, 'a, 'r, 'p) toolenv \<Rightarrow> tool_flags \<Rightarrow> ('d, 'a) sysenv \<Rightarrow> ('d, 'a) zenfs
    \<Rightarrow> (int \<times> ('d, 'a) zenfs) option" where
  "backup_body T F E s = do {
     (st, dir, s1) \<leftarrow> IsDirectoryNoLock E (FLAGS_backup_path F) s;
     if st \<noteq> OK then Some (1, s1)
     else do {
       (st, s2) \<leftarrow> backup_copy T F E dir s1;
       if st \<noteq> OK then Some (1, s2) else Some (SaveWriteLifeTimeHints T F (GetWriteLifeTimeHints s2) s2)
     }
   }"

definition zenfs_tool_backup :: "('d, 'a, 'r, 'p) toolenv \<Rightarrow> tool_flags \<Rightarrow> 'a \<Rightarrow> (int \<times> 'a) option" where
  "zenfs_tool_backup T F h =
    (let opened = (case zbd_open T F True True h of
                     (None, h1) \<Rightarrow> if FLAGS_force F then zbd_open T F True False h1 else (None, h1)
                   | r \<Rightarrow> r)
     in with_zbd T F True 1 opened (backup_body T F))"

text \<open>\<open>path\<close> is the lexically normal path; the hints are read for a directory only.\<close>

definition restore_body :: "('d, 'a, 'r, 'p) toolenv \<Rightarrow> tool_flags \<Rightarrow> string \<Rightarrow> bool \<Rightarrow> ('d, 'a) sysenv \<Rightarrow> ('d, 'a) zenfs
    \<Rightarrow> (int \<times> ('d, 'a) zenfs) option" where
  "restore_body T F path dir E s =
    (let zen = ZenFS_filesystem E (te_default T); host = host_filesystem (te_default T);
         restore_path = AddDirSeparatorAtEnd (FLAGS_restore_path F)
     in do {
       (st, s1) \<leftarrow> zenfs_create_directories zen restore_path s;
       if st \<noteq> OK then Some (1, s1)
       else exit_code
         (if \<not> dir then zenfs_tool_copy_file [] host path zen (restore_path @ base_name path) s1
          else
            let from = AddDirSeparatorAtEnd path;
                m = ReadWriteLifeTimeHints (te_read_text T (from @ ''/write_lifetime_hints.dat'') (fs_host s1)) []
            in zenfs_tool_copy_dir m host from zen restore_path s1)
     })"

definition zenfs_tool_restore :: "('d, 'a, 'r, 'p) toolenv \<Rightarrow> tool_flags \<Rightarrow> 'a \<Rightarrow> (int \<times> 'a) option" where
  "zenfs_tool_restore T F h =
    (if FLAGS_path F = [] then Some (1, h)
     else do {
       path \<leftarrow> lexically_normal (sys_paths (te_sys T (flags_type F))) (FLAGS_path F);
       ((st, dir), h1) \<leftarrow> op_IsDirectory (te_default T) path h;
       if st \<noteq> OK then Some (1, h1)
       else with_zbd T F False 1 (zbd_open T F False True h1) (restore_body T F path dir)
     })"

section \<open>Changing names\<close>

definition zenfs_tool_link :: "('d, 'a, 'r, 'p) toolenv \<Rightarrow> tool_flags \<Rightarrow> 'a \<Rightarrow> (int \<times> 'a) option" where
  "zenfs_tool_link T F h =
    (if FLAGS_src_file F = [] \<or> FLAGS_dest_file F = [] then Some (1, h)
     else with_zbd T F False 1 (zbd_open T F False True h)
       (\<lambda>E s. exit_code (LinkFile E (FLAGS_src_file F) (FLAGS_dest_file F) s)))"

definition zenfs_tool_delete_file :: "('d, 'a, 'r, 'p) toolenv \<Rightarrow> tool_flags \<Rightarrow> 'a \<Rightarrow> (int \<times> 'a) option" where
  "zenfs_tool_delete_file T F h =
    (if FLAGS_path F = [] then Some (1, h)
     else with_zbd T F False 1 (zbd_open T F False True h) (\<lambda>E s. exit_code (DeleteFile E (FLAGS_path F) s)))"

text \<open>\<open>n\<close> bounds the depth of directories, see \<open>RenameFileNoLock\<close>.\<close>

definition zenfs_tool_rename_file :: "nat \<Rightarrow> ('d, 'a, 'r, 'p) toolenv \<Rightarrow> tool_flags \<Rightarrow> 'a \<Rightarrow> (int \<times> 'a) option" where
  "zenfs_tool_rename_file n T F h =
    (if FLAGS_src_file F = [] \<or> FLAGS_dest_file F = [] then Some (1, h)
     else with_zbd T F False 1 (zbd_open T F False True h)
       (\<lambda>E s. exit_code (RenameFile E n (FLAGS_src_file F) (FLAGS_dest_file F) s)))"

definition zenfs_tool_remove_directory :: "nat \<Rightarrow> ('d, 'a, 'r, 'p) toolenv \<Rightarrow> tool_flags \<Rightarrow> 'a \<Rightarrow> (int \<times> 'a) option" where
  "zenfs_tool_remove_directory n T F h =
    (if FLAGS_path F = [] then Some (1, h)
     else with_zbd T F False 1 (zbd_open T F False True h)
       (\<lambda>E s. exit_code (if FLAGS_force F then DeleteDirRecursive E n (FLAGS_path F) s else DeleteDir E (FLAGS_path F) s)))"

section \<open>Reports\<close>

definition zenfs_tool_dump :: "('d, 'a, 'r, 'p) toolenv \<Rightarrow> tool_flags \<Rightarrow> 'a \<Rightarrow> ((int \<times> string) \<times> 'a) option" where
  "zenfs_tool_dump T F h = with_zbd T F True (1, []) (zbd_open T F True False h) (\<lambda>E s. Some ((0, dump_text s), s))"

text \<open>A mounted file system has a superblock.\<close>

definition zenfs_tool_fsinfo :: "('d, 'a, 'r, 'p) toolenv \<Rightarrow> tool_flags \<Rightarrow> 'a \<Rightarrow> ((int \<times> string) \<times> 'a) option" where
  "zenfs_tool_fsinfo T F h = with_zbd T F True (1, []) (zbd_open T F True False h)
    (\<lambda>E s. map_option (\<lambda>sb. ((0, GetReport (sys_coding E) sb), s)) (fs_superblock s))"

section \<open>Finding file systems\<close>

type_synonym fs_map = "(string \<times> string \<times> ZbdBackendType) list"

text \<open>\<open>m[k] = v\<close> of a \<open>std::map\<close>.\<close>

definition map_put :: "string \<Rightarrow> 'v \<Rightarrow> (string \<times> 'v) list \<Rightarrow> (string \<times> 'v) list" where
  "map_put k v m = map_insert k v (map_erase k m)"

text \<open>A file system already found on a mapped device keeps its entry.\<close>

definition note_uuid :: "string \<Rightarrow> ZbdBackendType \<Rightarrow> string \<Rightarrow> fs_map \<Rightarrow> fs_map" where
  "note_uuid path backend uuid m =
    (case map_of m uuid of
       Some (p, _) \<Rightarrow> if take 3 p = ''dm-'' then m else map_put uuid (path, backend) m
     | None \<Rightarrow> map_put uuid (path, backend) m)"

text \<open>The first metadata zone with a valid superblock decides.\<close>

fun append_scan :: "('d, 'a) sysenv \<Rightarrow> string \<Rightarrow> ZbdBackendType \<Rightarrow> zptr list \<Rightarrow> fs_map \<Rightarrow> 'd zbd
    \<Rightarrow> (IOStatus \<times> fs_map \<times> 'd zbd) option" where
  "append_scan E path backend [] m s = Some (OK, m, s)"
| "append_scan E path backend (z # zs) m s =
    (case Zone_Acquire z s of (got, s1) \<Rightarrow>
       if \<not> got then Some (Aborted, m, s1)
       else do {
         (st, super_record, log, s2) \<leftarrow> ReadRecord (sys_coding E) (sys_be E) (ZenMetaLog_new (sys_be E) z s1) s1;
         let s3 = ZenMetaLog_destroy log s2;
         if st \<noteq> OK then append_scan E path backend zs m s3
         else case Superblock_DecodeFrom (sys_coding E) super_record Superblock_default of (st, sb) \<Rightarrow>
           if st = OK then Some (OK, note_uuid path backend (c_array (sb_uuid sb)) m, s3)
           else append_scan E path backend zs m s3
       })"

text \<open>A device that cannot be opened is passed over.\<close>

definition AppendZenFileSystem :: "('d, 'a, 'r, 'p) toolenv \<Rightarrow> string \<Rightarrow> ZbdBackendType \<Rightarrow> fs_map \<Rightarrow> 'a
    \<Rightarrow> (IOStatus \<times> fs_map \<times> 'a) option" where
  "AppendZenFileSystem T path backend m h =
    (case open_zbd T backend path True False h of (zbd_status, zbd) \<Rightarrow>
       if zbd_status \<noteq> OK then Some (OK, m, te_delete_backend T backend (dev zbd) h)
       else do {
         (st, m1, zbd1) \<leftarrow> append_scan (te_sys T backend) path backend (meta_zones zbd) m zbd;
         Some (st, m1, te_delete_backend T backend (dev zbd1) h)
       })"

fun append_all :: "('d, 'a, 'r, 'p) toolenv \<Rightarrow> ZbdBackendType \<Rightarrow> string list \<Rightarrow> fs_map \<Rightarrow> 'a
    \<Rightarrow> (IOStatus \<times> fs_map \<times> 'a) option" where
  "append_all T backend [] m h = Some (OK, m, h)"
| "append_all T backend (path # paths) m h = do {
     (st, m1, h1) \<leftarrow> AppendZenFileSystem T path backend m h;
     if st \<noteq> OK then Some (st, m1, h1) else append_all T backend paths m1 h1
   }"

text \<open>The list stays empty on an error. \<open>None\<close> if the directory of block devices cannot be opened.\<close>

definition ListZenFileSystems :: "('d, 'a, 'r, 'p) toolenv \<Rightarrow> 'a \<Rightarrow> (IOStatus \<times> fs_map \<times> 'a) option" where
  "ListZenFileSystems T h = do {
     links \<leftarrow> te_block_links T h;
     (st, m, h1) \<leftarrow> append_all T kBlockDev links [] h;
     if st \<noteq> OK then Some (st, [], h1)
     else do {
       let mounts = (case te_mounts T h1 of None \<Rightarrow> [] | Some ms \<Rightarrow> map snd (filter (\<lambda>(ty, _). ty = ''zonefs'') ms));
       (st, m1, h2) \<leftarrow> append_all T kZoneFS mounts m h1;
       Some (st, if st \<noteq> OK then [] else m1, h2)
     }
   }"

definition zenfs_tool_lsuuid :: "('d, 'a, 'r, 'p) toolenv \<Rightarrow> 'a \<Rightarrow> ((int \<times> (string \<times> string) list) \<times> 'a) option" where
  "zenfs_tool_lsuuid T h = do {
     (st, m, h1) \<leftarrow> ListZenFileSystems T h;
     Some (if st \<noteq> OK then (1, []) else (0, map (\<lambda>(uuid, path, _). (uuid, path)) m), h1)
   }"

section \<open>Opening by URI\<close>

text \<open>The device object is not destroyed when opening it fails.\<close>

definition NewZenFS :: "('d, 'a, 'r, 'p) toolenv \<Rightarrow> ZbdBackendType \<Rightarrow> string \<Rightarrow> 'a
    \<Rightarrow> (IOStatus \<times> ('a + ('d, 'a) zenfs)) option" where
  "NewZenFS T backend_type backend_name h =
    (case open_zbd T backend_type backend_name False True h of (zbd_status, zbd) \<Rightarrow>
       if zbd_status \<noteq> OK then Some (IOError, Inl (te_leak_backend T backend_type (dev zbd) h))
       else zenfs_mount T backend_type zbd False h)"

text \<open>\<open>s.rfind(pat) == 0\<close>: the last occurrence of the pattern is at the start.\<close>

definition rfind_0 :: "string \<Rightarrow> string \<Rightarrow> bool" where
  "rfind_0 pat s \<longleftrightarrow> take (length pat) s = pat \<and> \<not> str_contains pat (drop 1 s)"

definition open_uri :: "('d, 'a, 'r, 'p) toolenv \<Rightarrow> string \<Rightarrow> 'a \<Rightarrow> (('a + ('d, 'a) zenfs)) option" where
  "open_uri T uri h =
    (let devID = drop (length ''zenfs://'') uri
     in if rfind_0 ''dev:'' devID then map_option snd (NewZenFS T kBlockDev (drop 4 devID) h)
        else if rfind_0 ''uuid:'' devID then do {
          (st, m, h1) \<leftarrow> ListZenFileSystems T h;
          if st \<noteq> OK then Some (Inl h1)
          else case map_of m (drop 5 devID) of
            None \<Rightarrow> Some (Inl h1)
          | Some (path, backend) \<Rightarrow> map_option snd (NewZenFS T backend path h1)
        }
        else if rfind_0 ''zonefs:'' devID then map_option snd (NewZenFS T kZoneFS (drop 7 devID) h)
        else Some (Inl h))"

section \<open>The program\<close>

text \<open>The exit code of \<open>main\<close> with subcommand \<open>subcmd\<close> (\<open>None\<close>: no argument) and the parsed flags.\<close>

definition zenfs_main :: "nat \<Rightarrow> ('d, 'a, 'r, 'p) toolenv \<Rightarrow> string option \<Rightarrow> tool_flags \<Rightarrow> 'a \<Rightarrow> (int \<times> 'a) option" where
  "zenfs_main n T subcmd F h =
    (case subcmd of
       None \<Rightarrow> Some (1, h)
     | Some c \<Rightarrow>
         if FLAGS_zonefs F = [] \<and> FLAGS_zbd F = [] \<and> c \<noteq> ''ls-uuid'' then Some (1, h)
            else if FLAGS_zonefs F \<noteq> [] \<and> FLAGS_zbd F \<noteq> [] then Some (1, h)
            else if c = ''mkfs'' then zenfs_tool_mkfs T F h
            else if c = ''list'' then map_option (\<lambda>((x, _), h1). (x, h1)) (zenfs_tool_list T F h)
            else if c = ''ls-uuid'' then map_option (\<lambda>((x, _), h1). (x, h1)) (zenfs_tool_lsuuid T h)
            else if c = ''df'' then map_option (\<lambda>((x, _), h1). (x, h1)) (zenfs_tool_df T F h)
            else if c = ''backup'' then zenfs_tool_backup T F h
            else if c = ''restore'' then zenfs_tool_restore T F h
            else if c = ''dump'' then map_option (\<lambda>((x, _), h1). (x, h1)) (zenfs_tool_dump T F h)
            else if c = ''fs-info'' then map_option (\<lambda>((x, _), h1). (x, h1)) (zenfs_tool_fsinfo T F h)
            else if c = ''link'' then zenfs_tool_link T F h
            else if c = ''delete'' then zenfs_tool_delete_file T F h
            else if c = ''rename'' then zenfs_tool_rename_file n T F h
            else if c = ''rmdir'' then zenfs_tool_remove_directory n T F h
            else Some (1, h))"

section \<open>Guards\<close>

text \<open>Without \<open>--force\<close> a device on which a file system is found, or which cannot be examined, is not formatted.\<close>

lemma zenfs_tool_mkfs_refuses:
  assumes "\<not> FLAGS_force F" "FLAGS_aux_path F \<noteq> []" "create_aux_dir T (FLAGS_aux_path F) h = (0, h1)"
    and "zbd_open T F False True h1 = (Some zbd, h2)" "zenfs_mount T (flags_type F) zbd False h2 = Some (st, r)" "st \<noteq> NotFound"
  shows "zenfs_tool_mkfs T F h = map_option (\<lambda>h3. (1, h3)) (case r of Inl h3 \<Rightarrow> Some h3 | Inr s \<Rightarrow> ZenFS_delete T (flags_type F) s)"
  using assms
  by (cases "case r of Inl h3 \<Rightarrow> Some h3 | Inr s \<Rightarrow> ZenFS_delete T (flags_type F) s") (auto simp: zenfs_tool_mkfs_def)

text \<open>Only a successful mount gives a file system; every other status leaves the host alone with the device closed.\<close>

lemma zenfs_mount_result:
  assumes "zenfs_mount T ty zbd readonly h = Some (st, r)"
  shows "st = OK \<longleftrightarrow> (\<exists>s. r = Inr s)"
  using assms by (auto simp: zenfs_mount_def bind_eq_Some_conv split: if_splits)

text \<open>Exactly one of \<open>--zbd\<close> and \<open>--zonefs\<close> is needed, else nothing is touched.\<close>

lemma zenfs_main_needs_device:
  assumes "(FLAGS_zbd F = []) = (FLAGS_zonefs F = [])" "c \<noteq> ''ls-uuid''"
  shows "zenfs_main n T (Some c) F h = Some (1, h)"
  using assms by (auto simp: zenfs_main_def)

text \<open>The scheme of a URI decides the backend.\<close>

lemma open_uri_zonefs:
  assumes "\<not> str_contains ''zonefs:'' (drop 1 (''zonefs:'' @ path))"
  shows "open_uri T (''zenfs://zonefs:'' @ path) h = map_option snd (NewZenFS T kZoneFS path h)"
  using assms by (simp add: open_uri_def rfind_0_def)

section \<open>The bound on the depth of directories\<close>

text \<open>
  \<open>keeps_result x y\<close>: if \<open>x\<close> is a result, \<open>y\<close> is the same. A larger bound gives more results and no other ones.
\<close>

definition keeps_result :: "'a option \<Rightarrow> 'a option \<Rightarrow> bool" where
  "keeps_result x y \<longleftrightarrow> x = None \<or> y = x"

named_theorems more_intros

lemma more_None [simp]: "keeps_result None x"
  by (simp add: keeps_result_def)

lemma more_refl [simp, more_intros]: "keeps_result x x"
  by (simp add: keeps_result_def)

lemma more_bind [more_intros]: "keeps_result x y \<Longrightarrow> (\<And>a. keeps_result (f a) (g a)) \<Longrightarrow> keeps_result (Option.bind x f) (Option.bind y g)"
  by (cases x) (simp_all add: keeps_result_def)

lemma more_if [more_intros]: "keeps_result x y \<Longrightarrow> keeps_result x' y' \<Longrightarrow> keeps_result (if b then x else x') (if b then y else y')"
  by simp

lemma more_prod [more_intros]: "(\<And>a b. keeps_result (f a b) (g a b)) \<Longrightarrow> keeps_result (case p of (a, b) \<Rightarrow> f a b) (case p of (a, b) \<Rightarrow> g a b)"
  by (simp split: prod.split)

lemma more_case [more_intros]:
  "keeps_result x y \<Longrightarrow> (\<And>a. keeps_result (f a) (g a)) \<Longrightarrow> keeps_result (case p of None \<Rightarrow> x | Some a \<Rightarrow> f a) (case p of None \<Rightarrow> y | Some a \<Rightarrow> g a)"
  by (simp split: option.split)

lemma more_sum [more_intros]:
  "(\<And>a. keeps_result (f a) (g a)) \<Longrightarrow> (\<And>a. keeps_result (f' a) (g' a)) \<Longrightarrow> keeps_result (case p of Inl a \<Rightarrow> f a | Inr b \<Rightarrow> f' b) (case p of Inl a \<Rightarrow> g a | Inr b \<Rightarrow> g' b)"
  by (simp split: sum.split)

lemma more_map [more_intros]: "keeps_result x y \<Longrightarrow> keeps_result (map_option f x) (map_option f y)"
  by (auto simp: keeps_result_def)

lemma delete_children_more [more_intros]:
  "(\<And>d s. keeps_result (del d s) (del' d s)) \<Longrightarrow> keeps_result (delete_children E del d cs s) (delete_children E del' d cs s)"
proof (induction cs arbitrary: s)
  case (Cons c cs)
  show ?case unfolding delete_children.simps by (intro more_intros Cons)
qed simp

lemma DeleteDirRecursiveNoLock_more [more_intros]:
  "n \<le> m \<Longrightarrow> keeps_result (DeleteDirRecursiveNoLock E n dir s) (DeleteDirRecursiveNoLock E m dir s)"
proof (induction n arbitrary: m dir s)
  case (Suc n)
  then obtain k where k: "m = Suc k" "n \<le> k" by (cases m) auto
  show ?case unfolding k(1) DeleteDirRecursiveNoLock.simps by (intro more_intros Suc.IH k(2))
qed simp

lemma RenameChild_more [more_intros]:
  "(\<And>a b s. keeps_result (ren a b s) (ren' a b s)) \<Longrightarrow> keeps_result (RenameChildNoLock E ren a b c s) (RenameChildNoLock E ren' a b c s)"
  unfolding RenameChildNoLock_def by (intro more_intros)

lemma Rollback_children_more [more_intros]:
  "(\<And>a b s. keeps_result (ren a b s) (ren' a b s)) \<Longrightarrow> keeps_result (Rollback_children E ren a b cs s) (Rollback_children E ren' a b cs s)"
proof (induction cs arbitrary: s)
  case (Cons c cs)
  show ?case unfolding Rollback_children.simps by (intro more_intros Cons)
qed simp

lemma RollbackAuxDirRename_more [more_intros]:
  "(\<And>a b s. keeps_result (ren a b s) (ren' a b s)) \<Longrightarrow>
    keeps_result (RollbackAuxDirRenameNoLock E ren a b cs s) (RollbackAuxDirRenameNoLock E ren' a b cs s)"
  unfolding RollbackAuxDirRenameNoLock_def by (intro more_intros)

lemma rename_children_more [more_intros]:
  "(\<And>a b s. keeps_result (ren a b s) (ren' a b s)) \<Longrightarrow> keeps_result (rename_children E ren a b cs rs s) (rename_children E ren' a b cs rs s)"
proof (induction cs arbitrary: rs s)
  case (Cons c cs)
  show ?case unfolding rename_children.simps by (intro more_intros Cons)
qed simp

lemma RenameAuxPath_more [more_intros]:
  "(\<And>a b s. keeps_result (ren a b s) (ren' a b s)) \<Longrightarrow> keeps_result (RenameAuxPathNoLock E ren a b s) (RenameAuxPathNoLock E ren' a b s)"
  unfolding RenameAuxPathNoLock_def Let_def by (intro more_intros)

lemma RenameFileNoLock_more [more_intros]:
  "n \<le> m \<Longrightarrow> keeps_result (RenameFileNoLock E n a b s) (RenameFileNoLock E m a b s)"
proof (induction n arbitrary: m a b s)
  case (Suc n)
  then obtain k where k: "m = Suc k" "n \<le> k" by (cases m) auto
  show ?case unfolding k(1) RenameFileNoLock.simps by (intro more_intros Suc.IH k(2))
qed simp

lemma with_zbd_more [more_intros]:
  "(\<And>E s. keeps_result (body E s) (body' E s)) \<Longrightarrow> keeps_result (with_zbd T F ro bad opened body) (with_zbd T F ro bad opened body')"
  unfolding with_zbd_def by (intro more_intros)

text \<open>So the exit code of the program and the state it leaves do not depend on the bound either.\<close>

lemma zenfs_main_more: "n \<le> m \<Longrightarrow> keeps_result (zenfs_main n T subcmd F h) (zenfs_main m T subcmd F h)"
  unfolding zenfs_main_def zenfs_tool_rename_file_def zenfs_tool_remove_directory_def exit_code_def RenameFile_def DeleteDirRecursive_def
  by (intro more_intros)

end
