(* ===== verification/File_Locks.thy ===== *)
theory File_Locks
  imports Zenfs_Prelude
begin

text \<open>
  The classes \<open>ReadLock\<close> and \<open>WriteLock\<close> of a \<open>ZoneFile\<close> (\<open>zbd_zenfs.h\<close>): readers of the extent list count
  themselves in \<open>readers_\<close> under \<open>writer_mtx_\<close>, the writer that replaces the list (\<open>ReplaceExtentList\<close>, used by
  garbage collection) keeps the mutex and waits until the counter is 0. The threads interleave; an atomic
  step is one operation on the mutex or on the atomic counter. Shown: a writer is alone, and a writer that
  holds the mutex gets in although readers come all the time.
\<close>

section \<open>The locks of one file\<close>

text \<open>
  Where a thread stands: outside both locks, before one of the operations of a constructor, or behind the
  constructor of \<open>ReadLock\<close> (\<open>Reading\<close>) or \<open>WriteLock\<close> (\<open>Writing\<close>), whose destructor is its next operation.
\<close>

datatype lock_pc = Outside | Read_Lock | Read_Count | Read_Unlock | Reading | Write_Lock | Write_Wait | Writing

text \<open>\<open>std::mutex writer_mtx_\<close> by its owner and \<open>std::atomic<int> readers_\<close>, which wraps around at 32 bits.\<close>

record file_locks =
  writer_mtx :: "nat option"
  readers :: "32 word"
  pc :: "nat \<Rightarrow> lock_pc"

definition set_pc :: "nat \<Rightarrow> lock_pc \<Rightarrow> file_locks \<Rightarrow> file_locks" where
  "set_pc t p s = s\<lparr>pc := (pc s)(t := p)\<rparr>"

definition file_unlocked :: file_locks where
  "file_unlocked = \<lparr>writer_mtx = None, readers = 0, pc = (\<lambda>_. Outside)\<rparr>"

text \<open>The next operation of thread \<open>t\<close>; \<open>None\<close> when it is blocked in \<open>lock\<close> or has no such operation.\<close>

definition ReadLock_step :: "nat \<Rightarrow> file_locks \<Rightarrow> file_locks option" where
  "ReadLock_step t s = (case pc s t of
     Read_Lock \<Rightarrow> if writer_mtx s = None then Some (set_pc t Read_Count (s\<lparr>writer_mtx := Some t\<rparr>)) else None
   | Read_Count \<Rightarrow> Some (set_pc t Read_Unlock (s\<lparr>readers := readers s + 1\<rparr>))
   | Read_Unlock \<Rightarrow> Some (set_pc t Reading (s\<lparr>writer_mtx := None\<rparr>))
   | Reading \<Rightarrow> Some (set_pc t Outside (s\<lparr>readers := readers s - 1\<rparr>))
   | _ \<Rightarrow> None)"

definition WriteLock_step :: "nat \<Rightarrow> file_locks \<Rightarrow> file_locks option" where
  "WriteLock_step t s = (case pc s t of
     Write_Lock \<Rightarrow> if writer_mtx s = None then Some (set_pc t Write_Wait (s\<lparr>writer_mtx := Some t\<rparr>)) else None
   | Write_Wait \<Rightarrow> if 0 < sint (readers s) then Some s else Some (set_pc t Writing s)
   | Writing \<Rightarrow> Some (set_pc t Outside (s\<lparr>writer_mtx := None\<rparr>))
   | _ \<Rightarrow> None)"

text \<open>
  A step of one thread: it asks for a lock, does the next operation of the lock, or does something else
  while it is outside or inside.
\<close>

inductive lock_step :: "nat \<Rightarrow> file_locks \<Rightarrow> file_locks \<Rightarrow> bool" where
  ask_read: "pc s t = Outside \<Longrightarrow> lock_step t s (set_pc t Read_Lock s)"
| ask_write: "pc s t = Outside \<Longrightarrow> lock_step t s (set_pc t Write_Lock s)"
| read_op: "ReadLock_step t s = Some s' \<Longrightarrow> lock_step t s s'"
| write_op: "WriteLock_step t s = Some s' \<Longrightarrow> lock_step t s s'"
| work: "pc s t \<in> {Outside, Reading, Writing} \<Longrightarrow> lock_step t s s"

lemma pc_set_pc [simp]: "pc (set_pc t p s) = (pc s)(t := p)" "writer_mtx (set_pc t p s) = writer_mtx s" "readers (set_pc t p s) = readers s"
  by (simp_all add: set_pc_def)

inductive_simps lock_step_iff: "lock_step t s s'"

section \<open>A writer is alone\<close>

definition counted :: "file_locks \<Rightarrow> nat set" where
  "counted s = {t. pc s t \<in> {Read_Unlock, Reading}}"

text \<open>The threads \<open>T\<close> use the file; the owner of the mutex and the counter say where they stand.\<close>

definition lock_ok :: "nat set \<Rightarrow> file_locks \<Rightarrow> bool" where
  "lock_ok T s \<longleftrightarrow> counted s \<subseteq> T \<and> readers s = of_nat (card (counted s)) \<and>
    (\<forall>t. writer_mtx s = Some t \<longleftrightarrow> pc s t \<in> {Read_Count, Read_Unlock, Write_Wait, Writing}) \<and>
    (\<forall>t. pc s t = Writing \<longrightarrow> counted s = {})"

lemma lock_ok_unlocked: "lock_ok T file_unlocked"
  by (simp add: lock_ok_def file_unlocked_def counted_def)

lemma counted_fields [simp]: "counted (s\<lparr>writer_mtx := m\<rparr>) = counted s" "counted (s\<lparr>readers := n\<rparr>) = counted s"
  by (simp_all add: counted_def)

lemma counted_set [simp]: "counted (set_pc t p s) = (if p \<in> {Read_Unlock, Reading} then insert t (counted s) else counted s - {t})"
  by (auto simp: counted_def)

lemma in_counted: "t \<in> counted s \<longleftrightarrow> pc s t \<in> {Read_Unlock, Reading}"
  by (simp add: counted_def)

text \<open>The counter does not overflow when there are fewer than \<open>2 ^ 31\<close> threads.\<close>

lemma sint_of_nat_small: "n < 2 ^ 31 \<Longrightarrow> sint (of_nat n :: 32 word) = int n"
  by (simp add: signed_of_nat signed_take_bit_int_eq_self)

lemma readers_pos:
  assumes "lock_ok T s" "finite T" "card T < 2 ^ 31"
  shows "0 < sint (readers s) \<longleftrightarrow> counted s \<noteq> {}"
proof -
  have sub: "counted s \<subseteq> T" using assms(1) by (simp add: lock_ok_def)
  then have "card (counted s) < 2 ^ 31" using card_mono [OF assms(2) sub] assms(3) by simp
  then show ?thesis
    using assms(1,2) finite_subset [OF sub assms(2)] by (simp add: lock_ok_def sint_of_nat_small card_gt_0_iff)
qed

lemma one_owner:
  assumes "lock_ok T s" "pc s t \<in> {Read_Count, Read_Unlock, Write_Wait, Writing}" "pc s u \<in> {Read_Count, Read_Unlock, Write_Wait, Writing}"
  shows "u = t"
  using assms unfolding lock_ok_def by (metis option.inject)

lemma ReadLock_step_ok:
  assumes "ReadLock_step t s = Some s'" "lock_ok T s" "finite T" "t \<in> T"
  shows "lock_ok T s'"
proof -
  have fin: "finite (counted s)" using assms(2,3) by (auto simp: lock_ok_def intro: finite_subset)
  have "card (counted s) \<noteq> 0" if "pc s t = Reading" using fin that by (auto simp: in_counted)
  then have "of_nat (card (counted s) - 1) = (of_nat (card (counted s)) :: 32 word) - 1" if "pc s t = Reading"
    using that by (cases "card (counted s)") auto
  then show ?thesis
    using assms fin one_owner [OF assms(2), of t]
    by (auto simp: ReadLock_step_def lock_ok_def in_counted card_insert_if insert_absorb split: lock_pc.splits if_splits)
qed

lemma WriteLock_step_ok:
  assumes "WriteLock_step t s = Some s'" "lock_ok T s" "finite T" "card T < 2 ^ 31"
  shows "lock_ok T s'"
  using assms readers_pos [OF assms(2-4)] one_owner [OF assms(2), of t]
  by (auto simp: WriteLock_step_def lock_ok_def in_counted split: lock_pc.splits if_splits)

lemma lock_step_ok:
  assumes "lock_step t s s'" "lock_ok T s" "finite T" "card T < 2 ^ 31" "t \<in> T"
  shows "lock_ok T s'"
  using assms(1)
proof cases
  case read_op
  then show ?thesis using ReadLock_step_ok assms by blast
next
  case write_op
  then show ?thesis using WriteLock_step_ok assms by blast
qed (use assms(2) in \<open>auto simp: lock_ok_def in_counted\<close>)

text \<open>The owner of the mutex is never blocked, and nobody is blocked while the mutex is free.\<close>

lemma not_stuck:
  assumes "lock_ok T s" "writer_mtx s = Some t \<or> writer_mtx s = None"
  shows "\<exists>s'. lock_step t s s'"
  using assms by (cases "pc s t") (auto simp: lock_step_iff lock_ok_def ReadLock_step_def WriteLock_step_def)

text \<open>While a writer waits, no reader is added, and only the writer itself ends the wait, when nobody reads.\<close>

lemma waiting_step:
  assumes "lock_step t s s'" "lock_ok T s" "finite T" "card T < 2 ^ 31" "pc s w = Write_Wait"
  shows "counted s' \<subseteq> counted s" "pc s' w \<in> {Write_Wait, Writing}"
    and "t = w \<Longrightarrow> counted s = {} \<Longrightarrow> pc s' w = Writing"
  using assms(1,5) one_owner [OF assms(2), of w t] readers_pos [OF assms(2-4)] assms(2)
  by (cases; auto simp: ReadLock_step_def WriteLock_step_def lock_ok_def in_counted split: lock_pc.splits if_splits)+

section \<open>Runs\<close>

text \<open>An infinite run of the threads \<open>T\<close>; \<open>who i\<close> does the step from state \<open>i\<close>.\<close>

definition lock_run :: "nat set \<Rightarrow> (nat \<Rightarrow> nat) \<Rightarrow> (nat \<Rightarrow> file_locks) \<Rightarrow> bool" where
  "lock_run T who ss \<longleftrightarrow> ss 0 = file_unlocked \<and> (\<forall>i. who i \<in> T \<and> lock_step (who i) (ss i) (ss (Suc i)))"

locale file_lock_run =
  fixes T :: "nat set" and who :: "nat \<Rightarrow> nat" and ss :: "nat \<Rightarrow> file_locks"
  assumes run: "lock_run T who ss"
    and few: "finite T" "card T < 2 ^ 31"
begin

lemma run_step: "lock_step (who i) (ss i) (ss (Suc i))"
  using run by (simp add: lock_run_def)

lemma run_ok: "lock_ok T (ss i)"
proof (induction i)
  case (Suc i)
  then show ?case using lock_step_ok [OF run_step Suc few] run by (simp add: lock_run_def)
qed (use run lock_ok_unlocked in \<open>simp add: lock_run_def\<close>)

lemma writer_alone:
  assumes "pc (ss i) w = Writing"
  shows "pc (ss i) t \<noteq> Reading" "pc (ss i) t = Writing \<longleftrightarrow> t = w"
  using run_ok [of i] assms one_owner [OF run_ok, of i w t] by (auto simp: lock_ok_def counted_def)

lemma waits_on:
  assumes "pc (ss i) w = Write_Wait" "\<And>j. i \<le> j \<Longrightarrow> pc (ss j) w \<noteq> Writing" "i \<le> j" "j \<le> k"
  shows "pc (ss j) w = Write_Wait \<and> counted (ss k) \<subseteq> counted (ss j)"
proof -
  have W: "pc (ss j) w = Write_Wait" if "i \<le> j" for j
    using that by (induction j rule: dec_induct) (use assms(1,2) waiting_step(2) [OF run_step run_ok few] in \<open>fastforce+\<close>)
  have "counted (ss k) \<subseteq> counted (ss j)"
    using assms(4)
  proof (induction k rule: dec_induct)
    case (step k)
    then show ?case using waiting_step(1) [OF run_step run_ok few W [of k]] assms(3) by auto
  qed simp
  then show ?thesis using W assms(3) by simp
qed

lemma readers_leave:
  assumes "pc (ss i) w = Write_Wait" "\<And>j. i \<le> j \<Longrightarrow> pc (ss j) w \<noteq> Writing"
    and "\<And>j t. pc (ss j) t = Reading \<Longrightarrow> \<exists>k \<ge> j. pc (ss k) t \<noteq> Reading"
  shows "\<exists>k \<ge> i. counted (ss k) = {}"
proof -
  have "\<exists>k. i \<le> k \<and> t \<notin> counted (ss k)" for t
  proof (cases "pc (ss i) t = Reading")
    case True
    then obtain k where k: "k \<ge> i" "pc (ss k) t \<noteq> Reading" using assms(3) by blast
    then have "pc (ss k) t \<noteq> Read_Unlock"
      using waits_on [OF assms(1,2) k(1) order.refl] one_owner [OF run_ok, of k w t] by auto
    then show ?thesis using k by (auto simp: in_counted)
  next
    case False
    then have "t \<notin> counted (ss i)" using assms(1) one_owner [OF run_ok, of i w t] by (auto simp: in_counted)
    then show ?thesis by blast
  qed
  then obtain g where g: "\<And>t. i \<le> g t" "\<And>t. t \<notin> counted (ss (g t))" by metis
  define k where "k = Max (insert i (g ` T))"
  have k: "i \<le> k" "\<And>t. t \<in> T \<Longrightarrow> g t \<le> k" using few by (simp_all add: k_def)
  have "t \<notin> counted (ss k)" if "t \<in> T" for t
    using waits_on [OF assms(1,2) g(1) k(2) [OF that]] g(2) by blast
  then have "counted (ss k) = {}" using run_ok [of k] by (auto simp: lock_ok_def)
  then show ?thesis using k(1) by blast
qed

lemma writer_enters:
  assumes "pc (ss i) w = Write_Wait"
    and "\<And>j t. pc (ss j) t = Reading \<Longrightarrow> \<exists>k \<ge> j. pc (ss k) t \<noteq> Reading"
    and "\<And>j. pc (ss j) w = Write_Wait \<Longrightarrow> \<exists>k \<ge> j. who k = w \<or> pc (ss k) w \<noteq> Write_Wait"
  shows "\<exists>j \<ge> i. pc (ss j) w = Writing"
proof (rule ccontr)
  assume "\<not> ?thesis"
  then have N: "\<And>j. i \<le> j \<Longrightarrow> pc (ss j) w \<noteq> Writing" by blast
  obtain k where k: "i \<le> k" "counted (ss k) = {}" using readers_leave [OF assms(1) N assms(2)] by blast
  have W: "pc (ss j) w = Write_Wait \<and> counted (ss j) = {}" if "k \<le> j" for j
    using waits_on [OF assms(1) N _ that] waits_on [OF assms(1) N _ order.refl, of j] k that by auto
  obtain m where m: "m \<ge> k" "who m = w" using assms(3) [of k] W by blast
  then have "pc (ss (Suc m)) w = Writing" using waiting_step(3) [OF run_step run_ok few] W [of m] by blast
  then show False using N [of "Suc m"] k(1) m(1) by simp
qed

end

text \<open>
  C12: A thread that replaces the extents of a file gets its turn. In every run of fewer than \<open>2 ^ 31\<close> threads
  over the locks of a file, a writer that holds \<open>writer_mtx_\<close> and waits for the readers eventually enters,
  and then no thread reads and no other thread writes, provided every reader leaves at some time and the
  waiting writer is scheduled again and again; readers that keep arriving cannot delay it. (For the mutex
  itself the standard promises no order, so nothing is said of threads that wait for it.)
\<close>

theorem WriteLock_entered:
  assumes "lock_run T who ss" "finite T" "card T < 2 ^ 31" "pc (ss i) w = Write_Wait"
    and "\<forall>j t. pc (ss j) t = Reading \<longrightarrow> (\<exists>k \<ge> j. pc (ss k) t \<noteq> Reading)"
    and "\<forall>j. pc (ss j) w = Write_Wait \<longrightarrow> (\<exists>k \<ge> j. who k = w \<or> pc (ss k) w \<noteq> Write_Wait)"
  shows "\<exists>j \<ge> i. pc (ss j) w = Writing \<and> (\<forall>t. pc (ss j) t \<noteq> Reading \<and> (pc (ss j) t = Writing \<longrightarrow> t = w))"
proof -
  have R: "file_lock_run T who ss" using assms(1-3) by unfold_locales
  then obtain j where "j \<ge> i" "pc (ss j) w = Writing"
    using file_lock_run.writer_enters [OF R assms(4)] assms(5,6) by blast
  then show ?thesis using file_lock_run.writer_alone [OF R] by blast
qed

section \<open>A run of a reader and a writer\<close>

text \<open>Thread 1 reads while thread 0 asks for the write lock, waits for one turn and enters.\<close>

definition sample_who :: "nat \<Rightarrow> nat" where
  "sample_who i = (if i \<in> {0, 1, 2, 3, 7} then 1 else 0)"

definition sample_locks :: "nat \<Rightarrow> file_locks" where
  "sample_locks i =
    \<lparr>writer_mtx = (if i \<in> {2, 3} then Some 1 else if 6 \<le> i then Some 0 else None),
     readers = (if i \<in> {3, 4, 5, 6, 7} then 1 else 0),
     pc = (\<lambda>t. if t = 0 then (if i < 5 then Outside else if i = 5 then Write_Lock else if i < 9 then Write_Wait else Writing)
               else if t = 1 \<and> i < 8 then [Outside, Read_Lock, Read_Count, Read_Unlock, Reading, Reading, Reading, Reading] ! i
               else Outside)\<rparr>"

lemma sample_lock_step: "lock_step (sample_who i) (sample_locks i) (sample_locks (Suc i))"
proof (cases "9 \<le> i")
  case True
  then have "sample_who i = 0" "sample_locks (Suc i) = sample_locks i" "pc (sample_locks i) 0 = Writing"
    by (simp_all add: sample_who_def sample_locks_def fun_eq_iff)
  then show ?thesis by (simp add: work)
next
  case False
  then have "i \<in> {0, 1, 2, 3, 4, 5, 6, 7, 8}" by auto
  then show ?thesis
    by (auto simp: lock_step_iff sample_who_def sample_locks_def ReadLock_step_def WriteLock_step_def set_pc_def fun_eq_iff)
qed

lemma sample_lock_run: "lock_run {0, 1} sample_who sample_locks"
  using sample_lock_step by (auto simp: lock_run_def sample_who_def file_unlocked_def sample_locks_def fun_eq_iff)

interpretation sample_locking: file_lock_run "{0, 1}" sample_who sample_locks
  by unfold_locales (rule sample_lock_run, simp_all)

theorem WriteLock_entered_witness: "\<exists>j \<ge> 6. pc (sample_locks j) 0 = Writing \<and> (\<forall>t. pc (sample_locks j) t \<noteq> Reading)"
proof -
  have "\<exists>k \<ge> j. pc (sample_locks k) t \<noteq> Reading" for j t
    by (intro exI [of _ "j + 9"]) (simp add: sample_locks_def)
  moreover have "\<exists>k \<ge> j. sample_who k = 0 \<or> pc (sample_locks k) 0 \<noteq> Write_Wait" for j
    by (intro exI [of _ "j + 9"]) (simp add: sample_who_def)
  moreover have "pc (sample_locks 6) 0 = Write_Wait" by (simp add: sample_locks_def)
  ultimately show ?thesis using WriteLock_entered [OF sample_lock_run, of 6 0] by auto
qed

end
